(* ===== verification/Prelude.thy ===== *)
theory Prelude
  imports Main "HOL-Library.Word" "HOL-Library.Monad_Syntax"
begin

text \<open>
  Shared vocabulary of the development: the machine integers of the Rust sources, the outcome of
  a Rust computation (a value, an error value, or a panic), the arithmetic that panics on overflow,
  and byte buffers with their slice reads and writes.

  A computation that may panic is an \<^typ>\<open>'a option\<close>, \<^const>\<open>None\<close> being the panic (both build
  profiles set \<^verbatim>\<open>panic = "abort"\<close>, so a panic has no other observable effect).  A computation that
  returns a Rust \<^verbatim>\<open>Result\<close> carries a sum inside it.  The \<^verbatim>\<open>?\<close> operator is \<open>bindE\<close>; its second
  argument is the \<^verbatim>\<open>From\<close> conversion of the error.
\<close>

unbundle bit_operations_syntax

section \<open>Types\<close>

type_synonym u8 = "8 word"
type_synonym u16 = "16 word"
type_synonym u32 = "32 word"
type_synonym u64 = "64 word"
type_synonym bytes = "u8 list"
type_synonym 'a exec = "'a option"
type_synonym ('e, 'a) outcome = "('e + 'a) option"

abbreviation Ok :: "'a \<Rightarrow> ('e, 'a) outcome" where
  "Ok x \<equiv> Some (Inr x)"

abbreviation Err :: "'e \<Rightarrow> ('e, 'a) outcome" where
  "Err e \<equiv> Some (Inl e)"

abbreviation (input) panic :: "'a exec" where
  "panic \<equiv> None"

named_theorems exec_simps \<open>evaluation of panicking and failing computations\<close>
named_theorems buf_simps \<open>reads, writes and lengths of byte buffers\<close>
named_theorems checked_simps \<open>checked machine arithmetic inside its range\<close>

section \<open>Outcomes\<close>

definition bindE :: "('e, 'a) outcome \<Rightarrow> ('e \<Rightarrow> 'f) \<Rightarrow> ('a \<Rightarrow> ('f, 'b) outcome) \<Rightarrow> ('f, 'b) outcome" where
  "bindE m conv k = (case m of None \<Rightarrow> None | Some (Inl e) \<Rightarrow> Err (conv e) | Some (Inr x) \<Rightarrow> k x)"

lemma bindE_simps [simp]:
  "bindE (Ok x) conv k = k x"
  "bindE (Err e) conv k = Err (conv e)"
  "bindE None conv k = None"
  by (simp_all add: bindE_def)

lemma bindE_Ok_iff:
  "bindE m conv k = Ok y \<longleftrightarrow> (\<exists>x. m = Ok x \<and> k x = Ok y)"
  by (auto simp: bindE_def split: option.splits sum.splits)

lemma bindE_None_iff:
  "bindE m conv k = None \<longleftrightarrow> m = None \<or> (\<exists>x. m = Ok x \<and> k x = None)"
  by (auto simp: bindE_def split: option.splits sum.splits)

lemma bindE_Err_iff:
  "bindE m conv k = Err e \<longleftrightarrow> (\<exists>e'. m = Err e' \<and> e = conv e') \<or> (\<exists>x. m = Ok x \<and> k x = Err e)"
  by (auto simp: bindE_def split: option.splits sum.splits)

lemma bindE_assoc: "bindE (bindE m conv k) id k' = bindE m conv (\<lambda>x. bindE (k x) id k')"
  by (auto simp: bindE_def split: option.splits sum.splits)

lemma bindE_cong [fundef_cong]:
  assumes "m = m'" and "\<And>x. m' = Ok x \<Longrightarrow> k x = k' x"
  shows "bindE m conv k = bindE m' conv k'"
  using assms by (auto simp: bindE_def split: option.splits sum.splits)

text \<open>A straight-line sequence of in-place updates, stopping at the first panic.\<close>

fun seq_puts :: "('s \<Rightarrow> 's exec) list \<Rightarrow> 's \<Rightarrow> 's exec" where
  "seq_puts [] s = Some s" |
  "seq_puts (p # ps) s = do { s' \<leftarrow> p s; seq_puts ps s' }"

lemma seq_puts_append:
  "seq_puts (ps @ qs) s = do { s' \<leftarrow> seq_puts ps s; seq_puts qs s' }"
  by (induction ps arbitrary: s) (auto split: Option.bind_split)

lemma seq_puts_invariant:
  assumes "seq_puts ps s = Some s'"
    and "P s"
    and "\<And>p t t'. p \<in> set ps \<Longrightarrow> p t = Some t' \<Longrightarrow> P t \<Longrightarrow> P t'"
  shows "P s'"
  using assms
proof (induction ps arbitrary: s)
  case Nil
  then show ?case by simp
next
  case (Cons p ps)
  from Cons.prems(1) obtain t where t: "p s = Some t" "seq_puts ps t = Some s'"
    by (auto simp: Option.bind_eq_Some_conv)
  have "P t" using Cons.prems(3)[of p s t] t(1) Cons.prems(2) by simp
  then show ?case
    using Cons.IH[OF t(2)] Cons.prems(3) by (meson list.set_intros(2))
qed

section \<open>Checked machine arithmetic\<close>

text \<open>
  \<^verbatim>\<open>+\<close>, \<^verbatim>\<open>-\<close> and \<^verbatim>\<open>*\<close> on unsigned integers panic on overflow (the sources are built without
  optimisation flags, so overflow checks are on); \<^verbatim>\<open>saturating_*\<close> clamp; \<^verbatim>\<open><<\<close> and \<^verbatim>\<open>>>\<close> panic
  when the shift amount is not below the width.
\<close>

definition cadd :: "'a::len word \<Rightarrow> 'a word \<Rightarrow> 'a word exec" where
  "cadd a b = (if unat a + unat b < 2 ^ LENGTH('a) then Some (a + b) else None)"

definition csub :: "'a::len word \<Rightarrow> 'a word \<Rightarrow> 'a word exec" where
  "csub a b = (if b \<le> a then Some (a - b) else None)"

definition cmul :: "'a::len word \<Rightarrow> 'a word \<Rightarrow> 'a word exec" where
  "cmul a b = (if unat a * unat b < 2 ^ LENGTH('a) then Some (a * b) else None)"

definition cshl :: "'a::len word \<Rightarrow> nat \<Rightarrow> 'a word exec" where
  "cshl a n = (if n < LENGTH('a) then Some (push_bit n a) else None)"

definition cshr :: "'a::len word \<Rightarrow> nat \<Rightarrow> 'a word exec" where
  "cshr a n = (if n < LENGTH('a) then Some (drop_bit n a) else None)"

definition cdiv :: "'a::len word \<Rightarrow> 'a word \<Rightarrow> 'a word exec" where
  "cdiv a b = (if b = 0 then None else Some (a div b))"

definition sat_add :: "'a::len word \<Rightarrow> 'a word \<Rightarrow> 'a word" where
  "sat_add a b = (if unat a + unat b < 2 ^ LENGTH('a) then a + b else - 1)"

definition sat_sub :: "'a::len word \<Rightarrow> 'a word \<Rightarrow> 'a word" where
  "sat_sub a b = (if b \<le> a then a - b else 0)"

definition sat_mul :: "'a::len word \<Rightarrow> 'a word \<Rightarrow> 'a word" where
  "sat_mul a b = (if unat a * unat b < 2 ^ LENGTH('a) then a * b else - 1)"

definition div_ceil :: "'a::len word \<Rightarrow> 'a word \<Rightarrow> 'a word exec" where
  "div_ceil a b = (if b = 0 then None else Some (a div b + (if a mod b = 0 then 0 else 1)))"

lemma unat_cadd: "cadd a b = Some c \<Longrightarrow> unat c = unat a + unat b"
  by (auto simp: cadd_def unat_word_ariths split: if_splits)

lemma unat_csub: "csub a b = Some c \<Longrightarrow> unat c = unat a - unat b"
  by (auto simp: csub_def unat_sub split: if_splits)

lemma unat_cmul: "cmul a b = Some c \<Longrightarrow> unat c = unat a * unat b"
  by (auto simp: cmul_def unat_word_ariths split: if_splits)

lemma cadd_Some [checked_simps]:
  "unat a + unat b < 2 ^ LENGTH('a) \<Longrightarrow> cadd a b = Some (a + b)" for a b :: "'a::len word"
  by (simp add: cadd_def)

lemma cmul_Some [checked_simps]:
  "unat a * unat b < 2 ^ LENGTH('a) \<Longrightarrow> cmul a b = Some (a * b)" for a b :: "'a::len word"
  by (simp add: cmul_def)

lemma csub_Some [checked_simps]:
  "b \<le> a \<Longrightarrow> csub a b = Some (a - b)" for a b :: "'a::len word"
  by (simp add: csub_def)

lemma cadd_of_nat: "unat a + unat b < 2 ^ LENGTH('a) \<Longrightarrow> cadd a b = Some (of_nat (unat a + unat b))"
  for a b :: "'a::len word"
  by (simp add: cadd_def)

lemma cmul_of_nat: "unat a * unat b < 2 ^ LENGTH('a) \<Longrightarrow> cmul a b = Some (of_nat (unat a * unat b))"
  for a b :: "'a::len word"
  by (simp add: cmul_def)

lemma unat_of_nat_small [simp]: "n < 2 ^ LENGTH('a) \<Longrightarrow> unat (of_nat n :: 'a::len word) = n"
  by (simp add: unat_of_nat)

lemma unat_sat_add: "unat (sat_add a b) = min (unat a + unat b) (2 ^ LENGTH('a) - 1)"
  for a b :: "'a::len word"
  by (auto simp: sat_add_def unat_word_ariths unsigned_minus_1_eq_mask mask_eq_exp_minus_1 min_def)

lemma unat_sat_sub: "unat (sat_sub a b) = unat a - unat b"
  for a b :: "'a::len word"
  by (auto simp: sat_sub_def unat_sub word_le_nat_alt)

lemma unat_sat_mul: "unat (sat_mul a b) = min (unat a * unat b) (2 ^ LENGTH('a) - 1)"
  for a b :: "'a::len word"
proof (cases "unat a * unat b < 2 ^ LENGTH('a)")
  case True
  then have "unat a * unat b \<le> 2 ^ LENGTH('a) - 1" by linarith
  with True show ?thesis by (simp add: sat_mul_def unat_word_ariths)
next
  case False
  then have "2 ^ LENGTH('a) - 1 \<le> unat a * unat b" by linarith
  with False show ?thesis
    by (simp add: sat_mul_def unsigned_minus_1_eq_mask mask_eq_exp_minus_1)
qed

lemma unat_bound: "unat w < 2 ^ LENGTH('a)" for w :: "'a::len word"
  by (rule unsigned_less)

lemma unat_ucast_up [simp]:
  assumes "LENGTH('a) \<le> LENGTH('b)"
  shows "unat (ucast (w :: 'a::len word) :: 'b::len word) = unat w"
proof -
  have "unat w < 2 ^ LENGTH('b)"
    using unat_bound[of w] assms by (meson less_le_trans one_le_numeral power_increasing)
  then show ?thesis by (simp add: unsigned_ucast_eq take_bit_nat_eq_self_iff)
qed

lemma pow2_less_iff: "(2::nat) ^ a < 2 ^ b \<longleftrightarrow> a < b" and pow2_le_iff: "(2::nat) ^ a \<le> 2 ^ b \<longleftrightarrow> a \<le> b"
  by simp_all

lemma unat_less_pow_bit:
  assumes "unat w < 2 ^ n" and "n \<le> k"
  shows "\<not> bit (w :: 'a::len word) k"
proof -
  have "take_bit n (unat w) = unat w" using assms(1) by (simp add: take_bit_nat_eq_self_iff)
  then have "\<not> bit (unat w) k" using assms(2) by (metis bit_take_bit_iff leD)
  then show ?thesis by (auto simp: bit_unsigned_iff dest: bit_imp_le_length)
qed

lemma bit_unat_less_pow: "bit w k \<Longrightarrow> unat w < 2 ^ n \<Longrightarrow> k < n" for w :: "'a::len word"
  by (metis unat_less_pow_bit not_less)

text \<open>The integer logarithm of \<^verbatim>\<open>u64::ilog2\<close>, and the word it returns.\<close>

fun nat_log2 :: "nat \<Rightarrow> nat" where
  "nat_log2 n = (if n < 2 then 0 else Suc (nat_log2 (n div 2)))"

declare nat_log2.simps [simp del]

lemma nat_log2_le: "0 < n \<Longrightarrow> 2 ^ nat_log2 n \<le> n"
proof (induction n rule: nat_log2.induct)
  case (1 n)
  show ?case
  proof (cases "n < 2")
    case False
    then have "2 ^ nat_log2 (n div 2) \<le> n div 2" using 1 by simp
    then have "2 * 2 ^ nat_log2 (n div 2) \<le> n" by linarith
    then show ?thesis using False by (simp add: nat_log2.simps[of n])
  qed (use "1.prems" in \<open>simp add: nat_log2.simps\<close>)
qed

lemma nat_log2_gt: "n < 2 ^ Suc (nat_log2 n)"
proof (induction n rule: nat_log2.induct)
  case (1 n)
  show ?case
  proof (cases "n < 2")
    case False
    then have "n div 2 < 2 ^ Suc (nat_log2 (n div 2))" using 1 by simp
    then have "n < 2 * 2 ^ Suc (nat_log2 (n div 2))" by (simp add: div_less_iff_less_mult)
    then show ?thesis using False by (simp add: nat_log2.simps[of n])
  qed (simp add: nat_log2.simps)
qed

lemma nat_log2_less: "n < 2 ^ k \<Longrightarrow> 0 < n \<Longrightarrow> nat_log2 n < k"
  using nat_log2_le[of n] by (meson le_less_trans power_less_imp_less_exp one_less_numeral_iff semiring_norm(76))

lemma cshr_eq: "n < LENGTH('a) \<Longrightarrow> cshr w n = Some (of_nat (unat w div 2 ^ n))" for w :: "'a::len word"
proof -
  assume n: "n < LENGTH('a)"
  have "unat (drop_bit n w) = unat w div 2 ^ n" by (simp add: unat_drop_bit_eq drop_bit_nat_def)
  moreover have "drop_bit n w = of_nat (unat (drop_bit n w))" by simp
  ultimately have "drop_bit n w = of_nat (unat w div 2 ^ n)" by metis
  then show ?thesis using n by (simp add: cshr_def)
qed

lemma unat_div_pow: "unat w div 2 ^ n < 2 ^ LENGTH('a)" for w :: "'a::len word"
  using unat_bound[of w] by (meson div_le_dividend le_less_trans)

lemma cshl_1: "n < LENGTH('a) \<Longrightarrow> cshl (1 :: 'a::len word) n = Some (2 ^ n)"
  by (simp add: cshl_def)

lemma csub_pow_1: "n < LENGTH('a) \<Longrightarrow> csub (2 ^ n) (1 :: 'a::len word) = Some (mask n)"
proof -
  assume n: "n < LENGTH('a)"
  have "unat (2 ^ n :: 'a word) = 2 ^ n"
    using unat_of_nat_small[of "2 ^ n", where 'a = 'a] n by simp
  then have "(1 :: 'a word) \<le> 2 ^ n" by (simp add: word_le_nat_alt)
  then show ?thesis by (simp add: csub_def mask_eq_exp_minus_1)
qed

lemma and_mask_eq: "w AND mask n = of_nat (unat w mod 2 ^ n)" for w :: "'a::len word"
proof -
  have "unat (take_bit n w) = unat w mod 2 ^ n"
    by (simp add: unsigned_take_bit_eq take_bit_nat_def)
  moreover have "take_bit n w = of_nat (unat (take_bit n w))" by simp
  ultimately show ?thesis by (metis take_bit_eq_mask)
qed

lemma unat_mod_pow: "unat w mod 2 ^ n < 2 ^ LENGTH('a)" for w :: "'a::len word"
  using unat_bound[of w] by (meson mod_less_eq_dividend le_less_trans)

section \<open>Byte buffers\<close>

text \<open>
  \<open>rd b off n\<close> is the slice \<^verbatim>\<open>b[off..off + n]\<close>, \<open>wr b off xs\<close> the buffer after copying \<open>xs\<close> to
  offset \<open>off\<close>.  Both are total; the partial operations of the sources, \<open>get_range\<close> and
  \<open>put_slice\<close>, panic outside the buffer.
\<close>

definition rd :: "'a list \<Rightarrow> nat \<Rightarrow> nat \<Rightarrow> 'a list" where
  "rd b off n = take n (drop off b)"

definition wr :: "'a list \<Rightarrow> nat \<Rightarrow> 'a list \<Rightarrow> 'a list" where
  "wr b off xs = take off b @ take (length b - off) xs @ drop (off + length xs) b"

definition get_range :: "'a list \<Rightarrow> nat \<Rightarrow> nat \<Rightarrow> 'a list exec" where
  "get_range b i j = (if i \<le> j \<and> j \<le> length b then Some (rd b i (j - i)) else None)"

definition get_byte :: "'a list \<Rightarrow> nat \<Rightarrow> 'a exec" where
  "get_byte b i = (if i < length b then Some (b ! i) else None)"

definition put_slice :: "nat \<Rightarrow> 'a list \<Rightarrow> 'a list \<Rightarrow> 'a list exec" where
  "put_slice off xs b = (if off + length xs \<le> length b then Some (wr b off xs) else None)"

definition put_byte :: "nat \<Rightarrow> 'a \<Rightarrow> 'a list \<Rightarrow> 'a list exec" where
  "put_byte off x b = put_slice off [x] b"

lemma length_rd [simp]: "length (rd b off n) = min n (length b - off)"
  by (simp add: rd_def min.commute)

lemma length_wr [simp]: "length (wr b off xs) = length b"
  by (auto simp: wr_def)

lemma nth_rd: "i < n \<Longrightarrow> off + i < length b \<Longrightarrow> rd b off n ! i = b ! (off + i)"
  by (simp add: rd_def)

lemma nth_wr:
  assumes "i < length b"
  shows "wr b off xs ! i = (if off \<le> i \<and> i < off + length xs then xs ! (i - off) else b ! i)"
  using assms by (auto simp: wr_def nth_append min_def)

lemma rd_wr_same [buf_simps]:
  assumes "n = length xs" and "off + length xs \<le> length b"
  shows "rd (wr b off xs) off n = xs"
  using assms by (intro nth_equalityI) (auto simp: nth_rd nth_wr)

lemma rd_wr_other [buf_simps]:
  assumes "off + n \<le> off' \<or> off' + length xs \<le> off"
  shows "rd (wr b off' xs) off n = rd b off n"
  using assms by (intro nth_equalityI) (auto simp: nth_rd nth_wr)

lemma rd_wr_inside:
  assumes "off' \<le> off" and "off + n \<le> off' + length xs" and "off' + length xs \<le> length b"
  shows "rd (wr b off' xs) off n = rd xs (off - off') n"
  using assms by (intro nth_equalityI) (auto simp: nth_rd nth_wr)

lemma rd_rd: "rd (rd b i m) j n = rd b (i + j) (min n (m - j))"
  by (simp add: rd_def drop_take add.commute)

lemma rd_all [simp]: "length b \<le> n \<Longrightarrow> rd b 0 n = b"
  by (simp add: rd_def)

lemma rd_append_left: "off + n \<le> length xs \<Longrightarrow> rd (xs @ ys) off n = rd xs off n"
  by (simp add: rd_def)

lemma rd_append_right: "length xs \<le> off \<Longrightarrow> rd (xs @ ys) off n = rd ys (off - length xs) n"
  by (simp add: rd_def)

lemma rd_split: "rd b off (m + n) = rd b off m @ rd b (off + m) n"
  by (simp add: rd_def take_add add.commute)

lemma wr_wr_same: "length xs = length ys \<Longrightarrow> wr (wr b off xs) off ys = wr b off ys"
  by (intro nth_equalityI) (auto simp: nth_wr)

lemma wr_rd_same: "off + n \<le> length b \<Longrightarrow> wr b off (rd b off n) = b"
  by (intro nth_equalityI) (auto simp: nth_wr nth_rd)

lemma nth_wr_byte [buf_simps]:
  "i \<noteq> off \<Longrightarrow> i < length b \<Longrightarrow> wr b off [x] ! i = b ! i"
  "off < length b \<Longrightarrow> wr b off [x] ! off = x"
  by (auto simp: nth_wr)

lemma nth_wr_other [buf_simps]:
  "i < off \<or> off + length xs \<le> i \<Longrightarrow> i < length b \<Longrightarrow> wr b off xs ! i = b ! i"
  by (auto simp: nth_wr)

lemma get_range_Some [exec_simps]:
  "i \<le> j \<Longrightarrow> j \<le> length b \<Longrightarrow> get_range b i j = Some (rd b i (j - i))"
  by (simp add: get_range_def)

lemma get_byte_Some [exec_simps]: "Suc i \<le> length b \<Longrightarrow> get_byte b i = Some (b ! i)"
  by (simp add: get_byte_def)

lemma put_slice_Some [exec_simps]:
  "off + length xs \<le> length b \<Longrightarrow> put_slice off xs b = Some (wr b off xs)"
  by (simp add: put_slice_def)

lemma put_byte_Some [exec_simps]: "off < length b \<Longrightarrow> put_byte off x b = Some (wr b off [x])"
  by (simp add: put_byte_def put_slice_def)

lemma put_slice_length: "put_slice off xs b = Some b' \<Longrightarrow> length b' = length b"
  by (auto simp: put_slice_def split: if_splits)

end
