(* ===== verification/Crab_Bytes.thy ===== *)
theory Crab_Bytes
  imports Prelude
begin

text \<open>
  The byte-level layer of the file system library: the endian accessors of
  \<^verbatim>\<open>lib/crabfs/endian.rs\<close>, the error types of \<^verbatim>\<open>lib/crabfs/error.rs\<close> and the CRC-32C of
  \<^verbatim>\<open>lib/crabfs/crc.rs\<close>.  The lemmas show that every accessor pair is a round trip, that a buffer
  sealed by \<open>write_xfs_crc\<close> verifies, and that the checksum detects every change of a single byte.
\<close>

section \<open>Errors\<close>

datatype ParseError =
    BufferTooSmall nat nat
  | InvalidMagic u32 u32
  | UnsupportedVersion u32
  | InvalidField string u64
  | CrcMismatch string
  | InvalidInt

datatype DeviceError =
    Io
  | ShortRead nat nat
  | ShortWrite nat nat
  | OutOfRange

datatype ReadError = RDevice DeviceError | RParse ParseError

datatype WriteError = WDevice DeviceError | WParse ParseError | WTryFromInt

section \<open>Endian conversion of whole words\<close>

text \<open>\<^verbatim>\<open>to_le_bytes\<close>, \<^verbatim>\<open>from_le_bytes\<close> and their big-endian twins of the primitive integer types.\<close>

definition to_le_bytes :: "'a::len word \<Rightarrow> bytes" where
  "to_le_bytes w = map (\<lambda>i. ucast (drop_bit (8 * i) w)) [0..<LENGTH('a) div 8]"

fun from_le_bytes :: "bytes \<Rightarrow> 'a::len word" where
  "from_le_bytes [] = 0" |
  "from_le_bytes (x # xs) = ucast x OR push_bit 8 (from_le_bytes xs)"

definition to_be_bytes :: "'a::len word \<Rightarrow> bytes" where
  "to_be_bytes w = rev (to_le_bytes w)"

definition from_be_bytes :: "bytes \<Rightarrow> 'a::len word" where
  "from_be_bytes xs = from_le_bytes (rev xs)"

lemma length_to_le_bytes [simp]:
  "length (to_le_bytes (w :: 'a::len word)) = LENGTH('a) div 8"
  by (simp add: to_le_bytes_def)

lemma length_to_be_bytes [simp]:
  "length (to_be_bytes (w :: 'a::len word)) = LENGTH('a) div 8"
  by (simp add: to_be_bytes_def)

lemma bit_from_le_bytes:
  "bit (from_le_bytes xs :: 'a::len word) k \<longleftrightarrow>
     k < LENGTH('a) \<and> k div 8 < length xs \<and> bit (xs ! (k div 8)) (k mod 8)"
proof (induction xs arbitrary: k)
  case Nil
  then show ?case by simp
next
  case (Cons x xs)
  show ?case
  proof (cases "k < 8")
    case True
    then show ?thesis by (auto simp: bit_or_iff bit_push_bit_iff bit_ucast_iff)
  next
    case False
    then obtain j where j: "k = j + 8" using le_Suc_ex[of 8 k] by (auto simp: add.commute)
    have "\<not> bit x k" using False by (auto simp: not_less dest: bit_imp_le_length)
    moreover have "(j + 8) div 8 = Suc (j div 8)" by simp
    ultimately show ?thesis
      using Cons.IH[of j] j by (auto simp: bit_or_iff bit_push_bit_iff bit_ucast_iff)
  qed
qed

lemma from_le_to_le_bytes [simp]:
  assumes "8 dvd LENGTH('a)"
  shows "from_le_bytes (to_le_bytes w) = (w :: 'a::len word)"
proof (rule bit_word_eqI)
  fix k assume k: "k < LENGTH('a)"
  then have "k div 8 < LENGTH('a) div 8" using assms by (auto elim!: dvdE)
  then show "bit (from_le_bytes (to_le_bytes w) :: 'a word) k = bit w k"
    using k by (simp add: bit_from_le_bytes to_le_bytes_def bit_ucast_iff bit_drop_bit_eq)
qed

lemma from_be_to_be_bytes [simp]:
  "8 dvd LENGTH('a) \<Longrightarrow> from_be_bytes (to_be_bytes w) = (w :: 'a::len word)"
  by (simp add: from_be_bytes_def to_be_bytes_def)

lemma to_le_from_le_bytes:
  assumes "8 dvd LENGTH('a)" and "length xs = LENGTH('a) div 8"
  shows "to_le_bytes (from_le_bytes xs :: 'a::len word) = xs"
proof (rule nth_equalityI)
  fix i assume i: "i < length (to_le_bytes (from_le_bytes xs :: 'a word))"
  show "to_le_bytes (from_le_bytes xs :: 'a word) ! i = xs ! i"
  proof (rule bit_word_eqI)
    fix k assume "k < LENGTH(8)"
    then show "bit (to_le_bytes (from_le_bytes xs :: 'a word) ! i) k = bit (xs ! i) k"
      using i assms by (auto simp: to_le_bytes_def bit_ucast_iff bit_drop_bit_eq bit_from_le_bytes elim!: dvdE)
  qed
qed (use assms in simp)

lemma to_be_from_be_bytes:
  "8 dvd LENGTH('a) \<Longrightarrow> length xs = LENGTH('a) div 8 \<Longrightarrow> to_be_bytes (from_be_bytes xs :: 'a::len word) = xs"
  using to_le_from_le_bytes[of "rev xs", where 'a = 'a] by (simp add: to_be_bytes_def from_be_bytes_def)

section \<open>Accessors\<close>

definition require_len :: "bytes \<Rightarrow> nat \<Rightarrow> (ParseError, unit) outcome" where
  "require_len bytes min_len =
     (if length bytes < min_len then Err (BufferTooSmall min_len (length bytes)) else Ok ())"

definition be_u16 :: "bytes \<Rightarrow> nat \<Rightarrow> u16 exec" where
  "be_u16 bytes off = map_option from_be_bytes (get_range bytes off (off + 2))"

definition put_be16 :: "nat \<Rightarrow> u16 \<Rightarrow> bytes \<Rightarrow> bytes exec" where
  "put_be16 off val = put_slice off (to_be_bytes val)"

definition be_u32 :: "bytes \<Rightarrow> nat \<Rightarrow> u32 exec" where
  "be_u32 bytes off = map_option from_be_bytes (get_range bytes off (off + 4))"

definition put_be32 :: "nat \<Rightarrow> u32 \<Rightarrow> bytes \<Rightarrow> bytes exec" where
  "put_be32 off val = put_slice off (to_be_bytes val)"

definition be_u64 :: "bytes \<Rightarrow> nat \<Rightarrow> u64 exec" where
  "be_u64 bytes off = map_option from_be_bytes (get_range bytes off (off + 8))"

definition put_be64 :: "nat \<Rightarrow> u64 \<Rightarrow> bytes \<Rightarrow> bytes exec" where
  "put_be64 off val = put_slice off (to_be_bytes val)"

definition le_u32 :: "bytes \<Rightarrow> nat \<Rightarrow> u32 exec" where
  "le_u32 bytes off = map_option from_le_bytes (get_range bytes off (off + 4))"

definition put_le32 :: "nat \<Rightarrow> u32 \<Rightarrow> bytes \<Rightarrow> bytes exec" where
  "put_le32 off val = put_slice off (to_le_bytes val)"

text \<open>Inside the buffer no accessor panics.\<close>

lemma be_reads [exec_simps]:
  "off + 2 \<le> length b \<Longrightarrow> be_u16 b off = Some (from_be_bytes (rd b off 2))"
  "off + 4 \<le> length b \<Longrightarrow> be_u32 b off = Some (from_be_bytes (rd b off 4))"
  "off + 8 \<le> length b \<Longrightarrow> be_u64 b off = Some (from_be_bytes (rd b off 8))"
  "off + 4 \<le> length b \<Longrightarrow> le_u32 b off = Some (from_le_bytes (rd b off 4))"
  by (simp_all add: be_u16_def be_u32_def be_u64_def le_u32_def get_range_def)

lemma be_writes [exec_simps]:
  "off + 2 \<le> length b \<Longrightarrow> put_be16 off v b = Some (wr b off (to_be_bytes v))"
  "off + 4 \<le> length b \<Longrightarrow> put_be32 off w b = Some (wr b off (to_be_bytes w))"
  "off + 8 \<le> length b \<Longrightarrow> put_be64 off x b = Some (wr b off (to_be_bytes x))"
  "off + 4 \<le> length b \<Longrightarrow> put_le32 off w b = Some (wr b off (to_le_bytes w))"
  by (simp_all add: put_be16_def put_be32_def put_be64_def put_le32_def put_slice_def)

lemma require_len_Ok [exec_simps]: "n \<le> length b \<Longrightarrow> require_len b n = Ok ()"
  by (simp add: require_len_def)

lemma require_len_Err [exec_simps]:
  "length b < n \<Longrightarrow> require_len b n = Err (BufferTooSmall n (length b))"
  by (simp add: require_len_def)

lemma require_len_not_panic: "require_len b n \<noteq> None"
  by (simp add: require_len_def)

section \<open>CRC-32C\<close>

definition XFS_CRC_SEED :: u32 where
  "XFS_CRC_SEED = NOT 0"

text \<open>One round of the inner \<^verbatim>\<open>while i < 8\<close> loop, the loop, and the loop over the data.\<close>

definition crc_round :: "u32 \<Rightarrow> u32" where
  "crc_round crc = drop_bit 1 crc XOR (0x82f63b78 AND - (crc AND 1))"

definition crc_byte :: "u32 \<Rightarrow> u8 \<Rightarrow> u32" where
  "crc_byte crc byte = (crc_round ^^ 8) (crc XOR ucast byte)"

definition crc32c :: "u32 \<Rightarrow> bytes \<Rightarrow> u32" where
  "crc32c crc data = foldl crc_byte crc data"

definition verify_xfs_crc :: "bytes \<Rightarrow> nat \<Rightarrow> bool exec" where
  "verify_xfs_crc bytes cksum_offset =
     (if length bytes < cksum_offset + 4 then Some False
      else do {
        pre \<leftarrow> get_range bytes 0 cksum_offset;
        let crc = crc32c XFS_CRC_SEED pre;
        let crc = crc32c crc [0, 0, 0, 0];
        post \<leftarrow> get_range bytes (cksum_offset + 4) (length bytes);
        let crc = crc32c crc post;
        let expected = NOT crc;
        actual \<leftarrow> le_u32 bytes cksum_offset;
        Some (expected = actual)
      })"

definition write_xfs_crc :: "nat \<Rightarrow> bytes \<Rightarrow> bytes exec" where
  "write_xfs_crc cksum_offset bytes =
     (if length bytes < cksum_offset + 4 then Some bytes
      else do {
        bytes \<leftarrow> put_le32 cksum_offset 0 bytes;
        pre \<leftarrow> get_range bytes 0 cksum_offset;
        let crc = crc32c XFS_CRC_SEED pre;
        let crc = crc32c crc [0, 0, 0, 0];
        post \<leftarrow> get_range bytes (cksum_offset + 4) (length bytes);
        let crc = crc32c crc post;
        put_le32 cksum_offset (NOT crc) bytes
      })"

text \<open>The checksum both functions compute: the field itself counts as four zero bytes.\<close>

definition crc_input :: "bytes \<Rightarrow> nat \<Rightarrow> bytes" where
  "crc_input b off = rd b 0 off @ [0, 0, 0, 0] @ rd b (off + 4) (length b - (off + 4))"

definition xfs_crc_of :: "bytes \<Rightarrow> nat \<Rightarrow> u32" where
  "xfs_crc_of b off = NOT (crc32c XFS_CRC_SEED (crc_input b off))"

lemma crc32c_append: "crc32c c (xs @ ys) = crc32c (crc32c c xs) ys"
  by (simp add: crc32c_def)

lemma verify_xfs_crc_eq:
  "off + 4 \<le> length b \<Longrightarrow>
     verify_xfs_crc b off = Some (xfs_crc_of b off = from_le_bytes (rd b off 4))"
  by (simp add: verify_xfs_crc_def exec_simps xfs_crc_of_def crc_input_def crc32c_def Let_def)

lemma verify_xfs_crc_not_panic: "verify_xfs_crc b off \<noteq> None"
  by (cases "off + 4 \<le> length b") (simp add: verify_xfs_crc_eq, simp add: verify_xfs_crc_def)

lemma xfs_crc_of_wr_field:
  "length xs = 4 \<Longrightarrow> xfs_crc_of (wr b off xs) off = xfs_crc_of b off"
  by (simp add: xfs_crc_of_def crc_input_def buf_simps)

lemma write_xfs_crc_eq:
  "off + 4 \<le> length b \<Longrightarrow>
     write_xfs_crc off b = Some (wr b off (to_le_bytes (xfs_crc_of b off)))"
  by (simp add: write_xfs_crc_def exec_simps buf_simps Let_def wr_wr_same xfs_crc_of_def crc_input_def crc32c_def)

lemma write_xfs_crc_short: "length b < off + 4 \<Longrightarrow> write_xfs_crc off b = Some b"
  by (simp add: write_xfs_crc_def)

lemma write_xfs_crc_length: "write_xfs_crc off b = Some b' \<Longrightarrow> length b' = length b"
  by (cases "off + 4 \<le> length b") (auto simp: write_xfs_crc_eq write_xfs_crc_short)

lemma write_xfs_crc_not_panic: "write_xfs_crc off b \<noteq> None"
  by (cases "off + 4 \<le> length b") (simp_all add: write_xfs_crc_eq write_xfs_crc_short)

lemma sealed_verifies:
  "off + 4 \<le> length b \<Longrightarrow> verify_xfs_crc (wr b off (to_le_bytes (xfs_crc_of b off))) off = Some True"
  by (simp add: verify_xfs_crc_eq xfs_crc_of_wr_field buf_simps)

subsection \<open>Detection of single-byte corruption\<close>

text \<open>The round is injective: bit 31 of the result tells bit 0 of the argument.\<close>

lemma and_1_bit: "c AND 1 = (if bit c 0 then 1 else 0)" for c :: u32
  by (simp add: and_one_eq odd_iff_mod_2_eq_one bit_0)

lemma xor_left_cancel: "a XOR b = a XOR c \<longleftrightarrow> b = c" for a b c :: "'a::len word"
  by (auto simp: bit_eq_iff bit_xor_iff)

lemma xor_right_cancel: "b XOR a = c XOR a \<longleftrightarrow> b = c" for a b c :: "'a::len word"
  by (auto simp: bit_eq_iff bit_xor_iff)

lemma bit31_crc_round: "bit (crc_round c) 31 \<longleftrightarrow> bit c 0"
proof -
  have "\<not> bit c 32" by (auto dest: bit_imp_le_length)
  then show ?thesis
    using and_1_bit[of c]
    by (simp add: crc_round_def bit_xor_iff bit_and_iff bit_drop_bit_eq bit_numeral_rec)
qed

lemma inj_crc_round: "inj crc_round"
proof (rule injI)
  fix c d assume eq: "crc_round c = crc_round d"
  then have b0: "bit c 0 = bit d 0" by (metis bit31_crc_round)
  then have "c AND 1 = d AND 1" by (simp add: and_1_bit)
  with eq have dr: "drop_bit 1 c = drop_bit 1 d"
    by (simp add: crc_round_def xor_right_cancel)
  show "c = d"
  proof (rule bit_word_eqI)
    fix n assume "n < LENGTH(32)"
    show "bit c n = bit d n"
    proof (cases n)
      case (Suc m)
      have "bit (drop_bit 1 c) m = bit (drop_bit 1 d) m" using dr by simp
      then show ?thesis using Suc by (simp add: bit_drop_bit_eq)
    qed (use b0 in simp)
  qed
qed

lemma inj_crc_rounds: "inj (crc_round ^^ n)"
  by (simp add: inj_crc_round inj_fn)

lemma crc_byte_inj_crc: "crc_byte c x = crc_byte d x \<Longrightarrow> c = d"
  unfolding crc_byte_def by (drule injD[OF inj_crc_rounds]) (simp add: xor_right_cancel)

lemma crc_byte_inj_byte:
  assumes "crc_byte c x = crc_byte c y" shows "x = y"
proof -
  have "c XOR ucast x = c XOR (ucast y :: u32)"
    using assms unfolding crc_byte_def by (rule injD[OF inj_crc_rounds])
  then have eq: "(ucast x :: u32) = ucast y" by (simp add: xor_left_cancel)
  show ?thesis
  proof (rule bit_word_eqI)
    fix n assume "n < LENGTH(8)"
    then show "bit x n = bit y n"
      using arg_cong[OF eq, of "\<lambda>w. bit w n"] by (simp add: bit_ucast_iff)
  qed
qed

lemma crc32c_inj_crc: "crc32c c xs = crc32c d xs \<Longrightarrow> c = d"
  by (induction xs arbitrary: c d) (auto simp: crc32c_def dest: crc_byte_inj_crc)

lemma crc32c_single_byte:
  assumes "i < length xs" and "xs ! i \<noteq> x"
  shows "crc32c c (xs[i := x]) \<noteq> crc32c c xs"
proof
  assume eq: "crc32c c (xs[i := x]) = crc32c c xs"
  have "crc32c c (xs[i := x]) = crc32c (crc_byte (crc32c c (take i xs)) x) (drop (Suc i) xs)"
    using assms(1) by (simp add: upd_conv_take_nth_drop crc32c_def)
  moreover have "crc32c c xs = crc32c (crc_byte (crc32c c (take i xs)) (xs ! i)) (drop (Suc i) xs)"
    using assms(1) by (subst id_take_nth_drop[of i xs]) (simp_all add: crc32c_def)
  ultimately have "crc_byte (crc32c c (take i xs)) x = crc_byte (crc32c c (take i xs)) (xs ! i)"
    using eq crc32c_inj_crc by metis
  then show False using assms(2) crc_byte_inj_byte by metis
qed

lemma nth_crc_input:
  assumes "off + 4 \<le> length b" and "i < length b"
  shows "crc_input b off ! i = (if off \<le> i \<and> i < off + 4 then 0 else b ! i)"
proof -
  consider "i < off" | "off \<le> i" "i < off + 4" | "off + 4 \<le> i" by linarith
  then show ?thesis
  proof cases
    case 2
    then have "i - off \<in> {0, 1, 2, 3}" by auto
    then show ?thesis using 2 assms by (auto simp: crc_input_def nth_append)
  next
    case 3
    then show ?thesis using assms by (simp add: crc_input_def nth_append nth_rd)
  qed (use assms in \<open>simp add: crc_input_def nth_append nth_rd\<close>)
qed

lemma length_crc_input: "off + 4 \<le> length b \<Longrightarrow> length (crc_input b off) = length b"
  by (simp add: crc_input_def)

lemma crc_input_update:
  assumes "off + 4 \<le> length b" and "i < length b"
  shows "crc_input (b[i := x]) off =
           (if off \<le> i \<and> i < off + 4 then crc_input b off else (crc_input b off)[i := x])"
  by (rule nth_equalityI)
     (use assms in \<open>auto simp: length_crc_input nth_crc_input nth_list_update\<close>)

lemma rd_update_other: "i < off \<or> off + n \<le> i \<Longrightarrow> rd (b[i := x]) off n = rd b off n"
  by (rule nth_equalityI) (auto simp: nth_rd nth_list_update)

lemma rd_update_inside:
  assumes "off \<le> i" and "i < off + n" and "off + n \<le> length b" and "rd (b[i := x]) off n = rd b off n"
  shows "b ! i = x"
proof -
  have "rd (b[i := x]) off n ! (i - off) = rd b off n ! (i - off)" using assms(4) by simp
  then show ?thesis using assms(1-3) by (simp add: nth_rd)
qed

lemma from_le_bytes_inj:
  assumes "length xs = 4" and "length ys = 4" and "from_le_bytes xs = (from_le_bytes ys :: u32)"
  shows "xs = ys"
  using arg_cong[OF assms(3), of to_le_bytes] assms(1,2) by (simp add: to_le_from_le_bytes)

section \<open>Properties\<close>

text \<open>
  Property C16.  Sealing a buffer with \<open>write_xfs_crc\<close> makes it verify, keeps its length and changes no
  byte outside the four bytes of the checksum field.
\<close>

theorem write_xfs_crc_verifies:
  assumes "cksum_offset + 4 \<le> length bytes"
  shows "\<exists>sealed. write_xfs_crc cksum_offset bytes = Some sealed \<and> length sealed = length bytes \<and>
           verify_xfs_crc sealed cksum_offset = Some True \<and>
           (\<forall>i < length bytes. i < cksum_offset \<or> cksum_offset + 4 \<le> i \<longrightarrow> sealed ! i = bytes ! i)"
  using assms by (simp add: write_xfs_crc_eq sealed_verifies nth_wr)

theorem write_xfs_crc_verifies_witness:
  "\<exists>sealed. write_xfs_crc 2 [1, 2, 3, 4, 5, 6, 7] = Some sealed \<and>
     verify_xfs_crc sealed 2 = Some True \<and> sealed ! 6 = 7"
  using write_xfs_crc_verifies[of 2 "[1, 2, 3, 4, 5, 6, 7]"] by fastforce

text \<open>
  Property C17.  The checksum detects corruption: if a buffer verifies, no change of a single byte, in
  the data or in the checksum field, leaves it verifying.
\<close>

theorem crc_detects_corrupt_byte:
  assumes "verify_xfs_crc b off = Some True" and "i < length b" and "b ! i \<noteq> x"
  shows "verify_xfs_crc (b[i := x]) off = Some False"
proof -
  have len: "off + 4 \<le> length b"
    using assms(1) by (auto simp: verify_xfs_crc_def split: if_splits)
  then have ok: "NOT (crc32c XFS_CRC_SEED (crc_input b off)) = from_le_bytes (rd b off 4)"
    using assms(1) by (simp add: verify_xfs_crc_eq xfs_crc_of_def)
  have "NOT (crc32c XFS_CRC_SEED (crc_input (b[i := x]) off)) \<noteq> from_le_bytes (rd (b[i := x]) off 4)"
  proof (cases "off \<le> i \<and> i < off + 4")
    case True
    then have "rd (b[i := x]) off 4 \<noteq> rd b off 4"
      using rd_update_inside[of off i 4 b x] len assms(3) by auto
    then have "from_le_bytes (rd (b[i := x]) off 4) \<noteq> (from_le_bytes (rd b off 4) :: u32)"
      using from_le_bytes_inj len by fastforce
    then show ?thesis using True ok len assms(2) by (simp add: crc_input_update)
  next
    case False
    then have "crc32c XFS_CRC_SEED (crc_input (b[i := x]) off) \<noteq> crc32c XFS_CRC_SEED (crc_input b off)"
      using crc32c_single_byte[of i "crc_input b off" x XFS_CRC_SEED] len assms(2,3)
      by (auto simp: crc_input_update length_crc_input nth_crc_input)
    moreover have "rd (b[i := x]) off 4 = rd b off 4"
      using False by (intro rd_update_other) linarith
    ultimately show ?thesis using ok by (metis bit.compl_eq_compl_iff)
  qed
  then show ?thesis using len by (simp add: verify_xfs_crc_eq xfs_crc_of_def)
qed

theorem crc_detects_corrupt_byte_witness:
  "verify_xfs_crc ((wr (replicate 8 0) 4 (to_le_bytes (xfs_crc_of (replicate 8 0) 4)))[1 := 0x55]) 4 =
     Some False"
proof (rule crc_detects_corrupt_byte)
  show "verify_xfs_crc (wr (replicate 8 0) 4 (to_le_bytes (xfs_crc_of (replicate 8 0) 4))) 4 = Some True"
    by (rule sealed_verifies) simp
qed (simp_all add: nth_wr)

end
