(* ===== verification/Crab_Superblock.thy ===== *)
theory Crab_Superblock
  imports Crab_Bytes
begin

text \<open>
  The primary superblock: \<^verbatim>\<open>lib/crabfs/on_disk/superblock.rs\<close> and \<^verbatim>\<open>lib/crabfs/geometry.rs\<close>.
  Field names carry the prefix \<open>sb_\<close> (and \<open>v5_\<close> for \<^verbatim>\<open>V5Fields\<close>).  The lemmas show that parsing
  never panics, that it inverts serialisation except for the checksum field, and that serialisation
  writes nothing else.
\<close>

section \<open>Constants and structures\<close>

definition XFS_SB_MAGIC :: u32 where "XFS_SB_MAGIC = 0x58465342"
definition XFS_SB_VERSION_5 :: u16 where "XFS_SB_VERSION_5 = 5"
definition XFS_SB_FEAT_RO_COMPAT_FINOBT :: u32 where "XFS_SB_FEAT_RO_COMPAT_FINOBT = push_bit 0 1"
definition XFS_SB_FEAT_RO_COMPAT_RMAPBT :: u32 where "XFS_SB_FEAT_RO_COMPAT_RMAPBT = push_bit 1 1"
definition XFS_SB_FEAT_RO_COMPAT_REFLINK :: u32 where "XFS_SB_FEAT_RO_COMPAT_REFLINK = push_bit 2 1"
definition XFS_SB_FEAT_RO_COMPAT_INOBTCNT :: u32 where "XFS_SB_FEAT_RO_COMPAT_INOBTCNT = push_bit 3 1"
definition XFS_SB_FEAT_INCOMPAT_FTYPE :: u32 where "XFS_SB_FEAT_INCOMPAT_FTYPE = push_bit 0 1"
definition XFS_SB_FEAT_INCOMPAT_SPINODES :: u32 where "XFS_SB_FEAT_INCOMPAT_SPINODES = push_bit 1 1"
definition XFS_SB_FEAT_INCOMPAT_META_UUID :: u32 where "XFS_SB_FEAT_INCOMPAT_META_UUID = push_bit 2 1"
definition XFS_SB_FEAT_INCOMPAT_BIGTIME :: u32 where "XFS_SB_FEAT_INCOMPAT_BIGTIME = push_bit 3 1"
definition XFS_SB_FEAT_INCOMPAT_NEEDSREPAIR :: u32 where
  "XFS_SB_FEAT_INCOMPAT_NEEDSREPAIR = push_bit 4 1"
abbreviation (input) XFS_DSB_SIZE :: nat where "XFS_DSB_SIZE \<equiv> 304"
abbreviation (input) XFS_SB_CRC_OFF :: nat where "XFS_SB_CRC_OFF \<equiv> 224"

record V5Fields =
  v5_features_compat :: u32
  v5_features_ro_compat :: u32
  v5_features_incompat :: u32
  v5_features_log_incompat :: u32
  v5_crc :: u32
  v5_sparse_inode_align :: u32
  v5_pquotino :: u64
  v5_lsn :: u64
  v5_meta_uuid :: bytes
  v5_metadirino :: u64
  v5_rgcount :: u32
  v5_rgextents :: u32
  v5_rgblklog :: u8
  v5_rtstart :: u64
  v5_rtreserved :: u64

record Superblock =
  sb_block_size :: u32
  sb_dblocks :: u64
  sb_rblocks :: u64
  sb_rextents :: u64
  sb_uuid :: bytes
  sb_logstart :: u64
  sb_rootino :: u64
  sb_rbmino :: u64
  sb_rsumino :: u64
  sb_rextsize :: u32
  sb_ag_blocks :: u32
  sb_ag_count :: u32
  sb_rbm_blocks :: u32
  sb_log_blocks :: u32
  sb_version :: u16
  sb_sector_size :: u16
  sb_inode_size :: u16
  sb_inode_per_block :: u16
  sb_fname :: bytes
  sb_block_log :: u8
  sb_sect_log :: u8
  sb_inode_log :: u8
  sb_inopblog :: u8
  sb_agblklog :: u8
  sb_rextslog :: u8
  sb_inprogress :: bool
  sb_imax_pct :: u8
  sb_icount :: u64
  sb_ifree :: u64
  sb_fdblocks :: u64
  sb_frextents :: u64
  sb_uquotino :: u64
  sb_gquotino :: u64
  sb_qflags :: u16
  sb_flags :: u8
  sb_shared_vn :: u8
  sb_inoalignmt :: u32
  sb_unit :: u32
  sb_width :: u32
  sb_log_sector_size :: u16
  sb_log_sunit :: u32
  sb_features2 :: u32
  sb_bad_features2 :: u32
  sb_v5 :: "V5Fields option"

section \<open>Parsing\<close>

definition V5Fields_parse :: "bytes \<Rightarrow> V5Fields exec" where
  "V5Fields_parse bytes = do {
     meta_uuid \<leftarrow> get_range bytes 248 264;
     features_compat \<leftarrow> be_u32 bytes 208;
     features_ro_compat \<leftarrow> be_u32 bytes 212;
     features_incompat \<leftarrow> be_u32 bytes 216;
     features_log_incompat \<leftarrow> be_u32 bytes 220;
     crc \<leftarrow> le_u32 bytes 224;
     sparse_inode_align \<leftarrow> be_u32 bytes 228;
     pquotino \<leftarrow> be_u64 bytes 232;
     lsn \<leftarrow> be_u64 bytes 240;
     metadirino \<leftarrow> be_u64 bytes 264;
     rgcount \<leftarrow> be_u32 bytes 272;
     rgextents \<leftarrow> be_u32 bytes 276;
     rgblklog \<leftarrow> get_byte bytes 280;
     rtstart \<leftarrow> be_u64 bytes 288;
     rtreserved \<leftarrow> be_u64 bytes 296;
     Some \<lparr>v5_features_compat = features_compat, v5_features_ro_compat = features_ro_compat,
       v5_features_incompat = features_incompat, v5_features_log_incompat = features_log_incompat,
       v5_crc = crc, v5_sparse_inode_align = sparse_inode_align, v5_pquotino = pquotino,
       v5_lsn = lsn, v5_meta_uuid = meta_uuid, v5_metadirino = metadirino, v5_rgcount = rgcount,
       v5_rgextents = rgextents, v5_rgblklog = rgblklog, v5_rtstart = rtstart,
       v5_rtreserved = rtreserved\<rparr> }"

definition Superblock_fields :: "bytes \<Rightarrow> u32 \<Rightarrow> u16 \<Rightarrow> u16 \<Rightarrow> u16 \<Rightarrow> bytes \<Rightarrow> bytes \<Rightarrow>
    V5Fields option \<Rightarrow> Superblock exec" where
  "Superblock_fields bytes block_size version sector_size inode_size uuid fname v5 = do {
     dblocks \<leftarrow> be_u64 bytes 8;
     rblocks \<leftarrow> be_u64 bytes 16;
     rextents \<leftarrow> be_u64 bytes 24;
     logstart \<leftarrow> be_u64 bytes 48;
     rootino \<leftarrow> be_u64 bytes 56;
     rbmino \<leftarrow> be_u64 bytes 64;
     rsumino \<leftarrow> be_u64 bytes 72;
     rextsize \<leftarrow> be_u32 bytes 80;
     ag_blocks \<leftarrow> be_u32 bytes 84;
     ag_count \<leftarrow> be_u32 bytes 88;
     rbm_blocks \<leftarrow> be_u32 bytes 92;
     log_blocks \<leftarrow> be_u32 bytes 96;
     inode_per_block \<leftarrow> be_u16 bytes 106;
     block_log \<leftarrow> get_byte bytes 120;
     sect_log \<leftarrow> get_byte bytes 121;
     inode_log \<leftarrow> get_byte bytes 122;
     inopblog \<leftarrow> get_byte bytes 123;
     agblklog \<leftarrow> get_byte bytes 124;
     rextslog \<leftarrow> get_byte bytes 125;
     inprogress \<leftarrow> get_byte bytes 126;
     imax_pct \<leftarrow> get_byte bytes 127;
     icount \<leftarrow> be_u64 bytes 128;
     ifree \<leftarrow> be_u64 bytes 136;
     fdblocks \<leftarrow> be_u64 bytes 144;
     frextents \<leftarrow> be_u64 bytes 152;
     uquotino \<leftarrow> be_u64 bytes 160;
     gquotino \<leftarrow> be_u64 bytes 168;
     qflags \<leftarrow> be_u16 bytes 176;
     flags \<leftarrow> get_byte bytes 178;
     shared_vn \<leftarrow> get_byte bytes 179;
     inoalignmt \<leftarrow> be_u32 bytes 180;
     unit \<leftarrow> be_u32 bytes 184;
     width \<leftarrow> be_u32 bytes 188;
     log_sector_size \<leftarrow> be_u16 bytes 194;
     log_sunit \<leftarrow> be_u32 bytes 196;
     features2 \<leftarrow> be_u32 bytes 200;
     bad_features2 \<leftarrow> be_u32 bytes 204;
     Some \<lparr>sb_block_size = block_size, sb_dblocks = dblocks, sb_rblocks = rblocks,
       sb_rextents = rextents, sb_uuid = uuid, sb_logstart = logstart, sb_rootino = rootino,
       sb_rbmino = rbmino, sb_rsumino = rsumino, sb_rextsize = rextsize, sb_ag_blocks = ag_blocks,
       sb_ag_count = ag_count, sb_rbm_blocks = rbm_blocks, sb_log_blocks = log_blocks,
       sb_version = version, sb_sector_size = sector_size, sb_inode_size = inode_size,
       sb_inode_per_block = inode_per_block, sb_fname = fname, sb_block_log = block_log,
       sb_sect_log = sect_log, sb_inode_log = inode_log, sb_inopblog = inopblog,
       sb_agblklog = agblklog, sb_rextslog = rextslog, sb_inprogress = (inprogress \<noteq> 0),
       sb_imax_pct = imax_pct, sb_icount = icount, sb_ifree = ifree, sb_fdblocks = fdblocks,
       sb_frextents = frextents, sb_uquotino = uquotino, sb_gquotino = gquotino,
       sb_qflags = qflags, sb_flags = flags, sb_shared_vn = shared_vn, sb_inoalignmt = inoalignmt,
       sb_unit = unit, sb_width = width, sb_log_sector_size = log_sector_size,
       sb_log_sunit = log_sunit, sb_features2 = features2, sb_bad_features2 = bad_features2,
       sb_v5 = v5\<rparr> }"

definition Superblock_parse :: "bytes \<Rightarrow> (ParseError, Superblock) outcome" where
  "Superblock_parse bytes = bindE (require_len bytes XFS_DSB_SIZE) id (\<lambda>_. do {
     magic \<leftarrow> be_u32 bytes 0;
     if magic \<noteq> XFS_SB_MAGIC then Err (InvalidMagic XFS_SB_MAGIC magic)
     else do {
       uuid \<leftarrow> get_range bytes 32 48;
       fname \<leftarrow> get_range bytes 108 120;
       version \<leftarrow> map_option (\<lambda>v. v AND 0x000f) (be_u16 bytes 100);
       block_size \<leftarrow> be_u32 bytes 4;
       sector_size \<leftarrow> be_u16 bytes 102;
       inode_size \<leftarrow> be_u16 bytes 104;
       if block_size = 0 then Err (InvalidField ''sb_blocksize'' (ucast block_size))
       else if sector_size = 0 then Err (InvalidField ''sb_sectsize'' (ucast sector_size))
       else if inode_size = 0 then Err (InvalidField ''sb_inodesize'' (ucast inode_size))
       else do {
         v5 \<leftarrow> (if version = XFS_SB_VERSION_5 then map_option Some (V5Fields_parse bytes)
                 else Some None);
         map_option Inr
           (Superblock_fields bytes block_size version sector_size inode_size uuid fname v5)
       }
     } })"

definition is_v5 :: "Superblock \<Rightarrow> bool" where
  "is_v5 sb = (sb_version sb = XFS_SB_VERSION_5)"

definition has_incompat_feature :: "Superblock \<Rightarrow> u32 \<Rightarrow> bool" where
  "has_incompat_feature sb feature =
     (case sb_v5 sb of None \<Rightarrow> False | Some v \<Rightarrow> (v5_features_incompat v AND feature) \<noteq> 0)"

definition has_ro_compat_feature :: "Superblock \<Rightarrow> u32 \<Rightarrow> bool" where
  "has_ro_compat_feature sb feature =
     (case sb_v5 sb of None \<Rightarrow> False | Some v \<Rightarrow> (v5_features_ro_compat v AND feature) \<noteq> 0)"

section \<open>Serialisation\<close>

definition V5Fields_puts :: "V5Fields \<Rightarrow> (bytes \<Rightarrow> bytes exec) list" where
  "V5Fields_puts v5 = [
     put_be32 208 (v5_features_compat v5),
     put_be32 212 (v5_features_ro_compat v5),
     put_be32 216 (v5_features_incompat v5),
     put_be32 220 (v5_features_log_incompat v5),
     put_be32 228 (v5_sparse_inode_align v5),
     put_be64 232 (v5_pquotino v5),
     put_be64 240 (v5_lsn v5),
     put_slice 248 (v5_meta_uuid v5),
     put_be64 264 (v5_metadirino v5),
     put_be32 272 (v5_rgcount v5),
     put_be32 276 (v5_rgextents v5),
     put_byte 280 (v5_rgblklog v5),
     put_be64 288 (v5_rtstart v5),
     put_be64 296 (v5_rtreserved v5)]"

definition Superblock_puts :: "Superblock \<Rightarrow> (bytes \<Rightarrow> bytes exec) list" where
  "Superblock_puts sb = [
     put_be32 0 XFS_SB_MAGIC,
     put_be32 4 (sb_block_size sb),
     put_be64 8 (sb_dblocks sb),
     put_be64 16 (sb_rblocks sb),
     put_be64 24 (sb_rextents sb),
     put_slice 32 (sb_uuid sb),
     put_be64 48 (sb_logstart sb),
     put_be64 56 (sb_rootino sb),
     put_be64 64 (sb_rbmino sb),
     put_be64 72 (sb_rsumino sb),
     put_be32 80 (sb_rextsize sb),
     put_be32 84 (sb_ag_blocks sb),
     put_be32 88 (sb_ag_count sb),
     put_be32 92 (sb_rbm_blocks sb),
     put_be32 96 (sb_log_blocks sb),
     put_be16 100 (sb_version sb),
     put_be16 102 (sb_sector_size sb),
     put_be16 104 (sb_inode_size sb),
     put_be16 106 (sb_inode_per_block sb),
     put_slice 108 (sb_fname sb),
     put_byte 120 (sb_block_log sb),
     put_byte 121 (sb_sect_log sb),
     put_byte 122 (sb_inode_log sb),
     put_byte 123 (sb_inopblog sb),
     put_byte 124 (sb_agblklog sb),
     put_byte 125 (sb_rextslog sb),
     put_byte 126 (if sb_inprogress sb then 1 else 0),
     put_byte 127 (sb_imax_pct sb),
     put_be64 128 (sb_icount sb),
     put_be64 136 (sb_ifree sb),
     put_be64 144 (sb_fdblocks sb),
     put_be64 152 (sb_frextents sb),
     put_be64 160 (sb_uquotino sb),
     put_be64 168 (sb_gquotino sb),
     put_be16 176 (sb_qflags sb),
     put_byte 178 (sb_flags sb),
     put_byte 179 (sb_shared_vn sb),
     put_be32 180 (sb_inoalignmt sb),
     put_be32 184 (sb_unit sb),
     put_be32 188 (sb_width sb),
     put_byte 192 0,
     put_byte 193 0,
     put_be16 194 (sb_log_sector_size sb),
     put_be32 196 (sb_log_sunit sb),
     put_be32 200 (sb_features2 sb),
     put_be32 204 (sb_bad_features2 sb)]"

definition Superblock_serialize :: "Superblock \<Rightarrow> bytes \<Rightarrow> (ParseError, bytes) outcome" where
  "Superblock_serialize sb bytes = bindE (require_len bytes XFS_DSB_SIZE) id (\<lambda>_. do {
     bytes \<leftarrow> seq_puts (Superblock_puts sb) bytes;
     bytes \<leftarrow> (case sb_v5 sb of
                 Some v5 \<Rightarrow> seq_puts (V5Fields_puts v5) bytes
               | None \<Rightarrow> Some bytes);
     Ok bytes })"

text \<open>The Rust arrays have fixed lengths; the version is the low nibble the parser keeps.\<close>

definition Superblock_wf :: "Superblock \<Rightarrow> bool" where
  "Superblock_wf sb \<longleftrightarrow>
     length (sb_uuid sb) = 16 \<and> length (sb_fname sb) = 12 \<and>
     sb_version sb AND 0x000f = sb_version sb \<and>
     sb_block_size sb \<noteq> 0 \<and> sb_sector_size sb \<noteq> 0 \<and> sb_inode_size sb \<noteq> 0 \<and>
     (case sb_v5 sb of None \<Rightarrow> \<not> is_v5 sb | Some v \<Rightarrow> is_v5 sb \<and> length (v5_meta_uuid v) = 16)"

definition Superblock_set_crc :: "u32 \<Rightarrow> Superblock \<Rightarrow> Superblock" where
  "Superblock_set_crc c sb = sb\<lparr>sb_v5 := map_option (\<lambda>v. v\<lparr>v5_crc := c\<rparr>) (sb_v5 sb)\<rparr>"

section \<open>Geometry\<close>

record Geometry =
  geo_block_size :: u32
  geo_sector_size :: u16
  geo_ag_blocks :: u32
  geo_ag_count :: u32

definition from_superblock :: "Superblock \<Rightarrow> Geometry" where
  "from_superblock sb = \<lparr>geo_block_size = sb_block_size sb, geo_sector_size = sb_sector_size sb,
     geo_ag_blocks = sb_ag_blocks sb, geo_ag_count = sb_ag_count sb\<rparr>"

definition fsb_to_bytes :: "Geometry \<Rightarrow> u64 \<Rightarrow> u64" where
  "fsb_to_bytes geo fsb = sat_mul fsb (ucast (geo_block_size geo))"

definition bytes_to_fsb :: "Geometry \<Rightarrow> u64 \<Rightarrow> u64 exec" where
  "bytes_to_fsb geo bytes = cdiv bytes (ucast (geo_block_size geo))"

section \<open>Lemmas\<close>

lemmas sb_defs = Superblock_parse_def Superblock_fields_def V5Fields_parse_def

lemma Superblock_parse_not_panic: "Superblock_parse b \<noteq> None"
  by (cases "304 \<le> length b") (simp_all add: sb_defs exec_simps)

lemma Superblock_parse_short:
  "length b < XFS_DSB_SIZE \<Longrightarrow> Superblock_parse b = Err (BufferTooSmall XFS_DSB_SIZE (length b))"
  by (simp add: Superblock_parse_def exec_simps)

lemma Superblock_parse_prefix:
  "XFS_DSB_SIZE \<le> length b \<Longrightarrow> Superblock_parse (rd b 0 XFS_DSB_SIZE) = Superblock_parse b"
  by (simp add: sb_defs exec_simps rd_rd nth_rd)

lemma Superblock_serialize_short:
  "length b < XFS_DSB_SIZE \<Longrightarrow>
     Superblock_serialize sb b = Err (BufferTooSmall XFS_DSB_SIZE (length b))"
  by (simp add: Superblock_serialize_def exec_simps)

lemma Superblock_serialize_spec:
  assumes "Superblock_wf sb" and "XFS_DSB_SIZE \<le> length b"
  shows "\<exists>b'. Superblock_serialize sb b = Ok b' \<and> length b' = length b \<and>
           Superblock_parse b' = Ok (Superblock_set_crc (from_le_bytes (rd b 224 4)) sb) \<and>
           rd b' 224 4 = rd b 224 4 \<and> (\<forall>off n. XFS_DSB_SIZE \<le> off \<longrightarrow> rd b' off n = rd b off n)"
proof (cases "sb_v5 sb")
  case None
  then show ?thesis using assms
    by (simp add: Superblock_serialize_def Superblock_puts_def Superblock_wf_def is_v5_def
        Superblock_set_crc_def Superblock_parse_def Superblock_fields_def exec_simps buf_simps)
next
  case (Some v)
  then show ?thesis using assms
    by (simp add: Superblock_serialize_def Superblock_puts_def V5Fields_puts_def Superblock_wf_def
        is_v5_def Superblock_set_crc_def sb_defs XFS_SB_VERSION_5_def exec_simps buf_simps)
qed

end
