(* ===== verification/Crab_Ag.thy ===== *)
theory Crab_Ag
  imports Crab_Bytes
begin

text \<open>
  The headers of an allocation group: the free-space header (AGF), the inode header (AGI), the free
  list header (AGFL) and the short-form btree block of the inode btrees, from
  \<^verbatim>\<open>lib/crabfs/on_disk/{agf,agi,agfl,inobt}.rs\<close>.  Each structure has its parser, its serialiser and
  one specification lemma: the serialiser succeeds on every buffer that is long enough, the parser
  reads back what was written, and no byte outside the header changes.
\<close>

section \<open>AGF\<close>

definition XFS_AGF_MAGIC :: u32 where "XFS_AGF_MAGIC = 0x58414746"
definition XFS_AGF_VERSION :: u32 where "XFS_AGF_VERSION = 1"
abbreviation (input) XFS_AGF_SIZE :: nat where "XFS_AGF_SIZE \<equiv> 224"
abbreviation (input) XFS_AGF_CRC_OFF :: nat where "XFS_AGF_CRC_OFF \<equiv> 216"

record Agf =
  agf_seqno :: u32
  agf_length :: u32
  agf_bno_root :: u32
  agf_cnt_root :: u32
  agf_rmap_root :: u32
  agf_bno_level :: u32
  agf_cnt_level :: u32
  agf_rmap_level :: u32
  agf_flfirst :: u32
  agf_fllast :: u32
  agf_flcount :: u32
  agf_freeblks :: u32
  agf_longest :: u32
  agf_btreeblks :: u32
  agf_uuid :: bytes
  agf_rmap_blocks :: u32
  agf_refcount_blocks :: u32
  agf_refcount_root :: u32
  agf_refcount_level :: u32
  agf_lsn :: u64
  agf_crc :: u32

definition Agf_parse :: "bytes \<Rightarrow> (ParseError, Agf) outcome" where
  "Agf_parse bytes =
    (if length bytes < XFS_AGF_SIZE then Err (BufferTooSmall XFS_AGF_SIZE (length bytes))
     else do {
       magic \<leftarrow> be_u32 bytes 0;
       if magic \<noteq> XFS_AGF_MAGIC then Err (InvalidMagic XFS_AGF_MAGIC magic)
       else do {
         version \<leftarrow> be_u32 bytes 4;
         if version \<noteq> XFS_AGF_VERSION then Err (UnsupportedVersion version)
         else do {
           uuid \<leftarrow> get_range bytes 64 80;
           seqno \<leftarrow> be_u32 bytes 8;
           len \<leftarrow> be_u32 bytes 12;
           bno_root \<leftarrow> be_u32 bytes 16;
           cnt_root \<leftarrow> be_u32 bytes 20;
           rmap_root \<leftarrow> be_u32 bytes 24;
           bno_level \<leftarrow> be_u32 bytes 28;
           cnt_level \<leftarrow> be_u32 bytes 32;
           rmap_level \<leftarrow> be_u32 bytes 36;
           flfirst \<leftarrow> be_u32 bytes 40;
           fllast \<leftarrow> be_u32 bytes 44;
           flcount \<leftarrow> be_u32 bytes 48;
           freeblks \<leftarrow> be_u32 bytes 52;
           longest \<leftarrow> be_u32 bytes 56;
           btreeblks \<leftarrow> be_u32 bytes 60;
           rmap_blocks \<leftarrow> be_u32 bytes 80;
           refcount_blocks \<leftarrow> be_u32 bytes 84;
           refcount_root \<leftarrow> be_u32 bytes 88;
           refcount_level \<leftarrow> be_u32 bytes 92;
           lsn \<leftarrow> be_u64 bytes 208;
           crc \<leftarrow> be_u32 bytes 216;
           Ok \<lparr>agf_seqno = seqno, agf_length = len, agf_bno_root = bno_root,
             agf_cnt_root = cnt_root, agf_rmap_root = rmap_root, agf_bno_level = bno_level,
             agf_cnt_level = cnt_level, agf_rmap_level = rmap_level, agf_flfirst = flfirst,
             agf_fllast = fllast, agf_flcount = flcount, agf_freeblks = freeblks,
             agf_longest = longest, agf_btreeblks = btreeblks, agf_uuid = uuid,
             agf_rmap_blocks = rmap_blocks, agf_refcount_blocks = refcount_blocks,
             agf_refcount_root = refcount_root, agf_refcount_level = refcount_level,
             agf_lsn = lsn, agf_crc = crc\<rparr>
         }
       }
     })"

definition Agf_serialize :: "Agf \<Rightarrow> bytes \<Rightarrow> (ParseError, bytes) outcome" where
  "Agf_serialize agf bytes = bindE (require_len bytes XFS_AGF_SIZE) id (\<lambda>_. map_option Inr (seq_puts [
     put_be32 0 XFS_AGF_MAGIC,
     put_be32 4 XFS_AGF_VERSION,
     put_be32 8 (agf_seqno agf),
     put_be32 12 (agf_length agf),
     put_be32 16 (agf_bno_root agf),
     put_be32 20 (agf_cnt_root agf),
     put_be32 24 (agf_rmap_root agf),
     put_be32 28 (agf_bno_level agf),
     put_be32 32 (agf_cnt_level agf),
     put_be32 36 (agf_rmap_level agf),
     put_be32 40 (agf_flfirst agf),
     put_be32 44 (agf_fllast agf),
     put_be32 48 (agf_flcount agf),
     put_be32 52 (agf_freeblks agf),
     put_be32 56 (agf_longest agf),
     put_be32 60 (agf_btreeblks agf),
     put_slice 64 (agf_uuid agf),
     put_be32 80 (agf_rmap_blocks agf),
     put_be32 84 (agf_refcount_blocks agf),
     put_be32 88 (agf_refcount_root agf),
     put_be32 92 (agf_refcount_level agf),
     put_slice 96 (replicate 112 0),
     put_be64 208 (agf_lsn agf)] bytes))"

section \<open>AGI\<close>

definition XFS_AGI_MAGIC :: u32 where "XFS_AGI_MAGIC = 0x58414749"
definition XFS_AGI_VERSION :: u32 where "XFS_AGI_VERSION = 1"
abbreviation (input) XFS_AGI_UNLINKED_BUCKETS :: nat where "XFS_AGI_UNLINKED_BUCKETS \<equiv> 64"
abbreviation (input) XFS_AGI_SIZE :: nat where "XFS_AGI_SIZE \<equiv> 344"
abbreviation (input) XFS_AGI_CRC_OFF :: nat where "XFS_AGI_CRC_OFF \<equiv> 312"

record Agi =
  agi_seqno :: u32
  agi_length :: u32
  agi_count :: u32
  agi_root :: u32
  agi_level :: u32
  agi_freecount :: u32
  agi_newino :: u32
  agi_dirino :: u32
  agi_unlinked :: "u32 list"
  agi_uuid :: bytes
  agi_crc :: u32
  agi_lsn :: u64
  agi_free_root :: u32
  agi_free_level :: u32
  agi_iblocks :: u32
  agi_fblocks :: u32

text \<open>The \<^verbatim>\<open>while\<close> loop over the unlinked buckets, reading \<open>n\<close> big-endian words from \<open>off\<close> on.\<close>

fun be_u32s :: "bytes \<Rightarrow> nat \<Rightarrow> nat \<Rightarrow> u32 list exec" where
  "be_u32s bytes off 0 = Some []" |
  "be_u32s bytes off (Suc n) = do {
     x \<leftarrow> be_u32 bytes off;
     xs \<leftarrow> be_u32s bytes (off + 4) n;
     Some (x # xs) }"

text \<open>The \<^verbatim>\<open>for\<close> loop that writes them back.\<close>

fun put_be32s :: "nat \<Rightarrow> u32 list \<Rightarrow> bytes \<Rightarrow> bytes exec" where
  "put_be32s off [] bytes = Some bytes" |
  "put_be32s off (val # vals) bytes = do {
     bytes \<leftarrow> put_be32 off val bytes;
     put_be32s (off + 4) vals bytes }"

definition Agi_parse :: "bytes \<Rightarrow> (ParseError, Agi) outcome" where
  "Agi_parse bytes =
    (if length bytes < XFS_AGI_SIZE then Err (BufferTooSmall XFS_AGI_SIZE (length bytes))
     else do {
       magic \<leftarrow> be_u32 bytes 0;
       if magic \<noteq> XFS_AGI_MAGIC then Err (InvalidMagic XFS_AGI_MAGIC magic)
       else do {
         version \<leftarrow> be_u32 bytes 4;
         if version \<noteq> XFS_AGI_VERSION then Err (UnsupportedVersion version)
         else do {
           unlinked \<leftarrow> be_u32s bytes 40 XFS_AGI_UNLINKED_BUCKETS;
           uuid \<leftarrow> get_range bytes 296 312;
           seqno \<leftarrow> be_u32 bytes 8;
           len \<leftarrow> be_u32 bytes 12;
           count \<leftarrow> be_u32 bytes 16;
           root \<leftarrow> be_u32 bytes 20;
           level \<leftarrow> be_u32 bytes 24;
           freecount \<leftarrow> be_u32 bytes 28;
           newino \<leftarrow> be_u32 bytes 32;
           dirino \<leftarrow> be_u32 bytes 36;
           crc \<leftarrow> be_u32 bytes 312;
           lsn \<leftarrow> be_u64 bytes 320;
           free_root \<leftarrow> be_u32 bytes 328;
           free_level \<leftarrow> be_u32 bytes 332;
           iblocks \<leftarrow> be_u32 bytes 336;
           fblocks \<leftarrow> be_u32 bytes 340;
           Ok \<lparr>agi_seqno = seqno, agi_length = len, agi_count = count, agi_root = root,
             agi_level = level, agi_freecount = freecount, agi_newino = newino,
             agi_dirino = dirino, agi_unlinked = unlinked, agi_uuid = uuid, agi_crc = crc,
             agi_lsn = lsn, agi_free_root = free_root, agi_free_level = free_level,
             agi_iblocks = iblocks, agi_fblocks = fblocks\<rparr>
         }
       }
     })"

definition Agi_serialize :: "Agi \<Rightarrow> bytes \<Rightarrow> (ParseError, bytes) outcome" where
  "Agi_serialize agi bytes = bindE (require_len bytes XFS_AGI_SIZE) id (\<lambda>_. map_option Inr (seq_puts [
     put_be32 0 XFS_AGI_MAGIC,
     put_be32 4 XFS_AGI_VERSION,
     put_be32 8 (agi_seqno agi),
     put_be32 12 (agi_length agi),
     put_be32 16 (agi_count agi),
     put_be32 20 (agi_root agi),
     put_be32 24 (agi_level agi),
     put_be32 28 (agi_freecount agi),
     put_be32 32 (agi_newino agi),
     put_be32 36 (agi_dirino agi),
     put_be32s 40 (agi_unlinked agi),
     put_slice 296 (agi_uuid agi),
     put_be64 320 (agi_lsn agi),
     put_be32 328 (agi_free_root agi),
     put_be32 332 (agi_free_level agi),
     put_be32 336 (agi_iblocks agi),
     put_be32 340 (agi_fblocks agi)] bytes))"

section \<open>AGFL\<close>

definition XFS_AGFL_MAGIC :: u32 where "XFS_AGFL_MAGIC = 0x5841464c"
abbreviation (input) XFS_AGFL_HEADER_SIZE :: nat where "XFS_AGFL_HEADER_SIZE \<equiv> 36"
abbreviation (input) XFS_AGFL_CRC_OFF :: nat where "XFS_AGFL_CRC_OFF \<equiv> 32"

record Agfl =
  agfl_magicnum :: u32
  agfl_seqno :: u32
  agfl_uuid :: bytes
  agfl_lsn :: u64
  agfl_crc :: u32
  agfl_entries_total :: u32

definition Agfl_parse :: "bytes \<Rightarrow> u16 \<Rightarrow> bool \<Rightarrow> (ParseError, Agfl) outcome" where
  "Agfl_parse bytes sector_size crc_enabled =
    (let sector_size = unat sector_size in
     if length bytes < sector_size then Err (BufferTooSmall sector_size (length bytes))
     else if length bytes < XFS_AGFL_HEADER_SIZE
     then Err (BufferTooSmall XFS_AGFL_HEADER_SIZE (length bytes))
     else do {
       magic \<leftarrow> be_u32 bytes 0;
       if magic \<noteq> XFS_AGFL_MAGIC then Err (InvalidMagic XFS_AGFL_MAGIC magic)
       else do {
         let entries_bytes = (if crc_enabled then sector_size - XFS_AGFL_HEADER_SIZE
                              else sector_size);
         if 2 ^ 32 \<le> entries_bytes div 4 then Err InvalidInt
         else do {
           uuid \<leftarrow> get_range bytes 8 24;
           seqno \<leftarrow> be_u32 bytes 4;
           lsn \<leftarrow> be_u64 bytes 24;
           crc \<leftarrow> be_u32 bytes 32;
           Ok \<lparr>agfl_magicnum = magic, agfl_seqno = seqno, agfl_uuid = uuid, agfl_lsn = lsn,
             agfl_crc = crc, agfl_entries_total = of_nat (entries_bytes div 4)\<rparr>
         }
       }
     })"

definition Agfl_serialize :: "Agfl \<Rightarrow> bytes \<Rightarrow> bool \<Rightarrow> (ParseError, bytes) outcome" where
  "Agfl_serialize agfl bytes crc_enabled =
    (if crc_enabled
     then bindE (require_len bytes XFS_AGFL_HEADER_SIZE) id (\<lambda>_. map_option Inr (seq_puts [
       put_be32 0 XFS_AGFL_MAGIC,
       put_be32 4 (agfl_seqno agfl),
       put_slice 8 (agfl_uuid agfl),
       put_be64 24 (agfl_lsn agfl)] bytes))
     else Ok bytes)"

section \<open>Inode btree roots\<close>

definition XFS_IBT_MAGIC :: u32 where "XFS_IBT_MAGIC = 0x49414254"
definition XFS_IBT_CRC_MAGIC :: u32 where "XFS_IBT_CRC_MAGIC = 0x49414233"
definition XFS_FIBT_MAGIC :: u32 where "XFS_FIBT_MAGIC = 0x46494254"
definition XFS_FIBT_CRC_MAGIC :: u32 where "XFS_FIBT_CRC_MAGIC = 0x46494233"
abbreviation (input) XFS_BTREE_SBLOCK_CRC_OFF :: nat where "XFS_BTREE_SBLOCK_CRC_OFF \<equiv> 52"
abbreviation (input) XFS_BTREE_SBLOCK_CRC_LEN :: nat where "XFS_BTREE_SBLOCK_CRC_LEN \<equiv> 56"

datatype InodeBtreeKind = Inobt | Finobt

record InodeBtreeRoot =
  ibt_kind :: InodeBtreeKind
  ibt_magic :: u32
  ibt_level :: u16
  ibt_numrecs :: u16
  ibt_leftsib :: u32
  ibt_rightsib :: u32
  ibt_blkno :: u64
  ibt_lsn :: u64
  ibt_uuid :: bytes
  ibt_owner :: u32
  ibt_crc :: u32

definition ibt_expected_magic :: "InodeBtreeKind \<Rightarrow> u32" where
  "ibt_expected_magic kind = (case kind of Inobt \<Rightarrow> XFS_IBT_CRC_MAGIC | Finobt \<Rightarrow> XFS_FIBT_CRC_MAGIC)"

definition InodeBtreeRoot_parse ::
  "bytes \<Rightarrow> InodeBtreeKind \<Rightarrow> bool \<Rightarrow> (ParseError, InodeBtreeRoot) outcome" where
  "InodeBtreeRoot_parse bytes kind crc_enabled =
    (if \<not> crc_enabled then Err (UnsupportedVersion 4)
     else if length bytes < XFS_BTREE_SBLOCK_CRC_LEN
     then Err (BufferTooSmall XFS_BTREE_SBLOCK_CRC_LEN (length bytes))
     else do {
       magic \<leftarrow> be_u32 bytes 0;
       let expected = ibt_expected_magic kind;
       if magic \<noteq> expected then Err (InvalidMagic expected magic)
       else do {
         uuid \<leftarrow> get_range bytes 32 48;
         level \<leftarrow> be_u16 bytes 4;
         numrecs \<leftarrow> be_u16 bytes 6;
         leftsib \<leftarrow> be_u32 bytes 8;
         rightsib \<leftarrow> be_u32 bytes 12;
         blkno \<leftarrow> be_u64 bytes 16;
         lsn \<leftarrow> be_u64 bytes 24;
         owner \<leftarrow> be_u32 bytes 48;
         crc \<leftarrow> le_u32 bytes 52;
         Ok \<lparr>ibt_kind = kind, ibt_magic = magic, ibt_level = level, ibt_numrecs = numrecs,
           ibt_leftsib = leftsib, ibt_rightsib = rightsib, ibt_blkno = blkno, ibt_lsn = lsn,
           ibt_uuid = uuid, ibt_owner = owner, ibt_crc = crc\<rparr>
       }
     })"

definition InodeBtreeRoot_serialize :: "InodeBtreeRoot \<Rightarrow> bytes \<Rightarrow> (ParseError, bytes) outcome" where
  "InodeBtreeRoot_serialize root bytes =
     bindE (require_len bytes XFS_BTREE_SBLOCK_CRC_LEN) id (\<lambda>_. map_option Inr (seq_puts [
     put_be32 0 (ibt_magic root),
     put_be16 4 (ibt_level root),
     put_be16 6 (ibt_numrecs root),
     put_be32 8 (ibt_leftsib root),
     put_be32 12 (ibt_rightsib root),
     put_be64 16 (ibt_blkno root),
     put_be64 24 (ibt_lsn root),
     put_slice 32 (ibt_uuid root),
     put_be32 48 (ibt_owner root)] bytes))"

section \<open>Lemmas\<close>

definition words_of :: "bytes \<Rightarrow> nat \<Rightarrow> u32 list" where
  "words_of xs n = map (\<lambda>i. from_be_bytes (rd xs (4 * i) 4)) [0..<n]"

lemma be_u32s_map:
  "off + 4 * n \<le> length b \<Longrightarrow>
     be_u32s b off n = Some (map (\<lambda>i. from_be_bytes (rd b (off + 4 * i) 4)) [0..<n])"
  by (induction n arbitrary: off)
     (auto simp: exec_simps map_upt_Suc add.assoc simp del: upt_Suc)

lemma be_u32s_Some [exec_simps]:
  "off + 4 * n \<le> length b \<Longrightarrow> be_u32s b off n = Some (words_of (rd b off (4 * n)) n)"
  by (simp add: be_u32s_map words_of_def rd_rd)

lemma put_be32s_Some [exec_simps]:
  "off + 4 * length vs \<le> length b \<Longrightarrow>
     put_be32s off vs b = Some (wr b off (concat (map to_be_bytes vs)))"
proof (induction vs arbitrary: off b)
  case Nil
  then show ?case by (simp add: wr_def)
next
  case (Cons v vs)
  have "wr (wr b off (to_be_bytes v)) (off + 4) (concat (map to_be_bytes vs)) =
        wr b off (to_be_bytes v @ concat (map to_be_bytes vs))"
    by (rule nth_equalityI) (use Cons.prems in \<open>auto simp: nth_wr nth_append length_concat\<close>)
  then show ?case using Cons by (simp add: exec_simps)
qed

lemma length_concat_be_bytes [simp]:
  "length (concat (map to_be_bytes (vs :: u32 list))) = 4 * length vs"
  by (induction vs) simp_all

lemma rd_concat_be_bytes:
  "i < length vs \<Longrightarrow> rd (concat (map to_be_bytes (vs :: u32 list))) (4 * i) 4 = to_be_bytes (vs ! i)"
proof (induction vs arbitrary: i)
  case (Cons v vs)
  then show ?case
    by (cases i) (simp_all add: rd_append_left rd_append_right)
qed simp

lemma words_of_concat [simp]:
  "n = length vs \<Longrightarrow> words_of (concat (map to_be_bytes vs)) n = vs"
  by (intro nth_equalityI) (simp_all add: words_of_def rd_concat_be_bytes)

lemma Agf_parse_not_panic: "Agf_parse b \<noteq> None"
  by (cases "224 \<le> length b") (simp_all add: Agf_parse_def exec_simps)

lemma Agi_parse_not_panic: "Agi_parse b \<noteq> None"
  by (cases "344 \<le> length b") (simp_all add: Agi_parse_def exec_simps)

lemma Agfl_parse_not_panic: "Agfl_parse b ss c \<noteq> None"
  by (cases "36 \<le> length b") (simp_all add: Agfl_parse_def exec_simps Let_def)

lemma InodeBtreeRoot_parse_not_panic: "InodeBtreeRoot_parse b k c \<noteq> None"
  by (cases "56 \<le> length b") (simp_all add: InodeBtreeRoot_parse_def exec_simps Let_def)

lemma Agf_serialize_spec:
  assumes "length (agf_uuid agf) = 16" and "XFS_AGF_SIZE \<le> length b"
  shows "\<exists>b'. Agf_serialize agf b = Ok b' \<and> length b' = length b \<and>
           Agf_parse b' = Ok (agf\<lparr>agf_crc := from_be_bytes (rd b 216 4)\<rparr>) \<and>
           (\<forall>off n. 216 \<le> off \<longrightarrow> rd b' off n = rd b off n)"
  using assms
  by (simp add: Agf_serialize_def Agf_parse_def XFS_AGF_VERSION_def exec_simps buf_simps)

lemma Agi_serialize_spec:
  assumes "length (agi_uuid agi) = 16" and "length (agi_unlinked agi) = 64"
    and "XFS_AGI_SIZE \<le> length b"
  shows "\<exists>b'. Agi_serialize agi b = Ok b' \<and> length b' = length b \<and>
           Agi_parse b' = Ok (agi\<lparr>agi_crc := from_be_bytes (rd b 312 4)\<rparr>) \<and>
           rd b' 312 4 = rd b 312 4 \<and> (\<forall>off n. XFS_AGI_SIZE \<le> off \<longrightarrow> rd b' off n = rd b off n)"
  using assms
  by (simp add: Agi_serialize_def Agi_parse_def XFS_AGI_VERSION_def exec_simps buf_simps)

lemma Agfl_serialize_spec:
  assumes "length (agfl_uuid agfl) = 16" and "XFS_AGFL_HEADER_SIZE \<le> length b"
    and "unat ss \<le> length b"
  shows "\<exists>b'. Agfl_serialize agfl b True = Ok b' \<and> length b' = length b \<and>
           Agfl_parse b' ss True =
             Ok (agfl\<lparr>agfl_magicnum := XFS_AGFL_MAGIC,
                   agfl_entries_total := of_nat ((unat ss - 36) div 4),
                   agfl_crc := from_be_bytes (rd b 32 4)\<rparr>) \<and>
           (\<forall>off n. 32 \<le> off \<longrightarrow> rd b' off n = rd b off n)"
proof -
  have "unat ss < 2 ^ 16" using unsigned_less[of ss] by simp
  then show ?thesis using assms
    by (simp add: Agfl_serialize_def Agfl_parse_def Let_def exec_simps buf_simps)
qed

lemma InodeBtreeRoot_serialize_spec:
  assumes "length (ibt_uuid root) = 16" and "XFS_BTREE_SBLOCK_CRC_LEN \<le> length b"
  shows "\<exists>b'. InodeBtreeRoot_serialize root b = Ok b' \<and> length b' = length b \<and>
           (\<forall>kind. ibt_magic root = ibt_expected_magic kind \<longrightarrow>
              InodeBtreeRoot_parse b' kind True =
                Ok (root\<lparr>ibt_kind := kind, ibt_crc := from_le_bytes (rd b 52 4)\<rparr>)) \<and>
           (\<forall>off n. 52 \<le> off \<longrightarrow> rd b' off n = rd b off n)"
  using assms
  by (simp add: InodeBtreeRoot_serialize_def InodeBtreeRoot_parse_def Let_def exec_simps buf_simps)

end
