(* ===== verification/Rust_Str.thy ===== *)
theory Rust_Str
  imports Prelude
begin

text \<open>
  What the sources use of Rust strings.  A \<^verbatim>\<open>str\<close> or \<^verbatim>\<open>String\<close> is the list of its UTF-8 bytes.
  \<open>from_utf8_lossy\<close> follows the standard library: every maximal ill-formed sequence becomes the
  three bytes of U+FFFD; \<open>utf8_valid\<close> is the check of \<^verbatim>\<open>core::str::from_utf8\<close>.
\<close>

definition is_cont :: "u8 \<Rightarrow> bool" where
  "is_cont b \<longleftrightarrow> 0x80 \<le> b \<and> b \<le> 0xbf"

definition utf8_width :: "u8 \<Rightarrow> nat" where
  "utf8_width b =
     (if b \<le> 0x7f then 1 else if 0xc2 \<le> b \<and> b \<le> 0xdf then 2
      else if 0xe0 \<le> b \<and> b \<le> 0xef then 3 else if 0xf0 \<le> b \<and> b \<le> 0xf4 then 4 else 0)"

definition second3 :: "u8 \<Rightarrow> u8 \<Rightarrow> bool" where
  "second3 b c \<longleftrightarrow>
     (b = 0xe0 \<and> 0xa0 \<le> c \<and> c \<le> 0xbf) \<or> (0xe1 \<le> b \<and> b \<le> 0xec \<and> is_cont c) \<or>
     (b = 0xed \<and> 0x80 \<le> c \<and> c \<le> 0x9f) \<or> (0xee \<le> b \<and> b \<le> 0xef \<and> is_cont c)"

definition second4 :: "u8 \<Rightarrow> u8 \<Rightarrow> bool" where
  "second4 b c \<longleftrightarrow>
     (b = 0xf0 \<and> 0x90 \<le> c \<and> c \<le> 0xbf) \<or> (0xf1 \<le> b \<and> b \<le> 0xf3 \<and> is_cont c) \<or>
     (b = 0xf4 \<and> 0x80 \<le> c \<and> c \<le> 0x8f)"

text \<open>
  The next chunk of a byte string: how many bytes it takes and whether they are one well-formed
  character.  A missing byte reads as 0, which is never a continuation byte.
\<close>

definition safe_get :: "bytes \<Rightarrow> nat \<Rightarrow> u8" where
  "safe_get xs i = (if i < length xs then xs ! i else 0)"

definition utf8_chunk :: "bytes \<Rightarrow> nat \<times> bool" where
  "utf8_chunk xs =
    (let b = safe_get xs 0; c = safe_get xs 1; d = safe_get xs 2; e = safe_get xs 3 in
     if utf8_width b = 1 then (1, True)
     else if utf8_width b = 2 then (if is_cont c then (2, True) else (1, False))
     else if utf8_width b = 3 then
       (if \<not> second3 b c then (1, False) else if \<not> is_cont d then (2, False) else (3, True))
     else if utf8_width b = 4 then
       (if \<not> second4 b c then (1, False) else if \<not> is_cont d then (2, False)
        else if \<not> is_cont e then (3, False) else (4, True))
     else (1, False))"

lemma utf8_chunk_pos: "0 < fst (utf8_chunk xs)"
  by (simp add: utf8_chunk_def Let_def)

lemma utf8_chunk_advances: "(n, ok) = utf8_chunk xs \<Longrightarrow> 0 < n"
  by (metis fst_conv utf8_chunk_pos)

definition utf8_replacement :: bytes where
  "utf8_replacement = [0xef, 0xbf, 0xbd]"

function from_utf8_lossy :: "bytes \<Rightarrow> bytes" where
  "from_utf8_lossy xs =
    (if xs = [] then []
     else (case utf8_chunk xs of (n, ok) \<Rightarrow>
       (if ok then take n xs else utf8_replacement) @ from_utf8_lossy (drop n xs)))"
  by pat_completeness auto
termination
  by (relation "measure length") (auto dest: utf8_chunk_advances)

function utf8_valid :: "bytes \<Rightarrow> bool" where
  "utf8_valid xs =
    (if xs = [] then True
     else (case utf8_chunk xs of (n, ok) \<Rightarrow> ok \<and> utf8_valid (drop n xs)))"
  by pat_completeness auto
termination
  by (relation "measure length") (auto dest: utf8_chunk_advances)

declare from_utf8_lossy.simps [simp del] utf8_valid.simps [simp del]

lemma from_utf8_lossy_Nil [simp]: "from_utf8_lossy [] = []"
  by (simp add: from_utf8_lossy.simps)

lemma utf8_valid_Nil [simp]: "utf8_valid []"
  by (simp add: utf8_valid.simps)

lemma from_utf8_lossy_valid [simp]: "utf8_valid xs \<Longrightarrow> from_utf8_lossy xs = xs"
proof (induction xs rule: utf8_valid.induct)
  case (1 xs)
  show ?case
  proof (cases "xs = []")
    case False
    obtain n ok where c: "utf8_chunk xs = (n, ok)" by (cases "utf8_chunk xs") auto
    have "ok" and "utf8_valid (drop n xs)"
      using "1.prems" False c by (simp_all add: utf8_valid.simps[of xs])
    then have "from_utf8_lossy (drop n xs) = drop n xs" using "1.IH"[OF False c[symmetric]] by simp
    then show ?thesis using False c \<open>ok\<close> by (simp add: from_utf8_lossy.simps[of xs])
  qed simp
qed

lemma ascii_utf8_valid: "\<forall>b\<in>set xs. b \<le> 0x7f \<Longrightarrow> utf8_valid xs"
proof (induction xs)
  case (Cons b xs)
  then show ?case
    by (simp add: utf8_valid.simps[of "b # xs"] utf8_chunk_def Let_def safe_get_def utf8_width_def)
qed simp

text \<open>What \<^verbatim>\<open>from_utf8_lossy\<close> returns is valid.\<close>

lemma utf8_chunk_take:
  assumes "utf8_chunk xs = (n, True)" "xs \<noteq> []"
  shows "utf8_chunk (take n xs @ ys) = (n, True)" "length (take n xs) = n"
proof -
  have cont: "Suc i \<le> length xs" if "is_cont (safe_get xs i)" for i
    using that by (auto simp: safe_get_def is_cont_def split: if_splits)
  have s3: "Suc i \<le> length xs" if "second3 b (safe_get xs i)" for b i
    using that by (auto simp: safe_get_def is_cont_def second3_def split: if_splits)
  have s4: "Suc i \<le> length xs" if "second4 b (safe_get xs i)" for b i
    using that by (auto simp: safe_get_def is_cont_def second4_def split: if_splits)
  have n: "n \<in> {1,2,3,4}" using assms(1) by (auto simp: utf8_chunk_def Let_def split: if_splits)
  have l: "n \<le> length xs"
    using assms cont[of 1] cont[of 2] cont[of 3] s3[of _ 1] s4[of _ 1]
    by (auto simp: utf8_chunk_def Let_def neq_Nil_conv numeral_2_eq_2 numeral_3_eq_3 eval_nat_numeral split: if_splits)
  then show "length (take n xs) = n" by simp
  have "safe_get (take n xs @ ys) i = safe_get xs i" if "i < n" for i
    using that l by (simp add: safe_get_def nth_append)
  then show "utf8_chunk (take n xs @ ys) = (n, True)"
    using assms(1) n by (auto simp: utf8_chunk_def Let_def split: if_splits)
qed

lemma utf8_valid_append_chunk:
  assumes "utf8_chunk xs = (n, True)" "xs \<noteq> []" "utf8_valid ys"
  shows "utf8_valid (take n xs @ ys)"
proof -
  have "n \<noteq> 0" using utf8_chunk_pos[of xs] assms(1) by simp
  then have "take n xs @ ys \<noteq> []" using assms(2) by simp
  then show ?thesis using utf8_chunk_take(1)[OF assms(1,2), of ys] utf8_chunk_take(2)[OF assms(1,2)] assms(3) by (simp add: utf8_valid.simps[of "take n xs @ ys"])
qed

lemma utf8_replacement_chunk: "utf8_chunk utf8_replacement = (3, True)"
  by code_simp

lemma utf8_valid_lossy [simp]: "utf8_valid (from_utf8_lossy xs)"
proof (induction xs rule: from_utf8_lossy.induct)
  case (1 xs)
  show ?case
  proof (cases "xs = []")
    case False
    obtain n ok where c: "utf8_chunk xs = (n, ok)" by (cases "utf8_chunk xs") auto
    have ih: "utf8_valid (from_utf8_lossy (drop n xs))" using "1.IH"[OF False c[symmetric]] .
    have r: "utf8_replacement \<noteq> []" "take 3 utf8_replacement = utf8_replacement" by (simp_all add: utf8_replacement_def)
    show ?thesis
      using utf8_valid_append_chunk[OF _ False ih, of n] utf8_valid_append_chunk[OF utf8_replacement_chunk r(1) ih] r c False
      by (cases ok) (simp_all add: from_utf8_lossy.simps[of xs])
  qed simp
qed

end
