(* ===== verification/Crab_Inode.thy ===== *)
theory Crab_Inode
  imports Crab_Bytes Rust_Str
begin

text \<open>
  Inode cores, extent records and short-form directories: \<^verbatim>\<open>lib/crabfs/on_disk/{inode,bmap,dir}.rs\<close>,
  and the extent encoder of \<^verbatim>\<open>lib/crabfs/pack.rs\<close>.  Signed integers are words in two's complement,
  so a cast between \<^verbatim>\<open>u32\<close> and \<^verbatim>\<open>i32\<close> is the identity.  Times are pairs of seconds and nanoseconds.
\<close>

section \<open>Inodes\<close>

definition XFS_DINODE_MAGIC :: u16 where "XFS_DINODE_MAGIC = 0x494e"
abbreviation (input) XFS_DINODE_SIZE_V3 :: nat where "XFS_DINODE_SIZE_V3 \<equiv> 176"
abbreviation (input) XFS_DINODE_CRC_OFF :: nat where "XFS_DINODE_CRC_OFF \<equiv> 100"

type_synonym i32 = "32 word"
type_synonym i64 = "64 word"

datatype InodeFormat = Dev | Local | Extents | Btree | Uuid

definition InodeFormat_from_u8 :: "u8 \<Rightarrow> InodeFormat" where
  "InodeFormat_from_u8 v =
    (if v = 0 then Dev else if v = 1 then Local else if v = 2 then Extents
     else if v = 3 then Btree else Uuid)"

fun InodeFormat_to_u8 :: "InodeFormat \<Rightarrow> u8" where
  "InodeFormat_to_u8 Dev = 0" |
  "InodeFormat_to_u8 Local = 1" |
  "InodeFormat_to_u8 Extents = 2" |
  "InodeFormat_to_u8 Btree = 3" |
  "InodeFormat_to_u8 Uuid = 4"

record Inode =
  di_magic :: u16
  di_mode :: u16
  di_version :: u8
  di_format :: InodeFormat
  di_onlink :: u16
  di_uid :: u32
  di_gid :: u32
  di_nlink :: u32
  di_projid :: u32
  di_flushiter :: u16
  di_atime :: "i32 \<times> u32"
  di_mtime :: "i32 \<times> u32"
  di_ctime :: "i32 \<times> u32"
  di_size :: i64
  di_nblocks :: u64
  di_extsize :: u32
  di_nextents :: u32
  di_anextents :: u16
  di_forkoff :: u8
  di_aformat :: InodeFormat
  di_dmevmask :: u32
  di_dmstate :: u16
  di_flags :: u16
  di_generation :: u32
  di_next_unlinked :: u32
  di_crc :: u32
  di_change_count :: u64
  di_lsn :: u64
  di_flags2 :: u64
  di_cowextsize :: u32
  di_crtime :: "i32 \<times> u32"
  di_ino :: u64
  di_uuid :: bytes

definition be_time :: "bytes \<Rightarrow> nat \<Rightarrow> (i32 \<times> u32) exec" where
  "be_time bytes off = do { s \<leftarrow> be_u32 bytes off; ns \<leftarrow> be_u32 bytes (off + 4); Some (s, ns) }"

definition Inode_parse :: "bytes \<Rightarrow> (ParseError, Inode) outcome" where
  "Inode_parse bytes = bindE (require_len bytes XFS_DINODE_SIZE_V3) id (\<lambda>_. do {
     magic \<leftarrow> be_u16 bytes 0;
     if magic \<noteq> XFS_DINODE_MAGIC
     then Err (InvalidMagic (ucast XFS_DINODE_MAGIC) (ucast magic))
     else do {
       projid_lo \<leftarrow> be_u16 bytes 20;
       projid_hi \<leftarrow> be_u16 bytes 22;
       let projid = (push_bit 16 (ucast projid_hi) OR ucast projid_lo :: u32);
       mode \<leftarrow> be_u16 bytes 2;
       version \<leftarrow> get_byte bytes 4;
       format \<leftarrow> map_option InodeFormat_from_u8 (get_byte bytes 5);
       onlink \<leftarrow> be_u16 bytes 6;
       uid \<leftarrow> be_u32 bytes 8;
       gid \<leftarrow> be_u32 bytes 12;
       nlink \<leftarrow> be_u32 bytes 16;
       flushiter \<leftarrow> be_u16 bytes 30;
       atime \<leftarrow> be_time bytes 32;
       mtime \<leftarrow> be_time bytes 40;
       ctime \<leftarrow> be_time bytes 48;
       size \<leftarrow> be_u64 bytes 56;
       nblocks \<leftarrow> be_u64 bytes 64;
       extsize \<leftarrow> be_u32 bytes 72;
       nextents \<leftarrow> be_u32 bytes 76;
       anextents \<leftarrow> be_u16 bytes 80;
       forkoff \<leftarrow> get_byte bytes 82;
       aformat \<leftarrow> map_option InodeFormat_from_u8 (get_byte bytes 83);
       dmevmask \<leftarrow> be_u32 bytes 84;
       dmstate \<leftarrow> be_u16 bytes 88;
       flags \<leftarrow> be_u16 bytes 90;
       generation \<leftarrow> be_u32 bytes 92;
       next_unlinked \<leftarrow> be_u32 bytes 96;
       crc \<leftarrow> le_u32 bytes 100;
       change_count \<leftarrow> be_u64 bytes 104;
       lsn \<leftarrow> be_u64 bytes 112;
       flags2 \<leftarrow> be_u64 bytes 120;
       cowextsize \<leftarrow> be_u32 bytes 128;
       crtime \<leftarrow> be_time bytes 144;
       ino \<leftarrow> be_u64 bytes 152;
       uuid \<leftarrow> get_range bytes 160 176;
       Ok \<lparr>di_magic = magic, di_mode = mode, di_version = version, di_format = format,
         di_onlink = onlink, di_uid = uid, di_gid = gid, di_nlink = nlink, di_projid = projid,
         di_flushiter = flushiter, di_atime = atime, di_mtime = mtime, di_ctime = ctime,
         di_size = size, di_nblocks = nblocks, di_extsize = extsize, di_nextents = nextents,
         di_anextents = anextents, di_forkoff = forkoff, di_aformat = aformat,
         di_dmevmask = dmevmask, di_dmstate = dmstate, di_flags = flags,
         di_generation = generation, di_next_unlinked = next_unlinked, di_crc = crc,
         di_change_count = change_count, di_lsn = lsn, di_flags2 = flags2,
         di_cowextsize = cowextsize, di_crtime = crtime, di_ino = ino, di_uuid = uuid\<rparr>
     } })"

definition Inode_serialize :: "Inode \<Rightarrow> bytes \<Rightarrow> (ParseError, bytes) outcome" where
  "Inode_serialize inode bytes =
     bindE (require_len bytes XFS_DINODE_SIZE_V3) id (\<lambda>_. map_option Inr (seq_puts [
     put_be16 0 (di_magic inode),
     put_be16 2 (di_mode inode),
     put_byte 4 (di_version inode),
     put_byte 5 (InodeFormat_to_u8 (di_format inode)),
     put_be16 6 (di_onlink inode),
     put_be32 8 (di_uid inode),
     put_be32 12 (di_gid inode),
     put_be32 16 (di_nlink inode),
     put_be16 20 (ucast (di_projid inode AND 0xffff)),
     put_be16 22 (ucast (drop_bit 16 (di_projid inode))),
     put_slice 24 (replicate 6 0),
     put_be16 30 (di_flushiter inode),
     put_be32 32 (fst (di_atime inode)),
     put_be32 36 (snd (di_atime inode)),
     put_be32 40 (fst (di_mtime inode)),
     put_be32 44 (snd (di_mtime inode)),
     put_be32 48 (fst (di_ctime inode)),
     put_be32 52 (snd (di_ctime inode)),
     put_be64 56 (di_size inode),
     put_be64 64 (di_nblocks inode),
     put_be32 72 (di_extsize inode),
     put_be32 76 (di_nextents inode),
     put_be16 80 (di_anextents inode),
     put_byte 82 (di_forkoff inode),
     put_byte 83 (InodeFormat_to_u8 (di_aformat inode)),
     put_be32 84 (di_dmevmask inode),
     put_be16 88 (di_dmstate inode),
     put_be16 90 (di_flags inode),
     put_be32 92 (di_generation inode),
     put_be32 96 (di_next_unlinked inode),
     put_be64 104 (di_change_count inode),
     put_be64 112 (di_lsn inode),
     put_be64 120 (di_flags2 inode),
     put_be32 128 (di_cowextsize inode),
     put_slice 132 (replicate 12 0),
     put_be32 144 (fst (di_crtime inode)),
     put_be32 148 (snd (di_crtime inode)),
     put_be64 152 (di_ino inode),
     put_slice 160 (di_uuid inode)] bytes))"

section \<open>Extent records\<close>

record BmapExtent =
  ext_state :: u8
  ext_startoff :: u64
  ext_startblock :: u64
  ext_blockcount :: u32

abbreviation (input) BmapExtent_SIZE :: nat where "BmapExtent_SIZE \<equiv> 16"

definition BmapExtent_parse :: "bytes \<Rightarrow> (ParseError, BmapExtent) outcome" where
  "BmapExtent_parse bytes = bindE (require_len bytes BmapExtent_SIZE) id (\<lambda>_. do {
     x0 \<leftarrow> be_u64 bytes 0;
     x1 \<leftarrow> be_u64 bytes 8;
     let state = ucast (drop_bit 63 x0);
     let startoff = drop_bit 9 (x0 AND 0x7fffffffffffffff);
     let startblock = push_bit 43 (x0 AND 0x1ff) OR drop_bit 21 x1;
     let blockcount = ucast (x1 AND 0x1fffff);
     Ok \<lparr>ext_state = state, ext_startoff = startoff, ext_startblock = startblock,
       ext_blockcount = blockcount\<rparr> })"

text \<open>\<^verbatim>\<open>serialize_bmap_extent\<close> of \<^verbatim>\<open>pack.rs\<close>, writing into the slice \<open>out\<close>.\<close>

definition serialize_bmap_extent ::
  "bytes \<Rightarrow> u64 \<Rightarrow> u64 \<Rightarrow> u32 \<Rightarrow> (WriteError, bytes) outcome" where
  "serialize_bmap_extent out startoff startblock blockcount = do {
     let x0 = push_bit 9 startoff OR (drop_bit 43 startblock AND 0x1ff);
     let x1 = push_bit 21 (startblock AND (push_bit 43 1 - 1)) OR ucast blockcount;
     out \<leftarrow> put_slice 0 (to_be_bytes x0) out;
     out \<leftarrow> put_slice 8 (to_be_bytes x1) out;
     Ok out }"

section \<open>Short-form directories\<close>

record DirSfHeader =
  sf_count :: u8
  sf_i8count :: u8
  sf_parent :: u64

definition DirSfHeader_parse :: "bytes \<Rightarrow> (ParseError, DirSfHeader \<times> nat) outcome" where
  "DirSfHeader_parse bytes = bindE (require_len bytes 3) id (\<lambda>_. do {
     count \<leftarrow> get_byte bytes 0;
     i8count \<leftarrow> get_byte bytes 1;
     if i8count = 0
     then bindE (require_len bytes 6) id (\<lambda>_. do {
       parent \<leftarrow> be_u32 bytes 2;
       Ok (\<lparr>sf_count = count, sf_i8count = i8count, sf_parent = ucast parent\<rparr>, 6) })
     else bindE (require_len bytes 10) id (\<lambda>_. do {
       parent \<leftarrow> be_u64 bytes 2;
       Ok (\<lparr>sf_count = count, sf_i8count = i8count, sf_parent = parent\<rparr>, 10) }) })"

record DirSfEntry =
  sfe_namelen :: u8
  sfe_offset :: u16
  sfe_name :: bytes
  sfe_ftype :: u8
  sfe_inumber :: u64

definition DirSfEntry_parse :: "bytes \<Rightarrow> u8 \<Rightarrow> bool \<Rightarrow> (ParseError, DirSfEntry \<times> nat) outcome" where
  "DirSfEntry_parse bytes i8count has_ftype = bindE (require_len bytes 3) id (\<lambda>_. do {
     namelen \<leftarrow> get_byte bytes 0;
     offset \<leftarrow> be_u16 bytes 1;
     let pos = 3;
     bindE (require_len bytes (pos + unat namelen)) id (\<lambda>_. do {
       name \<leftarrow> map_option from_utf8_lossy (get_range bytes pos (pos + unat namelen));
       let pos = pos + unat namelen;
       bindE (if has_ftype
              then bindE (require_len bytes (pos + 1)) id (\<lambda>_. do {
                f \<leftarrow> get_byte bytes pos; Ok (f, pos + 1) })
              else Ok (0, pos)) id (\<lambda>(ftype, pos).
       bindE (if i8count = 0
              then bindE (require_len bytes (pos + 4)) id (\<lambda>_. do {
                i \<leftarrow> be_u32 bytes pos; Ok (ucast i, 4) })
              else bindE (require_len bytes (pos + 8)) id (\<lambda>_. do {
                i \<leftarrow> be_u64 bytes pos; Ok (i, 8) })) id (\<lambda>(inumber, inosize).
       Ok (\<lparr>sfe_namelen = namelen, sfe_offset = offset, sfe_name = name, sfe_ftype = ftype,
            sfe_inumber = inumber\<rparr>, pos + inosize))) }) })"

section \<open>Lemmas\<close>

lemma InodeFormat_roundtrip [simp]: "InodeFormat_from_u8 (InodeFormat_to_u8 f) = f"
  by (cases f) (simp_all add: InodeFormat_from_u8_def)

lemma be_time_Some [exec_simps]:
  "off + 8 \<le> length b \<Longrightarrow>
     be_time b off = Some (from_be_bytes (rd b off 4), from_be_bytes (rd b (off + 4) 4))"
  by (simp add: be_time_def exec_simps)

lemma projid_recombine:
  "push_bit 16 (ucast (ucast (drop_bit 16 p) :: u16)) OR ucast (ucast (p AND 0xffff) :: u16) = p"
  for p :: u32
proof -
  have m: "(0xffff :: u32) = mask 16" by (simp add: mask_eq_exp_minus_1)
  show ?thesis unfolding m
    by (rule bit_word_eqI)
       (auto simp: bit_or_iff bit_push_bit_iff bit_ucast_iff bit_drop_bit_eq bit_and_iff bit_mask_iff)
qed

lemma Inode_parse_not_panic: "Inode_parse b \<noteq> None"
  by (cases "176 \<le> length b") (simp_all add: Inode_parse_def exec_simps Let_def)

lemma Inode_serialize_spec:
  assumes "di_magic inode = XFS_DINODE_MAGIC" and "length (di_uuid inode) = 16"
    and "XFS_DINODE_SIZE_V3 \<le> length b"
  shows "\<exists>b'. Inode_serialize inode b = Ok b' \<and> length b' = length b \<and>
           Inode_parse b' = Ok (inode\<lparr>di_crc := from_le_bytes (rd b 100 4)\<rparr>) \<and>
           rd b' 100 4 = rd b 100 4 \<and> (\<forall>off n. XFS_DINODE_SIZE_V3 \<le> off \<longrightarrow> rd b' off n = rd b off n)"
  using assms
  by (simp add: Inode_serialize_def Inode_parse_def exec_simps buf_simps Let_def projid_recombine)

lemma BmapExtent_parse_not_panic: "BmapExtent_parse b \<noteq> None"
  by (cases "16 \<le> length b") (simp_all add: BmapExtent_parse_def exec_simps Let_def)

lemma bmap_words:
  fixes startoff startblock :: u64 and blockcount :: u32
  assumes so: "unat startoff < 2 ^ 54" and sb: "unat startblock < 2 ^ 52"
    and bc: "unat blockcount < 2 ^ 21"
  defines "x0 \<equiv> push_bit 9 startoff OR (drop_bit 43 startblock AND mask 9)"
    and "x1 \<equiv> push_bit 21 (startblock AND mask 43) OR ucast blockcount"
  shows "ucast (drop_bit 63 x0) = (0 :: u8)"
    and "drop_bit 9 (x0 AND mask 63) = startoff"
    and "push_bit 43 (x0 AND mask 9) OR drop_bit 21 x1 = startblock"
    and "ucast (x1 AND mask 21) = blockcount"
proof -
  note b = unat_less_pow_bit[OF so] unat_less_pow_bit[OF sb] unat_less_pow_bit[OF bc]
  note s = bit_or_iff bit_and_iff bit_push_bit_iff bit_drop_bit_eq bit_mask_iff bit_ucast_iff
  show "ucast (drop_bit 63 x0) = (0 :: u8)"
    by (rule bit_word_eqI) (auto simp: x0_def s b)
  show "drop_bit 9 (x0 AND mask 63) = startoff"
    by (rule bit_word_eqI) (auto simp: x0_def s b not_less dest: bit_unat_less_pow[OF _ so])
  show "push_bit 43 (x0 AND mask 9) OR drop_bit 21 x1 = startblock"
    by (rule bit_word_eqI) (auto simp: x0_def x1_def s b not_less dest: bit_unat_less_pow[OF _ sb])
  show "ucast (x1 AND mask 21) = blockcount"
    by (rule bit_word_eqI) (auto simp: x1_def s b not_less dest: bit_unat_less_pow[OF _ bc])
qed

lemma serialize_bmap_extent_spec:
  assumes "unat startoff < 2 ^ 54" and "unat startblock < 2 ^ 52" and "unat blockcount < 2 ^ 21"
    and "16 \<le> length b"
  shows "\<exists>b'. serialize_bmap_extent b startoff startblock blockcount = Ok b' \<and> length b' = length b \<and>
     BmapExtent_parse b' = Ok \<lparr>ext_state = 0, ext_startoff = startoff,
       ext_startblock = startblock, ext_blockcount = blockcount\<rparr> \<and>
     (\<forall>off n. 16 \<le> off \<longrightarrow> rd b' off n = rd b off n)"
proof -
  have m: "(0x1ff :: u64) = mask 9" "(0x7fffffffffffffff :: u64) = mask 63" "(0x1fffff :: u64) = mask 21"
    "push_bit 43 1 - 1 = (mask 43 :: u64)"
    by (simp_all add: mask_eq_exp_minus_1)
  define x0 where "x0 = push_bit 9 startoff OR (drop_bit 43 startblock AND mask 9)"
  define x1 where "x1 = push_bit 21 (startblock AND mask 43) OR ucast blockcount"
  have "serialize_bmap_extent b startoff startblock blockcount =
          Ok (wr (wr b 0 (to_be_bytes x0)) 8 (to_be_bytes x1))"
    unfolding serialize_bmap_extent_def Let_def m x0_def[symmetric] x1_def[symmetric]
    using assms(4) by (simp add: exec_simps)
  moreover have "BmapExtent_parse (wr (wr b 0 (to_be_bytes x0)) 8 (to_be_bytes x1)) =
      Ok \<lparr>ext_state = 0, ext_startoff = startoff, ext_startblock = startblock,
        ext_blockcount = blockcount\<rparr>"
    unfolding BmapExtent_parse_def Let_def m
    using assms(4) bmap_words[OF assms(1-3), folded x0_def x1_def]
    by (simp add: exec_simps buf_simps del: bit.conj_disj_distrib bit.conj_disj_distrib2)
  ultimately show ?thesis by (simp add: buf_simps)
qed

lemma DirSfHeader_parse_not_panic: "DirSfHeader_parse b \<noteq> None"
  by (cases "3 \<le> length b") (simp_all add: DirSfHeader_parse_def require_len_def exec_simps)

lemma DirSfEntry_parse_not_panic: "DirSfEntry_parse b i8 ft \<noteq> None"
  by (cases "3 \<le> length b")
     (simp_all add: DirSfEntry_parse_def require_len_def exec_simps Let_def)

end
