(* ===== verification/Block_Device.thy ===== *)
theory Block_Device
  imports Crab_Bytes
begin

text \<open>
  The trait \<^verbatim>\<open>BlockDevice\<close> of \<^verbatim>\<open>lib/crabfs/device.rs\<close>.  A device is a state \<open>'d\<close> with two
  operations; \<open>read_at\<close> answers the bytes of the requested range, \<open>write_at\<close> the device after the
  write.  The locale states the contract the file system relies on: inside the device a read returns
  the contents and a write replaces exactly the addressed range.
\<close>

type_synonym 'd read_op = "'d \<Rightarrow> u64 \<Rightarrow> nat \<Rightarrow> (DeviceError, bytes) outcome"
type_synonym 'd write_op = "'d \<Rightarrow> u64 \<Rightarrow> bytes \<Rightarrow> (DeviceError, 'd) outcome"

locale block_device =
  fixes read_at :: "'d read_op"
    and write_at :: "'d write_op"
    and contents :: "'d \<Rightarrow> bytes"
    and invar :: "'d \<Rightarrow> bool"
  assumes read_in_range:
      "invar d \<Longrightarrow> unat off + n \<le> length (contents d) \<Longrightarrow>
         read_at d off n = Ok (rd (contents d) (unat off) n)"
    and write_in_range:
      "invar d \<Longrightarrow> unat off + length xs \<le> length (contents d) \<Longrightarrow>
         \<exists>d'. write_at d off xs = Ok d' \<and> invar d' \<and> contents d' = wr (contents d) (unat off) xs"
begin

lemma write_elim:
  assumes "write_at d off xs = Ok d'" and "invar d" and "unat off + length xs \<le> length (contents d)"
  shows "invar d'" and "contents d' = wr (contents d) (unat off) xs"
  using write_in_range[OF assms(2,3)] assms(1) by auto

lemma write_keeps_length:
  assumes "write_at d off xs = Ok d'" and "invar d" and "unat off + length xs \<le> length (contents d)"
  shows "length (contents d') = length (contents d)"
  using write_elim[OF assms] by simp

lemma read_after_write:
  assumes "write_at d off xs = Ok d'" and "invar d" and "unat off + length xs \<le> length (contents d)"
  shows "read_at d' off (length xs) = Ok xs"
  using write_elim[OF assms] assms(3) by (simp add: read_in_range buf_simps)

lemma read_after_write_other:
  assumes "write_at d off xs = Ok d'" and "invar d" and "unat off + length xs \<le> length (contents d)"
    and "unat off' + n \<le> length (contents d)"
    and "unat off' + n \<le> unat off \<or> unat off + length xs \<le> unat off'"
  shows "read_at d' off' n = read_at d off' n"
  using write_elim[OF assms(1-3)] assms by (simp add: read_in_range buf_simps)

end

section \<open>A file as a device\<close>

text \<open>
  \<^verbatim>\<open>StdFileDevice\<close>: a host file with its cursor.  The operating system decides how many bytes one
  \<^verbatim>\<open>read\<close> or \<^verbatim>\<open>write\<close> call transfers and whether it fails; that choice is the parameter \<open>grant\<close>,
  from the number of bytes that can be transferred to the number transferred, \<^const>\<open>None\<close> being an
  I/O error.  \<open>grant_ok\<close> is what POSIX promises of a call that does not fail: it transfers at least
  one byte and at most as many as asked.  A read at the end of the file transfers nothing; a write
  past the end extends the file, with zeros in a gap.
\<close>

record StdFileDevice =
  file_data :: bytes
  file_pos :: nat

type_synonym os_grant = "nat \<Rightarrow> nat option"

definition grant_ok :: "os_grant \<Rightarrow> bool" where
  "grant_ok grant \<longleftrightarrow> (\<forall>n>0. \<exists>k. grant n = Some k \<and> 0 < k \<and> k \<le> n)"

definition os_read :: "os_grant \<Rightarrow> StdFileDevice \<Rightarrow> nat \<Rightarrow> (bytes \<times> StdFileDevice) option" where
  "os_read grant f n =
    (let avail = min n (length (file_data f) - file_pos f) in
     case (if avail = 0 then Some 0 else grant avail) of
       None \<Rightarrow> None
     | Some k \<Rightarrow> let got = rd (file_data f) (file_pos f) k
                 in Some (got, f\<lparr>file_pos := file_pos f + length got\<rparr>))"

definition file_extend :: "bytes \<Rightarrow> nat \<Rightarrow> bytes" where
  "file_extend data len = data @ replicate (len - length data) 0"

definition os_write :: "os_grant \<Rightarrow> StdFileDevice \<Rightarrow> bytes \<Rightarrow> (nat \<times> StdFileDevice) option" where
  "os_write grant f xs =
    (case (if xs = [] then Some 0 else grant (length xs)) of
       None \<Rightarrow> None
     | Some k \<Rightarrow> let data = file_extend (file_data f) (file_pos f + k)
                 in Some (k, f\<lparr>file_data := wr data (file_pos f) (take k xs),
                                file_pos := file_pos f + k\<rparr>))"

text \<open>
  The \<^verbatim>\<open>while\<close> loops of \<^verbatim>\<open>read_at\<close> and \<^verbatim>\<open>write_at\<close>.  Every turn transfers at least one byte, so
  one more turn than there are bytes is enough fuel; without fuel the loop has no result.
\<close>

fun read_loop :: "nat \<Rightarrow> os_grant \<Rightarrow> StdFileDevice \<Rightarrow> nat \<Rightarrow> bytes \<Rightarrow> (DeviceError, bytes) outcome" where
  "read_loop 0 grant f len acc = None" |
  "read_loop (Suc fuel) grant f len acc =
    (if \<not> length acc < len then Ok acc
     else case os_read grant f (len - length acc) of
       None \<Rightarrow> Err Io
     | Some (got, f') \<Rightarrow>
         if got = [] then Err (ShortRead len (length acc))
         else read_loop fuel grant f' len (acc @ got))"

fun write_loop :: "nat \<Rightarrow> os_grant \<Rightarrow> StdFileDevice \<Rightarrow> bytes \<Rightarrow> nat \<Rightarrow>
    (DeviceError, StdFileDevice) outcome" where
  "write_loop 0 grant f buf sent = None" |
  "write_loop (Suc fuel) grant f buf sent =
    (if \<not> sent < length buf then Ok f
     else case os_write grant f (drop sent buf) of
       None \<Rightarrow> Err Io
     | Some (n, f') \<Rightarrow>
         if n = 0 then Err (ShortWrite (length buf) sent)
         else write_loop fuel grant f' buf (sent + n))"

definition std_read_at :: "os_grant \<Rightarrow> StdFileDevice read_op" where
  "std_read_at grant f offset n = read_loop (Suc n) grant (f\<lparr>file_pos := unat offset\<rparr>) n []"

definition std_write_at :: "os_grant \<Rightarrow> StdFileDevice write_op" where
  "std_write_at grant f offset buf =
     write_loop (Suc (length buf)) grant (f\<lparr>file_pos := unat offset\<rparr>) buf 0"

definition set_len :: "StdFileDevice \<Rightarrow> u64 \<Rightarrow> StdFileDevice" where
  "set_len f len = f\<lparr>file_data := take (unat len) (file_extend (file_data f) (unat len))\<rparr>"

lemma read_loop_complete:
  assumes "grant_ok grant" and "file_pos f + (len - length acc) \<le> length (file_data f)"
    and "length acc \<le> len" and "len - length acc < fuel"
  shows "read_loop fuel grant f len acc = Ok (acc @ rd (file_data f) (file_pos f) (len - length acc))"
  using assms
proof (induction fuel arbitrary: f acc)
  case (Suc fuel)
  show ?case
  proof (cases "length acc < len")
    case False
    then show ?thesis using Suc.prems by (simp add: rd_def)
  next
    case True
    define m where "m = len - length acc"
    have m: "0 < m" "min m (length (file_data f) - file_pos f) = m" "file_pos f + m \<le> length (file_data f)"
      using True Suc.prems(2) by (simp_all add: m_def)
    obtain k where k: "grant m = Some k" "0 < k" "k \<le> m"
      using Suc.prems(1) m by (auto simp: grant_ok_def)
    let ?got = "rd (file_data f) (file_pos f) k"
    have len: "length ?got = k" using k m by simp
    then have ne: "?got \<noteq> []" using k(2) by (metis length_0_conv less_numeral_extra(3))
    have os: "os_read grant f m = Some (?got, f\<lparr>file_pos := file_pos f + k\<rparr>)"
      using m k by (simp add: os_read_def Let_def)
    have "rd (file_data f) (file_pos f) m = ?got @ rd (file_data f) (file_pos f + k) (m - k)"
      using rd_split[of "file_data f" "file_pos f" k "m - k"] k by simp
    then show ?thesis
      using Suc.IH[of "f\<lparr>file_pos := file_pos f + k\<rparr>" "acc @ ?got"] Suc.prems True k len ne os m
      by (simp add: m_def diff_diff_left)
  qed
qed simp

lemma wr_split:
  "off + length xs + length ys \<le> length b \<Longrightarrow>
     wr (wr b off xs) (off + length xs) ys = wr b off (xs @ ys)"
  by (rule nth_equalityI) (auto simp: nth_wr nth_append)

lemma write_loop_complete:
  assumes "grant_ok grant" and "file_pos f + (length buf - sent) \<le> length (file_data f)"
    and "sent \<le> length buf" and "length buf - sent < fuel"
  shows "\<exists>f'. write_loop fuel grant f buf sent = Ok f' \<and>
           file_data f' = wr (file_data f) (file_pos f) (drop sent buf)"
  using assms
proof (induction fuel arbitrary: f sent)
  case (Suc fuel)
  show ?case
  proof (cases "sent < length buf")
    case False
    then show ?thesis using Suc.prems by (simp add: wr_def)
  next
    case True
    define m where "m = length buf - sent"
    have m: "0 < m" "file_pos f + m \<le> length (file_data f)"
      using True Suc.prems(2) by (simp_all add: m_def)
    obtain k where k: "grant m = Some k" "0 < k" "k \<le> m"
      using Suc.prems(1) m by (auto simp: grant_ok_def)
    let ?xs = "take k (drop sent buf)"
    let ?f = "f\<lparr>file_data := wr (file_data f) (file_pos f) ?xs, file_pos := file_pos f + k\<rparr>"
    have os: "os_write grant f (drop sent buf) = Some (k, ?f)"
      using k m True by (simp add: os_write_def Let_def file_extend_def m_def)
    have len: "length ?xs = k" using k by (simp add: m_def)
    have "wr (wr (file_data f) (file_pos f) ?xs) (file_pos f + k) (drop (sent + k) buf) =
          wr (file_data f) (file_pos f) (?xs @ drop (sent + k) buf)"
      using wr_split[of "file_pos f" ?xs "drop (sent + k) buf" "file_data f"] k m len
      by (simp add: m_def)
    also have "?xs @ drop (sent + k) buf = drop sent buf"
      by (simp add: add.commute flip: drop_drop)
    finally show ?thesis
      using Suc.IH[of ?f "sent + k"] Suc.prems True k os m by (simp add: m_def)
  qed
qed simp

text \<open>A file whose length covers the addressed range is a block device, whatever the grants are.\<close>

lemma std_file_block_device:
  assumes "grant_ok grant"
  shows "block_device (std_read_at grant) (std_write_at grant) file_data (\<lambda>_. True)"
proof
  fix d :: StdFileDevice and off :: u64 and n
  assume "unat off + n \<le> length (file_data d)"
  then show "std_read_at grant d off n = Ok (rd (file_data d) (unat off) n)"
    using read_loop_complete[OF assms, of "d\<lparr>file_pos := unat off\<rparr>" n "[]" "Suc n"]
    by (simp add: std_read_at_def)
next
  fix d :: StdFileDevice and off :: u64 and xs :: bytes
  assume "unat off + length xs \<le> length (file_data d)"
  then show "\<exists>d'. std_write_at grant d off xs = Ok d' \<and> True \<and> file_data d' = wr (file_data d) (unat off) xs"
    using write_loop_complete[OF assms, of "d\<lparr>file_pos := unat off\<rparr>" xs 0 "Suc (length xs)"]
    by (simp add: std_write_at_def)
qed

text \<open>The grants of a system that transfers everything at once, and one byte at a time.\<close>

definition grant_all :: os_grant where "grant_all n = Some n"

definition grant_one :: os_grant where "grant_one n = Some (min n 1)"

lemma grant_all_ok: "grant_ok grant_all" and grant_one_ok: "grant_ok grant_one"
  by (simp_all add: grant_ok_def grant_all_def grant_one_def)

interpretation std_all: block_device "std_read_at grant_all" "std_write_at grant_all" file_data "\<lambda>_. True"
  by (rule std_file_block_device[OF grant_all_ok])

interpretation std_one: block_device "std_read_at grant_one" "std_write_at grant_one" file_data "\<lambda>_. True"
  by (rule std_file_block_device[OF grant_one_ok])

end
