(* ===== verification/Crab_Reader.thy ===== *)
theory Crab_Reader
  imports Crab_Superblock Crab_Ag Crab_Inode Block_Device
begin

text \<open>
  The reader of \<^verbatim>\<open>lib/crabfs/reader.rs\<close>.  The reading functions only call \<^verbatim>\<open>dev.read_at\<close>, so the
  device is to them its answering function \<open>dev\<close>, from an offset and a length to the outcome of the
  read.  Buffers the source passes in (\<^verbatim>\<open>scratch\<close>) appear by their length; a function that fills one
  for its caller returns the filled part.
\<close>

type_synonym reading = "u64 \<Rightarrow> nat \<Rightarrow> (DeviceError, bytes) outcome"

abbreviation (input) XFS_MAX_SECTOR_SIZE :: nat where "XFS_MAX_SECTOR_SIZE \<equiv> 4096"

text \<open>The bytes of \<^verbatim>\<open>CDIR0001\<close>.\<close>

definition CRABFS_EXTENT_DIR_MAGIC :: bytes where
  "CRABFS_EXTENT_DIR_MAGIC = [0x43, 0x44, 0x49, 0x52, 0x30, 0x30, 0x30, 0x31]"

definition str_dot :: bytes where "str_dot = [0x2e]"
definition str_dotdot :: bytes where "str_dotdot = [0x2e, 0x2e]"

fun bytes_eq_from :: "bytes \<Rightarrow> bytes \<Rightarrow> bool" where
  "bytes_eq_from [] right = True" |
  "bytes_eq_from (l # left) [] = False" |
  "bytes_eq_from (l # left) (r # right) = (if l \<noteq> r then False else bytes_eq_from left right)"

definition bytes_eq :: "bytes \<Rightarrow> bytes \<Rightarrow> bool" where
  "bytes_eq left right = (if length left \<noteq> length right then False else bytes_eq_from left right)"

definition ag_start :: "Superblock \<Rightarrow> u32 \<Rightarrow> (ReadError, u64) outcome" where
  "ag_start sb agno =
    (if agno \<ge> sb_ag_count sb then Err (RDevice OutOfRange)
     else Ok (sat_mul (sat_mul (ucast agno) (ucast (sb_ag_blocks sb))) (ucast (sb_block_size sb))))"

definition ensure_sector_size :: "u16 \<Rightarrow> (ReadError, nat) outcome" where
  "ensure_sector_size sector_size =
    (let size = unat sector_size in
     if size > XFS_MAX_SECTOR_SIZE
     then Err (RParse (InvalidField ''sector_size'' (of_nat size))) else Ok size)"

section \<open>Headers\<close>

definition read_superblock :: "reading \<Rightarrow> (ReadError, Superblock) outcome" where
  "read_superblock dev =
    bindE (dev 0 XFS_DSB_SIZE) RDevice (\<lambda>raw.
    bindE (Superblock_parse raw) RParse (\<lambda>sb.
    if is_v5 sb then
      bindE (ensure_sector_size (sb_sector_size sb)) id (\<lambda>sector_size.
      bindE (dev 0 sector_size) RDevice (\<lambda>sector. do {
        ok \<leftarrow> verify_xfs_crc sector XFS_SB_CRC_OFF;
        if \<not> ok then Err (RParse (CrcMismatch ''superblock'')) else Ok sb }))
    else Ok sb))"

definition read_agf :: "reading \<Rightarrow> Superblock \<Rightarrow> u32 \<Rightarrow> (ReadError, Agf) outcome" where
  "read_agf dev sb agno =
    bindE (ag_start sb agno) id (\<lambda>start. do {
      offset \<leftarrow> cadd start (ucast (sb_sector_size sb));
      bindE (dev offset XFS_AGF_SIZE) RDevice (\<lambda>raw.
      bindE (Agf_parse raw) RParse (\<lambda>agf.
      if is_v5 sb then
        bindE (ensure_sector_size (sb_sector_size sb)) id (\<lambda>sector_size.
        bindE (dev offset sector_size) RDevice (\<lambda>sector. do {
          ok \<leftarrow> verify_xfs_crc sector XFS_AGF_CRC_OFF;
          if \<not> ok then Err (RParse (CrcMismatch ''agf'')) else Ok agf }))
      else Ok agf)) })"

definition read_agi :: "reading \<Rightarrow> Superblock \<Rightarrow> u32 \<Rightarrow> (ReadError, Agi) outcome" where
  "read_agi dev sb agno =
    bindE (ag_start sb agno) id (\<lambda>start. do {
      two_sectors \<leftarrow> cmul 2 (ucast (sb_sector_size sb));
      offset \<leftarrow> cadd start two_sectors;
      bindE (dev offset XFS_AGI_SIZE) RDevice (\<lambda>raw.
      bindE (Agi_parse raw) RParse (\<lambda>agi.
      if is_v5 sb then
        bindE (ensure_sector_size (sb_sector_size sb)) id (\<lambda>sector_size.
        bindE (dev offset sector_size) RDevice (\<lambda>sector. do {
          ok \<leftarrow> verify_xfs_crc sector XFS_AGI_CRC_OFF;
          if \<not> ok then Err (RParse (CrcMismatch ''agi'')) else Ok agi }))
      else Ok agi)) })"

definition read_agfl :: "reading \<Rightarrow> Superblock \<Rightarrow> u32 \<Rightarrow> (ReadError, Agfl) outcome" where
  "read_agfl dev sb agno =
    bindE (ensure_sector_size (sb_sector_size sb)) id (\<lambda>sector_size.
    bindE (ag_start sb agno) id (\<lambda>start. do {
      three_sectors \<leftarrow> cmul 3 (ucast (sb_sector_size sb));
      offset \<leftarrow> cadd start three_sectors;
      bindE (dev offset sector_size) RDevice (\<lambda>sector. do {
        ok \<leftarrow> (if is_v5 sb then verify_xfs_crc sector XFS_AGFL_CRC_OFF else Some True);
        if \<not> ok then Err (RParse (CrcMismatch ''agfl''))
        else bindE (Agfl_parse sector (sb_sector_size sb) (is_v5 sb)) RParse Ok }) }))"

text \<open>\<^verbatim>\<open>read_inobt_root\<close> and \<^verbatim>\<open>read_finobt_root\<close> differ in the root block, the kind and a message.\<close>

definition read_btree_root :: "reading \<Rightarrow> Superblock \<Rightarrow> u32 \<Rightarrow> InodeBtreeKind \<Rightarrow> string \<Rightarrow> u32 \<Rightarrow> nat \<Rightarrow>
    (ReadError, InodeBtreeRoot) outcome" where
  "read_btree_root dev sb root kind what agno scratch_len =
    (let blksz = unat (sb_block_size sb) in
     if scratch_len < blksz then Err (RDevice (ShortRead blksz scratch_len))
     else bindE (ag_start sb agno) id (\<lambda>start. do {
       rel \<leftarrow> cmul (ucast root) (ucast (sb_block_size sb));
       offset \<leftarrow> cadd start rel;
       bindE (dev offset blksz) RDevice (\<lambda>blk. do {
         ok \<leftarrow> (if is_v5 sb then verify_xfs_crc blk XFS_BTREE_SBLOCK_CRC_OFF else Some True);
         if \<not> ok then Err (RParse (CrcMismatch what))
         else bindE (InodeBtreeRoot_parse blk kind (is_v5 sb)) RParse Ok }) }))"

definition read_inobt_root :: "reading \<Rightarrow> Superblock \<Rightarrow> Agi \<Rightarrow> u32 \<Rightarrow> nat \<Rightarrow>
    (ReadError, InodeBtreeRoot) outcome" where
  "read_inobt_root dev sb agi agno scratch_len =
     read_btree_root dev sb (agi_root agi) Inobt ''inobt root'' agno scratch_len"

definition read_finobt_root :: "reading \<Rightarrow> Superblock \<Rightarrow> Agi \<Rightarrow> u32 \<Rightarrow> nat \<Rightarrow>
    (ReadError, InodeBtreeRoot) outcome" where
  "read_finobt_root dev sb agi agno scratch_len =
     read_btree_root dev sb (agi_free_root agi) Finobt ''finobt root'' agno scratch_len"

section \<open>Inodes\<close>

definition inode_offset :: "Superblock \<Rightarrow> u64 \<Rightarrow> (ReadError, u64) outcome" where
  "inode_offset sb ino = do {
     hi \<leftarrow> cshr ino (unat (sb_agblklog sb) + unat (sb_inopblog sb));
     let agno = (ucast hi :: u32);
     blk \<leftarrow> cshr ino (unat (sb_inopblog sb));
     agpow \<leftarrow> cshl 1 (unat (sb_agblklog sb));
     agmask \<leftarrow> csub agpow 1;
     let agbno = blk AND agmask;
     inopow \<leftarrow> cshl 1 (unat (sb_inopblog sb));
     inomask \<leftarrow> csub inopow 1;
     offset \<leftarrow> cmul (ino AND inomask) (ucast (sb_inode_size sb));
     bindE (ag_start sb agno) id (\<lambda>start. do {
       blkoff \<leftarrow> cmul agbno (ucast (sb_block_size sb));
       s1 \<leftarrow> cadd start blkoff;
       s2 \<leftarrow> cadd s1 offset;
       Ok s2 }) }"

text \<open>The result carries the bytes left in \<^verbatim>\<open>scratch[..inosz]\<close>, which the callers go on to read.\<close>

definition read_inode :: "reading \<Rightarrow> Superblock \<Rightarrow> u64 \<Rightarrow> nat \<Rightarrow> (ReadError, Inode \<times> bytes) outcome" where
  "read_inode dev sb ino scratch_len =
    (let inosz = unat (sb_inode_size sb) in
     if scratch_len < inosz then Err (RDevice (ShortRead inosz scratch_len))
     else bindE (inode_offset sb ino) id (\<lambda>offset.
          bindE (dev offset inosz) RDevice (\<lambda>scratch. do {
            ok \<leftarrow> (if is_v5 sb then verify_xfs_crc scratch XFS_DINODE_CRC_OFF else Some True);
            if \<not> ok then Err (RParse (CrcMismatch ''inode''))
            else bindE (Inode_parse scratch) RParse (\<lambda>inode. Ok (inode, scratch)) })))"

section \<open>File data\<close>

definition extent_to_physical_offset :: "Superblock \<Rightarrow> BmapExtent \<Rightarrow> u64 exec" where
  "extent_to_physical_offset sb ext = do {
     let ag_blocks = ucast (sb_ag_blocks sb);
     let block_size = ucast (sb_block_size sb);
     agno \<leftarrow> cshr (ext_startblock ext) (unat (sb_agblklog sb));
     agpow \<leftarrow> cshl 1 (unat (sb_agblklog sb));
     agmask \<leftarrow> csub agpow 1;
     let agblk = ext_startblock ext AND agmask;
     base \<leftarrow> cmul agno ag_blocks;
     blk \<leftarrow> cadd base agblk;
     cmul blk block_size }"

text \<open>The loop that parses the \<open>n\<close> extent records from index \<open>i\<close> on.\<close>

fun parse_extents :: "bytes \<Rightarrow> nat \<Rightarrow> nat \<Rightarrow> (ReadError, BmapExtent list) outcome" where
  "parse_extents fork i 0 = Ok []" |
  "parse_extents fork i (Suc n) = do {
     ext_bytes \<leftarrow> get_range fork (i * 16) (length fork);
     bindE (BmapExtent_parse ext_bytes) RParse (\<lambda>ext.
     bindE (parse_extents fork (Suc i) n) id (\<lambda>exts. Ok (ext # exts))) }"

fun read_extents :: "reading \<Rightarrow> Superblock \<Rightarrow> BmapExtent list \<Rightarrow> bytes \<Rightarrow> u64 \<Rightarrow> u64 \<Rightarrow>
    (ReadError, bytes) outcome" where
  "read_extents dev sb [] result remaining current_off = Ok result" |
  "read_extents dev sb (ext # exts) result remaining current_off = do {
     ext_start_bytes \<leftarrow> cmul (ext_startoff ext) (ucast (sb_block_size sb));
     ext_len_bytes \<leftarrow> cmul (ucast (ext_blockcount ext)) (ucast (sb_block_size sb));
     within \<leftarrow> (if current_off \<ge> ext_start_bytes
                then map_option (\<lambda>ext_end. current_off < ext_end) (cadd ext_start_bytes ext_len_bytes)
                else Some False);
     if within then do {
       in_ext_off \<leftarrow> csub current_off ext_start_bytes;
       left \<leftarrow> csub ext_len_bytes in_ext_off;
       let to_read = min left remaining;
       base \<leftarrow> extent_to_physical_offset sb ext;
       phy_off \<leftarrow> cadd base in_ext_off;
       bindE (dev phy_off (unat to_read)) RDevice (\<lambda>buf. do {
         let result = result @ buf;
         remaining \<leftarrow> csub remaining to_read;
         current_off \<leftarrow> cadd current_off to_read;
         if remaining = 0 then Ok result
         else read_extents dev sb exts result remaining current_off })
     }
     else read_extents dev sb exts result remaining current_off }"

definition read_extent_range :: "reading \<Rightarrow> Superblock \<Rightarrow> Inode \<Rightarrow> bytes \<Rightarrow> u64 \<Rightarrow> u64 \<Rightarrow>
    (ReadError, bytes) outcome" where
  "read_extent_range dev sb inode scratch offset len = do {
     fork \<leftarrow> get_range scratch 176 (length scratch);
     bindE (parse_extents fork 0 (unat (di_nextents inode))) id (\<lambda>extents.
       let file_size = di_size inode in
       if offset \<ge> file_size then Ok []
       else do {
         avail \<leftarrow> csub file_size offset;
         read_extents dev sb extents [] (min len avail) offset }) }"

definition read_extent_payload :: "reading \<Rightarrow> Superblock \<Rightarrow> Inode \<Rightarrow> bytes \<Rightarrow> u64 \<Rightarrow>
    (ReadError, bytes) outcome" where
  "read_extent_payload dev sb inode scratch len = read_extent_range dev sb inode scratch 0 len"

definition read_file_data :: "reading \<Rightarrow> Superblock \<Rightarrow> u64 \<Rightarrow> u64 \<Rightarrow> u32 \<Rightarrow> (ReadError, bytes) outcome" where
  "read_file_data dev sb ino_num offset len =
    bindE (read_inode dev sb ino_num (unat (sb_inode_size sb))) id (\<lambda>(inode, scratch).
      let mode_type = di_mode inode AND 0xf000 in
      if mode_type \<noteq> 0x8000 \<and> mode_type \<noteq> 0xa000 then Ok []
      else case di_format inode of
        Local \<Rightarrow> do {
          data \<leftarrow> get_range scratch 176 (length scratch);
          let file_size = di_size inode;
          if offset \<ge> file_size then Ok []
          else do {
            stop \<leftarrow> cadd offset (ucast len);
            let stop = min stop file_size;
            map_option Inr (get_range data (unat offset) (unat stop)) } }
      | Extents \<Rightarrow> read_extent_range dev sb inode scratch offset (ucast len)
      | _ \<Rightarrow> Ok [])"

section \<open>Directories\<close>

record DirEntry =
  de_ino :: u64
  de_name :: bytes
  de_ftype :: u8

text \<open>The loops over the entries of a short-form directory, \<open>n\<close> entries left, from position \<open>pos\<close>.\<close>

fun sf_find :: "bytes \<Rightarrow> u8 \<Rightarrow> bool \<Rightarrow> bytes \<Rightarrow> nat \<Rightarrow> nat \<Rightarrow> (ReadError, (u64 \<times> u8) option) outcome" where
  "sf_find data i8count has_ftype target 0 pos = Ok None" |
  "sf_find data i8count has_ftype target (Suc n) pos = do {
     let start = pos;
     rest \<leftarrow> get_range data pos (length data);
     bindE (DirSfEntry_parse rest i8count has_ftype) RParse (\<lambda>(entry, consumed). do {
       let pos = pos + consumed;
       let name_end = start + 3 + unat (sfe_namelen entry);
       name \<leftarrow> get_range data (start + 3) name_end;
       if bytes_eq name target then Ok (Some (sfe_inumber entry, sfe_ftype entry))
       else sf_find data i8count has_ftype target n pos }) }"

fun sf_list :: "bytes \<Rightarrow> u8 \<Rightarrow> bool \<Rightarrow> nat \<Rightarrow> nat \<Rightarrow> (ReadError, DirEntry list) outcome" where
  "sf_list data i8count has_ftype 0 pos = Ok []" |
  "sf_list data i8count has_ftype (Suc n) pos = do {
     rest \<leftarrow> get_range data pos (length data);
     bindE (DirSfEntry_parse rest i8count has_ftype) RParse (\<lambda>(entry, consumed).
     bindE (sf_list data i8count has_ftype n (pos + consumed)) id (\<lambda>es.
     Ok (\<lparr>de_ino = sfe_inumber entry, de_name = sfe_name entry, de_ftype = sfe_ftype entry\<rparr> # es))) }"

text \<open>The loops over the entries of an extent directory.\<close>

fun ext_find :: "bytes \<Rightarrow> bytes \<Rightarrow> nat \<Rightarrow> nat \<Rightarrow> (ReadError, (u64 \<times> u8) option) outcome" where
  "ext_find data target 0 pos = Ok None" |
  "ext_find data target (Suc n) pos =
     bindE (require_len data (pos + 11)) RParse (\<lambda>_. do {
       ino \<leftarrow> be_u64 data pos;
       ftype \<leftarrow> get_byte data (pos + 8);
       name_len \<leftarrow> map_option unat (be_u16 data (pos + 9));
       let pos = pos + 11;
       bindE (require_len data (pos + name_len)) RParse (\<lambda>_. do {
         name \<leftarrow> get_range data pos (pos + name_len);
         if bytes_eq name target then Ok (Some (ino, ftype))
         else ext_find data target n (pos + name_len) }) })"

fun ext_list :: "bytes \<Rightarrow> nat \<Rightarrow> nat \<Rightarrow> (ReadError, DirEntry list) outcome" where
  "ext_list data 0 pos = Ok []" |
  "ext_list data (Suc n) pos =
     bindE (require_len data (pos + 11)) RParse (\<lambda>_. do {
       ino \<leftarrow> be_u64 data pos;
       ftype \<leftarrow> get_byte data (pos + 8);
       name_len \<leftarrow> map_option unat (be_u16 data (pos + 9));
       let pos = pos + 11;
       bindE (require_len data (pos + name_len)) RParse (\<lambda>_. do {
         name \<leftarrow> map_option from_utf8_lossy (get_range data pos (pos + name_len));
         bindE (ext_list data n (pos + name_len)) id (\<lambda>es.
         Ok (\<lparr>de_ino = ino, de_name = name, de_ftype = ftype\<rparr> # es)) }) })"

definition find_extent_dir_entry :: "bytes \<Rightarrow> u64 \<Rightarrow> bytes \<Rightarrow> (ReadError, (u64 \<times> u8) option) outcome" where
  "find_extent_dir_entry data ino_num target =
    (if length data < 20 then Err (RParse (BufferTooSmall 20 (length data)))
     else do {
       count \<leftarrow> map_option unat (be_u32 data 8);
       parent \<leftarrow> be_u64 data 12;
       if target = str_dot then Ok (Some (ino_num, 2))
       else if target = str_dotdot then Ok (Some (parent, 2))
       else ext_find data target count 20 })"

definition parse_extent_dir_entries :: "bytes \<Rightarrow> u64 \<Rightarrow> (ReadError, DirEntry list) outcome" where
  "parse_extent_dir_entries data ino_num =
    (if length data < 20 then Err (RParse (BufferTooSmall 20 (length data)))
     else do {
       count \<leftarrow> map_option unat (be_u32 data 8);
       parent \<leftarrow> be_u64 data 12;
       bindE (ext_list data count 20) id (\<lambda>es.
         Ok (\<lparr>de_ino = ino_num, de_name = str_dot, de_ftype = 2\<rparr> #
             \<lparr>de_ino = parent, de_name = str_dotdot, de_ftype = 2\<rparr> # es)) })"

definition has_extent_dir_magic :: "bytes \<Rightarrow> bool exec" where
  "has_extent_dir_magic data =
    (if length data \<ge> length CRABFS_EXTENT_DIR_MAGIC
     then map_option (\<lambda>m. bytes_eq m CRABFS_EXTENT_DIR_MAGIC)
            (get_range data 0 (length CRABFS_EXTENT_DIR_MAGIC))
     else Some False)"

definition find_dir_entry :: "reading \<Rightarrow> Superblock \<Rightarrow> u64 \<Rightarrow> bytes \<Rightarrow>
    (ReadError, (u64 \<times> u8) option) outcome" where
  "find_dir_entry dev sb dir_ino target =
    bindE (read_inode dev sb dir_ino (unat (sb_inode_size sb))) id (\<lambda>(inode, scratch).
      if di_mode inode AND 0xf000 \<noteq> 0x4000
      then Err (RParse (InvalidField ''mode'' (ucast (di_mode inode))))
      else case di_format inode of
        Local \<Rightarrow> do {
          data \<leftarrow> get_range scratch 176 (length scratch);
          bindE (DirSfHeader_parse data) RParse (\<lambda>(hdr, pos).
            if target = str_dot then Ok (Some (dir_ino, 2))
            else if target = str_dotdot then Ok (Some (sf_parent hdr, 2))
            else sf_find data (sf_i8count hdr) (has_incompat_feature sb XFS_SB_FEAT_INCOMPAT_FTYPE)
                   target (unat (sf_count hdr)) pos) }
      | Extents \<Rightarrow>
          bindE (read_extent_payload dev sb inode scratch (di_size inode)) id (\<lambda>data. do {
            ext \<leftarrow> has_extent_dir_magic data;
            if ext then find_extent_dir_entry data dir_ino target
            else if target = str_dot \<or> target = str_dotdot then Ok (Some (dir_ino, 2))
            else Ok None })
      | _ \<Rightarrow> Ok None)"

definition list_dir_entries :: "reading \<Rightarrow> Superblock \<Rightarrow> u64 \<Rightarrow> (ReadError, DirEntry list) outcome" where
  "list_dir_entries dev sb ino_num =
    bindE (read_inode dev sb ino_num (unat (sb_inode_size sb))) id (\<lambda>(inode, scratch).
      if di_mode inode AND 0xf000 \<noteq> 0x4000
      then Err (RParse (InvalidField ''mode'' (ucast (di_mode inode))))
      else case di_format inode of
        Local \<Rightarrow> do {
          data \<leftarrow> get_range scratch 176 (length scratch);
          bindE (DirSfHeader_parse data) RParse (\<lambda>(hdr, pos).
          bindE (sf_list data (sf_i8count hdr) (has_incompat_feature sb XFS_SB_FEAT_INCOMPAT_FTYPE)
                   (unat (sf_count hdr)) pos) id (\<lambda>es.
            Ok (\<lparr>de_ino = ino_num, de_name = str_dot, de_ftype = 2\<rparr> #
                \<lparr>de_ino = sf_parent hdr, de_name = str_dotdot, de_ftype = 2\<rparr> # es))) }
      | Extents \<Rightarrow>
          bindE (read_extent_payload dev sb inode scratch (di_size inode)) id (\<lambda>data. do {
            ext \<leftarrow> has_extent_dir_magic data;
            if ext then parse_extent_dir_entries data ino_num
            else Ok [\<lparr>de_ino = ino_num, de_name = str_dot, de_ftype = 2\<rparr>,
                     \<lparr>de_ino = ino_num, de_name = str_dotdot, de_ftype = 2\<rparr>] })
      | _ \<Rightarrow> Ok [])"

section \<open>Lemmas\<close>

lemma inode_offset_ag0:
  fixes sb :: Superblock and ino :: u64
  defines "a \<equiv> unat (sb_agblklog sb)" and "i \<equiv> unat (sb_inopblog sb)"
    and "bs \<equiv> unat (sb_block_size sb)" and "N \<equiv> unat ino"
  assumes ai: "a + i < 64" and N: "N < 2 ^ (a + i)" and count: "0 < sb_ag_count sb"
    and range: "N div 2 ^ i * bs + N mod 2 ^ i * unat (sb_inode_size sb) < 2 ^ 64"
  shows "inode_offset sb ino = Ok (of_nat (N div 2 ^ i * bs + N mod 2 ^ i * unat (sb_inode_size sb)))"
proof -
  have hi: "N div 2 ^ (a + i) = 0" using N by simp
  have "N div 2 ^ i < 2 ^ a" using N by (simp add: power_add div_less_iff_less_mult)
  then have blk: "N div 2 ^ i mod 2 ^ a = N div 2 ^ i" by simp
  have bound: "N div 2 ^ i < 2 ^ 64" "N mod 2 ^ i < 2 ^ 64"
    using unat_div_pow[of ino i] unat_mod_pow[of ino i] by (simp_all add: N_def)
  have r: "N div 2 ^ i * bs < 2 ^ 64" "N mod 2 ^ i * unat (sb_inode_size sb) < 2 ^ 64" using range by linarith+
  have start: "ag_start sb 0 = Ok 0"
    using count by (auto simp: ag_start_def sat_mul_def)
  show ?thesis
    using ai hi blk bound r range
    by (simp add: inode_offset_def a_def[symmetric] i_def[symmetric] cshr_eq cshl_1 csub_pow_1 and_mask_eq
        Let_def N_def[symmetric] bs_def[symmetric] cmul_of_nat cadd_of_nat start
        del: of_nat_add of_nat_mult)
qed

end
