(* ===== verification/Rust_Coll.thy ===== *)
theory Rust_Coll
  imports Prelude
begin

text \<open>
  The standard collections the kernel uses, as lists.  A \<^verbatim>\<open>Vec\<close> is a list whose indexing panics
  outside its bounds.  A \<^verbatim>\<open>BTreeMap\<close> is an association list in ascending order of its keys, so that
  equal maps are equal lists and iteration follows the list; lookup is \<^const>\<open>map_of\<close>.
\<close>

section \<open>Vectors\<close>

definition vec_get :: "'a list \<Rightarrow> nat \<Rightarrow> 'a exec" where
  "vec_get xs i = (if i < length xs then Some (xs ! i) else None)"

definition vec_set :: "nat \<Rightarrow> 'a \<Rightarrow> 'a list \<Rightarrow> 'a list exec" where
  "vec_set i x xs = (if i < length xs then Some (xs[i := x]) else None)"

definition vec_pop :: "'a list \<Rightarrow> ('a \<times> 'a list) option" where
  "vec_pop xs = (if xs = [] then None else Some (last xs, butlast xs))"

lemma vec_get_Some [exec_simps]: "i < length xs \<Longrightarrow> vec_get xs i = Some (xs ! i)"
  by (simp add: vec_get_def)

lemma vec_set_Some [exec_simps]: "i < length xs \<Longrightarrow> vec_set i x xs = Some (xs[i := x])"
  by (simp add: vec_set_def)

lemma vec_get_None: "vec_get xs i = None \<longleftrightarrow> length xs \<le> i"
  by (auto simp: vec_get_def)

lemma vec_get_iff: "vec_get xs i = Some x \<longleftrightarrow> i < length xs \<and> x = xs ! i"
  by (auto simp: vec_get_def)

lemma vec_pop_iff: "vec_pop xs = Some (x, ys) \<longleftrightarrow> xs = ys @ [x]"
  by (auto simp: vec_pop_def)

lemma vec_pop_None: "vec_pop xs = None \<longleftrightarrow> xs = []"
  by (simp add: vec_pop_def)

text \<open>\<^verbatim>\<open>iter().position(p)\<close>: the first index whose element satisfies the predicate.\<close>

fun position :: "('a \<Rightarrow> bool) \<Rightarrow> 'a list \<Rightarrow> nat option" where
  "position P [] = None" |
  "position P (x # xs) = (if P x then Some 0 else map_option Suc (position P xs))"

lemma position_None: "position P xs = None \<longleftrightarrow> (\<forall>x \<in> set xs. \<not> P x)"
  by (induction xs) auto

lemma position_Some: "position P xs = Some i \<Longrightarrow> i < length xs \<and> P (xs ! i) \<and> (\<forall>j < i. \<not> P (xs ! j))"
proof (induction xs arbitrary: i)
  case (Cons x xs)
  show ?case
  proof (cases "P x")
    case False
    then obtain k where "position P xs = Some k" "i = Suc k" using Cons.prems by auto
    with Cons.IH[of k] False show ?thesis by (auto simp: less_Suc_eq_0_disj)
  qed (use Cons.prems in auto)
qed simp

text \<open>\<^verbatim>\<open>remove(index)\<close> of the first element equal to \<open>x\<close>, if there is one, is \<^const>\<open>remove1\<close>.\<close>

definition remove_at :: "nat \<Rightarrow> 'a list \<Rightarrow> 'a list" where
  "remove_at i xs = take i xs @ drop (Suc i) xs"

lemma remove_at_position:
  "(case position (\<lambda>y. y = x) xs of None \<Rightarrow> xs | Some i \<Rightarrow> remove_at i xs) = remove1 x xs"
proof (induction xs)
  case (Cons y ys)
  then show ?case
    by (cases "y = x"; cases "position (\<lambda>y. y = x) ys") (auto simp: remove_at_def)
qed simp

section \<open>Ordered maps\<close>

type_synonym ('k, 'v) btree = "('k \<times> 'v) list"

fun bt_insert :: "'k::linorder \<Rightarrow> 'v \<Rightarrow> ('k, 'v) btree \<Rightarrow> ('k, 'v) btree" where
  "bt_insert k v [] = [(k, v)]" |
  "bt_insert k v ((k', v') # m) =
    (if k < k' then (k, v) # (k', v') # m
     else if k = k' then (k, v) # m
     else (k', v') # bt_insert k v m)"

definition bt_remove :: "'k \<Rightarrow> ('k, 'v) btree \<Rightarrow> ('k, 'v) btree" where
  "bt_remove k m = filter (\<lambda>e. fst e \<noteq> k) m"

definition bt_wf :: "('k::linorder, 'v) btree \<Rightarrow> bool" where
  "bt_wf m = sorted_wrt (<) (map fst m)"

lemma map_of_bt_insert [simp]: "map_of (bt_insert k v m) = (map_of m)(k \<mapsto> v)"
  by (induction k v m rule: bt_insert.induct) (auto simp: fun_eq_iff)

lemma map_of_bt_remove [simp]: "map_of (bt_remove k m) = (map_of m)(k := None)"
  by (induction m) (auto simp: bt_remove_def fun_eq_iff)

lemma fst_set_bt_insert: "fst ` set (bt_insert k v m) = insert k (fst ` set m)"
  by (induction k v m rule: bt_insert.induct) auto

lemma bt_wf_empty [simp]: "bt_wf []"
  by (simp add: bt_wf_def)

lemma bt_wf_insert [simp]: "bt_wf m \<Longrightarrow> bt_wf (bt_insert k v m)"
proof (induction k v m rule: bt_insert.induct)
  case (2 k v k' v' m)
  have wf: "bt_wf m" using 2(2) by (simp add: bt_wf_def)
  have keys: "fst ` set (bt_insert k v m) = insert k (fst ` set m)" by (rule fst_set_bt_insert)
  consider "k < k'" | "k = k'" | "k' < k" by fastforce
  then show ?case
  proof cases
    case 3
    then have "bt_wf (bt_insert k v m)" using 2(1) wf by auto
    moreover have "\<forall>x \<in> fst ` set (bt_insert k v m). k' < x"
      using 2(2) 3 unfolding keys by (auto simp: bt_wf_def)
    ultimately show ?thesis using 3 by (auto simp: bt_wf_def)
  qed (use 2(2) in \<open>auto simp: bt_wf_def\<close>)
qed (simp add: bt_wf_def)

lemma bt_wf_remove [simp]: "bt_wf m \<Longrightarrow> bt_wf (bt_remove k m)"
  by (induction m) (auto simp: bt_wf_def bt_remove_def)

lemma bt_wf_distinct: "bt_wf m \<Longrightarrow> distinct (map fst m)"
  by (simp add: bt_wf_def strict_sorted_iff)

lemma bt_wf_mem: "bt_wf m \<Longrightarrow> (k, v) \<in> set m \<longleftrightarrow> map_of m k = Some v"
  by (auto dest: map_of_SomeD simp: bt_wf_distinct)

lemma bt_ext: "bt_wf m \<Longrightarrow> bt_wf m' \<Longrightarrow> map_of m = map_of m' \<Longrightarrow> m = m'"
proof -
  assume wf: "bt_wf m" "bt_wf m'" and eq: "map_of m = map_of m'"
  have "set m = set m'" using wf eq by (auto simp: bt_wf_mem)
  moreover have "inj_on fst (set m \<union> set m')"
    using bt_wf_distinct[OF wf(1)] bt_wf_distinct[OF wf(2)] \<open>set m = set m'\<close> by (simp add: distinct_map)
  ultimately show "m = m'"
    using wf by (intro map_sorted_distinct_set_unique[of fst]) (auto simp: bt_wf_def strict_sorted_iff)
qed

lemma length_bt_insert:
  "bt_wf m \<Longrightarrow> length (bt_insert k v m) = (if map_of m k = None then Suc (length m) else length m)"
  by (metis (no_types, lifting) bt_wf_distinct bt_wf_insert distinct_card length_map list.set_map
      fst_set_bt_insert card_insert_if finite_set finite_imageI map_of_eq_None_iff)

end
