(* ===== verification/Rust_Path.thy ===== *)
theory Rust_Path
  imports Rust_Str
begin

text \<open>
  What the sources use of string slices: literals, prefixes, trimming and splitting at an ASCII character.  Strings are
  their UTF-8 bytes; an ASCII byte never occurs inside the encoding of another character, so a search for
  an ASCII character is a search for its byte.
\<close>

definition lit :: "string \<Rightarrow> bytes" where
  "lit s = map of_char s"

lemma lit_Nil [simp]: "lit [] = []"
  by (simp add: lit_def)

lemma lit_Cons [simp]: "lit (c # s) = of_char c # lit s"
  by (simp add: lit_def)

abbreviation (input) slash :: u8 where "slash \<equiv> 0x2f"
abbreviation (input) backslash :: u8 where "backslash \<equiv> 0x5c"

definition starts_with :: "bytes \<Rightarrow> bytes \<Rightarrow> bool" where
  "starts_with s p \<longleftrightarrow> take (length p) s = p"

definition ends_with :: "bytes \<Rightarrow> bytes \<Rightarrow> bool" where
  "ends_with s p \<longleftrightarrow> length p \<le> length s \<and> drop (length s - length p) s = p"

text \<open>\<^verbatim>\<open>trim_start_matches(c)\<close> and \<^verbatim>\<open>find(c)\<close>.\<close>

definition trim_start :: "u8 \<Rightarrow> bytes \<Rightarrow> bytes" where
  "trim_start c s = dropWhile (\<lambda>b. b = c) s"

text \<open>What comes before the first \<open>c\<close>, and what comes behind it where there is one: \<^verbatim>\<open>split_once(c)\<close>.\<close>

definition before :: "u8 \<Rightarrow> bytes \<Rightarrow> bytes" where
  "before c s = takeWhile (\<lambda>b. b \<noteq> c) s"

definition behind :: "u8 \<Rightarrow> bytes \<Rightarrow> bytes" where
  "behind c s = drop (Suc (length (before c s))) s"

lemma starts_with_iff: "starts_with s p \<longleftrightarrow> (\<exists>t. s = p @ t)"
  unfolding starts_with_def by (metis append_eq_conv_conj append_take_drop_id)

lemma starts_with_append [simp]: "starts_with (p @ t) p"
  by (auto simp: starts_with_iff)

lemma starts_with_Cons [simp]: "starts_with s [c] \<longleftrightarrow> s \<noteq> [] \<and> hd s = c"
  by (cases s) (auto simp: starts_with_def)

lemma ends_with_one [simp]: "ends_with s [c] \<longleftrightarrow> s \<noteq> [] \<and> last s = c"
  by (cases s rule: rev_cases) (auto simp: ends_with_def)

lemma length_trim_start: "length (trim_start c s) \<le> length s"
  by (simp add: trim_start_def length_dropWhile_le)

lemma trim_start_hd: "trim_start c s = [] \<or> hd (trim_start c s) \<noteq> c"
  by (induction s) (simp_all add: trim_start_def)

lemma trim_start_other [simp]: "s = [] \<or> hd s \<noteq> c \<Longrightarrow> trim_start c s = s"
  by (cases s) (simp_all add: trim_start_def)

lemma trim_start_skip [simp]: "trim_start c (c # s) = trim_start c s"
  by (simp add: trim_start_def)

lemma before_append: "c \<notin> set s \<Longrightarrow> before c (s @ c # t) = s"
  by (induction s) (auto simp: before_def)

lemma behind_append: "c \<notin> set s \<Longrightarrow> behind c (s @ c # t) = t"
  by (simp add: behind_def before_append)

lemma before_none: "c \<notin> set s \<Longrightarrow> before c s = s"
  by (auto simp: before_def takeWhile_eq_all_conv)

lemma behind_none: "c \<notin> set s \<Longrightarrow> behind c s = []"
  by (simp add: behind_def before_none)

lemma before_split: "c \<in> set s \<Longrightarrow> s = before c s @ c # behind c s"
  by (induction s) (auto simp: before_def behind_def)

lemma length_behind: "s \<noteq> [] \<Longrightarrow> length (behind c s) < length s"
  by (cases s) (auto simp: behind_def)

end
