(* ===== verification/Serial.thy ===== *)
theory Serial
  imports Rust_Path
begin

text \<open>
  The serial line of \<^verbatim>\<open>kernel/serial.rs\<close>.  The hardware is the stream of answers the receiver gives to
  successive looks at the line status (\<^const>\<open>None\<close>: nothing received yet) and the list of the
  register writes.  The transmitter is taken to accept every byte after a finite wait, so \<^verbatim>\<open>send\<close> is its
  write.  A blocking read on a line that never receives anything does not return; its value
  is then \<^const>\<open>None\<close>.
\<close>

abbreviation (input) TTY_LFLAG_ECHO :: u32 where "TTY_LFLAG_ECHO \<equiv> 8"
abbreviation (input) DEFAULT_TTY_IFLAG :: u32 where "DEFAULT_TTY_IFLAG \<equiv> 0x500"
abbreviation (input) DEFAULT_TTY_OFLAG :: u32 where "DEFAULT_TTY_OFLAG \<equiv> 5"
abbreviation (input) DEFAULT_TTY_CFLAG :: u32 where "DEFAULT_TTY_CFLAG \<equiv> 0xbf"
abbreviation (input) DEFAULT_TTY_LFLAG :: u32 where "DEFAULT_TTY_LFLAG \<equiv> 0x8a3b"

record SerialPort =
  sp_polls :: "u8 option list"
  sp_writes :: "(u16 \<times> u8) list"

record SerialState =
  se_port :: SerialPort
  se_ready :: bool
  tty_iflag :: u32
  tty_oflag :: u32
  tty_cflag :: u32
  tty_lflag :: u32

definition port_write :: "u16 \<Rightarrow> u8 \<Rightarrow> SerialPort \<Rightarrow> SerialPort" where
  "port_write r b s = s\<lparr>sp_writes := sp_writes s @ [(r, b)]\<rparr>"

definition SerialPort_init :: "SerialPort \<Rightarrow> SerialPort" where
  "SerialPort_init s =
     port_write 4 0x0b (port_write 2 0xc7 (port_write 3 0x03 (port_write 1 0 (port_write 0 0x03
       (port_write 3 0x80 (port_write 1 0 s))))))"

definition send :: "u8 \<Rightarrow> SerialPort \<Rightarrow> SerialPort" where
  "send b s = port_write 0 b s"

definition received :: "SerialPort \<Rightarrow> bool \<times> SerialPort" where
  "received s =
    (case sp_polls s of
       [] \<Rightarrow> (False, s)
     | None # ps \<Rightarrow> (False, s\<lparr>sp_polls := ps\<rparr>)
     | Some b # ps \<Rightarrow> (True, s))"

definition receive :: "SerialPort \<Rightarrow> u8 option \<times> SerialPort" where
  "receive s =
    (case sp_polls s of
       [] \<Rightarrow> (None, s)
     | None # ps \<Rightarrow> (None, s\<lparr>sp_polls := ps\<rparr>)
     | Some b # ps \<Rightarrow> (Some b, s\<lparr>sp_polls := ps\<rparr>))"

definition write_str :: "bytes \<Rightarrow> SerialPort \<Rightarrow> SerialPort" where
  "write_str bs s = fold send bs s"

text \<open>\<^verbatim>\<open>SERIAL_READY.swap(true)\<close> guards the initialisation.\<close>

definition serial_ready :: "SerialState \<Rightarrow> SerialState" where
  "serial_ready s = (if se_ready s then s else s\<lparr>se_ready := True, se_port := SerialPort_init (se_port s)\<rparr>)"

definition serial_print :: "bytes \<Rightarrow> SerialState \<Rightarrow> SerialState" where
  "serial_print bs s = (let s = serial_ready s in s\<lparr>se_port := write_str bs (se_port s)\<rparr>)"

definition try_read_byte :: "SerialState \<Rightarrow> u8 option \<times> SerialState" where
  "try_read_byte s = (let s = serial_ready s; (r, p) = receive (se_port s) in (r, s\<lparr>se_port := p\<rparr>))"

definition has_input :: "SerialState \<Rightarrow> bool \<times> SerialState" where
  "has_input s = (let s = serial_ready s; (r, p) = received (se_port s) in (r, s\<lparr>se_port := p\<rparr>))"

fun wait_byte :: "u8 option list \<Rightarrow> (u8 \<times> u8 option list) option" where
  "wait_byte [] = None" |
  "wait_byte (None # ps) = wait_byte ps" |
  "wait_byte (Some b # ps) = Some (b, ps)"

definition read_byte_blocking :: "SerialState \<Rightarrow> (u8 \<times> SerialState) option" where
  "read_byte_blocking s =
    (let s = serial_ready s in
     case wait_byte (sp_polls (se_port s)) of
       None \<Rightarrow> None
     | Some (b, ps) \<Rightarrow> Some (b, s\<lparr>se_port := (se_port s)\<lparr>sp_polls := ps\<rparr>\<rparr>))"

definition set_tty_termios :: "u32 \<Rightarrow> u32 \<Rightarrow> u32 \<Rightarrow> u32 \<Rightarrow> SerialState \<Rightarrow> SerialState" where
  "set_tty_termios i ofl c l s = s\<lparr>tty_iflag := i, tty_oflag := ofl, tty_cflag := c, tty_lflag := l\<rparr>"

definition tty_echo_enabled :: "SerialState \<Rightarrow> bool" where
  "tty_echo_enabled s \<longleftrightarrow> tty_lflag s AND TTY_LFLAG_ECHO \<noteq> 0"

text \<open>\<^verbatim>\<open>byte as char\<close>, printed: one byte below 0x80, the two-byte encoding from there on.\<close>

definition char_bytes :: "u8 \<Rightarrow> bytes" where
  "char_bytes b = (if b < 0x80 then [b] else [0xc0 OR drop_bit 6 b, 0x80 OR (b AND 0x3f)])"

definition echo_input_byte :: "u8 \<Rightarrow> SerialState \<Rightarrow> SerialState" where
  "echo_input_byte b s =
    (if \<not> tty_echo_enabled s then s
     else if b = 0x08 \<or> b = 0x7f then serial_print [0x08, 0x20, 0x08] s
     else if b = 0x0a then serial_print [0x0a] s
     else serial_print (char_bytes b) s)"

text \<open>The bytes the line has still to deliver.\<close>

definition line_input :: "SerialState \<Rightarrow> bytes" where
  "line_input s = concat (map (\<lambda>p. case p of None \<Rightarrow> [] | Some b \<Rightarrow> [b]) (sp_polls (se_port s)))"

lemma write_str_polls [simp]: "sp_polls (write_str bs p) = sp_polls p"
  unfolding write_str_def by (induction bs arbitrary: p) (simp_all add: send_def port_write_def)

lemma serial_ready_polls [simp]: "sp_polls (se_port (serial_ready s)) = sp_polls (se_port s)"
  by (simp add: serial_ready_def SerialPort_init_def port_write_def)

lemma line_input_ready [simp]: "line_input (serial_ready s) = line_input s"
  by (simp add: line_input_def)

lemma line_input_print [simp]: "line_input (serial_print bs s) = line_input s"
  by (simp add: serial_print_def line_input_def Let_def)

lemma line_input_echo [simp]: "line_input (echo_input_byte b s) = line_input s"
  by (simp add: echo_input_byte_def)

lemma try_read_byte_input:
  "try_read_byte s = (Some b, s') \<Longrightarrow> line_input s = b # line_input s'"
  "try_read_byte s = (None, s') \<Longrightarrow> line_input s' = line_input s"
  by (auto simp: try_read_byte_def receive_def line_input_def Let_def split: list.splits option.splits prod.splits)

lemma wait_byte_input:
  "wait_byte ps = Some (b, ps') \<Longrightarrow> concat (map (\<lambda>p. case p of None \<Rightarrow> [] | Some b \<Rightarrow> [b]) ps) =
     b # concat (map (\<lambda>p. case p of None \<Rightarrow> [] | Some b \<Rightarrow> [b]) ps')"
  by (induction ps rule: wait_byte.induct) auto

lemma read_byte_blocking_input: "read_byte_blocking s = Some (b, s') \<Longrightarrow> line_input s = b # line_input s'"
  by (auto simp: read_byte_blocking_def line_input_def Let_def dest!: wait_byte_input split: option.splits)

lemma wait_byte_returns: "wait_byte ps = None \<longleftrightarrow> concat (map (\<lambda>p. case p of None \<Rightarrow> [] | Some b \<Rightarrow> [b]) ps) = []"
  by (induction ps rule: wait_byte.induct) auto

lemma read_byte_blocking_returns: "read_byte_blocking s = None \<longleftrightarrow> line_input s = []"
  by (cases "wait_byte (sp_polls (se_port s))")
    (use wait_byte_returns[of "sp_polls (se_port s)"] in \<open>auto simp: read_byte_blocking_def line_input_def Let_def\<close>)

end
