(* ===== verification/Vfs.thy ===== *)
theory Vfs
  imports Crab_Reader Rust_Coll Serial
begin

text \<open>
  The virtual file system of \<^verbatim>\<open>kernel/vfs.rs\<close>: a table of open files over the reader of the root file
  system, the console and the pipes.  An operation takes the file system and returns its value with the file
  system afterwards; no error path of the source changes anything, so an error carries no state.  A
  \<^verbatim>\<open>&mut [u8]\<close> to be filled is its length, and the bytes copied to its front are the value.  The root device is read
  through the parameter of the reader theory.  The path caches are kept empty by the source and have no field.
\<close>

type_synonym i32 = "32 word"
type_synonym i64 = "64 word"

abbreviation (input) FILE_MAX_SLOTS :: nat where "FILE_MAX_SLOTS \<equiv> 64"
abbreviation (input) PIPE_CAPACITY :: nat where "PIPE_CAPACITY \<equiv> 65536"
abbreviation (input) POLLIN :: u16 where "POLLIN \<equiv> 1"
abbreviation (input) POLLOUT :: u16 where "POLLOUT \<equiv> 4"
abbreviation (input) POLLERR :: u16 where "POLLERR \<equiv> 8"
abbreviation (input) POLLHUP :: u16 where "POLLHUP \<equiv> 0x10"

datatype VfsError = NotMounted | NotFound | NotDirectory | InvalidPath | VfsIo | InvalidFd | WouldBlock | BrokenPipe

record FileStat =
  st_ino :: u64
  st_mode :: u16
  st_size :: u64

datatype SpecialFd = Stdin | Stdout | Stderr | Tty | Null | PipeRead u32 | PipeWrite u32

record OpenFile =
  of_ino :: u64
  of_offset :: u64
  of_fd_flags :: i32
  of_status_flags :: i32
  of_path :: bytes
  of_special :: "SpecialFd option"
  of_refs :: u64

record Pipe =
  pp_buf :: bytes
  pp_readers :: u64
  pp_writers :: u64

record Vfs =
  vf_dev :: reading
  vf_sb :: Superblock
  vf_files :: "OpenFile option list"
  vf_pipes :: "(u32, Pipe) btree"
  vf_next_pipe_id :: u32

section \<open>Paths\<close>

definition str_eq_lit :: "bytes \<Rightarrow> bytes \<Rightarrow> bool" where
  "str_eq_lit value l = bytes_eq value l"

fun lit_prefix :: "bytes \<Rightarrow> bytes \<Rightarrow> bool" where
  "lit_prefix s [] = True" |
  "lit_prefix [] (p # ps) = False" |
  "lit_prefix (b # s) (p # ps) = (if b \<noteq> p then False else lit_prefix s ps)"

definition str_starts_with_lit :: "bytes \<Rightarrow> bytes \<Rightarrow> bool" where
  "str_starts_with_lit value p = (if length value < length p then False else lit_prefix value p)"

definition normalize_path :: "bytes \<Rightarrow> bytes" where
  "normalize_path path =
    (let abs = (if starts_with path [slash] then path else slash # path);
         merged =
           (if str_eq_lit abs (lit ''/lib'') \<or> str_starts_with_lit abs (lit ''/lib/'') then lit ''/usr/lib'' @ drop 4 abs
            else if str_eq_lit abs (lit ''/bin'') \<or> str_starts_with_lit abs (lit ''/bin/'') then lit ''/usr/bin'' @ drop 4 abs
            else if str_eq_lit abs (lit ''/sbin'') \<or> str_starts_with_lit abs (lit ''/sbin/'') then lit ''/usr/bin'' @ drop 5 abs
            else abs)
     in if str_eq_lit merged (lit ''/usr/lib/libtinfotw.so.6'') then lit ''/usr/lib/libtinfotw.so.6.5'' else merged)"

definition split_first_component :: "bytes \<Rightarrow> bytes \<times> bytes" where
  "split_first_component path =
    (let trimmed = trim_start slash path in
     if trimmed = [] then ([], [])
     else if slash \<in> set trimmed then (before slash trimmed, trim_start slash (behind slash trimmed))
     else (trimmed, []))"

lemma split_first_shorter:
  assumes "(part, rest) = split_first_component path" "path \<noteq> []"
  shows "length rest < length path"
proof (cases "trim_start slash path = []")
  case False
  have "length (trim_start slash (behind slash (trim_start slash path))) < length (trim_start slash path)"
    using length_behind[OF False] length_trim_start by (metis le_less_trans)
  then show ?thesis using assms False length_trim_start[of slash path]
    by (auto simp: split_first_component_def Let_def split: if_splits)
qed (use assms in \<open>simp add: split_first_component_def\<close>)

section \<open>Reading the root file system\<close>

definition vfs_read_inode :: "reading \<Rightarrow> Superblock \<Rightarrow> u64 \<Rightarrow> (VfsError, Inode) outcome" where
  "vfs_read_inode dev sb ino =
     bindE (read_inode dev sb ino (unat (sb_inode_size sb))) (\<lambda>_. VfsIo) (\<lambda>(inode, scratch). Ok inode)"

definition size_u32 :: "Inode \<Rightarrow> u32" where
  "size_u32 inode = (if sint (di_size inode) < 0 then 0 else ucast (di_size inode))"

definition read_symlink_inode :: "reading \<Rightarrow> Superblock \<Rightarrow> u64 \<Rightarrow> (VfsError, bytes) outcome" where
  "read_symlink_inode dev sb ino =
     bindE (vfs_read_inode dev sb ino) id (\<lambda>inode.
     bindE (read_file_data dev sb ino 0 (size_u32 inode)) (\<lambda>_. VfsIo) (\<lambda>data. Ok (from_utf8_lossy data)))"

definition resolve_link :: "bytes \<Rightarrow> bytes \<Rightarrow> bytes \<Rightarrow> bytes" where
  "resolve_link prefix target rest =
    (let resolved = (if starts_with target [slash] then target
                     else (if ends_with prefix [slash] then prefix else prefix @ [slash]) @ target)
     in if rest = [] then resolved
        else (if ends_with resolved [slash] then resolved else resolved @ [slash]) @ rest)"

function lookup_path_inner :: "reading \<Rightarrow> Superblock \<Rightarrow> bytes \<Rightarrow> bool \<Rightarrow> nat \<Rightarrow> (VfsError, u64) outcome"
  and lookup_walk :: "reading \<Rightarrow> Superblock \<Rightarrow> u64 \<Rightarrow> bytes \<Rightarrow> bytes \<Rightarrow> bool \<Rightarrow> nat \<Rightarrow> (VfsError, u64) outcome" where
  "lookup_path_inner dev sb path follow_final depth =
    (if depth > 16 then Err InvalidPath
     else if path = [] \<or> \<not> starts_with path [slash] then Err InvalidPath
     else lookup_walk dev sb (sb_rootino sb) [slash] (trim_start slash path) follow_final depth)" |
  "lookup_walk dev sb cur prefix remaining follow_final depth =
    (if remaining = [] then Ok cur
     else let (part, rest) = split_first_component remaining in
       bindE (find_dir_entry dev sb cur part) (\<lambda>_. VfsIo) (\<lambda>entry.
       case entry of
         None \<Rightarrow> Err NotFound
       | Some (next_ino, _) \<Rightarrow>
           bindE (vfs_read_inode dev sb next_ino) id (\<lambda>inode.
           if di_mode inode AND 0xf000 = 0xa000 \<and> (follow_final \<or> rest \<noteq> [])
           then bindE (read_symlink_inode dev sb next_ino) id (\<lambda>target.
             lookup_path_inner dev sb (resolve_link prefix target rest) follow_final (depth + 1))
           else if rest = [] then Ok next_ino
           else lookup_walk dev sb next_ino
             ((if prefix \<noteq> [slash] then prefix @ [slash] else prefix) @ part) rest follow_final depth)))"
  by pat_completeness auto

text \<open>Every followed link costs one of seventeen levels, and between two links the path gets shorter.\<close>

termination
proof (relation "measures [\<lambda>x. case x of Inl (dev, sb, path, follow, depth) \<Rightarrow> (if depth > 16 then 0 else 18 - depth)
      | Inr (dev, sb, cur, prefix, remaining, follow, depth) \<Rightarrow> (if depth > 16 then 1 else 18 - depth),
    \<lambda>x. case x of Inl (dev, sb, path, follow, depth) \<Rightarrow> Suc (length path)
      | Inr (dev, sb, cur, prefix, remaining, follow, depth) \<Rightarrow> length remaining]", goal_cases)
  case (2 dev sb path follow_final depth)
  then show ?case using length_trim_start[of slash path] by (simp add: less_Suc_eq_le)
next
  case (4 dev sb cur prefix remaining follow_final depth x part rest)
  then show ?case using split_first_shorter[of part rest remaining] by simp
qed auto

declare lookup_path_inner.simps [simp del] lookup_walk.simps [simp del]

definition Vfs_lookup_path :: "bytes \<Rightarrow> Vfs \<Rightarrow> (VfsError, u64) outcome" where
  "Vfs_lookup_path path v = lookup_path_inner (vf_dev v) (vf_sb v) (normalize_path path) True 0"

definition Vfs_lookup_path_nofollow :: "bytes \<Rightarrow> Vfs \<Rightarrow> (VfsError, u64) outcome" where
  "Vfs_lookup_path_nofollow path v = lookup_path_inner (vf_dev v) (vf_sb v) (normalize_path path) False 0"

definition Vfs_readlink :: "bytes \<Rightarrow> Vfs \<Rightarrow> (VfsError, bytes) outcome" where
  "Vfs_readlink path v =
     bindE (Vfs_lookup_path_nofollow path v) id (\<lambda>ino. read_symlink_inode (vf_dev v) (vf_sb v) ino)"

definition Vfs_read_all :: "bytes \<Rightarrow> Vfs \<Rightarrow> (VfsError, bytes) outcome" where
  "Vfs_read_all path v =
     bindE (Vfs_lookup_path path v) id (\<lambda>ino.
     bindE (vfs_read_inode (vf_dev v) (vf_sb v) ino) id (\<lambda>inode.
     bindE (read_file_data (vf_dev v) (vf_sb v) ino 0 (size_u32 inode)) (\<lambda>_. VfsIo) Ok))"

definition Vfs_stat_path :: "bytes \<Rightarrow> bool \<Rightarrow> Vfs \<Rightarrow> (VfsError, FileStat) outcome" where
  "Vfs_stat_path path follow v =
     bindE (if follow then lookup_path_inner (vf_dev v) (vf_sb v) (normalize_path path) True 0
            else lookup_path_inner (vf_dev v) (vf_sb v) (normalize_path path) False 0) id (\<lambda>ino.
     bindE (vfs_read_inode (vf_dev v) (vf_sb v) ino) id (\<lambda>inode.
     Ok \<lparr>st_ino = ino, st_mode = di_mode inode, st_size = (if sint (di_size inode) < 0 then 0 else di_size inode)\<rparr>))"

section \<open>The table of open files\<close>

definition special_file :: "bytes \<Rightarrow> SpecialFd \<Rightarrow> OpenFile" where
  "special_file path special = \<lparr>of_ino = 0, of_offset = 0, of_fd_flags = 0, of_status_flags = 0, of_path = path,
     of_special = Some special, of_refs = 1\<rparr>"

definition Vfs_mount :: "reading \<Rightarrow> (VfsError, Vfs) outcome" where
  "Vfs_mount dev =
     bindE (read_superblock dev) (\<lambda>_. VfsIo) (\<lambda>sb.
     Ok \<lparr>vf_dev = dev, vf_sb = sb,
       vf_files = (replicate FILE_MAX_SLOTS None)
         [0 := Some (special_file (lit ''/dev/stdin'') Stdin),
          1 := Some (special_file (lit ''/dev/stdout'') Stdout),
          2 := Some (special_file (lit ''/dev/stderr'') Stderr)],
       vf_pipes = [], vf_next_pipe_id = 1\<rparr>)"

text \<open>\<^verbatim>\<open>usize::try_from(fd)\<close>: a negative descriptor is none.\<close>

definition fd_slot :: "i32 \<Rightarrow> (VfsError, nat) outcome" where
  "fd_slot fd = (if sint fd < 0 then Err InvalidFd else Ok (unat fd))"

definition Vfs_file :: "i32 \<Rightarrow> Vfs \<Rightarrow> (VfsError, OpenFile) outcome" where
  "Vfs_file fd v =
     bindE (fd_slot fd) id (\<lambda>slot.
     if slot < length (vf_files v) then case vf_files v ! slot of None \<Rightarrow> Err InvalidFd | Some f \<Rightarrow> Ok f
     else Err InvalidFd)"

text \<open>\<^verbatim>\<open>file_mut\<close> with the assignment made through it.\<close>

definition Vfs_file_mut :: "i32 \<Rightarrow> (OpenFile \<Rightarrow> OpenFile) \<Rightarrow> Vfs \<Rightarrow> (VfsError, Vfs) outcome" where
  "Vfs_file_mut fd upd v =
     bindE (Vfs_file fd v) id (\<lambda>f. Ok (v\<lparr>vf_files := (vf_files v)[unat fd := Some (upd f)]\<rparr>))"

definition alloc_fd_slot :: "Vfs \<Rightarrow> (VfsError, nat) outcome" where
  "alloc_fd_slot v = (case position (\<lambda>f. f = None) (vf_files v) of None \<Rightarrow> Err InvalidFd | Some slot \<Rightarrow> Ok slot)"

definition alloc_fd_slot_from :: "nat \<Rightarrow> Vfs \<Rightarrow> (VfsError, nat) outcome" where
  "alloc_fd_slot_from start v =
    (case position (\<lambda>f. f = None) (drop start (vf_files v)) of None \<Rightarrow> Err InvalidFd | Some i \<Rightarrow> Ok (start + i))"

definition special_path :: "bytes \<Rightarrow> bool" where
  "special_path path \<longleftrightarrow> str_eq_lit path (lit ''/dev/stdin'') \<or> str_eq_lit path (lit ''/dev/stdout'') \<or>
     str_eq_lit path (lit ''/dev/stderr'') \<or> str_eq_lit path (lit ''/dev/tty'') \<or> str_eq_lit path (lit ''/dev/null'')"

definition special_of_path :: "bytes \<Rightarrow> SpecialFd" where
  "special_of_path path =
    (if str_eq_lit path (lit ''/dev/stdin'') then Stdin
     else if str_eq_lit path (lit ''/dev/stdout'') then Stdout
     else if str_eq_lit path (lit ''/dev/tty'') then Tty
     else if str_eq_lit path (lit ''/dev/null'') then Null
     else Stderr)"

definition Vfs_open :: "bytes \<Rightarrow> i32 \<Rightarrow> Vfs \<Rightarrow> (VfsError, i32 \<times> Vfs) outcome" where
  "Vfs_open path flags v =
    (if str_eq_lit path (lit ''/usr/etc/ld-musl-x86_64.path'') then Err NotFound
     else if special_path path
     then bindE (alloc_fd_slot v) id (\<lambda>slot.
       Ok (of_nat slot, v\<lparr>vf_files := (vf_files v)[slot :=
         Some ((special_file path (special_of_path path))\<lparr>of_status_flags := flags\<rparr>)]\<rparr>))
     else let normalized = normalize_path path in
       bindE (lookup_path_inner (vf_dev v) (vf_sb v) normalized True 0) id (\<lambda>ino.
       bindE (alloc_fd_slot v) id (\<lambda>slot.
       Ok (of_nat slot, v\<lparr>vf_files := (vf_files v)[slot := Some
         \<lparr>of_ino = ino, of_offset = 0, of_fd_flags = 0, of_status_flags = flags, of_path = normalized,
          of_special = None, of_refs = 1\<rparr>]\<rparr>))))"

section \<open>Pipes\<close>

definition create_pipe :: "Vfs \<Rightarrow> (VfsError, (i32 \<times> i32) \<times> Vfs) outcome" where
  "create_pipe v =
     bindE (alloc_fd_slot v) id (\<lambda>rslot.
     bindE (alloc_fd_slot_from (rslot + 1) v) id (\<lambda>wslot.
     let pipe_id = vf_next_pipe_id v in
     Ok ((of_nat rslot, of_nat wslot), v\<lparr>
       vf_next_pipe_id := max (pipe_id + 1) 1,
       vf_pipes := bt_insert pipe_id \<lparr>pp_buf = [], pp_readers = 1, pp_writers = 1\<rparr> (vf_pipes v),
       vf_files := (vf_files v)[rslot := Some (special_file (lit ''[pipe]'') (PipeRead pipe_id)),
         wslot := Some ((special_file (lit ''[pipe]'') (PipeWrite pipe_id))\<lparr>of_status_flags := 1\<rparr>)]\<rparr>)))"

definition read_pipe :: "u32 \<Rightarrow> nat \<Rightarrow> Vfs \<Rightarrow> (VfsError, bytes \<times> Vfs) outcome" where
  "read_pipe pipe_id n v =
    (if n = 0 then Ok ([], v)
     else case map_of (vf_pipes v) pipe_id of
       None \<Rightarrow> Err InvalidFd
     | Some pipe \<Rightarrow>
         if pp_buf pipe = [] then (if pp_writers pipe = 0 then Ok ([], v) else Err WouldBlock)
         else Ok (take n (pp_buf pipe),
           v\<lparr>vf_pipes := bt_insert pipe_id (pipe\<lparr>pp_buf := drop n (pp_buf pipe)\<rparr>) (vf_pipes v)\<rparr>))"

definition write_pipe :: "u32 \<Rightarrow> bytes \<Rightarrow> Vfs \<Rightarrow> (VfsError, nat \<times> Vfs) outcome" where
  "write_pipe pipe_id data v =
    (if data = [] then Ok (0, v)
     else case map_of (vf_pipes v) pipe_id of
       None \<Rightarrow> Err InvalidFd
     | Some pipe \<Rightarrow>
         if pp_readers pipe = 0 then Err BrokenPipe
         else if length (pp_buf pipe) \<ge> PIPE_CAPACITY then Err WouldBlock
         else let max_write = min (length data) (PIPE_CAPACITY - length (pp_buf pipe)) in
           Ok (max_write,
             v\<lparr>vf_pipes := bt_insert pipe_id (pipe\<lparr>pp_buf := pp_buf pipe @ take max_write data\<rparr>) (vf_pipes v)\<rparr>))"

text \<open>Dropping one end; the pipe goes when both counts are zero.\<close>

definition drop_pipe_end :: "u32 \<Rightarrow> (Pipe \<Rightarrow> Pipe) \<Rightarrow> Vfs \<Rightarrow> Vfs" where
  "drop_pipe_end pipe_id f v =
    (case map_of (vf_pipes v) pipe_id of
       None \<Rightarrow> v
     | Some pipe \<Rightarrow>
         let pipe = f pipe in
         if pp_readers pipe = 0 \<and> pp_writers pipe = 0 then v\<lparr>vf_pipes := bt_remove pipe_id (vf_pipes v)\<rparr>
         else v\<lparr>vf_pipes := bt_insert pipe_id pipe (vf_pipes v)\<rparr>)"

definition release_special :: "SpecialFd option \<Rightarrow> Vfs \<Rightarrow> Vfs" where
  "release_special special v =
    (case special of
       Some (PipeRead pipe_id) \<Rightarrow> drop_pipe_end pipe_id (\<lambda>p. p\<lparr>pp_readers := sat_sub (pp_readers p) 1\<rparr>) v
     | Some (PipeWrite pipe_id) \<Rightarrow> drop_pipe_end pipe_id (\<lambda>p. p\<lparr>pp_writers := sat_sub (pp_writers p) 1\<rparr>) v
     | _ \<Rightarrow> v)"

section \<open>Reading and writing\<close>

text \<open>The loop on the console: the first byte is waited for, the others are taken while they are there.\<close>

fun tty_loop :: "nat \<Rightarrow> bool \<Rightarrow> SerialState \<Rightarrow> (bytes \<times> SerialState) option" where
  "tty_loop 0 fresh s = Some ([], s)" |
  "tty_loop (Suc k) fresh s =
    (case (if fresh then map_option (\<lambda>(b, s). (Some b, s)) (read_byte_blocking s) else Some (try_read_byte s)) of
       None \<Rightarrow> None
     | Some (None, s) \<Rightarrow> Some ([], s)
     | Some (Some byte, s) \<Rightarrow>
         let byte = (if byte = 0x0d then 0x0a else byte); s = echo_input_byte byte s in
         if byte = 0x0a then Some ([byte], s)
         else do { (bs, s) \<leftarrow> tty_loop k False s; Some (byte # bs, s) })"

definition Vfs_read :: "i32 \<Rightarrow> nat \<Rightarrow> Vfs \<Rightarrow> SerialState \<Rightarrow> (VfsError, bytes \<times> Vfs \<times> SerialState) outcome" where
  "Vfs_read fd n v s =
     bindE (Vfs_file fd v) id (\<lambda>f.
     case of_special f of
       Some Null \<Rightarrow> Ok ([], v, s)
     | Some Stdin \<Rightarrow> do { (bs, s) \<leftarrow> tty_loop n True s; Ok (bs, v, s) }
     | Some Tty \<Rightarrow> do { (bs, s) \<leftarrow> tty_loop n True s; Ok (bs, v, s) }
     | Some (PipeRead pipe_id) \<Rightarrow> bindE (read_pipe pipe_id n v) id (\<lambda>(bs, v). Ok (bs, v, s))
     | Some (PipeWrite _) \<Rightarrow> Err InvalidFd
     | _ \<Rightarrow>
         bindE (read_file_data (vf_dev v) (vf_sb v) (of_ino f) (of_offset f) (of_nat n)) (\<lambda>_. VfsIo) (\<lambda>data.
         if length data > n then None
         else bindE (Vfs_file_mut fd (\<lambda>f. f\<lparr>of_offset := sat_add (of_offset f) (of_nat (length data))\<rparr>) v) id (\<lambda>v.
           Ok (data, v, s))))"

definition console_bytes :: "bytes \<Rightarrow> bytes" where
  "console_bytes data = (if utf8_valid data then data else concat (map char_bytes data))"

definition Vfs_write :: "i32 \<Rightarrow> bytes \<Rightarrow> Vfs \<Rightarrow> SerialState \<Rightarrow> (VfsError, nat \<times> Vfs \<times> SerialState) outcome" where
  "Vfs_write fd data v s =
     bindE (Vfs_file fd v) id (\<lambda>f.
     case of_special f of
       Some Stdin \<Rightarrow> Err InvalidFd
     | Some Null \<Rightarrow> Ok (length data, v, s)
     | Some (PipeWrite pipe_id) \<Rightarrow> bindE (write_pipe pipe_id data v) id (\<lambda>(n, v). Ok (n, v, s))
     | Some (PipeRead _) \<Rightarrow> Err InvalidFd
     | None \<Rightarrow> Err InvalidFd
     | Some _ \<Rightarrow> Ok (length data, v, serial_print (console_bytes data) s))"

definition Vfs_close :: "i32 \<Rightarrow> Vfs \<Rightarrow> (VfsError, unit \<times> Vfs) outcome" where
  "Vfs_close fd v =
     bindE (Vfs_file fd v) id (\<lambda>f.
     if of_refs f > 1 then Ok ((), v\<lparr>vf_files := (vf_files v)[unat fd := Some (f\<lparr>of_refs := of_refs f - 1\<rparr>)]\<rparr>)
     else Ok ((), release_special (of_special f) (v\<lparr>vf_files := (vf_files v)[unat fd := None]\<rparr>)))"

definition Vfs_fstat :: "i32 \<Rightarrow> Vfs \<Rightarrow> (VfsError, FileStat) outcome" where
  "Vfs_fstat fd v =
     bindE (Vfs_file fd v) id (\<lambda>f.
     case of_special f of
       Some (PipeRead _) \<Rightarrow> Ok \<lparr>st_ino = 0, st_mode = 0x1180, st_size = 0\<rparr>
     | Some (PipeWrite _) \<Rightarrow> Ok \<lparr>st_ino = 0, st_mode = 0x1180, st_size = 0\<rparr>
     | Some _ \<Rightarrow> Ok \<lparr>st_ino = 0, st_mode = 0x21b6, st_size = 0\<rparr>
     | None \<Rightarrow> bindE (vfs_read_inode (vf_dev v) (vf_sb v) (of_ino f)) id (\<lambda>inode.
         Ok \<lparr>st_ino = of_ino f, st_mode = di_mode inode, st_size = di_size inode\<rparr>))"

definition i64_sat :: "int \<Rightarrow> int" where
  "i64_sat x = max (- (2 ^ 63)) (min (2 ^ 63 - 1) x)"

definition Vfs_lseek :: "i32 \<Rightarrow> i64 \<Rightarrow> i32 \<Rightarrow> Vfs \<Rightarrow> (VfsError, u64 \<times> Vfs) outcome" where
  "Vfs_lseek fd offset whence v =
     bindE (Vfs_file fd v) id (\<lambda>f.
     bindE (if whence = 0 then Ok (sint offset)
            else if whence = 1 then Ok (i64_sat (sint (of_offset f) + sint offset))
            else if whence = 2
            then bindE (vfs_read_inode (vf_dev v) (vf_sb v) (of_ino f)) id (\<lambda>inode.
              Ok (i64_sat (sint (di_size inode) + sint offset)))
            else Err InvalidPath) id (\<lambda>new_off.
     if new_off < 0 then Err InvalidPath
     else bindE (Vfs_file_mut fd (\<lambda>f. f\<lparr>of_offset := of_int new_off\<rparr>) v) id (\<lambda>v. Ok (of_int new_off, v))))"

definition Vfs_pread :: "i32 \<Rightarrow> u64 \<Rightarrow> nat \<Rightarrow> Vfs \<Rightarrow> (VfsError, bytes) outcome" where
  "Vfs_pread fd offset n v =
     bindE (Vfs_file fd v) id (\<lambda>f.
     if of_special f \<in> {Some Stdin, Some Tty, Some Null} then Ok []
     else bindE (read_file_data (vf_dev v) (vf_sb v) (of_ino f) offset (of_nat n)) (\<lambda>_. VfsIo) (\<lambda>data.
       if length data > n then None else Ok data))"

definition Vfs_path_of_fd :: "i32 \<Rightarrow> Vfs \<Rightarrow> (VfsError, bytes) outcome" where
  "Vfs_path_of_fd fd v = bindE (Vfs_file fd v) id (\<lambda>f. Ok (of_path f))"

definition Vfs_is_special_tty :: "i32 \<Rightarrow> Vfs \<Rightarrow> (VfsError, bool) outcome" where
  "Vfs_is_special_tty fd v =
     bindE (Vfs_file fd v) id (\<lambda>f. Ok (of_special f \<in> {Some Stdin, Some Stdout, Some Stderr, Some Tty}))"

definition Vfs_is_special_null :: "i32 \<Rightarrow> Vfs \<Rightarrow> (VfsError, bool) outcome" where
  "Vfs_is_special_null fd v = bindE (Vfs_file fd v) id (\<lambda>f. Ok (of_special f = Some Null))"

definition Vfs_poll_mask :: "i32 \<Rightarrow> Vfs \<Rightarrow> SerialState \<Rightarrow> (VfsError, u16 \<times> SerialState) outcome" where
  "Vfs_poll_mask fd v s =
     bindE (Vfs_file fd v) id (\<lambda>f.
     let console = (let (inp, s) = has_input s in Ok ((if inp then POLLIN else 0) OR POLLOUT, s)) in
     case of_special f of
       Some Stdin \<Rightarrow> console
     | Some Tty \<Rightarrow> console
     | Some (PipeRead pipe_id) \<Rightarrow>
         (case map_of (vf_pipes v) pipe_id of
            None \<Rightarrow> Err InvalidFd
          | Some pipe \<Rightarrow> Ok ((if pp_buf pipe \<noteq> [] then POLLIN else 0) OR (if pp_writers pipe = 0 then POLLHUP else 0), s))
     | Some (PipeWrite pipe_id) \<Rightarrow>
         (case map_of (vf_pipes v) pipe_id of
            None \<Rightarrow> Err InvalidFd
          | Some pipe \<Rightarrow> Ok ((if pp_readers pipe = 0 then POLLERR
                             else if length (pp_buf pipe) < PIPE_CAPACITY then POLLOUT else 0), s))
     | Some _ \<Rightarrow> Ok (POLLOUT, s)
     | None \<Rightarrow> Ok (POLLIN OR POLLOUT, s))"

definition Vfs_get_fd_flags :: "i32 \<Rightarrow> Vfs \<Rightarrow> (VfsError, i32) outcome" where
  "Vfs_get_fd_flags fd v = bindE (Vfs_file fd v) id (\<lambda>f. Ok (of_fd_flags f))"

definition Vfs_set_fd_flags :: "i32 \<Rightarrow> i32 \<Rightarrow> Vfs \<Rightarrow> (VfsError, unit \<times> Vfs) outcome" where
  "Vfs_set_fd_flags fd flags v = bindE (Vfs_file_mut fd (\<lambda>f. f\<lparr>of_fd_flags := flags\<rparr>) v) id (\<lambda>v. Ok ((), v))"

definition Vfs_get_status_flags :: "i32 \<Rightarrow> Vfs \<Rightarrow> (VfsError, i32) outcome" where
  "Vfs_get_status_flags fd v = bindE (Vfs_file fd v) id (\<lambda>f. Ok (of_status_flags f))"

definition Vfs_set_status_flags :: "i32 \<Rightarrow> i32 \<Rightarrow> Vfs \<Rightarrow> (VfsError, unit \<times> Vfs) outcome" where
  "Vfs_set_status_flags fd flags v = bindE (Vfs_file_mut fd (\<lambda>f. f\<lparr>of_status_flags := flags\<rparr>) v) id (\<lambda>v. Ok ((), v))"

definition Vfs_dup_fd :: "i32 \<Rightarrow> i32 \<Rightarrow> bool \<Rightarrow> Vfs \<Rightarrow> (VfsError, i32 \<times> Vfs) outcome" where
  "Vfs_dup_fd fd min_fd cloexec v =
     bindE (Vfs_file fd v) id (\<lambda>src.
     let start = nat (max (sint min_fd) 0) in
     bindE (alloc_fd_slot_from start v) id (\<lambda>slot.
     Ok (of_nat slot, v\<lparr>vf_files := (vf_files v)[slot := Some (src\<lparr>of_fd_flags := if cloexec then 1 else 0\<rparr>)]\<rparr>)))"

definition Vfs_clone_handle :: "i32 \<Rightarrow> Vfs \<Rightarrow> (VfsError, i32 \<times> Vfs) outcome" where
  "Vfs_clone_handle fd v =
     bindE (Vfs_file_mut fd (\<lambda>f. f\<lparr>of_refs := sat_add (of_refs f) 1\<rparr>) v) id (\<lambda>v. Ok (fd, v))"

definition Vfs_dup2_fd :: "i32 \<Rightarrow> i32 \<Rightarrow> bool \<Rightarrow> Vfs \<Rightarrow> (VfsError, i32 \<times> Vfs) outcome" where
  "Vfs_dup2_fd oldfd newfd cloexec v =
     bindE (Vfs_file oldfd v) id (\<lambda>src.
     bindE (fd_slot newfd) id (\<lambda>slot.
     if slot < length (vf_files v)
     then Ok (newfd, v\<lparr>vf_files := (vf_files v)[slot := Some (src\<lparr>of_fd_flags := if cloexec then 1 else 0\<rparr>)]\<rparr>)
     else Err InvalidFd))"

definition Vfs_list_dir_entries :: "i32 \<Rightarrow> Vfs \<Rightarrow> (VfsError, DirEntry list) outcome" where
  "Vfs_list_dir_entries fd v =
     bindE (Vfs_file fd v) id (\<lambda>f.
     if of_special f \<noteq> None then Err NotDirectory
     else bindE (list_dir_entries (vf_dev v) (vf_sb v) (of_ino f)) (\<lambda>_. VfsIo) Ok)"

definition Vfs_get_dir_offset :: "i32 \<Rightarrow> Vfs \<Rightarrow> (VfsError, u64) outcome" where
  "Vfs_get_dir_offset fd v = bindE (Vfs_file fd v) id (\<lambda>f. Ok (of_offset f))"

definition Vfs_set_dir_offset :: "i32 \<Rightarrow> u64 \<Rightarrow> Vfs \<Rightarrow> (VfsError, unit \<times> Vfs) outcome" where
  "Vfs_set_dir_offset fd off v = bindE (Vfs_file_mut fd (\<lambda>f. f\<lparr>of_offset := off\<rparr>) v) id (\<lambda>v. Ok ((), v))"

definition Vfs_cache_path :: "bytes \<Rightarrow> Vfs \<Rightarrow> (VfsError, unit \<times> Vfs) outcome" where
  "Vfs_cache_path path v = Ok ((), v)"

definition Vfs_cache_missing_path :: "bytes \<Rightarrow> Vfs \<Rightarrow> Vfs" where
  "Vfs_cache_missing_path path v = v"

section \<open>The mounted file system\<close>

text \<open>
  The public functions take the lock on the mounted file system, \<^const>\<open>None\<close> before \<^verbatim>\<open>mount_root\<close>.  \<open>with_vfs\<close> is
  the common frame of those that may change it, \<open>ask_vfs\<close> of those that do not.
\<close>

definition with_vfs :: "(Vfs \<Rightarrow> (VfsError, 'a \<times> Vfs) outcome) \<Rightarrow> Vfs option \<Rightarrow> (VfsError, 'a \<times> Vfs option) outcome" where
  "with_vfs f g = (case g of None \<Rightarrow> Err NotMounted | Some v \<Rightarrow> bindE (f v) id (\<lambda>(x, v). Ok (x, Some v)))"

definition ask_vfs :: "(Vfs \<Rightarrow> (VfsError, 'a) outcome) \<Rightarrow> Vfs option \<Rightarrow> (VfsError, 'a) outcome" where
  "ask_vfs f g = (case g of None \<Rightarrow> Err NotMounted | Some v \<Rightarrow> f v)"

definition vfs_mount_root :: "reading \<Rightarrow> Vfs option \<Rightarrow> (VfsError, Vfs option) outcome" where
  "vfs_mount_root dev g = bindE (Vfs_mount dev) id (\<lambda>v. Ok (Some v))"

definition vfs_lookup :: "bytes \<Rightarrow> Vfs option \<Rightarrow> (VfsError, u64) outcome" where
  "vfs_lookup path = ask_vfs (Vfs_lookup_path path)"

definition vfs_open :: "bytes \<Rightarrow> i32 \<Rightarrow> Vfs option \<Rightarrow> (VfsError, i32 \<times> Vfs option) outcome" where
  "vfs_open path flags = with_vfs (Vfs_open path flags)"

definition vfs_close :: "i32 \<Rightarrow> Vfs option \<Rightarrow> (VfsError, unit \<times> Vfs option) outcome" where
  "vfs_close fd = with_vfs (Vfs_close fd)"

definition vfs_fstat :: "i32 \<Rightarrow> Vfs option \<Rightarrow> (VfsError, FileStat) outcome" where
  "vfs_fstat fd = ask_vfs (Vfs_fstat fd)"

definition vfs_lseek :: "i32 \<Rightarrow> i64 \<Rightarrow> i32 \<Rightarrow> Vfs option \<Rightarrow> (VfsError, u64 \<times> Vfs option) outcome" where
  "vfs_lseek fd offset whence = with_vfs (Vfs_lseek fd offset whence)"

definition vfs_exists :: "bytes \<Rightarrow> Vfs option \<Rightarrow> bool exec" where
  "vfs_exists path g = do { r \<leftarrow> vfs_lookup path g; Some (case r of Inl _ \<Rightarrow> False | Inr _ \<Rightarrow> True) }"

definition vfs_readlink :: "bytes \<Rightarrow> Vfs option \<Rightarrow> (VfsError, bytes) outcome" where
  "vfs_readlink path = ask_vfs (Vfs_readlink path)"

definition vfs_read_all :: "bytes \<Rightarrow> Vfs option \<Rightarrow> (VfsError, bytes) outcome" where
  "vfs_read_all path = ask_vfs (Vfs_read_all path)"

definition vfs_stat_path :: "bytes \<Rightarrow> bool \<Rightarrow> Vfs option \<Rightarrow> (VfsError, FileStat) outcome" where
  "vfs_stat_path path follow = ask_vfs (Vfs_stat_path path follow)"

definition vfs_pread :: "i32 \<Rightarrow> u64 \<Rightarrow> nat \<Rightarrow> Vfs option \<Rightarrow> (VfsError, bytes) outcome" where
  "vfs_pread fd offset n = ask_vfs (Vfs_pread fd offset n)"

definition vfs_path_of_fd :: "i32 \<Rightarrow> Vfs option \<Rightarrow> (VfsError, bytes) outcome" where
  "vfs_path_of_fd fd = ask_vfs (Vfs_path_of_fd fd)"

definition vfs_get_fd_flags :: "i32 \<Rightarrow> Vfs option \<Rightarrow> (VfsError, i32) outcome" where
  "vfs_get_fd_flags fd = ask_vfs (Vfs_get_fd_flags fd)"

definition vfs_set_fd_flags :: "i32 \<Rightarrow> i32 \<Rightarrow> Vfs option \<Rightarrow> (VfsError, unit \<times> Vfs option) outcome" where
  "vfs_set_fd_flags fd flags = with_vfs (Vfs_set_fd_flags fd flags)"

definition vfs_get_status_flags :: "i32 \<Rightarrow> Vfs option \<Rightarrow> (VfsError, i32) outcome" where
  "vfs_get_status_flags fd = ask_vfs (Vfs_get_status_flags fd)"

definition vfs_set_status_flags :: "i32 \<Rightarrow> i32 \<Rightarrow> Vfs option \<Rightarrow> (VfsError, unit \<times> Vfs option) outcome" where
  "vfs_set_status_flags fd flags = with_vfs (Vfs_set_status_flags fd flags)"

definition vfs_is_special_tty :: "i32 \<Rightarrow> Vfs option \<Rightarrow> (VfsError, bool) outcome" where
  "vfs_is_special_tty fd = ask_vfs (Vfs_is_special_tty fd)"

definition vfs_is_special_null :: "i32 \<Rightarrow> Vfs option \<Rightarrow> (VfsError, bool) outcome" where
  "vfs_is_special_null fd = ask_vfs (Vfs_is_special_null fd)"

definition vfs_poll_mask :: "i32 \<Rightarrow> SerialState \<Rightarrow> Vfs option \<Rightarrow> (VfsError, u16 \<times> SerialState) outcome" where
  "vfs_poll_mask fd s = ask_vfs (\<lambda>v. Vfs_poll_mask fd v s)"

definition vfs_dup_fd :: "i32 \<Rightarrow> i32 \<Rightarrow> bool \<Rightarrow> Vfs option \<Rightarrow> (VfsError, i32 \<times> Vfs option) outcome" where
  "vfs_dup_fd fd min_fd cloexec = with_vfs (Vfs_dup_fd fd min_fd cloexec)"

definition vfs_clone_handle :: "i32 \<Rightarrow> Vfs option \<Rightarrow> (VfsError, i32 \<times> Vfs option) outcome" where
  "vfs_clone_handle fd = with_vfs (Vfs_clone_handle fd)"

definition vfs_create_pipe :: "Vfs option \<Rightarrow> (VfsError, (i32 \<times> i32) \<times> Vfs option) outcome" where
  "vfs_create_pipe = with_vfs create_pipe"

definition vfs_dup2_fd :: "i32 \<Rightarrow> i32 \<Rightarrow> bool \<Rightarrow> Vfs option \<Rightarrow> (VfsError, i32 \<times> Vfs option) outcome" where
  "vfs_dup2_fd oldfd newfd cloexec = with_vfs (Vfs_dup2_fd oldfd newfd cloexec)"

definition vfs_list_dir_entries :: "i32 \<Rightarrow> Vfs option \<Rightarrow> (VfsError, DirEntry list) outcome" where
  "vfs_list_dir_entries fd = ask_vfs (Vfs_list_dir_entries fd)"

definition vfs_get_dir_offset :: "i32 \<Rightarrow> Vfs option \<Rightarrow> (VfsError, u64) outcome" where
  "vfs_get_dir_offset fd = ask_vfs (Vfs_get_dir_offset fd)"

definition vfs_set_dir_offset :: "i32 \<Rightarrow> u64 \<Rightarrow> Vfs option \<Rightarrow> (VfsError, unit \<times> Vfs option) outcome" where
  "vfs_set_dir_offset fd off = with_vfs (Vfs_set_dir_offset fd off)"

definition vfs_getcwd :: bytes where
  "vfs_getcwd = lit ''/''"

definition vfs_cache_path :: "bytes \<Rightarrow> Vfs option \<Rightarrow> (VfsError, unit \<times> Vfs option) outcome" where
  "vfs_cache_path path = with_vfs (Vfs_cache_path path)"

definition vfs_cache_missing_path :: "bytes \<Rightarrow> Vfs option \<Rightarrow> (VfsError, unit \<times> Vfs option) outcome" where
  "vfs_cache_missing_path path = with_vfs (\<lambda>v. Ok ((), Vfs_cache_missing_path path v))"

text \<open>
  \<^verbatim>\<open>read\<close> and \<^verbatim>\<open>write\<close> try again while the answer is \<open>WouldBlock\<close>, yielding the processor with the lock released.
  What the other tasks make of the file system and the console at each yield is a list of steps; a call that still waits when
  it is used up has no result.
\<close>

type_synonym io_state = "Vfs option \<times> SerialState"

definition read_once :: "i32 \<Rightarrow> nat \<Rightarrow> io_state \<Rightarrow> (VfsError, bytes \<times> io_state) outcome" where
  "read_once fd n st =
    (case fst st of
       None \<Rightarrow> Err NotMounted
     | Some v \<Rightarrow> bindE (Vfs_read fd n v (snd st)) id (\<lambda>(bs, v, s). Ok (bs, Some v, s)))"

definition write_once :: "i32 \<Rightarrow> bytes \<Rightarrow> io_state \<Rightarrow> (VfsError, nat \<times> io_state) outcome" where
  "write_once fd data st =
    (case fst st of
       None \<Rightarrow> Err NotMounted
     | Some v \<Rightarrow> bindE (Vfs_write fd data v (snd st)) id (\<lambda>(n, v, s). Ok (n, Some v, s)))"

fun vfs_read :: "(io_state \<Rightarrow> io_state) list \<Rightarrow> i32 \<Rightarrow> nat \<Rightarrow> io_state \<Rightarrow> (VfsError, bytes \<times> io_state) outcome" where
  "vfs_read yields fd n st =
    (case read_once fd n st of
       Some (Inl e) \<Rightarrow>
         if e = WouldBlock then case yields of [] \<Rightarrow> None | y # ys \<Rightarrow> vfs_read ys fd n (y st)
         else Err e
     | r \<Rightarrow> r)"

fun vfs_write :: "(io_state \<Rightarrow> io_state) list \<Rightarrow> i32 \<Rightarrow> bytes \<Rightarrow> io_state \<Rightarrow> (VfsError, nat \<times> io_state) outcome" where
  "vfs_write yields fd data st =
    (case write_once fd data st of
       Some (Inl e) \<Rightarrow>
         if e = WouldBlock then case yields of [] \<Rightarrow> None | y # ys \<Rightarrow> vfs_write ys fd data (y st)
         else Err e
     | r \<Rightarrow> r)"

declare vfs_read.simps [simp del] vfs_write.simps [simp del]

end
