(* ===== verification/Vfs_Table.thy ===== *)
theory Vfs_Table
  imports Vfs "HOL-Library.Code_Target_Nat"
begin

text \<open>
  The table of open files of \<^verbatim>\<open>kernel/vfs.rs\<close> over time: the calls as a labelled step relation on the file system, the
  invariant every history of calls keeps, and the agreement of the end counts of a pipe with the descriptors open on it.
\<close>

section \<open>Descriptors\<close>

lemma Vfs_file_iff:
  "Vfs_file fd v = Ok f \<longleftrightarrow> 0 \<le> sint fd \<and> unat fd < length (vf_files v) \<and> vf_files v ! unat fd = Some f"
  by (auto simp: Vfs_file_def fd_slot_def split: option.splits)

lemma alloc_fd_slot_Ok:
  "alloc_fd_slot v = Ok slot \<Longrightarrow> slot < length (vf_files v) \<and> vf_files v ! slot = None"
  by (auto simp: alloc_fd_slot_def dest!: position_Some split: option.splits)

lemma alloc_fd_slot_from_Ok:
  "alloc_fd_slot_from start v = Ok slot \<Longrightarrow> start \<le> slot \<and> slot < length (vf_files v) \<and> vf_files v ! slot = None"
  by (auto simp: alloc_fd_slot_from_def dest!: position_Some split: option.splits)

lemma fd_of_slot:
  assumes s: "slot < 64"
  shows "unat (of_nat slot :: i32) = slot" "0 \<le> sint (of_nat slot :: i32)"
proof -
  show "unat (of_nat slot :: i32) = slot" using s by (simp add: unat_of_nat)
  have "sint (of_int (int slot) :: i32) = int slot" using s by (simp only: sint_sbintrunc') (simp add: signed_take_bit_int_eq_self)
  then show "0 \<le> sint (of_nat slot :: i32)" by simp
qed

section \<open>The well-formed table\<close>

definition pipe_ok :: "Pipe \<Rightarrow> bool" where
  "pipe_ok p \<longleftrightarrow> length (pp_buf p) \<le> PIPE_CAPACITY \<and> (pp_readers p \<noteq> 0 \<or> pp_writers p \<noteq> 0)"

definition vfs_ok :: "Vfs \<Rightarrow> bool" where
  "vfs_ok v \<longleftrightarrow> length (vf_files v) = FILE_MAX_SLOTS \<and> (\<forall>f. Some f \<in> set (vf_files v) \<longrightarrow> of_refs f \<noteq> 0) \<and>
     bt_wf (vf_pipes v) \<and> (\<forall>i p. map_of (vf_pipes v) i = Some p \<longrightarrow> pipe_ok p) \<and> vf_next_pipe_id v \<noteq> 0"

text \<open>The calls that may change the file system, by kind; both duplications are one kind.\<close>

datatype vfs_call = OpenCall | ReadCall | WriteCall | CloseCall | SeekCall | FlagsCall | DupCall | CloneCall | PipeCall

inductive vfs_step :: "vfs_call \<Rightarrow> Vfs \<Rightarrow> Vfs \<Rightarrow> bool" where
  step_open: "Vfs_open path flags v = Ok (fd, v') \<Longrightarrow> vfs_step OpenCall v v'" |
  step_read: "Vfs_read fd n v s = Ok (bs, v', s') \<Longrightarrow> vfs_step ReadCall v v'" |
  step_write: "Vfs_write fd data v s = Ok (n, v', s') \<Longrightarrow> vfs_step WriteCall v v'" |
  step_close: "Vfs_close fd v = Ok (u, v') \<Longrightarrow> vfs_step CloseCall v v'" |
  step_lseek: "Vfs_lseek fd off whence v = Ok (p, v') \<Longrightarrow> vfs_step SeekCall v v'" |
  step_fd_flags: "Vfs_set_fd_flags fd flags v = Ok (u, v') \<Longrightarrow> vfs_step FlagsCall v v'" |
  step_status_flags: "Vfs_set_status_flags fd flags v = Ok (u, v') \<Longrightarrow> vfs_step FlagsCall v v'" |
  step_dup: "Vfs_dup_fd fd min_fd cloexec v = Ok (fd', v') \<Longrightarrow> vfs_step DupCall v v'" |
  step_clone: "Vfs_clone_handle fd v = Ok (fd', v') \<Longrightarrow> vfs_step CloneCall v v'" |
  step_dup2: "Vfs_dup2_fd fd newfd cloexec v = Ok (fd', v') \<Longrightarrow> vfs_step DupCall v v'" |
  step_pipe: "create_pipe v = Ok (fds, v') \<Longrightarrow> vfs_step PipeCall v v'" |
  step_dir: "Vfs_set_dir_offset fd off v = Ok (u, v') \<Longrightarrow> vfs_step SeekCall v v'"

inductive vfs_history :: "vfs_call list \<Rightarrow> Vfs \<Rightarrow> Vfs \<Rightarrow> bool" where
  history_start: "vfs_history [] v v" |
  history_call: "vfs_history cs v0 v \<Longrightarrow> vfs_step c v v' \<Longrightarrow> vfs_history (cs @ [c]) v0 v'"

lemma set_list_update_Some: "Some f \<in> set (xs[i := x]) \<Longrightarrow> Some f = x \<or> Some f \<in> set xs"
  using set_update_subset_insert[of xs i x] by blast

lemma vfs_ok_set_file:
  assumes "vfs_ok v" "\<And>g. f = Some g \<Longrightarrow> of_refs g \<noteq> 0"
  shows "vfs_ok (v\<lparr>vf_files := (vf_files v)[slot := f]\<rparr>)"
  using assms by (auto simp: vfs_ok_def dest!: set_list_update_Some)

lemma vfs_ok_refs: "vfs_ok v \<Longrightarrow> Vfs_file fd v = Ok f \<Longrightarrow> of_refs f \<noteq> 0"
  by (metis (no_types) Vfs_file_iff nth_mem vfs_ok_def)

lemma vfs_ok_set_pipe: "vfs_ok v \<Longrightarrow> pipe_ok p \<Longrightarrow> vfs_ok (v\<lparr>vf_pipes := bt_insert i p (vf_pipes v)\<rparr>)"
  by (auto simp: vfs_ok_def)

lemma file_mut_ok:
  assumes "vfs_ok v" "Vfs_file_mut fd upd v = Ok v'" "\<And>f. of_refs f \<noteq> 0 \<Longrightarrow> of_refs (upd f) \<noteq> 0"
  shows "vfs_ok v'"
  using assms vfs_ok_refs[OF assms(1)] by (auto simp: Vfs_file_mut_def bindE_Ok_iff intro!: vfs_ok_set_file)

lemma release_ok: "vfs_ok v \<Longrightarrow> vfs_ok (release_special sp v)"
  by (auto simp: release_special_def drop_pipe_end_def vfs_ok_def pipe_ok_def Let_def split: option.splits SpecialFd.splits)

lemma Vfs_read_effect:
  assumes "Vfs_read fd n v s = Ok (bs, v', s')"
  shows "v' = v \<or> (\<exists>i. read_pipe i n v = Ok (bs, v')) \<or> (\<exists>k. Vfs_file_mut fd (\<lambda>f. f\<lparr>of_offset := sat_add (of_offset f) k\<rparr>) v = Ok v')"
proof -
  from assms obtain f where f: "Vfs_file fd v = Ok f" by (auto simp: Vfs_read_def bindE_Ok_iff)
  note r = assms[unfolded Vfs_read_def f bindE_simps]
  show ?thesis
  proof (cases "of_special f")
    case None
    then show ?thesis using r by (auto simp: bindE_Ok_iff split: if_splits)
  next
    case (Some sp)
    then show ?thesis using r by (cases sp) (auto simp: bindE_Ok_iff Option.bind_eq_Some_conv split: if_splits)
  qed
qed

lemma Vfs_write_effect:
  assumes "Vfs_write fd data v s = Ok (n, v', s')"
  shows "v' = v \<or> (\<exists>i. write_pipe i data v = Ok (n, v'))"
proof -
  from assms obtain f where f: "Vfs_file fd v = Ok f" by (auto simp: Vfs_write_def bindE_Ok_iff)
  note r = assms[unfolded Vfs_write_def f bindE_simps]
  show ?thesis
  proof (cases "of_special f")
    case (Some sp)
    then show ?thesis using r by (cases sp) (auto simp: bindE_Ok_iff)
  qed (use r in simp)
qed

lemma vfs_ok_pipe: "vfs_ok v \<Longrightarrow> map_of (vf_pipes v) i = Some p \<Longrightarrow> pipe_ok p"
  by (simp add: vfs_ok_def)

lemma read_pipe_ok: "read_pipe i n v = Ok (bs, v') \<Longrightarrow> vfs_ok v \<Longrightarrow> vfs_ok v'"
  using vfs_ok_pipe[of v i] by (auto simp: read_pipe_def pipe_ok_def intro!: vfs_ok_set_pipe split: option.splits if_splits)

lemma write_pipe_ok: "write_pipe i data v = Ok (n, v') \<Longrightarrow> vfs_ok v \<Longrightarrow> vfs_ok v'"
  using vfs_ok_pipe[of v i] by (auto simp: write_pipe_def pipe_ok_def Let_def intro!: vfs_ok_set_pipe split: option.splits if_splits)

lemma sat_add_nonzero: "r \<noteq> 0 \<Longrightarrow> sat_add r 1 \<noteq> (0 :: u64)"
  using unat_sat_add[of r 1] by (auto simp: unat_eq_zero[symmetric] min_def split: if_splits)

lemma next_pipe_id_nonzero: "max (i + 1) 1 \<noteq> (0 :: u32)"
  by (auto simp: max_def)

lemma create_pipe_ok:
  assumes "create_pipe v = Ok (fds, v')" "vfs_ok v"
  shows "vfs_ok v'"
proof -
  from assms(1) obtain r w where
    v': "v' = v\<lparr>vf_next_pipe_id := max (vf_next_pipe_id v + 1) 1,
       vf_pipes := bt_insert (vf_next_pipe_id v) \<lparr>pp_buf = [], pp_readers = 1, pp_writers = 1\<rparr> (vf_pipes v),
       vf_files := (vf_files v)[r := Some (special_file (lit ''[pipe]'') (PipeRead (vf_next_pipe_id v))),
         w := Some ((special_file (lit ''[pipe]'') (PipeWrite (vf_next_pipe_id v)))\<lparr>of_status_flags := 1\<rparr>)]\<rparr>"
    by (auto simp: create_pipe_def bindE_Ok_iff Let_def)
  show ?thesis using assms(2) next_pipe_id_nonzero[of "vf_next_pipe_id v"] unfolding v'
    by (auto simp: vfs_ok_def pipe_ok_def special_file_def dest!: set_list_update_Some)
qed

lemma vfs_step_ok:
  assumes "vfs_step c v v'" "vfs_ok v"
  shows "vfs_ok v'"
  using assms
proof (induction rule: vfs_step.induct)
  case (step_open path flags v fd v')
  then show ?case by (auto simp: Vfs_open_def bindE_Ok_iff Let_def special_file_def intro!: vfs_ok_set_file split: if_splits)
next
  case (step_read fd n v s bs v' s')
  from Vfs_read_effect[OF step_read(1)] show ?case using step_read(2) by (auto elim: read_pipe_ok file_mut_ok)
next
  case (step_write fd data v s n v' s')
  from Vfs_write_effect[OF step_write(1)] show ?case using step_write(2) by (auto elim: write_pipe_ok)
next
  case (step_close fd v u v')
  then show ?case
    by (auto simp: Vfs_close_def bindE_Ok_iff intro!: vfs_ok_set_file release_ok split: if_splits)
next
  case (step_lseek fd off whence v p v')
  then show ?case by (auto simp: Vfs_lseek_def bindE_Ok_iff elim!: file_mut_ok split: if_splits)
next
  case (step_dup fd min_fd cloexec v fd' v')
  then show ?case using vfs_ok_refs by (auto simp: Vfs_dup_fd_def bindE_Ok_iff Let_def intro!: vfs_ok_set_file)
next
  case (step_clone fd v fd' v')
  from step_clone(1) have "Vfs_file_mut fd (\<lambda>f. f\<lparr>of_refs := sat_add (of_refs f) 1\<rparr>) v = Ok v'"
    by (auto simp: Vfs_clone_handle_def bindE_Ok_iff)
  from file_mut_ok[OF step_clone(2) this] show ?case by (simp add: sat_add_nonzero)
next
  case (step_dup2 fd newfd cloexec v fd' v')
  then show ?case using vfs_ok_refs by (auto simp: Vfs_dup2_fd_def bindE_Ok_iff intro!: vfs_ok_set_file split: if_splits)
next
  case (step_pipe v fds v')
  then show ?case using create_pipe_ok by blast
qed (auto simp: Vfs_set_fd_flags_def Vfs_set_status_flags_def Vfs_set_dir_offset_def bindE_Ok_iff elim!: file_mut_ok)


lemma vfs_history_ok: "vfs_history cs v0 v \<Longrightarrow> vfs_ok v0 \<Longrightarrow> vfs_ok v"
  by (induction rule: vfs_history.induct) (auto dest: vfs_step_ok)

lemma mount_ok: "Vfs_mount dev = Ok v \<Longrightarrow> vfs_ok v"
  by (auto simp: Vfs_mount_def bindE_Ok_iff vfs_ok_def special_file_def dest!: set_list_update_Some)

section \<open>Counting pipe ends\<close>

definition special_at :: "OpenFile option \<Rightarrow> SpecialFd option" where
  "special_at f = (case f of None \<Rightarrow> None | Some f \<Rightarrow> of_special f)"

definition ends :: "Vfs \<Rightarrow> SpecialFd \<Rightarrow> nat" where
  "ends v sp = length (filter (\<lambda>f. special_at f = Some sp) (vf_files v))"

lemma filter_update:
  "i < length xs \<Longrightarrow> length (filter P (xs[i := x])) + (if P (xs ! i) then 1 else 0) = length (filter P xs) + (if P x then 1 else 0)"
proof (induction xs arbitrary: i)
  case (Cons y ys)
  then show ?case
  proof (cases i)
    case (Suc k)
    then show ?thesis using Cons.IH[of k] Cons.prems by (simp split: if_splits)
  qed simp
qed simp

lemma ends_set_file:
  "slot < length (vf_files v) \<Longrightarrow> ends (v\<lparr>vf_files := (vf_files v)[slot := f]\<rparr>) sp + (if special_at (vf_files v ! slot) = Some sp then 1 else 0) =
     ends v sp + (if special_at f = Some sp then 1 else 0)"
  using filter_update[of slot "vf_files v" "\<lambda>f. special_at f = Some sp" f] by (simp add: ends_def)

lemma ends_same:
  "special_at (vf_files v ! slot) = special_at f \<Longrightarrow> ends (v\<lparr>vf_files := (vf_files v)[slot := f]\<rparr>) sp = ends v sp"
  using ends_set_file[of slot v f sp] by (cases "slot < length (vf_files v)") (auto simp: ends_def list_update_beyond)

lemma ends_pos: "0 < ends v sp \<longleftrightarrow> (\<exists>i < length (vf_files v). special_at (vf_files v ! i) = Some sp)"
  by (auto simp: ends_def filter_empty_conv) (metis in_set_conv_nth nth_mem)+

definition counted :: "Vfs \<Rightarrow> bool" where
  "counted v \<longleftrightarrow> (\<forall>i. case map_of (vf_pipes v) i of
       None \<Rightarrow> ends v (PipeRead i) = 0 \<and> ends v (PipeWrite i) = 0
     | Some p \<Rightarrow> unat (pp_readers p) = ends v (PipeRead i) \<and> unat (pp_writers p) = ends v (PipeWrite i) \<and> i < vf_next_pipe_id v)"

lemma counted_same:
  assumes "counted v" "\<And>i. ends v' (PipeRead i) = ends v (PipeRead i) \<and> ends v' (PipeWrite i) = ends v (PipeWrite i)" "vf_next_pipe_id v' = vf_next_pipe_id v"
    "\<And>i. map_of (vf_pipes v') i = map_of (vf_pipes v) i \<or> (\<exists>p p'. map_of (vf_pipes v) i = Some p \<and> map_of (vf_pipes v') i = Some p' \<and>
      pp_readers p' = pp_readers p \<and> pp_writers p' = pp_writers p)"
  shows "counted v'"
  unfolding counted_def
proof (intro allI)
  fix i
  show "case map_of (vf_pipes v') i of
       None \<Rightarrow> ends v' (PipeRead i) = 0 \<and> ends v' (PipeWrite i) = 0
     | Some p \<Rightarrow> unat (pp_readers p) = ends v' (PipeRead i) \<and> unat (pp_writers p) = ends v' (PipeWrite i) \<and> i < vf_next_pipe_id v'"
    using assms(1)[unfolded counted_def, rule_format, of i] assms(2,3) assms(4)[of i] by (auto split: option.splits)
qed

lemma file_mut_counted:
  assumes "counted v" "Vfs_file_mut fd upd v = Ok v'" "\<And>f. of_special (upd f) = of_special f"
  shows "counted v'"
proof -
  from assms(2) obtain f where f: "Vfs_file fd v = Ok f" "v' = v\<lparr>vf_files := (vf_files v)[unat fd := Some (upd f)]\<rparr>"
    by (auto simp: Vfs_file_mut_def bindE_Ok_iff)
  have "special_at (vf_files v ! unat fd) = special_at (Some (upd f))" using f(1) assms(3) by (simp add: Vfs_file_iff special_at_def)
  then show ?thesis using counted_same[OF assms(1), of v'] ends_same[of v "unat fd" "Some (upd f)"] f(2) by simp
qed

lemma fresh_file_counted:
  assumes "counted v" "alloc_fd_slot v = Ok slot" "\<And>i. special_at (Some f) \<noteq> Some (PipeRead i)"
    "\<And>i. special_at (Some f) \<noteq> Some (PipeWrite i)"
  shows "counted (v\<lparr>vf_files := (vf_files v)[slot := Some f]\<rparr>)"
proof -
  have s: "slot < length (vf_files v)" "special_at (vf_files v ! slot) = None" using alloc_fd_slot_Ok[OF assms(2)] by (simp_all add: special_at_def)
  have "ends (v\<lparr>vf_files := (vf_files v)[slot := Some f]\<rparr>) sp = ends v sp" if "special_at (Some f) \<noteq> Some sp" for sp
    using ends_set_file[OF s(1), of "Some f" sp] s(2) that by simp
  then show ?thesis using assms(3,4) by (intro counted_same[OF assms(1)]) auto
qed


lemma read_pipe_counted: "read_pipe i n v = Ok (bs, v') \<Longrightarrow> counted v \<Longrightarrow> counted v'"
  by (rule counted_same[of v]) (auto simp: read_pipe_def ends_def split: option.splits if_splits)

lemma write_pipe_counted: "write_pipe i data v = Ok (n, v') \<Longrightarrow> counted v \<Longrightarrow> counted v'"
  by (rule counted_same[of v]) (auto simp: write_pipe_def ends_def Let_def split: option.splits if_splits)

lemma counted_at:
  "counted v \<Longrightarrow> map_of (vf_pipes v) i = Some p \<Longrightarrow> unat (pp_readers p) = ends v (PipeRead i) \<and> unat (pp_writers p) = ends v (PipeWrite i)"
  "counted v \<Longrightarrow> map_of (vf_pipes v) i = None \<Longrightarrow> ends v (PipeRead i) = 0 \<and> ends v (PipeWrite i) = 0"
  "counted v \<Longrightarrow> map_of (vf_pipes v) i = Some p \<Longrightarrow> i < vf_next_pipe_id v"
  unfolding counted_def by (auto dest!: spec[of _ i])

lemma unat_dec: "unat r = Suc k \<Longrightarrow> unat (sat_sub r 1) = k" for r :: u64
  by (simp add: unat_sat_sub)

lemma drop_end_ends: "ends (drop_pipe_end i f v) sp = ends v sp" "vf_next_pipe_id (drop_pipe_end i f v) = vf_next_pipe_id v"
  by (simp_all add: drop_pipe_end_def ends_def Let_def split: option.splits)

text \<open>Dropping an end that is gone from the table and still counted.\<close>

lemma drop_end_counted:
  assumes c: "counted v" and slot: "slot < length (vf_files v)" "special_at (vf_files v ! slot) = Some sp"
    and sp: "sp = PipeRead i \<and> f = (\<lambda>p. p\<lparr>pp_readers := sat_sub (pp_readers p) 1\<rparr>) \<or>
      sp = PipeWrite i \<and> f = (\<lambda>p. p\<lparr>pp_writers := sat_sub (pp_writers p) 1\<rparr>)"
  shows "counted (drop_pipe_end i f (v\<lparr>vf_files := (vf_files v)[slot := None]\<rparr>))"
proof -
  let ?v = "v\<lparr>vf_files := (vf_files v)[slot := None]\<rparr>"
  have e: "ends ?v q + (if q = sp then 1 else 0) = ends v q" for q
    using ends_set_file[OF slot(1), of None q] slot(2) by (auto simp: special_at_def)
  have "0 < ends v sp" using slot ends_pos by blast
  then obtain p where p: "map_of (vf_pipes v) i = Some p" using counted_at(2)[OF c, of i] sp by (cases "map_of (vf_pipes v) i") auto
  note cp = counted_at(1)[OF c p]
  have r: "unat (pp_readers (f p)) = ends ?v (PipeRead i) \<and> unat (pp_writers (f p)) = ends ?v (PipeWrite i)"
    using sp
  proof
    assume s: "sp = PipeRead i \<and> f = (\<lambda>p. p\<lparr>pp_readers := sat_sub (pp_readers p) 1\<rparr>)"
    then show ?thesis using cp e[of "PipeRead i"] e[of "PipeWrite i"] unat_dec[of "pp_readers p" "ends ?v (PipeRead i)"] by simp
  next
    assume s: "sp = PipeWrite i \<and> f = (\<lambda>p. p\<lparr>pp_writers := sat_sub (pp_writers p) 1\<rparr>)"
    then show ?thesis using cp e[of "PipeRead i"] e[of "PipeWrite i"] unat_dec[of "pp_writers p" "ends ?v (PipeWrite i)"] by simp
  qed
  have other: "ends ?v (PipeRead j) = ends v (PipeRead j) \<and> ends ?v (PipeWrite j) = ends v (PipeWrite j)" if "j \<noteq> i" for j
    using e[of "PipeRead j"] e[of "PipeWrite j"] sp that by auto
  show ?thesis unfolding counted_def drop_end_ends
  proof (intro allI)
    fix j
    show "case map_of (vf_pipes (drop_pipe_end i f ?v)) j of
         None \<Rightarrow> ends ?v (PipeRead j) = 0 \<and> ends ?v (PipeWrite j) = 0
       | Some q \<Rightarrow> unat (pp_readers q) = ends ?v (PipeRead j) \<and> unat (pp_writers q) = ends ?v (PipeWrite j) \<and> j < vf_next_pipe_id ?v"
    proof (cases "j = i")
      case True
      then show ?thesis using p r counted_at(3)[OF c p] by (auto simp: drop_pipe_end_def Let_def unat_eq_zero)
    next
      case False
      then show ?thesis using other[OF False] c[unfolded counted_def, rule_format, of j] p
        by (auto simp: drop_pipe_end_def Let_def split: option.splits)
    qed
  qed
qed

lemma close_counted:
  assumes "Vfs_close fd v = Ok (u, v')" "counted v"
  shows "counted v'"
proof -
  from assms(1) obtain f where f: "Vfs_file fd v = Ok f" by (auto simp: Vfs_close_def bindE_Ok_iff)
  have slot: "unat fd < length (vf_files v)" "vf_files v ! unat fd = Some f" using f by (simp_all add: Vfs_file_iff)
  show ?thesis
  proof (cases "of_refs f > 1")
    case True
    then have "v' = v\<lparr>vf_files := (vf_files v)[unat fd := Some (f\<lparr>of_refs := of_refs f - 1\<rparr>)]\<rparr>"
      using assms(1) f by (simp add: Vfs_close_def)
    then show ?thesis using ends_same[of v "unat fd" "Some (f\<lparr>of_refs := of_refs f - 1\<rparr>)"] slot
      by (intro counted_same[OF assms(2)]) (simp_all add: special_at_def)
  next
    case False
    let ?v = "v\<lparr>vf_files := (vf_files v)[unat fd := None]\<rparr>"
    have v': "v' = release_special (of_special f) ?v" using False assms(1) f by (simp add: Vfs_close_def)
    have sp: "special_at (vf_files v ! unat fd) = of_special f" using slot(2) by (simp add: special_at_def)
    show ?thesis
    proof (cases "\<exists>i. of_special f = Some (PipeRead i) \<or> of_special f = Some (PipeWrite i)")
      case True
      then show ?thesis using drop_end_counted[OF assms(2) slot(1)] sp unfolding v' release_special_def by fastforce
    next
      case none: False
      then have "v' = ?v" unfolding v' release_special_def by (auto split: option.splits SpecialFd.splits)
      moreover have "ends ?v q = ends v q" if "of_special f \<noteq> Some q" for q
        using ends_set_file[OF slot(1), of None q] sp that by (simp add: special_at_def)
      ultimately show ?thesis using none by (intro counted_same[OF assms(2)]) auto
    qed
  qed
qed


lemma pipe_counted:
  assumes "create_pipe v = Ok (fds, v')" "counted v" "vf_next_pipe_id v \<noteq> - 1"
  shows "counted v' \<and> unat (vf_next_pipe_id v') = unat (vf_next_pipe_id v) + 1"
proof -
  let ?i = "vf_next_pipe_id v"
  let ?r = "Some (special_file (lit ''[pipe]'') (PipeRead ?i))"
  let ?w = "Some ((special_file (lit ''[pipe]'') (PipeWrite ?i))\<lparr>of_status_flags := 1\<rparr>)"
  from assms(1) obtain r w where s: "alloc_fd_slot v = Ok r" "alloc_fd_slot_from (r + 1) v = Ok w" and
    v': "v' = v\<lparr>vf_next_pipe_id := max (?i + 1) 1, vf_pipes := bt_insert ?i \<lparr>pp_buf = [], pp_readers = 1, pp_writers = 1\<rparr> (vf_pipes v),
      vf_files := (vf_files v)[r := ?r, w := ?w]\<rparr>" by (auto simp: create_pipe_def bindE_Ok_iff Let_def)
  let ?v1 = "v\<lparr>vf_files := (vf_files v)[r := ?r]\<rparr>"
  have r: "r < length (vf_files v)" "special_at (vf_files v ! r) = None" using alloc_fd_slot_Ok[OF s(1)] by (simp_all add: special_at_def)
  have w: "w < length (vf_files ?v1)" "special_at (vf_files ?v1 ! w) = None" using alloc_fd_slot_from_Ok[OF s(2)] by (simp_all add: special_at_def)
  have e: "ends v' q = ends v q + (if q = PipeRead ?i then 1 else 0) + (if q = PipeWrite ?i then 1 else 0)" for q
    using ends_set_file[OF r(1), of ?r q] ends_set_file[OF w(1), of ?w q] r(2) w(2) unfolding v'
    by (auto simp: special_at_def special_file_def ends_def)
  have "1 + ?i \<noteq> 0" using assms(3) by (metis add.commute eq_neg_iff_add_eq_0)
  then have n: "unat (?i + 1) = unat ?i + 1" using unatSuc[of ?i] by (simp add: add.commute)
  then have "1 \<le> ?i + 1" by (simp add: word_le_nat_alt)
  then have mx: "vf_next_pipe_id v' = ?i + 1" unfolding v' by (simp add: max_def)
  have lt: "j < vf_next_pipe_id v'" if "j \<le> ?i" for j using that n mx by (simp add: word_le_nat_alt word_less_nat_alt)
  have new: "map_of (vf_pipes v) ?i = None" using counted_at(3)[OF assms(2), of ?i] by (cases "map_of (vf_pipes v) ?i") auto
  have "counted v'" unfolding counted_def
  proof (intro allI)
    fix j
    show "case map_of (vf_pipes v') j of
         None \<Rightarrow> ends v' (PipeRead j) = 0 \<and> ends v' (PipeWrite j) = 0
       | Some q \<Rightarrow> unat (pp_readers q) = ends v' (PipeRead j) \<and> unat (pp_writers q) = ends v' (PipeWrite j) \<and> j < vf_next_pipe_id v'"
    proof (cases "j = ?i")
      case True
      then show ?thesis using counted_at(2)[OF assms(2) new] e lt[of ?i] unfolding v' by simp
    next
      case False
      then show ?thesis using assms(2)[unfolded counted_def, rule_format, of j] lt[of j] unfolding e
        by (auto simp: v' split: option.splits)
    qed
  qed
  then show ?thesis using mx n by simp
qed

lemma next_pipe_id_kept:
  "read_pipe i n v = Ok (bs, v') \<Longrightarrow> vf_next_pipe_id v' = vf_next_pipe_id v"
  "write_pipe i data v = Ok (k, v') \<Longrightarrow> vf_next_pipe_id v' = vf_next_pipe_id v"
  "Vfs_file_mut fd upd v = Ok v' \<Longrightarrow> vf_next_pipe_id v' = vf_next_pipe_id v"
  by (auto simp: read_pipe_def write_pipe_def Vfs_file_mut_def bindE_Ok_iff Let_def split: option.splits if_splits)

lemma step_counted:
  assumes "vfs_step c v v'" "counted v" "c \<noteq> DupCall" "c = PipeCall \<Longrightarrow> vf_next_pipe_id v \<noteq> - 1"
  shows "counted v' \<and> unat (vf_next_pipe_id v') = unat (vf_next_pipe_id v) + (if c = PipeCall then 1 else 0)"
  using assms
proof (induction rule: vfs_step.induct)
  case (step_open path flags v fd v')
  then obtain slot f where "alloc_fd_slot v = Ok slot" "v' = v\<lparr>vf_files := (vf_files v)[slot := Some f]\<rparr>"
    "of_special f = None \<or> of_special f = Some (special_of_path path)"
    by (auto simp: Vfs_open_def bindE_Ok_iff Let_def special_file_def split: if_splits)
  then show ?case using fresh_file_counted[OF step_open(2), of slot f] by (auto simp: special_at_def special_of_path_def)
next
  case (step_read fd n v s bs v' s')
  from Vfs_read_effect[OF step_read(1)] show ?case
    using step_read(2) by (auto simp: next_pipe_id_kept elim: read_pipe_counted file_mut_counted)
next
  case (step_write fd data v s n v' s')
  from Vfs_write_effect[OF step_write(1)] show ?case
    using step_write(2) by (auto simp: next_pipe_id_kept elim: write_pipe_counted)
next
  case (step_close fd v u v')
  have "vf_next_pipe_id v' = vf_next_pipe_id v" using step_close(1)
    by (auto simp: Vfs_close_def bindE_Ok_iff release_special_def drop_end_ends split: if_splits option.splits SpecialFd.splits)
  then show ?case using close_counted[OF step_close(1,2)] by simp
next
  case (step_pipe v fds v')
  then show ?case using pipe_counted by simp
qed (auto simp: Vfs_lseek_def Vfs_clone_handle_def Vfs_set_fd_flags_def Vfs_set_status_flags_def Vfs_set_dir_offset_def bindE_Ok_iff
    next_pipe_id_kept elim: file_mut_counted split: if_splits)

section \<open>Looking a descriptor up\<close>

lemma Vfs_file_slot:
  "length (vf_files v) = 64 \<Longrightarrow> slot < 64 \<Longrightarrow>
     Vfs_file (of_nat slot) v = (case vf_files v ! slot of None \<Rightarrow> Err InvalidFd | Some f \<Rightarrow> Ok f)"
  using fd_of_slot[of slot] by (simp add: Vfs_file_def fd_slot_def)

lemma Vfs_file_other:
  assumes "slot < 64" "fd \<noteq> of_nat slot"
  shows "Vfs_file fd (v\<lparr>vf_files := (vf_files v)[slot := f]\<rparr>) = Vfs_file fd v"
proof -
  have "unat fd \<noteq> slot" using assms(2) by auto
  then show ?thesis by (simp add: Vfs_file_def fd_slot_def)
qed

lemma Vfs_file_total: "Vfs_file fd v = Err InvalidFd \<or> (\<exists>f. Vfs_file fd v = Ok f)"
  by (auto simp: Vfs_file_def fd_slot_def split: option.splits)

lemma Vfs_open_effect:
  assumes "Vfs_open path flags v = Ok (fd, v')"
  shows "\<exists>slot f. alloc_fd_slot v = Ok slot \<and> fd = of_nat slot \<and> v' = v\<lparr>vf_files := (vf_files v)[slot := Some f]\<rparr> \<and>
    of_offset f = 0 \<and> of_status_flags f = flags \<and> of_fd_flags f = 0 \<and> of_refs f = 1"
proof (cases "special_path path")
  case True
  then obtain slot where "alloc_fd_slot v = Ok slot" "fd = of_nat slot"
    "v' = v\<lparr>vf_files := (vf_files v)[slot := Some ((special_file path (special_of_path path))\<lparr>of_status_flags := flags\<rparr>)]\<rparr>"
    using assms by (auto simp: Vfs_open_def bindE_Ok_iff split: if_splits)
  then show ?thesis by (auto simp: special_file_def intro!: exI[of _ "(special_file path (special_of_path path))\<lparr>of_status_flags := flags\<rparr>"])
next
  case False
  let ?f = "\<lambda>ino. \<lparr>of_ino = ino, of_offset = 0, of_fd_flags = 0, of_status_flags = flags, of_path = normalize_path path,
    of_special = None, of_refs = 1\<rparr>"
  from False obtain slot ino where "alloc_fd_slot v = Ok slot" "fd = of_nat slot"
    "v' = v\<lparr>vf_files := (vf_files v)[slot := Some (?f ino)]\<rparr>"
    using assms by (auto simp: Vfs_open_def bindE_Ok_iff Let_def split: if_splits)
  then show ?thesis by (auto intro!: exI[of _ "?f ino"])
qed

lemma sint_unat: "0 \<le> sint fd \<Longrightarrow> sint fd = int (unat fd)" for fd :: i32
  using uint_sint[of fd] sint_lt[of fd] by (simp add: take_bit_int_eq_self)

lemma alloc_fd_slot_lowest: "alloc_fd_slot v = Ok slot \<Longrightarrow> j < slot \<Longrightarrow> vf_files v ! j \<noteq> None"
  by (auto simp: alloc_fd_slot_def dest!: position_Some split: option.splits)

text \<open>A volume of format 4 with nothing but a superblock, for examples.\<close>

definition blank_disk :: reading where
  "blank_disk off n = Ok (take n ([0x58, 0x46, 0x53, 0x42, 0, 0, 16, 0] @ replicate 92 0 @ [0, 4, 2, 0, 2, 0] @ replicate 198 0))"

lemma blank_disk_superblock: "\<exists>sb. read_superblock blank_disk = Ok sb"
proof -
  let ?raw = "[0x58, 0x46, 0x53, 0x42, 0, 0, 16, 0] @ replicate 92 0 @ [0, 4, 2, 0, 2, 0] @ replicate 198 0 :: bytes"
  have f: "be_u32 ?raw 0 = Some XFS_SB_MAGIC" "be_u32 ?raw 4 = Some 4096" "be_u16 ?raw 100 = Some 4" "be_u16 ?raw 102 = Some 512"
    "be_u16 ?raw 104 = Some 512" by code_simp+
  define raw where "raw = ?raw"
  have l: "length raw = 304" by (simp add: raw_def)
  have "\<exists>sb. Superblock_parse raw = Ok sb \<and> sb_version sb = 4"
    using f[folded raw_def] l by (simp add: sb_defs exec_simps)
  moreover have "blank_disk 0 304 = Ok raw" by (simp add: blank_disk_def raw_def)
  ultimately show ?thesis by (auto simp: read_superblock_def is_v5_def XFS_SB_VERSION_5_def)
qed

definition fresh_table :: "OpenFile option list" where
  "fresh_table = [Some (special_file (lit ''/dev/stdin'') Stdin), Some (special_file (lit ''/dev/stdout'') Stdout),
     Some (special_file (lit ''/dev/stderr'') Stderr)] @ replicate 61 None"

lemma blank_disk_mounts:
  "\<exists>v. Vfs_mount blank_disk = Ok v \<and> vf_files v = fresh_table \<and> vf_pipes v = [] \<and> vf_next_pipe_id v = 1"
  using blank_disk_superblock by (auto simp: Vfs_mount_def fresh_table_def numeral_nat)

lemma fresh_table_nth: "fresh_table ! 0 = Some (special_file (lit ''/dev/stdin'') Stdin)" "fresh_table ! 3 = None" "fresh_table ! 4 = None"
    "length fresh_table = 64" "position (\<lambda>f. f = None) fresh_table = Some 3" "position (\<lambda>f. f = None) (drop 4 fresh_table) = Some 0"
  by (simp_all add: fresh_table_def numeral_nat)

text \<open>
  Property C15.  The descriptor table after any history of calls.  From the mount on, whatever calls are made with whatever
  arguments, the table has its 64 slots, every open file has an owner, no pipe holds more than its capacity or
  outlives its two ends, and the pipe numbers stay clear of zero.
\<close>

theorem vfs_calls_keep_table:
  assumes "Vfs_mount dev = Ok v0" and "vfs_history cs v0 v"
  shows "vfs_ok v"
  by (rule vfs_history_ok[OF assms(2) mount_ok[OF assms(1)]])

lemma pipe_on_fresh_table:
  assumes "vf_files v = fresh_table" "vf_next_pipe_id v = 1"
  shows "\<exists>v'. create_pipe v = Ok ((3, 4), v') \<and> v' = v\<lparr>vf_next_pipe_id := 2,
     vf_pipes := bt_insert 1 \<lparr>pp_buf = [], pp_readers = 1, pp_writers = 1\<rparr> (vf_pipes v),
     vf_files := fresh_table[3 := Some (special_file (lit ''[pipe]'') (PipeRead 1)),
       4 := Some ((special_file (lit ''[pipe]'') (PipeWrite 1))\<lparr>of_status_flags := 1\<rparr>)]\<rparr>"
proof -
  have "max 2 1 = (2 :: u32)" by (simp add: max_def word_le_nat_alt)
  then show ?thesis using assms fresh_table_nth by (simp add: create_pipe_def alloc_fd_slot_def alloc_fd_slot_from_def Let_def)
qed

text \<open>A pipe on a fresh table, for examples.\<close>

lemma fresh_pipe:
  "\<exists>v0 v1. Vfs_mount blank_disk = Ok v0 \<and> create_pipe v0 = Ok ((3, 4), v1) \<and> vf_next_pipe_id v0 = 1 \<and>
     Vfs_file 3 v1 = Ok (special_file (lit ''[pipe]'') (PipeRead 1)) \<and>
     Vfs_file 4 v1 = Ok ((special_file (lit ''[pipe]'') (PipeWrite 1))\<lparr>of_status_flags := 1\<rparr>) \<and>
     map_of (vf_pipes v1) 1 = Some \<lparr>pp_buf = [], pp_readers = 1, pp_writers = 1\<rparr>"
proof -
  obtain v0 where v0: "Vfs_mount blank_disk = Ok v0" "vf_files v0 = fresh_table" "vf_next_pipe_id v0 = 1" using blank_disk_mounts by blast
  from pipe_on_fresh_table[OF v0(2,3)] obtain v1 where v1: "create_pipe v0 = Ok ((3, 4), v1)" and
    e: "v1 = v0\<lparr>vf_next_pipe_id := 2, vf_pipes := bt_insert 1 \<lparr>pp_buf = [], pp_readers = 1, pp_writers = 1\<rparr> (vf_pipes v0),
     vf_files := fresh_table[3 := Some (special_file (lit ''[pipe]'') (PipeRead 1)),
       4 := Some ((special_file (lit ''[pipe]'') (PipeWrite 1))\<lparr>of_status_flags := 1\<rparr>)]\<rparr>" by blast
  have "Vfs_file 3 v1 = Ok (special_file (lit ''[pipe]'') (PipeRead 1))"
    "Vfs_file 4 v1 = Ok ((special_file (lit ''[pipe]'') (PipeWrite 1))\<lparr>of_status_flags := 1\<rparr>)"
    using Vfs_file_slot[of v1 3] Vfs_file_slot[of v1 4] fresh_table_nth(4) by (simp_all add: e)
  then show ?thesis using v0(1,3) v1 by (auto simp: e)
qed

theorem vfs_calls_keep_table_witness:
  "\<exists>v0 v. Vfs_mount blank_disk = Ok v0 \<and> vfs_history [PipeCall] v0 v \<and> create_pipe v0 = Ok ((3, 4), v) \<and> vfs_ok v"
proof -
  obtain v0 where v0: "Vfs_mount blank_disk = Ok v0" "vf_files v0 = fresh_table" "vf_next_pipe_id v0 = 1" using blank_disk_mounts by blast
  from pipe_on_fresh_table[OF v0(2,3)] obtain v where v: "create_pipe v0 = Ok ((3, 4), v)" by blast
  have h: "vfs_history [PipeCall] v0 v" using history_call[OF history_start step_pipe[OF v]] by simp
  show ?thesis using vfs_calls_keep_table[OF v0(1) h] v0(1) v h by blast
qed

text \<open>
  Property C32.  Opening takes the lowest free descriptor.  After any history of calls, a successful open returns a descriptor that
  was not open, below which every descriptor is open; it starts at offset zero, and no other descriptor is affected.
\<close>

theorem open_lowest_descriptor:
  assumes "Vfs_mount dev = Ok v0" and "vfs_history cs v0 v" and "Vfs_open path flags v = Ok (fd, v')"
  shows "Vfs_file fd v = Err InvalidFd \<and> (\<exists>f. Vfs_file fd v' = Ok f \<and> of_offset f = 0 \<and> of_status_flags f = flags) \<and>
    (\<forall>fd'. 0 \<le> sint fd' \<and> sint fd' < sint fd \<longrightarrow> (\<exists>f. Vfs_file fd' v = Ok f)) \<and>
    (\<forall>fd'. fd' \<noteq> fd \<longrightarrow> Vfs_file fd' v' = Vfs_file fd' v)"
proof -
  have len: "length (vf_files v) = 64" using vfs_history_ok[OF assms(2) mount_ok[OF assms(1)]] by (simp add: vfs_ok_def)
  from Vfs_open_effect[OF assms(3)] obtain slot f where s: "alloc_fd_slot v = Ok slot" "fd = of_nat slot"
    "v' = v\<lparr>vf_files := (vf_files v)[slot := Some f]\<rparr>" "of_offset f = 0" "of_status_flags f = flags" by blast
  have slot: "slot < 64" "vf_files v ! slot = None" using alloc_fd_slot_Ok[OF s(1)] len by simp_all
  have low: "\<exists>g. Vfs_file fd' v = Ok g" if "0 \<le> sint fd'" "sint fd' < sint fd" for fd'
  proof -
    have "sint fd' = int (unat fd')" "sint fd = int slot" using that fd_of_slot[OF slot(1)] s(2) by (simp_all add: sint_unat)
    then have "int (unat fd') < int slot" using that by (simp only:)
    then have "unat fd' < slot" by (simp only: of_nat_less_iff)
    then show ?thesis using alloc_fd_slot_lowest[OF s(1)] that(1) slot(1) len by (auto simp: Vfs_file_iff)
  qed
  show ?thesis using Vfs_file_slot[OF len slot(1)] Vfs_file_slot[of v' slot] Vfs_file_other[OF slot(1)] low slot len s by auto
qed

theorem open_lowest_descriptor_witness:
  "\<exists>v0 v. Vfs_mount blank_disk = Ok v0 \<and> Vfs_open (lit ''/dev/null'') 2 v0 = Ok (3, v) \<and> Vfs_file 3 v0 = Err InvalidFd \<and>
     Vfs_file 2 v = Ok (special_file (lit ''/dev/stderr'') Stderr)"
proof -
  obtain v0 where v0: "Vfs_mount blank_disk = Ok v0" "vf_files v0 = fresh_table" using blank_disk_mounts by blast
  have "\<not> str_eq_lit (lit ''/dev/null'') (lit ''/usr/etc/ld-musl-x86_64.path'')" "special_path (lit ''/dev/null'')" by code_simp+
  then obtain v where v: "Vfs_open (lit ''/dev/null'') 2 v0 = Ok (3, v)"
    using fresh_table_nth v0(2) by (simp add: Vfs_open_def alloc_fd_slot_def)
  have "Vfs_file 2 v0 = Ok (special_file (lit ''/dev/stderr'') Stderr)"
    using Vfs_file_slot[of v0 2] v0(2) by (simp add: fresh_table_def)
  then show ?thesis using open_lowest_descriptor[OF v0(1) history_start v] v0(1) v by auto
qed

section \<open>Pipe ends in use\<close>

lemma mount_counted: "Vfs_mount dev = Ok v \<Longrightarrow> counted v \<and> vf_next_pipe_id v = 1"
  by (auto simp: Vfs_mount_def bindE_Ok_iff counted_def ends_def special_at_def special_file_def filter_empty_conv
      dest!: set_list_update_Some split: option.splits)

lemma history_counted:
  assumes "vfs_history cs v0 v" "counted v0" "DupCall \<notin> set cs" "unat (vf_next_pipe_id v0) + length (filter ((=) PipeCall) cs) < 2 ^ 32 - 1"
  shows "counted v \<and> unat (vf_next_pipe_id v) = unat (vf_next_pipe_id v0) + length (filter ((=) PipeCall) cs)"
  using assms
proof (induction rule: vfs_history.induct)
  case (history_call cs v0 v c v')
  then have IH: "counted v" "unat (vf_next_pipe_id v) = unat (vf_next_pipe_id v0) + length (filter ((=) PipeCall) cs)" by simp_all
  have "unat (- 1 :: u32) = 2 ^ 32 - 1" by (simp add: unsigned_minus_1_eq_mask mask_eq_exp_minus_1)
  then have "vf_next_pipe_id v \<noteq> - 1" using IH(2) history_call.prems(3) by auto
  then show ?case using step_counted[OF history_call.hyps(2) IH(1)] IH(2) history_call.prems(2) by auto
qed simp

lemma ends_open:
  assumes "length (vf_files v) = 64"
  shows "0 < ends v sp \<longleftrightarrow> (\<exists>fd f. Vfs_file fd v = Ok f \<and> of_special f = Some sp)"
proof
  assume "0 < ends v sp"
  then obtain i f where "i < 64" "vf_files v ! i = Some f" "of_special f = Some sp"
    using assms by (auto simp: ends_pos special_at_def split: option.splits)
  then show "\<exists>fd f. Vfs_file fd v = Ok f \<and> of_special f = Some sp" using Vfs_file_slot[OF assms, of i] by auto
next
  assume "\<exists>fd f. Vfs_file fd v = Ok f \<and> of_special f = Some sp"
  then show "0 < ends v sp" by (auto simp: ends_pos Vfs_file_iff special_at_def)
qed

text \<open>
  Property C12.  End of file on a pipe.  After any history of calls that duplicates no descriptor and makes fewer than four billion pipes,
  a read from the read end of a pipe gives the oldest bytes in it; when there are none it reports the end of the file
  if no descriptor is open on the write end, and waits otherwise.
\<close>

theorem pipe_end_of_file:
  assumes "Vfs_mount dev = Ok v0" and "vfs_history cs v0 v" and "DupCall \<notin> set cs"
    and "length (filter ((=) PipeCall) cs) < 2 ^ 32 - 2"
    and "Vfs_file fd v = Ok f" and "of_special f = Some (PipeRead i)" and "0 < n"
  shows "\<exists>p. map_of (vf_pipes v) i = Some p \<and>
    Vfs_read fd n v s =
      (if pp_buf p \<noteq> [] then Ok (take n (pp_buf p), v\<lparr>vf_pipes := bt_insert i (p\<lparr>pp_buf := drop n (pp_buf p)\<rparr>) (vf_pipes v)\<rparr>, s)
       else if \<exists>fd' g. Vfs_file fd' v = Ok g \<and> of_special g = Some (PipeWrite i) then Err WouldBlock
       else Ok ([], v, s))"
proof -
  have len: "length (vf_files v) = 64" using vfs_history_ok[OF assms(2) mount_ok[OF assms(1)]] by (simp add: vfs_ok_def)
  have c: "counted v" using history_counted[OF assms(2) _ assms(3)] mount_counted[OF assms(1)] assms(4) by simp
  have "0 < ends v (PipeRead i)" using ends_open[OF len] assms(5,6) by blast
  then obtain p where p: "map_of (vf_pipes v) i = Some p" using counted_at(2)[OF c, of i] by (cases "map_of (vf_pipes v) i") auto
  have "pp_writers p = 0 \<longleftrightarrow> ends v (PipeWrite i) = 0" using counted_at(1)[OF c p] by (simp add: unat_eq_zero[symmetric])
  then have w: "pp_writers p \<noteq> 0 \<longleftrightarrow> (\<exists>fd' g. Vfs_file fd' v = Ok g \<and> of_special g = Some (PipeWrite i))"
    using ends_open[OF len, of "PipeWrite i"] by simp
  show ?thesis using p assms(5-7) unfolding w[symmetric] by (simp add: Vfs_read_def read_pipe_def)
qed

theorem pipe_end_of_file_witness:
  "\<exists>v0 v. Vfs_mount blank_disk = Ok v0 \<and> create_pipe v0 = Ok ((3, 4), v) \<and> (\<forall>s. Vfs_read 3 8 v s = Err WouldBlock)"
proof -
  obtain v0 v where v: "Vfs_mount blank_disk = Ok v0" "create_pipe v0 = Ok ((3, 4), v)" "Vfs_file 3 v = Ok (special_file (lit ''[pipe]'') (PipeRead 1))"
    "Vfs_file 4 v = Ok ((special_file (lit ''[pipe]'') (PipeWrite 1))\<lparr>of_status_flags := 1\<rparr>)"
    "map_of (vf_pipes v) 1 = Some \<lparr>pp_buf = [], pp_readers = 1, pp_writers = 1\<rparr>" using fresh_pipe by blast
  have h: "vfs_history [PipeCall] v0 v" using history_call[OF history_start step_pipe[OF v(2)]] by simp
  have "\<exists>fd g. Vfs_file fd v = Ok g \<and> of_special g = Some (PipeWrite 1)" 
    by (rule exI[of _ 4], rule exI, rule conjI, rule v(4)) (simp add: special_file_def)
  then have "Vfs_read 3 8 v s = Err WouldBlock" for s
    using pipe_end_of_file[OF v(1) h _ _ v(3), of 1 8 s] v(5) by (auto simp: special_file_def)
  then show ?thesis using v(1,2) by blast
qed

end
