(* ===== verification/Crab_Header.thy ===== *)
theory Crab_Header
  imports Crab_Superblock Crab_Ag Crab_Inode
begin

text \<open>
  What the on-disk headers have in common: a parser that reads a fixed number of bytes and a checksum
  field inside them.  A header serialised at the start of a cleared buffer and sealed with its
  checksum parses back to itself, with the checksum filled in, and verifies.
\<close>

definition sealed_image :: "bytes \<Rightarrow> nat \<Rightarrow> nat \<Rightarrow> bytes" where
  "sealed_image head crc_off len =
    (let s = rd (wr (replicate 4096 0) 0 head) 0 len
     in wr s crc_off (to_le_bytes (xfs_crc_of s crc_off)))"

lemma length_sealed_image [simp]: "len \<le> 4096 \<Longrightarrow> length (sealed_image head crc_off len) = len"
  by (simp add: sealed_image_def Let_def)

lemma sealed_image_verifies:
  "crc_off + 4 \<le> len \<Longrightarrow> len \<le> 4096 \<Longrightarrow> verify_xfs_crc (sealed_image head crc_off len) crc_off = Some True"
  unfolding sealed_image_def Let_def by (rule sealed_verifies) simp

lemma rd_padded:
  assumes "off + n \<le> length head" and "length head \<le> len" and "len \<le> 4096"
  shows "rd (rd (wr (replicate 4096 0) 0 head) 0 len) off n = rd head off n"
  using assms by (simp add: rd_rd rd_wr_inside)

lemma rd_sealed_image:
  assumes "off + n \<le> length head" and "length head \<le> len" and "len \<le> 4096"
    and "off + n \<le> crc_off \<or> crc_off + 4 \<le> off"
  shows "rd (sealed_image head crc_off len) off n = rd head off n"
  using assms by (simp add: sealed_image_def Let_def rd_wr_other rd_padded)

lemma rd_sealed_image_tail:
  assumes "length head \<le> off" and "off + n \<le> len" and "len \<le> 4096" and "crc_off + 4 \<le> length head"
  shows "rd (sealed_image head crc_off len) off n = replicate n 0"
  using assms
  by (simp add: sealed_image_def Let_def rd_wr_other rd_rd) (simp add: rd_def min_def)

locale disk_header =
  fixes parse :: "bytes \<Rightarrow> (ParseError, 'a) outcome"
    and hdr crc_off :: nat
    and set_crc :: "bytes \<Rightarrow> 'a \<Rightarrow> 'a"
  assumes crc_inside: "crc_off + 4 \<le> hdr"
    and parse_prefix: "hdr \<le> length b \<Longrightarrow> parse (rd b 0 hdr) = parse b"
    and parse_crc_field:
      "hdr \<le> length b \<Longrightarrow> parse b = Ok x \<Longrightarrow> length xs = 4 \<Longrightarrow>
         parse (wr b crc_off xs) = Ok (set_crc xs x)"
begin

lemma parse_sealed_image:
  assumes "hdr \<le> length head" and "length head \<le> len" and "len \<le> 4096" and "parse head = Ok x"
  shows "parse (sealed_image head crc_off len) =
           Ok (set_crc (rd (sealed_image head crc_off len) crc_off 4) x)"
proof -
  let ?s = "rd (wr (replicate 4096 0) 0 head) 0 len"
  let ?c = "to_le_bytes (xfs_crc_of ?s crc_off)"
  have "rd ?s 0 hdr = rd head 0 hdr" using assms rd_padded[of 0 hdr head len] by simp
  then have "parse ?s = Ok x"
    using parse_prefix[of ?s] parse_prefix[of head] assms by simp
  then have "parse (wr ?s crc_off ?c) = Ok (set_crc ?c x)"
    using assms by (intro parse_crc_field) simp_all
  moreover have "rd (sealed_image head crc_off len) crc_off 4 = ?c"
    using assms crc_inside by (simp add: sealed_image_def Let_def rd_wr_same)
  ultimately show ?thesis by (simp add: sealed_image_def Let_def)
qed

end

lemma V5Fields_parse_crc:
  "XFS_DSB_SIZE \<le> length b \<Longrightarrow> length xs = 4 \<Longrightarrow>
     V5Fields_parse (wr b XFS_SB_CRC_OFF xs) =
       map_option (\<lambda>v. v\<lparr>v5_crc := from_le_bytes xs\<rparr>) (V5Fields_parse b)"
  by (simp add: V5Fields_parse_def exec_simps buf_simps)

lemma Superblock_fields_crc:
  "XFS_DSB_SIZE \<le> length b \<Longrightarrow> length xs = 4 \<Longrightarrow>
     Superblock_fields (wr b XFS_SB_CRC_OFF xs) bs ver ss isz u f (map_option g v) =
       map_option (sb_v5_update (map_option g)) (Superblock_fields b bs ver ss isz u f v)"
  by (simp add: Superblock_fields_def exec_simps buf_simps)

lemma Superblock_parse_crc:
  assumes "XFS_DSB_SIZE \<le> length b" and "Superblock_parse b = Ok sb" and "length xs = 4"
  shows "Superblock_parse (wr b XFS_SB_CRC_OFF xs) = Ok (Superblock_set_crc (from_le_bytes xs) sb)"
proof -
  let ?g = "\<lambda>v. v\<lparr>v5_crc := from_le_bytes xs\<rparr>"
  have None: "Superblock_fields (wr b XFS_SB_CRC_OFF xs) bs ver ss isz u f None =
       map_option (sb_v5_update (map_option ?g)) (Superblock_fields b bs ver ss isz u f None)"
    for bs ver ss isz u f
    using Superblock_fields_crc[OF assms(1,3), where g = ?g and v = None] by simp
  have Some: "Superblock_fields (wr b XFS_SB_CRC_OFF xs) bs ver ss isz u f (Some (?g v)) =
       map_option (sb_v5_update (map_option ?g)) (Superblock_fields b bs ver ss isz u f (Some v))"
    for bs ver ss isz u f v
    using Superblock_fields_crc[OF assms(1,3), where g = ?g and v = "Some v"] by simp
  show ?thesis
    using assms
    by (auto simp: Superblock_parse_def Superblock_set_crc_def V5Fields_parse_crc None Some exec_simps buf_simps
        Option.bind_eq_Some_conv split: if_splits)
qed

interpretation hdr_sb: disk_header Superblock_parse XFS_DSB_SIZE XFS_SB_CRC_OFF
  "\<lambda>c. Superblock_set_crc (from_le_bytes c)"
  by unfold_locales (simp_all add: Superblock_parse_prefix Superblock_parse_crc)

lemma Agf_parse_prefix: "XFS_AGF_SIZE \<le> length b \<Longrightarrow> Agf_parse (rd b 0 XFS_AGF_SIZE) = Agf_parse b"
  by (simp add: Agf_parse_def exec_simps rd_rd)

lemma Agf_parse_crc:
  assumes "XFS_AGF_SIZE \<le> length b" and "Agf_parse b = Ok x" and "length xs = 4"
  shows "Agf_parse (wr b XFS_AGF_CRC_OFF xs) = Ok (x\<lparr>agf_crc := from_be_bytes xs\<rparr>)"
  using assms by (clarsimp simp: Agf_parse_def exec_simps buf_simps split: if_split_asm)

interpretation hdr_agf: disk_header Agf_parse XFS_AGF_SIZE XFS_AGF_CRC_OFF
  "\<lambda>c x. x\<lparr>agf_crc := from_be_bytes c\<rparr>"
  by unfold_locales (simp_all add: Agf_parse_prefix Agf_parse_crc)

lemma Agi_parse_prefix: "XFS_AGI_SIZE \<le> length b \<Longrightarrow> Agi_parse (rd b 0 XFS_AGI_SIZE) = Agi_parse b"
  by (simp add: Agi_parse_def exec_simps rd_rd)

lemma Agi_parse_crc:
  assumes "XFS_AGI_SIZE \<le> length b" and "Agi_parse b = Ok x" and "length xs = 4"
  shows "Agi_parse (wr b XFS_AGI_CRC_OFF xs) = Ok (x\<lparr>agi_crc := from_be_bytes xs\<rparr>)"
  using assms by (clarsimp simp: Agi_parse_def exec_simps buf_simps split: if_split_asm)

interpretation hdr_agi: disk_header Agi_parse XFS_AGI_SIZE XFS_AGI_CRC_OFF
  "\<lambda>c x. x\<lparr>agi_crc := from_be_bytes c\<rparr>"
  by unfold_locales (simp_all add: Agi_parse_prefix Agi_parse_crc)

text \<open>The AGFL parser wants the whole sector; its header is read alone with a sector of 36 bytes.\<close>

definition Agfl_header :: "bytes \<Rightarrow> (ParseError, Agfl) outcome" where
  "Agfl_header b = Agfl_parse (rd b 0 36) 36 True"

lemma Agfl_header_crc:
  assumes "XFS_AGFL_HEADER_SIZE \<le> length b" and "Agfl_header b = Ok x" and "length xs = 4"
  shows "Agfl_header (wr b XFS_AGFL_CRC_OFF xs) = Ok (x\<lparr>agfl_crc := from_be_bytes xs\<rparr>)"
  using assms
  by (clarsimp simp: Agfl_header_def Agfl_parse_def Let_def exec_simps rd_rd buf_simps split: if_split_asm)

interpretation hdr_agfl: disk_header Agfl_header XFS_AGFL_HEADER_SIZE XFS_AGFL_CRC_OFF
  "\<lambda>c x. x\<lparr>agfl_crc := from_be_bytes c\<rparr>"
  by unfold_locales (simp_all add: Agfl_header_crc, simp add: Agfl_header_def rd_rd)

lemma Agfl_parse_longer:
  assumes "36 \<le> length b" and "unat ss \<le> length b" and "Agfl_header b = Ok x"
  shows "Agfl_parse b ss True = Ok (x\<lparr>agfl_entries_total := of_nat ((unat ss - 36) div 4)\<rparr>)"
proof -
  have "unat ss < 2 ^ 16" using unat_bound[of ss] by simp
  then show ?thesis using assms
    by (auto simp: Agfl_header_def Agfl_parse_def Let_def exec_simps rd_rd split: if_splits)
qed

lemma InodeBtreeRoot_parse_prefix:
  "XFS_BTREE_SBLOCK_CRC_LEN \<le> length b \<Longrightarrow>
     InodeBtreeRoot_parse (rd b 0 XFS_BTREE_SBLOCK_CRC_LEN) k True = InodeBtreeRoot_parse b k True"
  by (simp add: InodeBtreeRoot_parse_def Let_def exec_simps rd_rd)

lemma InodeBtreeRoot_parse_crc:
  assumes "XFS_BTREE_SBLOCK_CRC_LEN \<le> length b" and "InodeBtreeRoot_parse b k True = Ok x"
    and "length xs = 4"
  shows "InodeBtreeRoot_parse (wr b XFS_BTREE_SBLOCK_CRC_OFF xs) k True =
           Ok (x\<lparr>ibt_crc := from_le_bytes xs\<rparr>)"
  using assms by (clarsimp simp: InodeBtreeRoot_parse_def exec_simps buf_simps Let_def split: if_split_asm)

interpretation hdr_ibt: disk_header "\<lambda>b. InodeBtreeRoot_parse b k True" XFS_BTREE_SBLOCK_CRC_LEN
  XFS_BTREE_SBLOCK_CRC_OFF "\<lambda>c x. x\<lparr>ibt_crc := from_le_bytes c\<rparr>" for k
  by unfold_locales (simp_all add: InodeBtreeRoot_parse_prefix InodeBtreeRoot_parse_crc)

lemma Inode_parse_prefix:
  "XFS_DINODE_SIZE_V3 \<le> length b \<Longrightarrow> Inode_parse (rd b 0 XFS_DINODE_SIZE_V3) = Inode_parse b"
  by (simp add: Inode_parse_def Let_def exec_simps rd_rd nth_rd numeral_2_eq_2)

lemma Inode_parse_crc:
  assumes "XFS_DINODE_SIZE_V3 \<le> length b" and "Inode_parse b = Ok x" and "length xs = 4"
  shows "Inode_parse (wr b XFS_DINODE_CRC_OFF xs) = Ok (x\<lparr>di_crc := from_le_bytes xs\<rparr>)"
  using assms by (clarsimp simp: Inode_parse_def exec_simps buf_simps Let_def split: if_split_asm)

interpretation hdr_inode: disk_header Inode_parse XFS_DINODE_SIZE_V3 XFS_DINODE_CRC_OFF
  "\<lambda>c x. x\<lparr>di_crc := from_le_bytes c\<rparr>"
  by unfold_locales (simp_all add: Inode_parse_prefix Inode_parse_crc)

end
