(* ===== verification/Crab_Writer.thy ===== *)
theory Crab_Writer
  imports Crab_Reader Crab_Header
begin

text \<open>
  The formatter of \<^verbatim>\<open>lib/crabfs/writer.rs\<close>.  \<open>mkfs\<close> writes, for each allocation group, the four
  header sectors and the four btree root blocks, and in the first group the root inode.  The device's
  \<^verbatim>\<open>write_at\<close> is a parameter.  The lemmas describe the bytes of each write and show that the writes of
  one group land on disjoint ranges inside the group.
\<close>

section \<open>Options and logarithms\<close>

record MkfsOptions =
  mk_block_size :: u32
  mk_sector_size :: u16
  mk_ag_blocks :: u32
  mk_total_blocks :: u64
  mk_uuid :: bytes

definition ilog2 :: "u64 \<Rightarrow> u8" where
  "ilog2 n = (if n \<le> 1 then 0 else of_nat (nat_log2 (unat n)))"

definition ceil_ilog2 :: "u64 \<Rightarrow> u8" where
  "ceil_ilog2 n = (if n \<le> 1 then 0 else of_nat (nat_log2 (unat (n - 1))) + 1)"

section \<open>The structures mkfs writes\<close>

definition mkfs_v5 :: "MkfsOptions \<Rightarrow> V5Fields" where
  "mkfs_v5 opts = \<lparr>v5_features_compat = 0, v5_features_ro_compat = 0,
     v5_features_incompat = XFS_SB_FEAT_INCOMPAT_FTYPE, v5_features_log_incompat = 0, v5_crc = 0,
     v5_sparse_inode_align = 8, v5_pquotino = 0, v5_lsn = 0, v5_meta_uuid = mk_uuid opts,
     v5_metadirino = 0, v5_rgcount = 0, v5_rgextents = 0, v5_rgblklog = 0, v5_rtstart = 0,
     v5_rtreserved = 0\<rparr>"

definition mkfs_superblock :: "MkfsOptions \<Rightarrow> u32 \<Rightarrow> Superblock exec" where
  "mkfs_superblock opts ag_count = do {
     inopblog \<leftarrow> csub (ilog2 (ucast (mk_block_size opts))) 9;
     fdblocks \<leftarrow> csub (mk_total_blocks opts) 10;
     let sb = \<lparr>sb_block_size = mk_block_size opts, sb_dblocks = mk_total_blocks opts,
       sb_rblocks = 0, sb_rextents = 0, sb_uuid = mk_uuid opts, sb_logstart = 0, sb_rootino = 0,
       sb_rbmino = 0, sb_rsumino = 0, sb_rextsize = 0, sb_ag_blocks = mk_ag_blocks opts,
       sb_ag_count = ag_count, sb_rbm_blocks = 0, sb_log_blocks = 0,
       sb_version = XFS_SB_VERSION_5, sb_sector_size = mk_sector_size opts, sb_inode_size = 512,
       sb_inode_per_block = ucast (mk_block_size opts div 512), sb_fname = replicate 12 0,
       sb_block_log = ilog2 (ucast (mk_block_size opts)),
       sb_sect_log = ilog2 (ucast (mk_sector_size opts)), sb_inode_log = 9,
       sb_inopblog = inopblog, sb_agblklog = ceil_ilog2 (ucast (mk_ag_blocks opts)),
       sb_rextslog = 0, sb_inprogress = False, sb_imax_pct = 25, sb_icount = 64, sb_ifree = 63,
       sb_fdblocks = fdblocks, sb_frextents = 0, sb_uquotino = 0, sb_gquotino = 0, sb_qflags = 0,
       sb_flags = 0, sb_shared_vn = 0, sb_inoalignmt = 0, sb_unit = 0, sb_width = 0,
       sb_log_sector_size = mk_sector_size opts, sb_log_sunit = 0, sb_features2 = 0,
       sb_bad_features2 = 0, sb_v5 = Some (mkfs_v5 opts)\<rparr>;
     rootino \<leftarrow> cshl 8 (unat (sb_inopblog sb));
     Some (sb\<lparr>sb_rootino := rootino\<rparr>) }"

definition mkfs_agf :: "MkfsOptions \<Rightarrow> u32 \<Rightarrow> Agf exec" where
  "mkfs_agf opts agno = do {
     freeblks \<leftarrow> csub (mk_ag_blocks opts) 10;
     longest \<leftarrow> csub (mk_ag_blocks opts) 10;
     Some \<lparr>agf_seqno = agno, agf_length = mk_ag_blocks opts, agf_bno_root = 4, agf_cnt_root = 5,
       agf_rmap_root = 0, agf_bno_level = 1, agf_cnt_level = 1, agf_rmap_level = 0,
       agf_flfirst = 0, agf_fllast = 0, agf_flcount = 0, agf_freeblks = freeblks,
       agf_longest = longest, agf_btreeblks = 0, agf_uuid = mk_uuid opts, agf_rmap_blocks = 0,
       agf_refcount_blocks = 0, agf_refcount_root = 0, agf_refcount_level = 0, agf_lsn = 0,
       agf_crc = 0\<rparr> }"

definition mkfs_agi :: "MkfsOptions \<Rightarrow> u32 \<Rightarrow> Agi" where
  "mkfs_agi opts agno =
     \<lparr>agi_seqno = agno, agi_length = mk_ag_blocks opts, agi_count = (if agno = 0 then 64 else 0),
       agi_root = 6, agi_level = 1, agi_freecount = (if agno = 0 then 63 else 0),
       agi_newino = 0xffffffff, agi_dirino = 0xffffffff,
       agi_unlinked = replicate 64 0xffffffff, agi_uuid = mk_uuid opts, agi_crc = 0, agi_lsn = 0,
       agi_free_root = 7, agi_free_level = 1, agi_iblocks = 0, agi_fblocks = 0\<rparr>"

definition mkfs_agfl :: "MkfsOptions \<Rightarrow> u32 \<Rightarrow> Agfl" where
  "mkfs_agfl opts agno =
     \<lparr>agfl_magicnum = 0, agfl_seqno = agno, agfl_uuid = mk_uuid opts, agfl_lsn = 0, agfl_crc = 0,
       agfl_entries_total = 0\<rparr>"

definition root_blocks :: "(u32 \<times> u32) list" where
  "root_blocks = [(4, 0x41423342), (5, 0x434e3342), (6, XFS_IBT_CRC_MAGIC), (7, XFS_FIBT_CRC_MAGIC)]"

definition mkfs_btree_root :: "MkfsOptions \<Rightarrow> u32 \<Rightarrow> u32 \<Rightarrow> u32 \<Rightarrow> InodeBtreeRoot exec" where
  "mkfs_btree_root opts agno blk magic = do {
     base \<leftarrow> cmul (ucast agno) (ucast (mk_ag_blocks opts));
     blkno \<leftarrow> cadd base (ucast blk);
     Some \<lparr>ibt_kind = Inobt, ibt_magic = magic, ibt_level = 1, ibt_numrecs = 0,
       ibt_leftsib = 0xffffffff, ibt_rightsib = 0xffffffff, ibt_blkno = blkno, ibt_lsn = 0,
       ibt_uuid = mk_uuid opts, ibt_owner = agno, ibt_crc = 0\<rparr> }"

definition mkfs_root_inode :: "MkfsOptions \<Rightarrow> u64 \<Rightarrow> Inode" where
  "mkfs_root_inode opts rootino =
     \<lparr>di_magic = XFS_DINODE_MAGIC, di_mode = 0x41ed, di_version = 3, di_format = Local,
       di_onlink = 0, di_uid = 0, di_gid = 0, di_nlink = 2, di_projid = 0, di_flushiter = 0,
       di_atime = (0, 0), di_mtime = (0, 0), di_ctime = (0, 0), di_size = 0, di_nblocks = 0,
       di_extsize = 0, di_nextents = 0, di_anextents = 0, di_forkoff = 0, di_aformat = Extents,
       di_dmevmask = 0, di_dmstate = 0, di_flags = 0, di_generation = 0,
       di_next_unlinked = 0xffffffff, di_crc = 0, di_change_count = 0, di_lsn = 0, di_flags2 = 0,
       di_cowextsize = 0, di_crtime = (0, 0), di_ino = rootino, di_uuid = mk_uuid opts\<rparr>"

section \<open>Writing them\<close>

text \<open>
  Every write follows one pattern: clear the 4096-byte sector buffer, serialise a header into its
  first \<open>hdr\<close> bytes, seal the first \<open>len\<close> bytes, and write those to the device.
\<close>

definition sector_put :: "'d write_op \<Rightarrow> 'd \<Rightarrow> (bytes \<Rightarrow> (ParseError, bytes) outcome) \<Rightarrow> nat \<Rightarrow> nat \<Rightarrow>
    nat \<Rightarrow> u64 exec \<Rightarrow> (WriteError, 'd) outcome" where
  "sector_put write_at dev serialize hdr crc_off len offset = do {
     let sector = replicate 4096 0;
     head \<leftarrow> get_range sector 0 hdr;
     bindE (serialize head) WParse (\<lambda>head. do {
       let sector = wr sector 0 head;
       body \<leftarrow> get_range sector 0 len;
       body \<leftarrow> write_xfs_crc crc_off body;
       let sector = wr sector 0 body;
       off \<leftarrow> offset;
       out \<leftarrow> get_range sector 0 len;
       bindE (write_at dev off out) WDevice Ok }) }"

definition sector_off :: "u64 \<Rightarrow> u64 \<Rightarrow> u16 \<Rightarrow> u64 exec" where
  "sector_off start k sector_size = do {
     rel \<leftarrow> cmul k (ucast sector_size);
     cadd start rel }"

definition block_off :: "u64 \<Rightarrow> u32 \<Rightarrow> u32 \<Rightarrow> u64 exec" where
  "block_off start blk block_size = do {
     rel \<leftarrow> cmul (ucast blk) (ucast block_size);
     cadd start rel }"

fun mkfs_roots :: "'d write_op \<Rightarrow> MkfsOptions \<Rightarrow> u32 \<Rightarrow> u64 \<Rightarrow> (u32 \<times> u32) list \<Rightarrow> 'd \<Rightarrow>
    (WriteError, 'd) outcome" where
  "mkfs_roots write_at opts agno start [] dev = Ok dev" |
  "mkfs_roots write_at opts agno start ((blk, magic) # rest) dev = do {
     root \<leftarrow> mkfs_btree_root opts agno blk magic;
     bindE (sector_put write_at dev (InodeBtreeRoot_serialize root) XFS_DSB_SIZE
              XFS_BTREE_SBLOCK_CRC_OFF (unat (mk_block_size opts))
              (block_off start blk (mk_block_size opts))) id
       (mkfs_roots write_at opts agno start rest) }"

definition mkfs_ag :: "'d write_op \<Rightarrow> MkfsOptions \<Rightarrow> Superblock \<Rightarrow> u32 \<Rightarrow> 'd \<Rightarrow>
    (WriteError, 'd) outcome" where
  "mkfs_ag write_at opts sb agno dev = do {
     let ss = unat (mk_sector_size opts);
     ags \<leftarrow> cmul (ucast agno) (ucast (mk_ag_blocks opts));
     start \<leftarrow> cmul ags (ucast (mk_block_size opts));
     bindE (sector_put write_at dev (Superblock_serialize sb) XFS_DSB_SIZE XFS_SB_CRC_OFF ss
              (Some start)) id (\<lambda>dev. do {
     agf \<leftarrow> mkfs_agf opts agno;
     bindE (sector_put write_at dev (Agf_serialize agf) XFS_AGF_SIZE XFS_AGF_CRC_OFF ss
              (cadd start (ucast (mk_sector_size opts)))) id (\<lambda>dev.
     bindE (sector_put write_at dev (Agi_serialize (mkfs_agi opts agno)) XFS_AGI_SIZE
              XFS_AGI_CRC_OFF ss (sector_off start 2 (mk_sector_size opts))) id (\<lambda>dev.
     bindE (sector_put write_at dev (\<lambda>b. Agfl_serialize (mkfs_agfl opts agno) b True)
              XFS_AGFL_HEADER_SIZE XFS_AGFL_CRC_OFF ss
              (sector_off start 3 (mk_sector_size opts))) id (\<lambda>dev.
     bindE (mkfs_roots write_at opts agno start root_blocks dev) id (\<lambda>dev.
     if agno = 0
     then sector_put write_at dev (Inode_serialize (mkfs_root_inode opts (sb_rootino sb)))
            XFS_DINODE_SIZE_V3 XFS_DINODE_CRC_OFF (unat (sb_inode_size sb))
            (block_off start 8 (sb_block_size sb))
     else Ok dev)))) }) }"

text \<open>The loop \<^verbatim>\<open>for agno in 0..ag_count\<close>, with \<open>n\<close> groups left.\<close>

fun mkfs_loop :: "'d write_op \<Rightarrow> MkfsOptions \<Rightarrow> Superblock \<Rightarrow> u32 \<Rightarrow> nat \<Rightarrow> 'd \<Rightarrow>
    (WriteError, 'd) outcome" where
  "mkfs_loop write_at opts sb agno 0 dev = Ok dev" |
  "mkfs_loop write_at opts sb agno (Suc n) dev =
     bindE (mkfs_ag write_at opts sb agno dev) id (mkfs_loop write_at opts sb (agno + 1) n)"

definition mkfs :: "'d write_op \<Rightarrow> 'd \<Rightarrow> MkfsOptions \<Rightarrow> (WriteError, 'd) outcome" where
  "mkfs write_at dev opts = do {
     count \<leftarrow> div_ceil (mk_total_blocks opts) (ucast (mk_ag_blocks opts));
     let ag_count = (ucast count :: u32);
     sb \<leftarrow> mkfs_superblock opts ag_count;
     mkfs_loop write_at opts sb 0 (unat ag_count) dev }"

section \<open>Lemmas\<close>

lemma sector_put_eq:
  assumes "serialize (replicate hdr 0) = Ok head" and "length head = hdr" and "hdr \<le> 4096"
    and "len \<le> 4096" and "crc_off + 4 \<le> len"
  shows "sector_put write_at dev serialize hdr crc_off len (Some off) =
           bindE (write_at dev off (sealed_image head crc_off len)) WDevice Ok"
proof -
  have "rd (wr (wr (replicate 4096 0) 0 head) 0 (sealed_image head crc_off len)) 0 len =
        sealed_image head crc_off len"
    using assms by (intro rd_wr_same) simp_all
  moreover have "rd (replicate 4096 0 :: bytes) 0 hdr = replicate hdr 0"
    using assms(3) by (simp add: rd_def min_def)
  ultimately show ?thesis using assms
    by (simp add: sector_put_def Let_def exec_simps write_xfs_crc_eq sealed_image_def)
qed

text \<open>The headers serialised into a cleared buffer.\<close>

definition hdr_of :: "nat \<Rightarrow> (bytes \<Rightarrow> (ParseError, bytes) outcome) \<Rightarrow> bytes" where
  "hdr_of n serialize = (case serialize (replicate n 0) of Some (Inr h) \<Rightarrow> h | _ \<Rightarrow> [])"

lemma hdr_of_Ok: "serialize (replicate n 0) = Ok h \<Longrightarrow> hdr_of n serialize = h"
  by (simp add: hdr_of_def)

definition mkfs_opts_ok :: "MkfsOptions \<Rightarrow> bool" where
  "mkfs_opts_ok opts \<longleftrightarrow>
     length (mk_uuid opts) = 16 \<and> 512 \<le> unat (mk_sector_size opts) \<and>
     unat (mk_sector_size opts) \<le> unat (mk_block_size opts) \<and> unat (mk_block_size opts) \<le> 4096 \<and>
     10 \<le> unat (mk_ag_blocks opts) \<and> 10 \<le> unat (mk_total_blocks opts)"

lemma unat_ilog2: "unat (ilog2 n) = nat_log2 (unat n)"
proof (cases "n \<le> 1")
  case True
  then have "unat n \<le> 1" by (simp add: word_le_nat_alt)
  then show ?thesis using True by (simp add: ilog2_def nat_log2.simps)
next
  case False
  then have "0 < unat n" by (simp add: word_le_nat_alt)
  moreover have "unat n < 2 ^ 64" using unsigned_less[of n] by simp
  ultimately have "nat_log2 (unat n) < 64" by (intro nat_log2_less)
  then show ?thesis using False by (simp add: ilog2_def unat_of_nat)
qed

lemma unat_ceil_ilog2:
  "1 < unat n \<Longrightarrow> unat (ceil_ilog2 n) = Suc (nat_log2 (unat n - 1))"
proof -
  assume n: "1 < unat n"
  then have "unat (n - 1) = unat n - 1" by (simp add: unat_sub word_le_nat_alt)
  moreover have "unat n - 1 < 2 ^ 64" using unat_bound[of n] by simp
  moreover have "nat_log2 (unat n - 1) < 64" using n calculation by (intro nat_log2_less) auto
  ultimately show ?thesis using n
    by (simp add: ceil_ilog2_def word_le_nat_alt unat_word_ariths unat_of_nat)
qed

lemma mkfs_superblock_ok:
  assumes "mkfs_opts_ok opts"
  shows "\<exists>sb. mkfs_superblock opts n = Some sb \<and> Superblock_wf sb \<and> is_v5 sb \<and>
     sb_block_size sb = mk_block_size opts \<and> sb_sector_size sb = mk_sector_size opts \<and>
     sb_ag_blocks sb = mk_ag_blocks opts \<and> sb_ag_count sb = n \<and> sb_inode_size sb = 512 \<and>
     sb_uuid sb = mk_uuid opts \<and> sb_v5 sb = Some (mkfs_v5 opts) \<and>
     sb_rootino sb = push_bit (unat (sb_inopblog sb)) 8 \<and> unat (sb_inopblog sb) \<le> 3 \<and>
     unat (mk_block_size opts) < 2 ^ (unat (sb_inopblog sb) + 10) \<and>
     2 ^ (unat (sb_inopblog sb) + 9) \<le> unat (mk_block_size opts) \<and>
     unat (mk_ag_blocks opts) \<le> 2 ^ unat (sb_agblklog sb) \<and>
     4 \<le> unat (sb_agblklog sb) \<and> unat (sb_agblklog sb) \<le> 32"
proof -
  let ?bs = "unat (mk_block_size opts)" and ?ab = "unat (mk_ag_blocks opts)"
  have bs: "512 \<le> ?bs" "?bs \<le> 4096" using assms by (simp_all add: mkfs_opts_ok_def)
  define l where "l = nat_log2 ?bs"
  have l2: "2 ^ l \<le> ?bs" "?bs < 2 ^ Suc l" using bs nat_log2_le[of ?bs] nat_log2_gt[of ?bs] by (simp_all add: l_def)
  have "(2::nat) ^ 9 < 2 ^ Suc l" "(2::nat) ^ l \<le> 2 ^ 12" using l2 bs by simp_all
  then have l: "9 \<le> l" "l \<le> 12"
    by (simp_all only: pow2_less_iff pow2_le_iff less_Suc_eq_le)
  have il: "unat (ilog2 (ucast (mk_block_size opts))) = l"
    by (simp add: unat_ilog2 l_def)
  then have sub: "csub (ilog2 (ucast (mk_block_size opts))) 9 = Some (ilog2 (ucast (mk_block_size opts)) - 9)"
    using l by (simp add: csub_def word_le_nat_alt)
  have inl: "unat (ilog2 (ucast (mk_block_size opts)) - 9) = l - 9"
    using il l by (simp add: unat_sub word_le_nat_alt)
  have ab: "10 \<le> ?ab" "?ab < 2 ^ 32" using assms unat_bound[of "mk_ag_blocks opts"] by (simp_all add: mkfs_opts_ok_def)
  define a where "a = nat_log2 (?ab - 1)"
  have a: "unat (ceil_ilog2 (ucast (mk_ag_blocks opts))) = Suc a"
    using ab by (subst unat_ceil_ilog2) (simp_all add: a_def)
  have a2: "2 ^ a \<le> ?ab - 1" "?ab - 1 < 2 ^ Suc a" using ab nat_log2_le[of "?ab - 1"] nat_log2_gt[of "?ab - 1"] by (simp_all add: a_def)
  have "(2::nat) ^ a < 2 ^ 32" using a2 ab by linarith
  moreover have "(2::nat) ^ 3 < 2 ^ Suc a" using a2(2) ab(1) by (simp del: power_Suc)
  ultimately have a3: "a < 32" "3 \<le> a"
    by (simp_all only: pow2_less_iff less_Suc_eq_le)
  have "unat (mk_total_blocks opts) \<ge> 10" using assms by (simp add: mkfs_opts_ok_def)
  then have tb: "csub (mk_total_blocks opts) 10 = Some (mk_total_blocks opts - 10)"
    by (simp add: csub_def word_le_nat_alt)
  have ne: "mk_block_size opts \<noteq> 0" "mk_sector_size opts \<noteq> 0"
    using assms by (auto simp: mkfs_opts_ok_def)
  have pw: "unat (mk_block_size opts) < 2 ^ (l - 9 + 10)" "2 ^ (l - 9 + 9) \<le> unat (mk_block_size opts)"
    "unat (mk_ag_blocks opts) \<le> 2 ^ Suc a"
    using l2 l a2 by (simp_all add: Suc_diff_le)
  have "l - 9 \<le> 3" "l - 9 < 64" using l by simp_all
  then show ?thesis
    using assms inl l ne a a3 pw
    by (simp add: mkfs_superblock_def sub tb Let_def cshl_def Superblock_wf_def is_v5_def mkfs_v5_def
        XFS_SB_VERSION_5_def mkfs_opts_ok_def)
qed
text \<open>The writes of one group, as byte offsets and contents.\<close>

fun write_list :: "'d write_op \<Rightarrow> 'd \<Rightarrow> (nat \<times> bytes) list \<Rightarrow> (WriteError, 'd) outcome" where
  "write_list write_at dev [] = Ok dev" |
  "write_list write_at dev ((off, xs) # ws) =
     bindE (write_at dev (of_nat off) xs) WDevice (\<lambda>dev. write_list write_at dev ws)"

definition apply_writes :: "(nat \<times> bytes) list \<Rightarrow> bytes \<Rightarrow> bytes" where
  "apply_writes ws c = fold (\<lambda>(off, xs) c. wr c off xs) ws c"

lemma length_apply_writes [simp]: "length (apply_writes ws c) = length c"
  by (induction ws arbitrary: c) (auto simp: apply_writes_def)

lemma apply_writes_simps [simp]:
  "apply_writes [] c = c"
  "apply_writes ((off, xs) # ws) c = apply_writes ws (wr c off xs)"
  by (simp_all add: apply_writes_def)

lemma apply_writes_append: "apply_writes (ws @ vs) c = apply_writes vs (apply_writes ws c)"
  by (simp add: apply_writes_def)

lemma rd_apply_writes_other:
  "\<forall>(o', xs) \<in> set ws. off + n \<le> o' \<or> o' + length xs \<le> off \<Longrightarrow>
     rd (apply_writes ws c) off n = rd c off n"
  by (induction ws arbitrary: c) (auto simp: rd_wr_other)

lemma write_list_append:
  "write_list w d (ws @ vs) = bindE (write_list w d ws) id (\<lambda>d. write_list w d vs)"
  by (induction ws arbitrary: d) (auto simp: bindE_def split: option.splits sum.splits)

context block_device
begin

lemma write_list_ok:
  assumes "invar d" and "length (contents d) < 2 ^ 64"
    and "\<forall>(off, xs) \<in> set ws. off + length xs \<le> length (contents d)"
  shows "\<exists>d'. write_list write_at d ws = Ok d' \<and> invar d' \<and> contents d' = apply_writes ws (contents d)"
  using assms
proof (induction ws arbitrary: d)
  case (Cons w ws)
  obtain off xs where w: "w = (off, xs)" by (cases w) auto
  have r: "off + length xs \<le> length (contents d)" using Cons.prems(3) w by simp
  then have u: "unat (of_nat off :: u64) = off" using Cons.prems(2) by simp
  obtain d' where d': "write_at d (of_nat off) xs = Ok d'" "invar d'"
      "contents d' = wr (contents d) off xs"
    using write_in_range[OF Cons.prems(1), of "of_nat off" xs] r u by auto
  then show ?case using Cons.IH[of d'] Cons.prems w by simp
qed simp

end

section \<open>The images\<close>

definition sb_image :: "MkfsOptions \<Rightarrow> Superblock \<Rightarrow> bytes" where
  "sb_image opts sb =
     sealed_image (hdr_of 304 (Superblock_serialize sb)) 224 (unat (mk_sector_size opts))"

definition agf_image :: "MkfsOptions \<Rightarrow> Agf \<Rightarrow> bytes" where
  "agf_image opts agf = sealed_image (hdr_of 224 (Agf_serialize agf)) 216 (unat (mk_sector_size opts))"

definition agi_image :: "MkfsOptions \<Rightarrow> Agi \<Rightarrow> bytes" where
  "agi_image opts agi = sealed_image (hdr_of 344 (Agi_serialize agi)) 312 (unat (mk_sector_size opts))"

definition agfl_image :: "MkfsOptions \<Rightarrow> Agfl \<Rightarrow> bytes" where
  "agfl_image opts agfl =
     sealed_image (hdr_of 36 (\<lambda>b. Agfl_serialize agfl b True)) 32 (unat (mk_sector_size opts))"

definition root_image :: "MkfsOptions \<Rightarrow> InodeBtreeRoot \<Rightarrow> bytes" where
  "root_image opts root =
     sealed_image (hdr_of 304 (InodeBtreeRoot_serialize root)) 52 (unat (mk_block_size opts))"

definition inode_image :: "Inode \<Rightarrow> bytes" where
  "inode_image inode = sealed_image (hdr_of 176 (Inode_serialize inode)) 100 512"

definition agf_of :: "MkfsOptions \<Rightarrow> u32 \<Rightarrow> Agf" where
  "agf_of opts agno = the (mkfs_agf opts agno)"

definition root_of :: "MkfsOptions \<Rightarrow> u32 \<Rightarrow> u32 \<Rightarrow> u32 \<Rightarrow> InodeBtreeRoot" where
  "root_of opts agno blk magic = the (mkfs_btree_root opts agno blk magic)"

definition ag_base :: "MkfsOptions \<Rightarrow> nat \<Rightarrow> nat" where
  "ag_base opts k = k * unat (mk_ag_blocks opts) * unat (mk_block_size opts)"

definition ag_writes :: "MkfsOptions \<Rightarrow> Superblock \<Rightarrow> u32 \<Rightarrow> (nat \<times> bytes) list" where
  "ag_writes opts sb agno =
    (let b = ag_base opts (unat agno); ss = unat (mk_sector_size opts); bs = unat (mk_block_size opts) in
     [(b, sb_image opts sb), (b + ss, agf_image opts (agf_of opts agno)),
      (b + 2 * ss, agi_image opts (mkfs_agi opts agno)),
      (b + 3 * ss, agfl_image opts (mkfs_agfl opts agno)),
      (b + 4 * bs, root_image opts (root_of opts agno 4 0x41423342)),
      (b + 5 * bs, root_image opts (root_of opts agno 5 0x434e3342)),
      (b + 6 * bs, root_image opts (root_of opts agno 6 XFS_IBT_CRC_MAGIC)),
      (b + 7 * bs, root_image opts (root_of opts agno 7 XFS_FIBT_CRC_MAGIC))] @
     (if agno = 0 then [(b + 8 * bs, inode_image (mkfs_root_inode opts (sb_rootino sb)))] else []))"

lemma length_images [simp]:
  assumes "mkfs_opts_ok opts"
  shows "length (sb_image opts sb) = unat (mk_sector_size opts)"
    and "length (agf_image opts agf) = unat (mk_sector_size opts)"
    and "length (agi_image opts agi) = unat (mk_sector_size opts)"
    and "length (agfl_image opts agfl) = unat (mk_sector_size opts)"
    and "length (root_image opts root) = unat (mk_block_size opts)"
    and "length (inode_image inode) = 512"
  using assms by (simp_all add: sb_image_def agf_image_def agi_image_def agfl_image_def
      root_image_def inode_image_def mkfs_opts_ok_def)

lemma mkfs_agf_Some:
  "mkfs_opts_ok opts \<Longrightarrow> mkfs_agf opts agno = Some (agf_of opts agno)"
  by (simp add: agf_of_def mkfs_agf_def csub_def word_le_nat_alt mkfs_opts_ok_def)

lemma agf_of_uuid: "mkfs_opts_ok opts \<Longrightarrow> length (agf_uuid (agf_of opts agno)) = 16"
  by (simp add: agf_of_def mkfs_agf_def csub_def word_le_nat_alt mkfs_opts_ok_def)

lemma hdr_sb_ok:
  assumes "Superblock_wf sb"
  shows "Superblock_serialize sb (replicate 304 0) = Ok (hdr_of 304 (Superblock_serialize sb))"
    and "length (hdr_of 304 (Superblock_serialize sb)) = 304"
    and "\<exists>c. Superblock_parse (hdr_of 304 (Superblock_serialize sb)) = Ok (Superblock_set_crc c sb)"
  using Superblock_serialize_spec[OF assms, of "replicate 304 0"] by (auto simp: hdr_of_Ok)

lemma hdr_agf_ok:
  assumes "length (agf_uuid agf) = 16"
  shows "Agf_serialize agf (replicate 224 0) = Ok (hdr_of 224 (Agf_serialize agf))"
    and "length (hdr_of 224 (Agf_serialize agf)) = 224"
    and "\<exists>c. Agf_parse (hdr_of 224 (Agf_serialize agf)) = Ok (agf\<lparr>agf_crc := c\<rparr>)"
  using Agf_serialize_spec[OF assms, of "replicate 224 0"] by (auto simp: hdr_of_Ok)

lemma hdr_agi_ok:
  assumes "length (agi_uuid agi) = 16" and "length (agi_unlinked agi) = 64"
  shows "Agi_serialize agi (replicate 344 0) = Ok (hdr_of 344 (Agi_serialize agi))"
    and "length (hdr_of 344 (Agi_serialize agi)) = 344"
    and "\<exists>c. Agi_parse (hdr_of 344 (Agi_serialize agi)) = Ok (agi\<lparr>agi_crc := c\<rparr>)"
  using Agi_serialize_spec[OF assms, of "replicate 344 0"] by (auto simp: hdr_of_Ok)

lemma hdr_agfl_ok:
  assumes "length (agfl_uuid agfl) = 16"
  shows "Agfl_serialize agfl (replicate 36 0) True = Ok (hdr_of 36 (\<lambda>b. Agfl_serialize agfl b True))"
    and "length (hdr_of 36 (\<lambda>b. Agfl_serialize agfl b True)) = 36"
  using Agfl_serialize_spec[OF assms, of "replicate 36 0" 36] by (auto simp: hdr_of_Ok)

lemma hdr_root_ok:
  assumes "length (ibt_uuid root) = 16"
  shows "InodeBtreeRoot_serialize root (replicate 304 0) = Ok (hdr_of 304 (InodeBtreeRoot_serialize root))"
    and "length (hdr_of 304 (InodeBtreeRoot_serialize root)) = 304"
    and "ibt_magic root = ibt_expected_magic kind \<Longrightarrow>
      \<exists>c. InodeBtreeRoot_parse (hdr_of 304 (InodeBtreeRoot_serialize root)) kind True =
            Ok (root\<lparr>ibt_kind := kind, ibt_crc := c\<rparr>)"
  using InodeBtreeRoot_serialize_spec[OF assms, of "replicate 304 0"] by (auto simp: hdr_of_Ok)

lemma hdr_inode_ok:
  assumes "di_magic inode = XFS_DINODE_MAGIC" and "length (di_uuid inode) = 16"
  shows "Inode_serialize inode (replicate 176 0) = Ok (hdr_of 176 (Inode_serialize inode))"
    and "length (hdr_of 176 (Inode_serialize inode)) = 176"
    and "\<exists>c. Inode_parse (hdr_of 176 (Inode_serialize inode)) = Ok (inode\<lparr>di_crc := c\<rparr>)"
  using Inode_serialize_spec[OF assms, of "replicate 176 0"] by (auto simp: hdr_of_Ok)

definition sb_matches :: "MkfsOptions \<Rightarrow> Superblock \<Rightarrow> bool" where
  "sb_matches opts sb \<longleftrightarrow> Superblock_wf sb \<and> is_v5 sb \<and> sb_block_size sb = mk_block_size opts \<and>
     sb_sector_size sb = mk_sector_size opts \<and> sb_ag_blocks sb = mk_ag_blocks opts \<and>
     sb_inode_size sb = 512"

lemma opts_bounds:
  assumes "mkfs_opts_ok opts"
  shows "512 \<le> unat (mk_sector_size opts)" "unat (mk_sector_size opts) \<le> unat (mk_block_size opts)"
    "unat (mk_block_size opts) \<le> 4096" "length (mk_uuid opts) = 16" "10 \<le> unat (mk_ag_blocks opts)"
  using assms by (simp_all add: mkfs_opts_ok_def)

lemma block_off_Some:
  "unat start + unat blk * unat bs < 2 ^ 64 \<Longrightarrow>
     block_off start blk bs = Some (of_nat (unat start + unat blk * unat bs))"
  by (simp add: block_off_def cmul_of_nat cadd_of_nat del: of_nat_add of_nat_mult)

lemma sector_off_Some:
  "unat start + unat k * unat ss < 2 ^ 64 \<Longrightarrow>
     sector_off start k ss = Some (of_nat (unat start + unat k * unat ss))"
  by (simp add: sector_off_def cmul_of_nat cadd_of_nat del: of_nat_add of_nat_mult)

text \<open>Each step of \<open>mkfs_ag\<close> is one write of an image at a fixed place in the group at byte \<open>b\<close>.\<close>

lemma put_sb:
  assumes "mkfs_opts_ok opts" and "sb_matches opts sb"
  shows "sector_put write_at d (Superblock_serialize sb) 304 224 (unat (mk_sector_size opts)) (Some off) =
      bindE (write_at d off (sb_image opts sb)) WDevice Ok"
  using hdr_sb_ok[of sb] assms opts_bounds[OF assms(1)]
  by (subst sector_put_eq) (auto simp: sb_image_def sb_matches_def)

lemma put_agf:
  assumes ok: "mkfs_opts_ok opts" and range: "b + 9 * unat (mk_block_size opts) < 2 ^ 64"
  shows "sector_put write_at d (Agf_serialize (agf_of opts agno)) 224 216 (unat (mk_sector_size opts))
      (cadd (of_nat b) (ucast (mk_sector_size opts))) =
    bindE (write_at d (of_nat (b + unat (mk_sector_size opts))) (agf_image opts (agf_of opts agno)))
      WDevice Ok"
  using hdr_agf_ok[OF agf_of_uuid[OF ok]] opts_bounds[OF ok] range
  by (subst cadd_of_nat) (auto simp: agf_image_def sector_put_eq simp del: of_nat_add of_nat_mult)

lemma put_agi:
  assumes ok: "mkfs_opts_ok opts" and range: "b + 9 * unat (mk_block_size opts) < 2 ^ 64"
  shows "sector_put write_at d (Agi_serialize (mkfs_agi opts agno)) 344 312 (unat (mk_sector_size opts))
      (sector_off (of_nat b) 2 (mk_sector_size opts)) =
    bindE (write_at d (of_nat (b + 2 * unat (mk_sector_size opts)))
      (agi_image opts (mkfs_agi opts agno))) WDevice Ok"
  using hdr_agi_ok[of "mkfs_agi opts agno"] opts_bounds[OF ok] range
  by (subst sector_off_Some)
     (auto simp: agi_image_def sector_put_eq mkfs_agi_def simp del: of_nat_add of_nat_mult)

lemma put_agfl:
  assumes ok: "mkfs_opts_ok opts" and range: "b + 9 * unat (mk_block_size opts) < 2 ^ 64"
  shows "sector_put write_at d (\<lambda>b. Agfl_serialize (mkfs_agfl opts agno) b True) 36 32
      (unat (mk_sector_size opts)) (sector_off (of_nat b) 3 (mk_sector_size opts)) =
    bindE (write_at d (of_nat (b + 3 * unat (mk_sector_size opts)))
      (agfl_image opts (mkfs_agfl opts agno))) WDevice Ok"
  using hdr_agfl_ok[of "mkfs_agfl opts agno"] opts_bounds[OF ok] range
  by (subst sector_off_Some)
     (auto simp: agfl_image_def sector_put_eq mkfs_agfl_def simp del: of_nat_add of_nat_mult)

lemma put_inode:
  assumes ok: "mkfs_opts_ok opts" and range: "b + 9 * unat (mk_block_size opts) < 2 ^ 64"
  shows "sector_put write_at d (Inode_serialize (mkfs_root_inode opts ino)) 176 100 512
      (block_off (of_nat b) 8 (mk_block_size opts)) =
    bindE (write_at d (of_nat (b + 8 * unat (mk_block_size opts)))
      (inode_image (mkfs_root_inode opts ino))) WDevice Ok"
  using hdr_inode_ok[of "mkfs_root_inode opts ino"] opts_bounds[OF ok] range
  by (subst block_off_Some)
     (auto simp: inode_image_def sector_put_eq mkfs_root_inode_def simp del: of_nat_add of_nat_mult)

lemma mkfs_btree_root_Some:
  assumes "unat agno * unat (mk_ag_blocks opts) + unat blk < 2 ^ 64"
  shows "mkfs_btree_root opts agno blk magic = Some (root_of opts agno blk magic)"
    and "ibt_uuid (root_of opts agno blk magic) = mk_uuid opts"
    and "ibt_magic (root_of opts agno blk magic) = magic"
proof -
  have "unat agno * unat (mk_ag_blocks opts) < 2 ^ 64" using assms by linarith
  then show "mkfs_btree_root opts agno blk magic = Some (root_of opts agno blk magic)"
    and "ibt_uuid (root_of opts agno blk magic) = mk_uuid opts"
    and "ibt_magic (root_of opts agno blk magic) = magic"
    using assms by (simp_all add: root_of_def mkfs_btree_root_def cmul_of_nat cadd_of_nat
        del: of_nat_add of_nat_mult)
qed

lemma put_root:
  assumes ok: "mkfs_opts_ok opts" and range: "b + 9 * unat (mk_block_size opts) < 2 ^ 64"
    and uuid: "length (ibt_uuid root) = 16" and blk: "unat blk \<le> 8"
  shows "sector_put write_at d (InodeBtreeRoot_serialize root) 304 52 (unat (mk_block_size opts))
      (block_off (of_nat b) blk (mk_block_size opts)) =
    bindE (write_at d (of_nat (b + unat blk * unat (mk_block_size opts))) (root_image opts root))
      WDevice Ok"
proof -
  have "unat blk * unat (mk_block_size opts) \<le> 8 * unat (mk_block_size opts)"
    using blk by (rule mult_le_mono1)
  then have "b + unat blk * unat (mk_block_size opts) < 2 ^ 64" using range by linarith
  then show ?thesis
    using hdr_root_ok[OF uuid] opts_bounds[OF ok]
    by (subst block_off_Some) (auto simp: root_image_def sector_put_eq simp del: of_nat_add of_nat_mult)
qed

lemma put_roots:
  assumes ok: "mkfs_opts_ok opts" and range: "b + 9 * unat (mk_block_size opts) < 2 ^ 64"
    and ag: "unat agno * unat (mk_ag_blocks opts) + 9 < 2 ^ 64"
    and "\<forall>(blk, magic) \<in> set rbs. unat blk \<le> 8"
  shows "mkfs_roots write_at opts agno (of_nat b) rbs d =
      write_list write_at d (map (\<lambda>(blk, magic).
        (b + unat blk * unat (mk_block_size opts), root_image opts (root_of opts agno blk magic))) rbs)"
  using assms(4)
proof (induction rbs arbitrary: d)
  case (Cons r rbs)
  obtain blk magic where r: "r = (blk, magic)" by (cases r) auto
  have root: "mkfs_btree_root opts agno blk magic = Some (root_of opts agno blk magic)"
    "length (ibt_uuid (root_of opts agno blk magic)) = 16"
    using mkfs_btree_root_Some[of agno opts blk magic] ag Cons.prems r opts_bounds[OF ok] by simp_all
  have IH: "mkfs_roots write_at opts agno (of_nat b) rbs = (\<lambda>d. write_list write_at d (map (\<lambda>(blk, magic).
      (b + unat blk * unat (mk_block_size opts), root_image opts (root_of opts agno blk magic))) rbs))"
    using Cons.IH Cons.prems by auto
  show ?case using Cons.prems r
    by (simp add: put_root[OF ok range] root bindE_assoc IH del: of_nat_add of_nat_mult)
qed simp

lemma mkfs_ag_eq:
  assumes ok: "mkfs_opts_ok opts" and sb: "sb_matches opts sb"
    and range: "ag_base opts (unat agno) + 9 * unat (mk_block_size opts) < 2 ^ 64"
  shows "mkfs_ag write_at opts sb agno dev = write_list write_at dev (ag_writes opts sb agno)"
proof -
  let ?b = "ag_base opts (unat agno)" and ?bs = "unat (mk_block_size opts)"
  have "unat agno * unat (mk_ag_blocks opts) * 1 \<le> ?b"
    unfolding ag_base_def using opts_bounds[OF ok] by (intro mult_le_mono) simp_all
  then have ab: "unat agno * unat (mk_ag_blocks opts) + 9 < 2 ^ 64"
    using range opts_bounds[OF ok] by linarith
  have mul: "cmul (ucast agno) (ucast (mk_ag_blocks opts)) =
      Some (of_nat (unat agno * unat (mk_ag_blocks opts)) :: u64)"
    using ab by (subst cmul_of_nat) (simp_all del: of_nat_add of_nat_mult)
  have start: "cmul (of_nat (unat agno * unat (mk_ag_blocks opts))) (ucast (mk_block_size opts)) =
      Some (of_nat ?b :: u64)"
    using ab range by (subst cmul_of_nat) (simp_all add: ag_base_def del: of_nat_add of_nat_mult)
  have roots: "mkfs_roots write_at opts agno (of_nat ?b) root_blocks d = write_list write_at d [
      (?b + 4 * ?bs, root_image opts (root_of opts agno 4 0x41423342)),
      (?b + 5 * ?bs, root_image opts (root_of opts agno 5 0x434e3342)),
      (?b + 6 * ?bs, root_image opts (root_of opts agno 6 XFS_IBT_CRC_MAGIC)),
      (?b + 7 * ?bs, root_image opts (root_of opts agno 7 XFS_FIBT_CRC_MAGIC))]" for d
    by (subst put_roots[OF ok range ab]) (simp_all add: root_blocks_def del: write_list.simps)
  have inode: "(if agno = 0
      then sector_put write_at d (Inode_serialize (mkfs_root_inode opts (sb_rootino sb)))
        176 100 (unat (sb_inode_size sb)) (block_off (of_nat ?b) 8 (sb_block_size sb)) else Ok d) =
      write_list write_at d (if agno = 0
        then [(?b + 8 * ?bs, inode_image (mkfs_root_inode opts (sb_rootino sb)))] else [])" for d
    using put_inode[OF ok range, of write_at d] sb
    by (cases "agno = 0") (auto simp: sb_matches_def simp del: of_nat_add of_nat_mult)
  show ?thesis
    unfolding mkfs_ag_def ag_writes_def Let_def mul bind.bind_lunit start put_sb[OF ok sb]
      mkfs_agf_Some[OF ok] put_agf[OF ok range] put_agi[OF ok range] put_agfl[OF ok range] roots inode
      write_list_append write_list.simps append_Cons append_Nil bindE_assoc
    by (simp del: of_nat_add of_nat_mult)
qed

section \<open>The formatted device\<close>

text \<open>Writes in ascending, non-overlapping order.\<close>

definition write_before :: "nat \<times> bytes \<Rightarrow> nat \<times> bytes \<Rightarrow> bool" where
  "write_before w v \<longleftrightarrow> fst w + length (snd w) \<le> fst v"

lemma rd_apply_writes_in:
  assumes "sorted_wrt write_before ws" and "(off, xs) \<in> set ws"
    and "off + length xs \<le> length c" and "i + n \<le> length xs"
  shows "rd (apply_writes ws c) (off + i) n = rd xs i n"
  using assms
proof (induction ws arbitrary: c)
  case (Cons w ws)
  show ?case
  proof (cases "w = (off, xs)")
    case True
    then have "rd (apply_writes ws (wr c off xs)) (off + i) n = rd (wr c off xs) (off + i) n"
      using Cons.prems by (intro rd_apply_writes_other) (auto simp: write_before_def)
    then show ?thesis using True Cons.prems by (simp add: rd_wr_inside)
  next
    case False
    obtain o' xs' where w: "w = (o', xs')" by (cases w) auto
    show ?thesis using Cons.IH[of "wr c o' xs'"] Cons.prems False w by auto
  qed
qed simp

lemma ag_writes_range:
  assumes "mkfs_opts_ok opts" and "(off, xs) \<in> set (ag_writes opts sb agno)"
  shows "ag_base opts (unat agno) \<le> off"
    and "off + length xs \<le> ag_base opts (unat agno) + 9 * unat (mk_block_size opts)"
  using assms opts_bounds[OF assms(1)] by (auto simp: ag_writes_def Let_def split: if_splits)

lemma ag_writes_sorted:
  "mkfs_opts_ok opts \<Longrightarrow> sorted_wrt write_before (ag_writes opts sb agno)"
  using opts_bounds[of opts] by (auto simp: ag_writes_def Let_def write_before_def)

lemma ag_base_Suc:
  assumes "mkfs_opts_ok opts"
  shows "ag_base opts k + 9 * unat (mk_block_size opts) \<le> ag_base opts (Suc k)"
proof -
  have "9 * unat (mk_block_size opts) \<le> unat (mk_ag_blocks opts) * unat (mk_block_size opts)"
    using opts_bounds[OF assms] by (intro mult_le_mono1) simp
  then show ?thesis by (simp add: ag_base_def algebra_simps)
qed

lemma ag_base_mono: "j \<le> k \<Longrightarrow> ag_base opts j \<le> ag_base opts k"
  by (simp add: ag_base_def)

definition fs_writes :: "MkfsOptions \<Rightarrow> Superblock \<Rightarrow> nat \<Rightarrow> nat \<Rightarrow> (nat \<times> bytes) list" where
  "fs_writes opts sb k n = concat (map (\<lambda>j. ag_writes opts sb (of_nat j)) [k..<k + n])"

lemma fs_writes_Suc:
  "fs_writes opts sb k (Suc n) = ag_writes opts sb (of_nat k) @ fs_writes opts sb (Suc k) n"
  by (simp add: fs_writes_def upt_conv_Cons del: upt_Suc)

lemma fs_writes_range:
  assumes "mkfs_opts_ok opts" and "(off, xs) \<in> set (fs_writes opts sb k n)" and "k + n \<le> 2 ^ 32"
  shows "ag_base opts k \<le> off" and "off + length xs \<le> ag_base opts (k + n)"
proof -
  from assms(2) obtain j where j: "k \<le> j" "j < k + n" "(off, xs) \<in> set (ag_writes opts sb (of_nat j))"
    by (auto simp: fs_writes_def)
  have u: "unat (of_nat j :: u32) = j" using j assms(3) by simp
  show "ag_base opts k \<le> off"
    using ag_writes_range(1)[OF assms(1) j(3)] u ag_base_mono[OF j(1), of opts] by simp
  have "off + length xs \<le> ag_base opts (Suc j)"
    using ag_writes_range(2)[OF assms(1) j(3)] u ag_base_Suc[OF assms(1), of j] by simp
  then show "off + length xs \<le> ag_base opts (k + n)"
    using ag_base_mono[of "Suc j" "k + n" opts] j(2) by linarith
qed

lemma fs_writes_sorted:
  "mkfs_opts_ok opts \<Longrightarrow> k + n \<le> 2 ^ 32 \<Longrightarrow> sorted_wrt write_before (fs_writes opts sb k n)"
proof (induction n arbitrary: k)
  case (Suc n)
  have u: "unat (of_nat k :: u32) = k" using Suc.prems by simp
  have "write_before w v" if "w \<in> set (ag_writes opts sb (of_nat k))" "v \<in> set (fs_writes opts sb (Suc k) n)" for w v
  proof -
    obtain o1 x1 o2 x2 where wv: "w = (o1, x1)" "v = (o2, x2)" by (cases w, cases v) auto
    have "o1 + length x1 \<le> ag_base opts (Suc k)"
      using ag_writes_range(2)[OF Suc.prems(1), of o1 x1 sb "of_nat k"] that wv u
        ag_base_Suc[OF Suc.prems(1), of k] by simp
    moreover have "ag_base opts (Suc k) \<le> o2"
      using fs_writes_range(1)[OF Suc.prems(1), of o2 x2 sb "Suc k" n] that wv Suc.prems by simp
    ultimately show ?thesis using wv by (simp add: write_before_def)
  qed
  then show ?case
    using Suc.IH[of "Suc k"] Suc.prems ag_writes_sorted[OF Suc.prems(1)]
    by (simp add: fs_writes_Suc sorted_wrt_append)
qed (simp add: fs_writes_def)

lemma mkfs_loop_eq:
  assumes "mkfs_opts_ok opts" and "sb_matches opts sb" and "k + n < 2 ^ 32"
    and "ag_base opts (k + n) < 2 ^ 64"
  shows "mkfs_loop write_at opts sb (of_nat k) n dev = write_list write_at dev (fs_writes opts sb k n)"
  using assms
proof (induction n arbitrary: k dev)
  case (Suc n)
  have u: "unat (of_nat k :: u32) = k" using Suc.prems by simp
  have "ag_base opts k + 9 * unat (mk_block_size opts) < 2 ^ 64"
    using ag_base_Suc[OF Suc.prems(1), of k] ag_base_mono[of "Suc k" "k + Suc n" opts] Suc.prems(4) by linarith
  then have ag: "mkfs_ag write_at opts sb (of_nat k) dev = write_list write_at dev (ag_writes opts sb (of_nat k))"
    using Suc.prems u by (intro mkfs_ag_eq) simp_all
  have "mkfs_loop write_at opts sb (of_nat k + 1) n = (\<lambda>d. write_list write_at d (fs_writes opts sb (Suc k) n))"
    using Suc.IH[of "Suc k"] Suc.prems by (auto simp: add.commute)
  then show ?case by (simp add: ag fs_writes_Suc write_list_append)
qed (simp add: fs_writes_def)

end
