(* ===== verification/Crab_Mkfs.thy ===== *)
theory Crab_Mkfs
  imports Crab_Writer
begin

text \<open>
  The formatted device read back: whatever the reader asks for after a successful \<open>mkfs\<close>, it gets the
  structure the formatter built, with its checksum.
\<close>

section \<open>Parsing the images\<close>

lemma sb_image_parse:
  assumes "mkfs_opts_ok opts" and "Superblock_wf sb"
  shows "\<exists>c. Superblock_parse (sb_image opts sb) = Ok (Superblock_set_crc c sb)"
    and "verify_xfs_crc (sb_image opts sb) 224 = Some True"
proof -
  note b = opts_bounds[OF assms(1)]
  let ?h = "hdr_of 304 (Superblock_serialize sb)"
  obtain c where c: "Superblock_parse ?h = Ok (Superblock_set_crc c sb)"
    using hdr_sb_ok(3)[OF assms(2)] by blast
  have "Superblock_set_crc d (Superblock_set_crc c sb) = Superblock_set_crc d sb" for d
    by (simp add: Superblock_set_crc_def option.map_comp comp_def)
  then show "\<exists>c. Superblock_parse (sb_image opts sb) = Ok (Superblock_set_crc c sb)"
    unfolding sb_image_def using hdr_sb.parse_sealed_image[OF _ _ _ c] hdr_sb_ok(2)[OF assms(2)] b by auto
  show "verify_xfs_crc (sb_image opts sb) 224 = Some True"
    unfolding sb_image_def using b by (intro sealed_image_verifies) simp_all
qed

lemma agf_image_parse:
  assumes "mkfs_opts_ok opts" and "length (agf_uuid agf) = 16"
  shows "\<exists>c. Agf_parse (agf_image opts agf) = Ok (agf\<lparr>agf_crc := c\<rparr>)"
    and "verify_xfs_crc (agf_image opts agf) 216 = Some True"
proof -
  note b = opts_bounds[OF assms(1)]
  obtain c where c: "Agf_parse (hdr_of 224 (Agf_serialize agf)) = Ok (agf\<lparr>agf_crc := c\<rparr>)"
    using hdr_agf_ok(3)[OF assms(2)] by blast
  show "\<exists>c. Agf_parse (agf_image opts agf) = Ok (agf\<lparr>agf_crc := c\<rparr>)"
    unfolding agf_image_def using hdr_agf.parse_sealed_image[OF _ _ _ c] hdr_agf_ok(2)[OF assms(2)] b by auto
  show "verify_xfs_crc (agf_image opts agf) 216 = Some True"
    unfolding agf_image_def using b by (intro sealed_image_verifies) simp_all
qed

lemma agi_image_parse:
  assumes "mkfs_opts_ok opts" and "length (agi_uuid agi) = 16" and "length (agi_unlinked agi) = 64"
  shows "\<exists>c. Agi_parse (agi_image opts agi) = Ok (agi\<lparr>agi_crc := c\<rparr>)"
    and "verify_xfs_crc (agi_image opts agi) 312 = Some True"
proof -
  note b = opts_bounds[OF assms(1)]
  obtain c where c: "Agi_parse (hdr_of 344 (Agi_serialize agi)) = Ok (agi\<lparr>agi_crc := c\<rparr>)"
    using hdr_agi_ok(3)[OF assms(2,3)] by blast
  show "\<exists>c. Agi_parse (agi_image opts agi) = Ok (agi\<lparr>agi_crc := c\<rparr>)"
    unfolding agi_image_def using hdr_agi.parse_sealed_image[OF _ _ _ c] hdr_agi_ok(2)[OF assms(2,3)] b by auto
  show "verify_xfs_crc (agi_image opts agi) 312 = Some True"
    unfolding agi_image_def using b by (intro sealed_image_verifies) simp_all
qed

lemma agfl_image_parse:
  assumes "mkfs_opts_ok opts" and "length (agfl_uuid agfl) = 16"
  shows "\<exists>c. Agfl_parse (agfl_image opts agfl) (mk_sector_size opts) True =
      Ok (agfl\<lparr>agfl_magicnum := XFS_AGFL_MAGIC,
           agfl_entries_total := of_nat ((unat (mk_sector_size opts) - 36) div 4), agfl_crc := c\<rparr>)"
    and "verify_xfs_crc (agfl_image opts agfl) 32 = Some True"
proof -
  note b = opts_bounds[OF assms(1)]
  let ?h = "hdr_of 36 (\<lambda>b. Agfl_serialize agfl b True)"
  obtain c where c: "Agfl_header ?h =
      Ok (agfl\<lparr>agfl_magicnum := XFS_AGFL_MAGIC, agfl_entries_total := 0, agfl_crc := c\<rparr>)"
    using Agfl_serialize_spec[OF assms(2), of "replicate 36 0" 36]
    by (auto simp: Agfl_header_def hdr_of_Ok)
  have "\<exists>c. Agfl_header (agfl_image opts agfl) =
      Ok (agfl\<lparr>agfl_magicnum := XFS_AGFL_MAGIC, agfl_entries_total := 0, agfl_crc := c\<rparr>)"
    unfolding agfl_image_def using hdr_agfl.parse_sealed_image[OF _ _ _ c] hdr_agfl_ok(2)[OF assms(2)] b by auto
  then obtain c where "Agfl_header (agfl_image opts agfl) =
      Ok (agfl\<lparr>agfl_magicnum := XFS_AGFL_MAGIC, agfl_entries_total := 0, agfl_crc := c\<rparr>)" ..
  from Agfl_parse_longer[OF _ _ this, of "mk_sector_size opts"] assms(1) b
  show "\<exists>c. Agfl_parse (agfl_image opts agfl) (mk_sector_size opts) True =
      Ok (agfl\<lparr>agfl_magicnum := XFS_AGFL_MAGIC,
           agfl_entries_total := of_nat ((unat (mk_sector_size opts) - 36) div 4), agfl_crc := c\<rparr>)"
    by (cases agfl) auto
  show "verify_xfs_crc (agfl_image opts agfl) 32 = Some True"
    unfolding agfl_image_def using b by (intro sealed_image_verifies) simp_all
qed

lemma root_image_parse:
  assumes "mkfs_opts_ok opts" and "length (ibt_uuid root) = 16" and "ibt_magic root = ibt_expected_magic kind"
  shows "\<exists>c. InodeBtreeRoot_parse (root_image opts root) kind True =
           Ok (root\<lparr>ibt_kind := kind, ibt_crc := c\<rparr>)"
    and "verify_xfs_crc (root_image opts root) 52 = Some True"
proof -
  note b = opts_bounds[OF assms(1)]
  obtain c where c: "InodeBtreeRoot_parse (hdr_of 304 (InodeBtreeRoot_serialize root)) kind True =
      Ok (root\<lparr>ibt_kind := kind, ibt_crc := c\<rparr>)"
    using hdr_root_ok(3)[OF assms(2,3)] by blast
  show "\<exists>c. InodeBtreeRoot_parse (root_image opts root) kind True =
           Ok (root\<lparr>ibt_kind := kind, ibt_crc := c\<rparr>)"
    unfolding root_image_def using hdr_ibt.parse_sealed_image[OF _ _ _ c] hdr_root_ok(2)[OF assms(2)] b by auto
  show "verify_xfs_crc (root_image opts root) 52 = Some True"
    unfolding root_image_def using b by (intro sealed_image_verifies) simp_all
qed

lemma inode_image_parse:
  assumes "di_magic inode = XFS_DINODE_MAGIC" and "length (di_uuid inode) = 16"
  shows "\<exists>c. Inode_parse (inode_image inode) = Ok (inode\<lparr>di_crc := c\<rparr>)"
    and "verify_xfs_crc (inode_image inode) 100 = Some True"
    and "rd (inode_image inode) 176 336 = replicate 336 0"
proof -
  obtain c where c: "Inode_parse (hdr_of 176 (Inode_serialize inode)) = Ok (inode\<lparr>di_crc := c\<rparr>)"
    using hdr_inode_ok(3)[OF assms] by blast
  show "\<exists>c. Inode_parse (inode_image inode) = Ok (inode\<lparr>di_crc := c\<rparr>)"
    unfolding inode_image_def using hdr_inode.parse_sealed_image[OF _ _ _ c] hdr_inode_ok(2)[OF assms] by auto
  show "verify_xfs_crc (inode_image inode) 100 = Some True"
    unfolding inode_image_def by (intro sealed_image_verifies) simp_all
  show "rd (inode_image inode) 176 336 = replicate 336 0"
    unfolding inode_image_def by (rule rd_sealed_image_tail) (simp_all add: hdr_inode_ok(2)[OF assms])
qed

section \<open>Reading the formatted contents\<close>

definition answers :: "reading \<Rightarrow> bytes \<Rightarrow> bool" where
  "answers dev c \<longleftrightarrow> (\<forall>off n. unat off + n \<le> length c \<longrightarrow> dev off n = Ok (rd c (unat off) n))"

lemma answersD: "answers dev c \<Longrightarrow> unat off + n \<le> length c \<Longrightarrow> dev off n = Ok (rd c (unat off) n)"
  by (simp add: answers_def)

definition formatted :: "MkfsOptions \<Rightarrow> Superblock \<Rightarrow> nat \<Rightarrow> bytes \<Rightarrow> bool" where
  "formatted opts sb n c \<longleftrightarrow>
     (\<forall>j<n. \<forall>(off, xs) \<in> set (ag_writes opts sb (of_nat j)).
        off + length xs \<le> length c \<and> (\<forall>i m. i + m \<le> length xs \<longrightarrow> rd c (off + i) m = rd xs i m))"

lemma formattedD:
  assumes "formatted opts sb n c" and "unat agno < n" and "(off, xs) \<in> set (ag_writes opts sb agno)"
    and "m \<le> length xs"
  shows "rd c off m = rd xs 0 m" and "off + m \<le> length c"
proof -
  have "off + length xs \<le> length c \<and> (\<forall>i m. i + m \<le> length xs \<longrightarrow> rd c (off + i) m = rd xs i m)"
    using assms(1)[unfolded formatted_def, rule_format, of "unat agno" "(off, xs)"] assms(2,3) by simp
  then have len: "off + length xs \<le> length c" and
    rd: "\<And>i m. i + m \<le> length xs \<Longrightarrow> rd c (off + i) m = rd xs i m" by auto
  show "rd c off m = rd xs 0 m" using rd[of 0 m] assms(4) by simp
  show "off + m \<le> length c" using len assms(4) by linarith
qed

lemma formatted_apply_writes:
  assumes "mkfs_opts_ok opts" and "n < 2 ^ 32" and "ag_base opts n \<le> length c"
  shows "formatted opts sb n (apply_writes (fs_writes opts sb 0 n) c)"
proof -
  have "off + length xs \<le> length c \<and>
      (\<forall>i m. i + m \<le> length xs \<longrightarrow> rd (apply_writes (fs_writes opts sb 0 n) c) (off + i) m = rd xs i m)"
    if "j < n" "(off, xs) \<in> set (ag_writes opts sb (of_nat j))" for j off xs
  proof -
    have mem: "(off, xs) \<in> set (fs_writes opts sb 0 n)" using that by (auto simp: fs_writes_def)
    then have r: "off + length xs \<le> length c"
      using fs_writes_range(2)[OF assms(1) mem] assms(2,3) by simp
    then show ?thesis
      using rd_apply_writes_in[OF fs_writes_sorted[OF assms(1)] mem r] assms(2) by simp
  qed
  then show ?thesis by (auto simp: formatted_def)
qed

lemma fs_read:
  assumes dev: "answers dev c" and fmt: "formatted opts sb n c" and "length c < 2 ^ 64"
    and "unat agno < n" and "(off, xs) \<in> set (ag_writes opts sb agno)" and "m \<le> length xs"
  shows "dev (of_nat off) m = Ok (rd xs 0 m)"
proof -
  note f = formattedD[OF fmt assms(4-6)]
  have "unat (of_nat off :: u64) = off" using f(2) assms(3) by simp
  then show ?thesis using answersD[OF dev, of "of_nat off" m] f by simp
qed

lemma ag_writes_members:
  fixes opts agno
  defines "b \<equiv> ag_base opts (unat agno)" and "ss \<equiv> unat (mk_sector_size opts)"
    and "bs \<equiv> unat (mk_block_size opts)"
  shows "(b, sb_image opts sb) \<in> set (ag_writes opts sb agno)"
    and "(b + ss, agf_image opts (agf_of opts agno)) \<in> set (ag_writes opts sb agno)"
    and "(b + 2 * ss, agi_image opts (mkfs_agi opts agno)) \<in> set (ag_writes opts sb agno)"
    and "(b + 3 * ss, agfl_image opts (mkfs_agfl opts agno)) \<in> set (ag_writes opts sb agno)"
    and "(b + 6 * bs, root_image opts (root_of opts agno 6 XFS_IBT_CRC_MAGIC)) \<in> set (ag_writes opts sb agno)"
    and "(b + 7 * bs, root_image opts (root_of opts agno 7 XFS_FIBT_CRC_MAGIC)) \<in> set (ag_writes opts sb agno)"
    and "agno = 0 \<Longrightarrow> (b + 8 * bs, inode_image (mkfs_root_inode opts (sb_rootino sb))) \<in> set (ag_writes opts sb agno)"
  by (simp_all add: ag_writes_def Let_def b_def ss_def bs_def)

lemma ag_start_eq:
  assumes "sb_ag_blocks sb = mk_ag_blocks opts" and "sb_block_size sb = mk_block_size opts"
    and "agno < sb_ag_count sb" and "ag_base opts (unat agno) < 2 ^ 64" and "0 < unat (mk_block_size opts)"
  shows "ag_start sb agno = Ok (of_nat (ag_base opts (unat agno)))"
proof -
  have "unat agno * unat (mk_ag_blocks opts) * 1 \<le> ag_base opts (unat agno)"
    unfolding ag_base_def using assms(5) by (intro mult_le_mono) simp_all
  then have "unat agno * unat (mk_ag_blocks opts) < 2 ^ 64" using assms(4) by linarith
  moreover from this have "unat (ucast agno * ucast (mk_ag_blocks opts) :: u64) = unat agno * unat (mk_ag_blocks opts)"
    by (simp add: unat_word_ariths)
  ultimately show ?thesis using assms
    by (auto simp: ag_start_def sat_mul_def ag_base_def)
qed

lemma ensure_sector_size_ok:
  "mkfs_opts_ok opts \<Longrightarrow> ensure_sector_size (mk_sector_size opts) = Ok (unat (mk_sector_size opts))"
  using opts_bounds[of opts] by (simp add: ensure_sector_size_def)

lemma read_superblock_formatted:
  assumes ok: "mkfs_opts_ok opts" and dev: "answers dev c" and fmt: "formatted opts sb n c"
    and len: "length c < 2 ^ 64" and n: "0 < n" and sb: "Superblock_wf sb" "sb_matches opts sb"
  shows "\<exists>k. read_superblock dev = Ok (Superblock_set_crc k sb)"
proof -
  let ?img = "sb_image opts sb"
  note b = opts_bounds[OF ok]
  have rd: "dev 0 m = Ok (rd ?img 0 m)" if "m \<le> unat (mk_sector_size opts)" for m
    using fs_read[OF dev fmt len, of 0 0 ?img m] ag_writes_members(1)[of opts 0] n that ok
    by (simp add: ag_base_def)
  obtain k where k: "Superblock_parse ?img = Ok (Superblock_set_crc k sb)"
    using sb_image_parse(1)[OF ok sb(1)] by blast
  have p: "Superblock_parse (rd ?img 0 304) = Ok (Superblock_set_crc k sb)"
    using hdr_sb.parse_prefix[of ?img] k b ok by simp
  have v5: "is_v5 (Superblock_set_crc k sb)" "sb_sector_size (Superblock_set_crc k sb) = mk_sector_size opts"
    using sb by (simp_all add: sb_matches_def is_v5_def Superblock_set_crc_def)
  show ?thesis
    using b ok rd[of 304] rd[of "unat (mk_sector_size opts)"] v5 sb_image_parse(2)[OF ok sb(1)]
    by (auto simp: read_superblock_def p ensure_sector_size_ok[OF ok])
qed

lemma read_agf_formatted:
  assumes ok: "mkfs_opts_ok opts" and dev: "answers dev c" and fmt: "formatted opts sb n c"
    and len: "length c < 2 ^ 64" and sb: "sb_matches opts sb'" "unat (sb_ag_count sb') = n"
    and agno: "unat agno < n"
  shows "\<exists>k. read_agf dev sb' agno = Ok ((agf_of opts agno)\<lparr>agf_crc := k\<rparr>)"
proof -
  let ?img = "agf_image opts (agf_of opts agno)" and ?ss = "unat (mk_sector_size opts)"
  let ?off = "ag_base opts (unat agno) + ?ss"
  note b = opts_bounds[OF ok]
  have rd: "dev (of_nat ?off) m = Ok (rd ?img 0 m)" if "m \<le> ?ss" for m
    using fs_read[OF dev fmt len agno ag_writes_members(2)] that ok by simp
  have off: "?off < 2 ^ 64"
    using formattedD(2)[OF fmt agno ag_writes_members(2), of 0] len by linarith
  obtain k where k: "Agf_parse ?img = Ok ((agf_of opts agno)\<lparr>agf_crc := k\<rparr>)"
    using agf_image_parse(1)[OF ok agf_of_uuid[OF ok]] by blast
  have p: "Agf_parse (rd ?img 0 224) = Ok ((agf_of opts agno)\<lparr>agf_crc := k\<rparr>)"
    using hdr_agf.parse_prefix[of ?img] k b ok by simp
  have start: "ag_start sb' agno = Ok (of_nat (ag_base opts (unat agno)))"
    using sb agno off b by (intro ag_start_eq) (auto simp: sb_matches_def word_less_nat_alt)
  have add: "cadd (of_nat (ag_base opts (unat agno))) (ucast (mk_sector_size opts)) = Some (of_nat ?off :: u64)"
    using off by (subst cadd_of_nat) (simp_all del: of_nat_add)
  show ?thesis
    using b ok rd[of 224] rd[of ?ss] sb agf_image_parse(2)[OF ok agf_of_uuid[OF ok]]
    by (auto simp: read_agf_def start add p ensure_sector_size_ok[OF ok] sb_matches_def simp del: of_nat_add)
qed

lemma read_agi_formatted:
  assumes ok: "mkfs_opts_ok opts" and dev: "answers dev c" and fmt: "formatted opts sb n c"
    and len: "length c < 2 ^ 64" and sb: "sb_matches opts sb'" "unat (sb_ag_count sb') = n"
    and agno: "unat agno < n"
  shows "\<exists>k. read_agi dev sb' agno = Ok ((mkfs_agi opts agno)\<lparr>agi_crc := k\<rparr>)"
proof -
  let ?img = "agi_image opts (mkfs_agi opts agno)" and ?ss = "unat (mk_sector_size opts)"
  let ?off = "ag_base opts (unat agno) + 2 * ?ss"
  note b = opts_bounds[OF ok]
  have lens: "length (agi_uuid (mkfs_agi opts agno)) = 16" "length (agi_unlinked (mkfs_agi opts agno)) = 64"
    using b by (simp_all add: mkfs_agi_def)
  have rd: "dev (of_nat ?off) m = Ok (rd ?img 0 m)" if "m \<le> ?ss" for m
    using fs_read[OF dev fmt len agno ag_writes_members(3)] that ok by simp
  have off: "?off < 2 ^ 64"
    using formattedD(2)[OF fmt agno ag_writes_members(3), of 0] len by linarith
  obtain k where k: "Agi_parse ?img = Ok ((mkfs_agi opts agno)\<lparr>agi_crc := k\<rparr>)"
    using agi_image_parse(1)[OF ok lens] by blast
  have p: "Agi_parse (rd ?img 0 344) = Ok ((mkfs_agi opts agno)\<lparr>agi_crc := k\<rparr>)"
    using hdr_agi.parse_prefix[of ?img] k b ok by simp
  have start: "ag_start sb' agno = Ok (of_nat (ag_base opts (unat agno)))"
    using sb agno off b by (intro ag_start_eq) (auto simp: sb_matches_def word_less_nat_alt)
  have mul: "cmul 2 (ucast (mk_sector_size opts)) = Some (of_nat (2 * ?ss) :: u64)"
    using b by (subst cmul_of_nat) (simp_all del: of_nat_mult)
  have add: "cadd (of_nat (ag_base opts (unat agno))) (of_nat (2 * ?ss)) = Some (of_nat ?off :: u64)"
    using off b by (subst cadd_of_nat) (simp_all del: of_nat_add of_nat_mult)
  show ?thesis
    using b ok rd[of 344] rd[of ?ss] sb agi_image_parse(2)[OF ok lens]
    by (auto simp: read_agi_def start mul add p ensure_sector_size_ok[OF ok] sb_matches_def
        simp del: of_nat_add of_nat_mult)
qed

lemma read_agfl_formatted:
  assumes ok: "mkfs_opts_ok opts" and dev: "answers dev c" and fmt: "formatted opts sb n c"
    and len: "length c < 2 ^ 64" and sb: "sb_matches opts sb'" "unat (sb_ag_count sb') = n"
    and agno: "unat agno < n"
  shows "\<exists>k. read_agfl dev sb' agno = Ok ((mkfs_agfl opts agno)\<lparr>agfl_magicnum := XFS_AGFL_MAGIC,
           agfl_entries_total := of_nat ((unat (mk_sector_size opts) - 36) div 4), agfl_crc := k\<rparr>)"
proof -
  let ?img = "agfl_image opts (mkfs_agfl opts agno)" and ?ss = "unat (mk_sector_size opts)"
  let ?off = "ag_base opts (unat agno) + 3 * ?ss"
  note b = opts_bounds[OF ok]
  have lens: "length (agfl_uuid (mkfs_agfl opts agno)) = 16" using b by (simp add: mkfs_agfl_def)
  have rd: "dev (of_nat ?off) m = Ok (rd ?img 0 m)" if "m \<le> ?ss" for m
    using fs_read[OF dev fmt len agno ag_writes_members(4)] that ok by simp
  have off: "?off < 2 ^ 64"
    using formattedD(2)[OF fmt agno ag_writes_members(4), of 0] len by linarith
  have start: "ag_start sb' agno = Ok (of_nat (ag_base opts (unat agno)))"
    using sb agno off b by (intro ag_start_eq) (auto simp: sb_matches_def word_less_nat_alt)
  have mul: "cmul 3 (ucast (mk_sector_size opts)) = Some (of_nat (3 * ?ss) :: u64)"
    using b by (subst cmul_of_nat) (simp_all del: of_nat_mult)
  have add: "cadd (of_nat (ag_base opts (unat agno))) (of_nat (3 * ?ss)) = Some (of_nat ?off :: u64)"
    using off b by (subst cadd_of_nat) (simp_all del: of_nat_add of_nat_mult)
  show ?thesis
    using b ok rd[of ?ss] sb agfl_image_parse[OF ok lens]
    by (auto simp: read_agfl_def start mul add ensure_sector_size_ok[OF ok] sb_matches_def
        simp del: of_nat_add of_nat_mult)
qed

lemma read_root_formatted:
  assumes ok: "mkfs_opts_ok opts" and dev: "answers dev c" and fmt: "formatted opts sb n c"
    and len: "length c < 2 ^ 64" and sb: "sb_matches opts sb'" "unat (sb_ag_count sb') = n"
    and agno: "unat agno < n" and scratch: "unat (mk_block_size opts) \<le> scratch_len"
    and mem: "(ag_base opts (unat agno) + unat blk * unat (mk_block_size opts),
                root_image opts (root_of opts agno blk magic)) \<in> set (ag_writes opts sb agno)"
    and magic: "magic = ibt_expected_magic kind" and blk: "unat blk \<le> 8"
  shows "\<exists>k. read_btree_root dev sb' blk kind what agno scratch_len =
           Ok ((root_of opts agno blk magic)\<lparr>ibt_kind := kind, ibt_crc := k\<rparr>)"
proof -
  let ?img = "root_image opts (root_of opts agno blk magic)" and ?bs = "unat (mk_block_size opts)"
  let ?off = "ag_base opts (unat agno) + unat blk * ?bs"
  note b = opts_bounds[OF ok]
  have rd: "dev (of_nat ?off) ?bs = Ok ?img"
    using fs_read[OF dev fmt len agno mem, of ?bs] ok by simp
  have off: "?off < 2 ^ 64" and base: "ag_base opts (unat agno) + ?bs < 2 ^ 64"
    using formattedD(2)[OF fmt agno mem, of ?bs] len ok by simp_all
  have "unat agno * unat (mk_ag_blocks opts) * 1 \<le> ag_base opts (unat agno)"
    unfolding ag_base_def using b by (intro mult_le_mono) simp_all
  then have r: "ibt_uuid (root_of opts agno blk magic) = mk_uuid opts"
    "ibt_magic (root_of opts agno blk magic) = magic"
    using mkfs_btree_root_Some[of agno opts blk magic] base blk b by simp_all
  have start: "ag_start sb' agno = Ok (of_nat (ag_base opts (unat agno)))"
    using sb agno off b by (intro ag_start_eq) (auto simp: sb_matches_def word_less_nat_alt)
  have mul: "cmul (ucast blk) (ucast (mk_block_size opts)) = Some (of_nat (unat blk * ?bs) :: u64)"
    using off by (subst cmul_of_nat) (simp_all del: of_nat_mult)
  have add: "cadd (of_nat (ag_base opts (unat agno))) (of_nat (unat blk * ?bs)) = Some (of_nat ?off :: u64)"
    using off by (subst cadd_of_nat) (simp_all del: of_nat_add of_nat_mult)
  show ?thesis
    using rd sb scratch root_image_parse[OF ok, of "root_of opts agno blk magic" kind] r b magic
    by (auto simp: read_btree_root_def Let_def start mul add sb_matches_def simp del: of_nat_add of_nat_mult)
qed

text \<open>The root directory of the fresh file system: empty, its parent entry naming inode 0.\<close>

lemma read_root_inode_formatted:
  assumes ok: "mkfs_opts_ok opts" and dev: "answers dev c" and fmt: "formatted opts sb n c"
    and len: "length c < 2 ^ 64" and sb: "sb_matches opts sb'" "0 < sb_ag_count sb'" "0 < n"
    and root: "sb_rootino sb = push_bit (unat (sb_inopblog sb')) 8" "sb_rootino sb' = sb_rootino sb"
    and logs: "unat (sb_inopblog sb') \<le> 3" "4 \<le> unat (sb_agblklog sb')" "unat (sb_agblklog sb') \<le> 32"
  shows "\<exists>k. read_inode dev sb' (sb_rootino sb') 512 =
    Ok ((mkfs_root_inode opts (sb_rootino sb))\<lparr>di_crc := k\<rparr>,
        inode_image (mkfs_root_inode opts (sb_rootino sb)))"
proof -
  let ?ino = "mkfs_root_inode opts (sb_rootino sb)" and ?bs = "unat (mk_block_size opts)"
  let ?i = "unat (sb_inopblog sb')" and ?a = "unat (sb_agblklog sb')"
  note b = opts_bounds[OF ok]
  have "?i = 0 \<or> ?i = 1 \<or> ?i = 2 \<or> ?i = 3" using logs(1) by linarith
  then have N: "unat (sb_rootino sb') = 8 * 2 ^ ?i" using root by auto
  have "(2::nat) ^ (3 + ?i) < 2 ^ (?a + ?i)" using logs by (intro power_strict_increasing) simp_all
  then have "unat (sb_rootino sb') < 2 ^ (?a + ?i)" using N by (simp add: power_add)
  then have off: "inode_offset sb' (sb_rootino sb') = Ok (of_nat (8 * ?bs))"
    using inode_offset_ag0[of sb' "sb_rootino sb'"] N logs sb b by (simp add: sb_matches_def)
  have magic: "di_magic ?ino = XFS_DINODE_MAGIC" "length (di_uuid ?ino) = 16"
    using b by (simp_all add: mkfs_root_inode_def)
  have rd: "dev (of_nat (8 * ?bs)) 512 = Ok (inode_image ?ino)"
    using fs_read[OF dev fmt len, of 0, OF _ ag_writes_members(7)[OF refl], of 512] sb ok
    by (simp add: ag_base_def)
  show ?thesis
    using inode_image_parse[OF magic] sb off rd
    by (auto simp: read_inode_def Let_def sb_matches_def)
qed

lemma list_root_formatted:
  assumes "read_inode dev sb ino 512 = Ok ((mkfs_root_inode opts r)\<lparr>di_crc := k\<rparr>, inode_image (mkfs_root_inode opts r))"
    and "sb_inode_size sb = 512" and "length (mk_uuid opts) = 16"
  shows "list_dir_entries dev sb ino =
    Ok [\<lparr>de_ino = ino, de_name = str_dot, de_ftype = 2\<rparr>,
        \<lparr>de_ino = 0, de_name = str_dotdot, de_ftype = 2\<rparr>]"
proof -
  let ?img = "inode_image (mkfs_root_inode opts r)"
  have zeros: "rd ?img 176 336 = replicate 336 0"
    using assms(3) by (intro inode_image_parse(3)) (simp_all add: mkfs_root_inode_def)
  have len: "length ?img = 512" by (simp add: inode_image_def)
  have data: "get_range ?img 176 512 = Some (replicate 336 0)"
    using zeros len by (simp add: get_range_def)
  have hdr: "DirSfHeader_parse (replicate 336 0) = Ok (\<lparr>sf_count = 0, sf_i8count = 0, sf_parent = 0\<rparr>, 6)"
    by code_simp
  show ?thesis
    using assms len data hdr by (simp add: list_dir_entries_def mkfs_root_inode_def)
qed

section \<open>mkfs as a whole\<close>

definition mkfs_ag_count :: "MkfsOptions \<Rightarrow> nat" where
  "mkfs_ag_count opts =
    (let t = unat (mk_total_blocks opts); a = unat (mk_ag_blocks opts)
     in t div a + (if t mod a = 0 then 0 else 1))"

lemma mkfs_count:
  assumes "mkfs_opts_ok opts" and "mkfs_ag_count opts < 2 ^ 32"
  shows "\<exists>w. div_ceil (mk_total_blocks opts) (ucast (mk_ag_blocks opts)) = Some w \<and>
           unat (ucast w :: u32) = mkfs_ag_count opts"
proof -
  let ?t = "mk_total_blocks opts" and ?a = "ucast (mk_ag_blocks opts) :: u64"
  have ua: "unat ?a = unat (mk_ag_blocks opts)" by simp
  have a: "?a \<noteq> 0" using opts_bounds(5)[OF assms(1)] ua by (metis not_numeral_le_zero unat_0)
  let ?w = "?t div ?a + (if ?t mod ?a = 0 then 0 else 1)"
  have mod: "?t mod ?a = 0 \<longleftrightarrow> unat ?t mod unat (mk_ag_blocks opts) = 0"
    unfolding unat_eq_zero[symmetric] unat_mod ua ..
  have "unat ?w = mkfs_ag_count opts"
    using assms(2) by (simp add: mkfs_ag_count_def Let_def mod unat_word_ariths unat_div split: if_splits)
  then have "unat (ucast ?w :: u32) = mkfs_ag_count opts"
    using assms(2) by (simp add: unsigned_ucast_eq take_bit_nat_eq_self_iff)
  then show ?thesis using a by (simp add: div_ceil_def)
qed

context block_device
begin

lemma mkfs_formats:
  assumes ok: "mkfs_opts_ok opts" and n: "mkfs_ag_count opts < 2 ^ 32"
    and d: "invar d" "ag_base opts (mkfs_ag_count opts) \<le> length (contents d)" "length (contents d) < 2 ^ 64"
  shows "\<exists>d' sb. mkfs write_at d opts = Ok d' \<and> invar d' \<and> length (contents d') = length (contents d) \<and>
     mkfs_superblock opts (of_nat (mkfs_ag_count opts)) = Some sb \<and>
     formatted opts sb (mkfs_ag_count opts) (contents d')"
proof -
  let ?n = "mkfs_ag_count opts"
  obtain w where w: "div_ceil (mk_total_blocks opts) (ucast (mk_ag_blocks opts)) = Some w"
    "unat (ucast w :: u32) = ?n" using mkfs_count[OF ok n] by blast
  have "of_nat (unat (ucast w :: u32)) = (ucast w :: u32)" by simp
  then have cw: "(ucast w :: u32) = of_nat ?n" unfolding w(2) by (rule sym)
  obtain sb where sb: "mkfs_superblock opts (of_nat ?n) = Some sb" "sb_matches opts sb"
    using mkfs_superblock_ok[OF ok, of "of_nat ?n"] by (auto simp: sb_matches_def)
  have "\<forall>(off, xs) \<in> set (fs_writes opts sb 0 ?n). off + length xs \<le> length (contents d)"
    using fs_writes_range(2)[OF ok, of _ _ sb 0 ?n] n d(2) by fastforce
  then obtain d' where d': "write_list write_at d (fs_writes opts sb 0 ?n) = Ok d'" "invar d'"
    "contents d' = apply_writes (fs_writes opts sb 0 ?n) (contents d)"
    using write_list_ok[OF d(1,3)] by blast
  have "mkfs write_at d opts = Ok d'"
    using w cw sb d' mkfs_loop_eq[OF ok sb(2), of 0 ?n write_at d] n d(2,3)
    by (simp add: mkfs_def Let_def)
  then show ?thesis
    using d' sb formatted_apply_writes[OF ok n d(2)] by auto
qed

end
lemma mkfs_ag_count_pos: "mkfs_opts_ok opts \<Longrightarrow> 0 < mkfs_ag_count opts"
  by (auto simp: mkfs_ag_count_def mkfs_opts_ok_def Let_def div_greater_zero_iff dest: dvd_imp_le)

lemma answers_device:
  "block_device read_at write_at contents invar \<Longrightarrow> invar d \<Longrightarrow> answers (read_at d) (contents d)"
  by (simp add: answers_def block_device.read_in_range)

section \<open>Properties\<close>

text \<open>
  Property C7.  Formatting a file device that is large enough succeeds, whatever the number of bytes
  the host transfers per call, and the reader then finds a complete file system: the superblock with
  the chosen geometry, and in every allocation group the AGF, AGI, AGFL and both inode btree roots as
  the formatter built them, all checksums verified; the root directory lists only its two dot
  entries.
\<close>

theorem mkfs_then_read:
  assumes "grant_ok grant" and "mkfs_opts_ok opts" and "mkfs_ag_count opts < 2 ^ 32"
    and "ag_base opts (mkfs_ag_count opts) \<le> length (file_data d)" and "length (file_data d) < 2 ^ 64"
  shows "\<exists>d' sb. mkfs (std_write_at grant) d opts = Ok d' \<and>
    read_superblock (std_read_at grant d') = Ok sb \<and>
    sb_block_size sb = mk_block_size opts \<and> sb_sector_size sb = mk_sector_size opts \<and>
    sb_ag_blocks sb = mk_ag_blocks opts \<and> unat (sb_ag_count sb) = mkfs_ag_count opts \<and>
    sb_uuid sb = mk_uuid opts \<and>
    (\<forall>agno. unat agno < mkfs_ag_count opts \<longrightarrow>
      (\<exists>c1 c2 c3 c4 c5.
        read_agf (std_read_at grant d') sb agno = Ok ((agf_of opts agno)\<lparr>agf_crc := c1\<rparr>) \<and>
        read_agi (std_read_at grant d') sb agno = Ok ((mkfs_agi opts agno)\<lparr>agi_crc := c2\<rparr>) \<and>
        read_agfl (std_read_at grant d') sb agno =
          Ok ((mkfs_agfl opts agno)\<lparr>agfl_magicnum := XFS_AGFL_MAGIC,
            agfl_entries_total := of_nat ((unat (mk_sector_size opts) - 36) div 4), agfl_crc := c3\<rparr>) \<and>
        read_inobt_root (std_read_at grant d') sb (mkfs_agi opts agno) agno 4096 =
          Ok ((root_of opts agno 6 XFS_IBT_CRC_MAGIC)\<lparr>ibt_kind := Inobt, ibt_crc := c4\<rparr>) \<and>
        read_finobt_root (std_read_at grant d') sb (mkfs_agi opts agno) agno 4096 =
          Ok ((root_of opts agno 7 XFS_FIBT_CRC_MAGIC)\<lparr>ibt_kind := Finobt, ibt_crc := c5\<rparr>))) \<and>
    list_dir_entries (std_read_at grant d') sb (sb_rootino sb) =
      Ok [\<lparr>de_ino = sb_rootino sb, de_name = str_dot, de_ftype = 2\<rparr>,
          \<lparr>de_ino = 0, de_name = str_dotdot, de_ftype = 2\<rparr>]"
proof -
  note dev = std_file_block_device[OF assms(1)]
  let ?n = "mkfs_ag_count opts" and ?rd = "std_read_at grant"
  obtain d' sb0 where d': "mkfs (std_write_at grant) d opts = Ok d'"
    "length (file_data d') = length (file_data d)" "mkfs_superblock opts (of_nat ?n) = Some sb0"
    and fmt: "formatted opts sb0 ?n (file_data d')"
    using block_device.mkfs_formats[OF dev assms(2,3) _ assms(4,5)] by auto
  have ans: "answers (?rd d') (file_data d')" by (rule answers_device[OF dev]) simp
  have len: "length (file_data d') < 2 ^ 64" using d'(2) assms(5) by simp
  note n = mkfs_ag_count_pos[OF assms(2)]
  obtain k where sb: "read_superblock (?rd d') = Ok (Superblock_set_crc k sb0)"
    using read_superblock_formatted[OF assms(2) ans fmt len n]
      mkfs_superblock_ok[OF assms(2), of "of_nat ?n"] d'(3) by (auto simp: sb_matches_def)
  let ?sb = "Superblock_set_crc k sb0"
  have m: "sb_matches opts ?sb" "unat (sb_ag_count ?sb) = ?n" "sb_uuid ?sb = mk_uuid opts"
    "sb_rootino sb0 = push_bit (unat (sb_inopblog ?sb)) 8" "sb_rootino ?sb = sb_rootino sb0"
    "unat (sb_inopblog ?sb) \<le> 3" "4 \<le> unat (sb_agblklog ?sb)" "unat (sb_agblklog ?sb) \<le> 32"
    using mkfs_superblock_ok[OF assms(2), of "of_nat ?n"] d'(3) assms(3)
    by (auto simp: sb_matches_def Superblock_set_crc_def Superblock_wf_def is_v5_def)
  note ag = assms(2) ans fmt len m(1,2)
  have roots: "\<exists>c. read_inobt_root (?rd d') ?sb (mkfs_agi opts agno) agno 4096 =
        Ok ((root_of opts agno 6 XFS_IBT_CRC_MAGIC)\<lparr>ibt_kind := Inobt, ibt_crc := c\<rparr>)"
    "\<exists>c. read_finobt_root (?rd d') ?sb (mkfs_agi opts agno) agno 4096 =
        Ok ((root_of opts agno 7 XFS_FIBT_CRC_MAGIC)\<lparr>ibt_kind := Finobt, ibt_crc := c\<rparr>)"
    if "unat agno < ?n" for agno
    using read_root_formatted[OF ag that, of 4096 6 XFS_IBT_CRC_MAGIC Inobt]
      read_root_formatted[OF ag that, of 4096 7 XFS_FIBT_CRC_MAGIC Finobt]
      ag_writes_members(5,6)[of opts agno sb0] opts_bounds[OF assms(2)]
    by (simp_all add: read_inobt_root_def read_finobt_root_def mkfs_agi_def ibt_expected_magic_def)
  obtain c where "read_inode (?rd d') ?sb (sb_rootino ?sb) 512 =
      Ok ((mkfs_root_inode opts (sb_rootino sb0))\<lparr>di_crc := c\<rparr>, inode_image (mkfs_root_inode opts (sb_rootino sb0)))"
    using read_root_inode_formatted[OF assms(2) ans fmt len m(1) _ n m(4-8)] m(2) n
    by (auto simp: word_less_nat_alt)
  from list_root_formatted[OF this] have "list_dir_entries (?rd d') ?sb (sb_rootino ?sb) =
      Ok [\<lparr>de_ino = sb_rootino ?sb, de_name = str_dot, de_ftype = 2\<rparr>,
          \<lparr>de_ino = 0, de_name = str_dotdot, de_ftype = 2\<rparr>]"
    using m(1) opts_bounds[OF assms(2)] by (simp add: sb_matches_def)
  moreover have "sb_block_size ?sb = mk_block_size opts" "sb_sector_size ?sb = mk_sector_size opts"
    "sb_ag_blocks ?sb = mk_ag_blocks opts" using m(1) by (simp_all add: sb_matches_def)
  ultimately show ?thesis
    using read_agf_formatted[OF ag] read_agi_formatted[OF ag] read_agfl_formatted[OF ag] roots
    by (intro exI[of _ d'] exI[of _ ?sb] conjI d'(1) sb m(2,3)) (assumption | meson)+
qed

definition example_opts :: MkfsOptions where
  "example_opts = \<lparr>mk_block_size = 512, mk_sector_size = 512, mk_ag_blocks = 10, mk_total_blocks = 15,
     mk_uuid = replicate 16 7\<rparr>"

theorem mkfs_then_read_witness:
  "\<exists>d' sb agf. mkfs (std_write_at grant_one) \<lparr>file_data = replicate 10240 0, file_pos = 0\<rparr> example_opts = Ok d' \<and>
     read_superblock (std_read_at grant_one d') = Ok sb \<and> sb_ag_count sb = 2 \<and>
     read_agf (std_read_at grant_one d') sb 1 = Ok agf"
proof -
  have n: "mkfs_ag_count example_opts = 2" by (simp add: mkfs_ag_count_def example_opts_def)
  have "mkfs_opts_ok example_opts" by (simp add: mkfs_opts_ok_def example_opts_def)
  moreover have "ag_base example_opts 2 = 10240" by (simp add: ag_base_def example_opts_def)
  ultimately obtain d' sb where r: "mkfs (std_write_at grant_one) \<lparr>file_data = replicate 10240 0, file_pos = 0\<rparr> example_opts = Ok d'"
     "read_superblock (std_read_at grant_one d') = Ok sb" "unat (sb_ag_count sb) = 2"
     "\<forall>agno. unat agno < 2 \<longrightarrow> (\<exists>c1. read_agf (std_read_at grant_one d') sb agno = Ok ((agf_of example_opts agno)\<lparr>agf_crc := c1\<rparr>))"
    using mkfs_then_read[OF grant_one_ok, of example_opts "\<lparr>file_data = replicate 10240 0, file_pos = 0\<rparr>"] n by auto
  have "sb_ag_count sb = of_nat (unat (sb_ag_count sb))" by simp
  also have "\<dots> = 2" using r(3) by simp
  finally show ?thesis using r(1,2) r(4)[rule_format, of 1] by auto
qed

end
