(* ===== verification/Crab_Pack.thy ===== *)
theory Crab_Pack
  imports Crab_Mkfs "HOL-Library.List_Lexorder" "HOL-Library.Multiset"
begin

text \<open>
  The image builder of \<^verbatim>\<open>lib/crabfs/pack.rs\<close>: a host directory tree is flattened into a list of
  nodes, laid out behind the inode table, and written to the device.

  The host file system, which the source reaches through \<^verbatim>\<open>std::fs\<close>, is a value: a tree of files,
  directories, links and other things, each with its metadata; \<^const>\<open>None\<close> in the place of contents is
  a call that fails.  \<open>HostGone\<close> is a path whose metadata cannot be read.
\<close>

section \<open>The host tree\<close>

record HostMeta =
  hm_mode :: u32
  hm_uid :: u32
  hm_gid :: u32

datatype HostNode =
    HostDir HostMeta "(bytes \<times> HostNode) list option"
  | HostFile HostMeta "bytes option"
  | HostLink HostMeta "bytes option"
  | HostOther HostMeta
  | HostGone

fun host_meta :: "HostNode \<Rightarrow> HostMeta option" where
  "host_meta (HostDir m _) = Some m" |
  "host_meta (HostFile m _) = Some m" |
  "host_meta (HostLink m _) = Some m" |
  "host_meta (HostOther m) = Some m" |
  "host_meta HostGone = None"

text \<open>\<^verbatim>\<open>is_dir() || is_file() || is_symlink()\<close> of a path that has metadata.\<close>

fun host_packable :: "HostNode \<Rightarrow> bool" where
  "host_packable (HostOther _) = False" |
  "host_packable _ = True"

section \<open>Nodes\<close>

abbreviation (input) INODE_TABLE_START_BLOCK :: u64 where "INODE_TABLE_START_BLOCK \<equiv> 8"
abbreviation (input) INODES_PER_BLOCK :: u64 where "INODES_PER_BLOCK \<equiv> 8"
abbreviation (input) LOCAL_FORK_BYTES :: nat where "LOCAL_FORK_BYTES \<equiv> 512 - XFS_DINODE_SIZE_V3"

record PackOptions =
  po_total_blocks :: u64
  po_block_size :: u32
  po_sector_size :: u16
  po_uuid :: bytes

record PackReport =
  packed_inodes :: nat
  skipped :: "bytes list list"

record PackedEntry =
  pe_name :: bytes
  pe_inode_index :: nat
  pe_ftype :: u8

datatype NodeKind =
    Directory "PackedEntry list"
  | File bytes
  | Symlink bytes

record Node =
  nd_parent_index :: nat
  nd_mode :: u16
  nd_uid :: u32
  nd_gid :: u32
  nd_kind :: NodeKind

definition dir_ftype :: "Node \<Rightarrow> u8" where
  "dir_ftype node = (case nd_kind node of Directory _ \<Rightarrow> 2 | File _ \<Rightarrow> 1 | Symlink _ \<Rightarrow> 7)"

text \<open>
  \<open>collect_tree\<close> appends the node of \<open>path\<close> and those below it to \<open>nodes\<close> and returns its index; the
  second function is its loop over the sorted children.  Paths are lists of components.
\<close>

definition strip_prefix :: "bytes list \<Rightarrow> bytes list \<Rightarrow> bytes list" where
  "strip_prefix root path = (if take (length root) path = root then drop (length root) path else path)"

definition host_children :: "(bytes \<times> HostNode) list \<Rightarrow> (bytes \<times> HostNode) list" where
  "host_children cs = sort_key fst cs"

fun host_size :: "HostNode \<Rightarrow> nat" where
  "host_size (HostDir _ (Some cs)) = Suc (sum_list (map (\<lambda>c. Suc (host_size (snd c))) cs))" |
  "host_size _ = 1"

lemma host_children_size:
  "sum_list (map (\<lambda>c. Suc (host_size (snd c))) (host_children cs)) =
   sum_list (map (\<lambda>c. Suc (host_size (snd c))) cs)"
  unfolding host_children_def
  by (simp flip: sum_mset_sum_list add: mset_map)

function (sequential) collect_tree :: "bytes list \<Rightarrow> bytes list \<Rightarrow> HostNode \<Rightarrow> nat \<Rightarrow> Node list \<Rightarrow> PackReport \<Rightarrow>
    (WriteError, nat \<times> Node list \<times> PackReport) outcome"
  and collect_children :: "bytes list \<Rightarrow> bytes list \<Rightarrow> (bytes \<times> HostNode) list \<Rightarrow> nat \<Rightarrow> PackedEntry list \<Rightarrow> Node list \<Rightarrow>
    PackReport \<Rightarrow> (WriteError, PackedEntry list \<times> Node list \<times> PackReport) outcome"
where
  "collect_tree root path host parent_index nodes report =
    (case host_meta host of
       None \<Rightarrow> Err (WDevice Io)
     | Some meta \<Rightarrow>
        (let placeholder = \<lparr>nd_parent_index = parent_index, nd_mode = ucast (hm_mode meta),
               nd_uid = hm_uid meta, nd_gid = hm_gid meta, nd_kind = Directory []\<rparr>;
             index = length nodes;
             nodes = nodes @ [placeholder]
         in case host of
           HostDir _ None \<Rightarrow> Err (WDevice Io)
         | HostDir _ (Some children) \<Rightarrow>
             bindE (collect_children root path (host_children children) index [] nodes report) id
               (\<lambda>(entries, nodes, report).
                 Ok (index, nodes[index := (nodes ! index)\<lparr>nd_kind := Directory entries\<rparr>], report))
         | HostLink _ None \<Rightarrow> Err (WDevice Io)
         | HostLink _ (Some target) \<Rightarrow>
             Ok (index, nodes[index := placeholder\<lparr>nd_kind := Symlink (from_utf8_lossy target)\<rparr>], report)
         | HostFile _ None \<Rightarrow> Err (WDevice Io)
         | HostFile _ (Some data) \<Rightarrow>
             Ok (index, nodes[index := placeholder\<lparr>nd_kind := File data\<rparr>], report)
         | HostOther _ \<Rightarrow> Ok (index, nodes, report\<lparr>skipped := skipped report @ [strip_prefix root path]\<rparr>)
         | HostGone \<Rightarrow> Err (WDevice Io)))" |
  "collect_children root path [] index entries nodes report = Ok (entries, nodes, report)" |
  "collect_children root path ((name, child) # rest) index entries nodes report =
    (if host_meta child = None then Err (WDevice Io)
     else if \<not> host_packable child
     then collect_children root path rest index entries nodes
            (report\<lparr>skipped := skipped report @ [path @ [name]]\<rparr>)
     else bindE (collect_tree root (path @ [name]) child index nodes report) id
       (\<lambda>(child_index, nodes, report).
         collect_children root path rest index
           (entries @ [\<lparr>pe_name = from_utf8_lossy name, pe_inode_index = child_index,
                         pe_ftype = dir_ftype (nodes ! child_index)\<rparr>])
           nodes report))"
  by pat_completeness auto
termination
  by (relation "measure (\<lambda>x. case x of
        Inl (root, path, host, i, nodes, report) \<Rightarrow> 2 * host_size host
      | Inr (root, path, cs, i, es, nodes, report) \<Rightarrow> 1 + 2 * sum_list (map (\<lambda>c. Suc (host_size (snd c))) cs))")
     (auto simp: host_children_size)

section \<open>Payloads\<close>

definition inode_number :: "Superblock \<Rightarrow> nat \<Rightarrow> (WriteError, u64) outcome" where
  "inode_number sb index =
    (if 2 ^ 64 \<le> index then Err WTryFromInt
     else map_option Inr (cadd (sb_rootino sb) (of_nat index)))"

text \<open>\<^verbatim>\<open>u8::try_from\<close>, \<^verbatim>\<open>u16::try_from\<close>, \<^verbatim>\<open>u32::try_from\<close> of a \<^verbatim>\<open>usize\<close>.\<close>

definition try_from :: "nat \<Rightarrow> (WriteError, 'a::len word) outcome" where
  "try_from n = (if n < 2 ^ LENGTH('a) then Ok (of_nat n) else Err WTryFromInt)"

fun sf_entries :: "Superblock \<Rightarrow> nat \<Rightarrow> PackedEntry list \<Rightarrow> (WriteError, bytes) outcome" where
  "sf_entries sb slot [] = Ok []" |
  "sf_entries sb slot (entry # entries) =
     bindE (inode_number sb (pe_inode_index entry)) id (\<lambda>ino.
     bindE (try_from (length (pe_name entry))) id (\<lambda>(namelen :: u8).
     bindE (try_from (slot + 1)) id (\<lambda>(offset :: u16).
     bindE (sf_entries sb (slot + 1) entries) id (\<lambda>rest.
       Ok ([namelen] @ to_be_bytes offset @ pe_name entry @ [pe_ftype entry] @ to_be_bytes ino @ rest)))))"

fun ext_entries :: "Superblock \<Rightarrow> PackedEntry list \<Rightarrow> (WriteError, bytes) outcome" where
  "ext_entries sb [] = Ok []" |
  "ext_entries sb (entry # entries) =
     bindE (inode_number sb (pe_inode_index entry)) id (\<lambda>ino.
     bindE (try_from (length (pe_name entry))) id (\<lambda>(namelen :: u16).
     bindE (ext_entries sb entries) id (\<lambda>rest.
       Ok (to_be_bytes ino @ [pe_ftype entry] @ to_be_bytes namelen @ pe_name entry @ rest))))"

definition shortform_payload :: "Superblock \<Rightarrow> u64 \<Rightarrow> PackedEntry list \<Rightarrow> (WriteError, bytes option) outcome" where
  "shortform_payload sb parent_ino entries =
    (if length entries \<le> 255
     then bindE (try_from (length entries)) id (\<lambda>(count :: u8).
          bindE (sf_entries sb 0 entries) id (\<lambda>body.
            let candidate = [count, 1] @ to_be_bytes parent_ino @ body
            in Ok (if length candidate \<le> LOCAL_FORK_BYTES then Some candidate else None)))
     else Ok None)"

definition build_payload :: "Node list \<Rightarrow> nat \<Rightarrow> Superblock \<Rightarrow> (WriteError, bytes) outcome" where
  "build_payload nodes index sb =
    (case nd_kind (nodes ! index) of
       Directory entries \<Rightarrow>
         bindE (inode_number sb (nd_parent_index (nodes ! index))) id (\<lambda>parent_ino.
         bindE (shortform_payload sb parent_ino entries) id (\<lambda>shortform.
         case shortform of
           Some payload \<Rightarrow> Ok payload
         | None \<Rightarrow>
             bindE (try_from (length entries)) id (\<lambda>(count :: u32).
             bindE (ext_entries sb entries) id (\<lambda>body.
               Ok (CRABFS_EXTENT_DIR_MAGIC @ to_be_bytes count @ to_be_bytes parent_ino @ body)))))
     | File data \<Rightarrow> Ok data
     | Symlink target \<Rightarrow> Ok target)"

section \<open>Layout and writing\<close>

text \<open>The loop that gives every node its payload and its data blocks, from node \<open>index\<close> on.\<close>

fun layout_nodes :: "Node list \<Rightarrow> Superblock \<Rightarrow> nat \<Rightarrow> nat \<Rightarrow> u64 \<Rightarrow>
    (WriteError, (bytes \<times> u64 \<times> u64) list \<times> u64) outcome" where
  "layout_nodes nodes sb index 0 next_data_block = Ok ([], next_data_block)" |
  "layout_nodes nodes sb index (Suc n) next_data_block =
     bindE (build_payload nodes index sb) id (\<lambda>payload. do {
       blocks \<leftarrow> (if payload = [] then Some 0
                  else div_ceil (of_nat (length payload)) (ucast (sb_block_size sb)));
       let start_block = (if blocks = 0 then 0 else next_data_block);
       let next_data_block = (if blocks = 0 then next_data_block else sat_add next_data_block blocks);
       bindE (layout_nodes nodes sb (index + 1) n next_data_block) id (\<lambda>(rest, next).
         Ok ((payload, start_block, blocks) # rest, next)) })"

fun write_blocks :: "'d write_op \<Rightarrow> Superblock \<Rightarrow> u64 \<Rightarrow> bytes \<Rightarrow> nat \<Rightarrow> nat \<Rightarrow> 'd \<Rightarrow>
    (WriteError, 'd) outcome" where
  "write_blocks write_at sb start_block payload block_idx 0 dev = Ok dev" |
  "write_blocks write_at sb start_block payload block_idx (Suc n) dev = do {
     let block_size = unat (sb_block_size sb);
     let start = block_idx * block_size;
     let stop = min (length payload) (start + block_size);
     chunk \<leftarrow> get_range payload start stop;
     block \<leftarrow> put_slice 0 chunk (replicate block_size 0);
     blk \<leftarrow> cadd start_block (of_nat block_idx);
     offset \<leftarrow> cmul blk (ucast (sb_block_size sb));
     bindE (write_at dev offset block) WDevice
       (write_blocks write_at sb start_block payload (block_idx + 1) n) }"

definition write_data_blocks :: "'d write_op \<Rightarrow> Superblock \<Rightarrow> u64 \<Rightarrow> bytes \<Rightarrow> 'd \<Rightarrow> (WriteError, 'd) outcome" where
  "write_data_blocks write_at sb start_block payload dev =
    (let block_size = unat (sb_block_size sb) in
     if block_size = 0 then None
     else write_blocks write_at sb start_block payload 0
            (length payload div block_size + (if length payload mod block_size = 0 then 0 else 1)) dev)"

definition node_inode :: "Superblock \<Rightarrow> u64 \<Rightarrow> Node \<Rightarrow> bytes \<Rightarrow> InodeFormat \<Rightarrow> u64 \<Rightarrow> Inode" where
  "node_inode sb ino node payload format blocks =
     \<lparr>di_magic = XFS_DINODE_MAGIC, di_mode = nd_mode node, di_version = 3, di_format = format,
       di_onlink = 0, di_uid = nd_uid node, di_gid = nd_gid node,
       di_nlink = (case nd_kind node of Directory _ \<Rightarrow> 2 | _ \<Rightarrow> 1), di_projid = 0, di_flushiter = 0,
       di_atime = (0, 0), di_mtime = (0, 0), di_ctime = (0, 0), di_size = of_nat (length payload),
       di_nblocks = blocks, di_extsize = 0, di_nextents = (if format = Extents then 1 else 0),
       di_anextents = 0, di_forkoff = 0, di_aformat = Extents, di_dmevmask = 0, di_dmstate = 0,
       di_flags = 0, di_generation = 0, di_next_unlinked = 0xffffffff, di_crc = 0,
       di_change_count = 0, di_lsn = 0, di_flags2 = 0, di_cowextsize = 0, di_crtime = (0, 0),
       di_ino = ino, di_uuid = sb_uuid sb\<rparr>"

definition write_inode_record :: "'d write_op \<Rightarrow> Superblock \<Rightarrow> u64 \<Rightarrow> Node \<Rightarrow> bytes \<Rightarrow> InodeFormat \<Rightarrow>
    u64 \<Rightarrow> u64 \<Rightarrow> 'd \<Rightarrow> (WriteError, 'd) outcome" where
  "write_inode_record write_at sb ino node payload format start_block blocks dev = do {
     table \<leftarrow> cmul (ucast (sb_block_size sb)) INODE_TABLE_START_BLOCK;
     slot \<leftarrow> csub ino (sb_rootino sb);
     rel \<leftarrow> cmul slot (ucast (sb_inode_size sb));
     inode_offset \<leftarrow> cadd table rel;
     let raw = replicate (unat (sb_inode_size sb)) 0;
     if 2 ^ 63 \<le> length payload then Err WTryFromInt
     else do {
       head \<leftarrow> get_range raw 0 XFS_DINODE_SIZE_V3;
       bindE (Inode_serialize (node_inode sb ino node payload format blocks) head) WParse
         (\<lambda>head. let raw = wr raw 0 head in
       bindE (case format of
                Local \<Rightarrow> map_option Inr (put_slice XFS_DINODE_SIZE_V3 payload raw)
              | Extents \<Rightarrow> do {
                  fork \<leftarrow> get_range raw XFS_DINODE_SIZE_V3 (XFS_DINODE_SIZE_V3 + 16);
                  bindE (try_from (unat blocks)) id (\<lambda>(count :: u32).
                  bindE (serialize_bmap_extent fork 0 start_block count) id (\<lambda>fork.
                    Ok (wr raw XFS_DINODE_SIZE_V3 fork))) }
              | _ \<Rightarrow> Ok raw) id (\<lambda>raw. do {
         body \<leftarrow> get_range raw 0 (unat (sb_inode_size sb));
         body \<leftarrow> write_xfs_crc XFS_DINODE_CRC_OFF body;
         bindE (write_at dev inode_offset body) WDevice Ok })) } }"

fun write_payloads :: "'d write_op \<Rightarrow> Superblock \<Rightarrow> (bytes \<times> u64 \<times> u64) list \<Rightarrow> 'd \<Rightarrow> (WriteError, 'd) outcome" where
  "write_payloads write_at sb [] dev = Ok dev" |
  "write_payloads write_at sb ((payload, start_block, blocks) # rest) dev =
    (if blocks = 0 then write_payloads write_at sb rest dev
     else bindE (write_data_blocks write_at sb start_block payload dev) id
            (write_payloads write_at sb rest))"

fun write_inodes :: "'d write_op \<Rightarrow> Superblock \<Rightarrow> nat \<Rightarrow> Node list \<Rightarrow> (bytes \<times> u64 \<times> u64) list \<Rightarrow>
    'd \<Rightarrow> PackReport \<Rightarrow> (WriteError, 'd \<times> PackReport) outcome" where
  "write_inodes write_at sb index (node # nodes) ((payload, start_block, blocks) # payloads) dev report =
     bindE (inode_number sb index) id (\<lambda>ino.
     let format = (if length payload \<le> LOCAL_FORK_BYTES then Local else Extents) in
     bindE (write_inode_record write_at sb ino node payload format start_block blocks dev) id (\<lambda>dev.
       write_inodes write_at sb (index + 1) nodes payloads dev
         (report\<lparr>packed_inodes := packed_inodes report + 1\<rparr>)))" |
  "write_inodes write_at sb index [] payloads dev report = Ok (dev, report)" |
  "write_inodes write_at sb index (node # nodes) [] dev report = None"

definition empty_root :: Node where
  "empty_root = \<lparr>nd_parent_index = 0, nd_mode = 0x41ed, nd_uid = 0, nd_gid = 0, nd_kind = Directory []\<rparr>"

fun write_error_of :: "ReadError \<Rightarrow> WriteError" where
  "write_error_of (RDevice e) = WDevice e" |
  "write_error_of (RParse e) = WParse e"

definition pack_nodes :: "'d write_op \<Rightarrow> Superblock \<Rightarrow> PackOptions \<Rightarrow> Node list \<Rightarrow> PackReport \<Rightarrow> 'd \<Rightarrow>
    (WriteError, 'd \<times> PackReport) outcome" where
  "pack_nodes write_at sb opts nodes report dev =
    bindE (try_from (length nodes)) id (\<lambda>(inode_count :: u64). do {
      inode_blocks \<leftarrow> div_ceil inode_count INODES_PER_BLOCK;
      next_data_block \<leftarrow> cadd INODE_TABLE_START_BLOCK inode_blocks;
      bindE (layout_nodes nodes sb 0 (length nodes) next_data_block) id (\<lambda>(data_payloads, next).
        if next > po_total_blocks opts then Err (WDevice OutOfRange)
        else bindE (write_payloads write_at sb data_payloads dev) id (\<lambda>dev.
             write_inodes write_at sb 0 nodes data_payloads dev report)) })"

definition pack_from_directory :: "'d read_op \<Rightarrow> 'd write_op \<Rightarrow> 'd \<Rightarrow> bytes list \<Rightarrow> HostNode \<Rightarrow> PackOptions \<Rightarrow>
    (WriteError, 'd \<times> PackReport) outcome" where
  "pack_from_directory read_at write_at dev source tree opts =
    bindE (try_from (unat (po_total_blocks opts))) id (\<lambda>(ag_blocks :: u32).
    let mkfs_opts = \<lparr>mk_block_size = po_block_size opts, mk_sector_size = po_sector_size opts,
          mk_ag_blocks = ag_blocks, mk_total_blocks = po_total_blocks opts, mk_uuid = po_uuid opts\<rparr> in
    bindE (mkfs write_at dev mkfs_opts) id (\<lambda>dev.
    bindE (read_superblock (read_at dev)) write_error_of (\<lambda>sb.
    bindE (collect_tree source source tree 0 [] \<lparr>packed_inodes = 0, skipped = []\<rparr>) id
      (\<lambda>(_, nodes, report).
        let nodes = (if nodes = [] then [empty_root] else nodes)
        in pack_nodes write_at sb opts nodes report dev))))"

end
