(* ===== verification/Crab_Dir.thy ===== *)
theory Crab_Dir
  imports Crab_Pack
begin

text \<open>
  Directories as \<^verbatim>\<open>pack.rs\<close> writes them and \<^verbatim>\<open>reader.rs\<close> reads them: both forms of a directory payload, the
  short form inside the inode and the extent form, are listed and searched as the entries they were
  built from.
\<close>

section \<open>Directory payloads\<close>

definition packed_dir_entry :: "Superblock \<Rightarrow> PackedEntry \<Rightarrow> DirEntry" where
  "packed_dir_entry sb e = \<lparr>de_ino = sb_rootino sb + of_nat (pe_inode_index e), de_name = pe_name e, de_ftype = pe_ftype e\<rparr>"

lemma inode_number_Ok: "inode_number sb i = Ok ino \<Longrightarrow> ino = sb_rootino sb + of_nat i \<and> i < 2 ^ 64 \<and> unat ino = unat (sb_rootino sb) + i"
  by (auto simp: inode_number_def cadd_def unat_word_ariths split: if_splits)

lemma try_from_Ok: "try_from n = Ok (w :: 'a::len word) \<longleftrightarrow> n < 2 ^ LENGTH('a) \<and> w = of_nat n"
  by (auto simp: try_from_def)

lemma DirSfEntry_parse_packed:
  assumes "unat nl = length name" "i8 \<noteq> 0" "utf8_valid name"
  shows "DirSfEntry_parse ([nl] @ to_be_bytes (off :: u16) @ name @ [ft] @ to_be_bytes (ino :: u64) @ rest) i8 True =
    Ok (\<lparr>sfe_namelen = nl, sfe_offset = off, sfe_name = name, sfe_ftype = ft, sfe_inumber = ino\<rparr>, 12 + length name)"
proof -
  let ?b = "[nl] @ to_be_bytes off @ name @ [ft] @ to_be_bytes ino @ rest"
  define A where "A = [nl] @ to_be_bytes off @ name @ [ft]"
  have "?b = A @ to_be_bytes ino @ rest" "length A = 4 + length name" by (simp_all add: A_def)
  then have "drop (4 + length name) ?b = to_be_bytes ino @ rest" by (metis append_eq_conv_conj)
  then have r: "rd ?b 1 2 = to_be_bytes off" "rd ?b 3 (length name) = name" "rd ?b (4 + length name) 8 = to_be_bytes ino"
    by (simp_all add: rd_def)
  have n: "?b ! 0 = nl" "?b ! (3 + length name) = ft" by (simp_all add: nth_append)
  have len: "length ?b = 12 + length name + length rest" "from_be_bytes (to_be_bytes off) = off" "from_be_bytes (to_be_bytes ino) = ino" by simp_all
  show ?thesis
    unfolding DirSfEntry_parse_def Let_def
    using assms r n len by (simp add: exec_simps add.commute add.left_commute del: append_Cons append_Nil)
qed


lemma get_range_drop: "pos \<le> length data \<Longrightarrow> get_range data pos (length data) = Some (drop pos data)"
  by (simp add: get_range_def rd_def)

lemma drop_step: "drop pos data = A @ B \<Longrightarrow> drop (pos + length A) data = B"
  by (metis add.commute append_eq_conv_conj drop_drop)

lemma drop_len: "drop pos data = A @ B \<Longrightarrow> A \<noteq> [] \<Longrightarrow> pos + length A \<le> length data"
  by (metis add.commute append_Nil drop_step drop_all length_append length_drop le_add_diff_inverse2 nat_le_linear le_add1 append_is_Nil_conv add_le_mono1)

abbreviation names_ok :: "PackedEntry list \<Rightarrow> bool" where
  "names_ok es \<equiv> \<forall>e \<in> set es. utf8_valid (pe_name e)"

lemma sf_entries_Cons:
  assumes "sf_entries sb slot (e # es) = Ok body"
  shows "\<exists>(nl :: u8) (off :: u16) body'. unat nl = length (pe_name e) \<and> sf_entries sb (slot + 1) es = Ok body' \<and>
    body = ([nl] @ to_be_bytes off @ pe_name e @ [pe_ftype e] @ to_be_bytes (de_ino (packed_dir_entry sb e))) @ body'"
  using assms by (auto simp: bindE_Ok_iff try_from_Ok packed_dir_entry_def dest!: inode_number_Ok)

lemma sf_list_packed:
  assumes "sf_entries sb slot es = Ok body" "drop pos data = body @ tail" "pos \<le> length data" "i8 \<noteq> 0" "names_ok es"
  shows "sf_list data i8 True (length es) pos = Ok (map (packed_dir_entry sb) es)"
  using assms
proof (induction es arbitrary: slot body pos)
  case (Cons e es)
  from sf_entries_Cons[OF Cons.prems(1)] obtain nl :: u8 and off :: u16 and body' where
    e: "unat nl = length (pe_name e)" "sf_entries sb (slot + 1) es = Ok body'"
      "body = ([nl] @ to_be_bytes off @ pe_name e @ [pe_ftype e] @ to_be_bytes (de_ino (packed_dir_entry sb e))) @ body'" by blast
  define A where "A = [nl] @ to_be_bytes off @ pe_name e @ [pe_ftype e] @ to_be_bytes (de_ino (packed_dir_entry sb e))"
  have A: "drop pos data = A @ (body' @ tail)" "A \<noteq> []" "length A = 12 + length (pe_name e)"
    using Cons.prems(2) e(3) by (simp_all add: A_def)
  have "DirSfEntry_parse (drop pos data) i8 True =
      Ok (\<lparr>sfe_namelen = nl, sfe_offset = off, sfe_name = pe_name e, sfe_ftype = pe_ftype e,
           sfe_inumber = de_ino (packed_dir_entry sb e)\<rparr>, 12 + length (pe_name e))"
    unfolding A(1) A_def using DirSfEntry_parse_packed[OF e(1) Cons.prems(4), of off "pe_ftype e" _ "body' @ tail"] Cons.prems(5) by simp
  moreover have "sf_list data i8 True (length es) (pos + (12 + length (pe_name e))) = Ok (map (packed_dir_entry sb) es)"
    using Cons.IH[OF e(2), of "pos + length A"] drop_step[OF A(1)] drop_len[OF A(1,2)] Cons.prems(4,5) A(3) by simp
  ultimately show ?case using get_range_drop[OF Cons.prems(3)] by (simp add: packed_dir_entry_def)
qed simp

definition find_packed :: "Superblock \<Rightarrow> PackedEntry list \<Rightarrow> bytes \<Rightarrow> (u64 \<times> u8) option" where
  "find_packed sb es target = map_option (\<lambda>e. (de_ino (packed_dir_entry sb e), pe_ftype e)) (find (\<lambda>e. pe_name e = target) es)"

lemma bytes_eq_iff: "bytes_eq l r \<longleftrightarrow> l = r"
proof -
  have "bytes_eq_from l r \<longleftrightarrow> l = r" if "length l = length r" using that
    by (induction l r rule: bytes_eq_from.induct) auto
  then show ?thesis by (auto simp: bytes_eq_def)
qed

lemma sf_find_packed:
  assumes "sf_entries sb slot es = Ok body" "drop pos data = body @ tail" "pos \<le> length data" "i8 \<noteq> 0" "names_ok es"
  shows "sf_find data i8 True target (length es) pos = Ok (find_packed sb es target)"
  using assms
proof (induction es arbitrary: slot body pos)
  case (Cons e es)
  from sf_entries_Cons[OF Cons.prems(1)] obtain nl :: u8 and off :: u16 and body' where
    e: "unat nl = length (pe_name e)" "sf_entries sb (slot + 1) es = Ok body'"
      "body = ([nl] @ to_be_bytes off @ pe_name e @ [pe_ftype e] @ to_be_bytes (de_ino (packed_dir_entry sb e))) @ body'" by blast
  define A where "A = [nl] @ to_be_bytes off @ pe_name e @ [pe_ftype e] @ to_be_bytes (de_ino (packed_dir_entry sb e))"
  have A: "drop pos data = A @ (body' @ tail)" "A \<noteq> []" "length A = 12 + length (pe_name e)"
    using Cons.prems(2) e(3) by (simp_all add: A_def)
  have "DirSfEntry_parse (drop pos data) i8 True =
      Ok (\<lparr>sfe_namelen = nl, sfe_offset = off, sfe_name = pe_name e, sfe_ftype = pe_ftype e,
           sfe_inumber = de_ino (packed_dir_entry sb e)\<rparr>, 12 + length (pe_name e))"
    unfolding A(1) A_def using DirSfEntry_parse_packed[OF e(1) Cons.prems(4), of off "pe_ftype e" _ "body' @ tail"] Cons.prems(5) by simp
  moreover have "sf_find data i8 True target (length es) (pos + (12 + length (pe_name e))) = Ok (find_packed sb es target)"
    using Cons.IH[OF e(2), of "pos + length A"] drop_step[OF A(1)] drop_len[OF A(1,2)] Cons.prems(4,5) A(3) by simp
  moreover have "get_range data (pos + 3) (pos + 3 + length (pe_name e)) = Some (pe_name e)"
  proof -
    have "rd data (pos + 3) (length (pe_name e)) = rd (drop pos data) 3 (length (pe_name e))" by (simp add: rd_def add.commute)
    also have "\<dots> = pe_name e" unfolding A(1) A_def by (simp add: rd_def)
    finally show ?thesis using drop_len[OF A(1,2)] A(3) by (simp add: get_range_def)
  qed
  ultimately show ?case using get_range_drop[OF Cons.prems(3)] e(1)
    by (simp add: bytes_eq_iff find_packed_def Let_def)
qed (simp add: find_packed_def)


text \<open>The extent form of a directory.\<close>

lemma ext_entries_Cons:
  assumes "ext_entries sb (e # es) = Ok body"
  shows "\<exists>(nl :: u16) body'. unat nl = length (pe_name e) \<and> ext_entries sb es = Ok body' \<and>
    body = (to_be_bytes (de_ino (packed_dir_entry sb e)) @ [pe_ftype e] @ to_be_bytes nl @ pe_name e) @ body'"
  using assms by (auto simp: bindE_Ok_iff try_from_Ok packed_dir_entry_def dest!: inode_number_Ok
      intro!: exI[of _ "of_nat (length (pe_name e)) :: u16"])

text \<open>What both loops read of the entry at \<open>pos\<close>.\<close>

lemma ext_entry_reads:
  assumes d: "drop pos data = (to_be_bytes (ino :: u64) @ [ft] @ to_be_bytes (nl :: u16) @ name) @ rest" and nl: "unat nl = length name"
  shows "require_len data (pos + 11) = Ok ()" "be_u64 data pos = Some ino" "get_byte data (pos + 8) = Some ft"
    "be_u16 data (pos + 9) = Some nl" "require_len data (pos + 11 + length name) = Ok ()"
    "get_range data (pos + 11) (pos + 11 + length name) = Some name"
    "drop (pos + 11 + length name) data = rest" "pos + 11 + length name \<le> length data"
proof -
  let ?A = "to_be_bytes ino @ [ft] @ to_be_bytes nl @ name"
  have ne: "?A \<noteq> []" by simp
  have l: "length ?A = 11 + length name" by simp
  have len: "pos + 11 + length name \<le> length data" using drop_len[OF d ne] l by simp
  have rd: "rd data (pos + i) n = rd (?A @ rest) i n" for i n using d by (simp add: rd_def add.commute flip: drop_drop)
  show "drop (pos + 11 + length name) data = rest" using drop_step[OF d] l by (simp add: add.assoc)
  show "pos + 11 + length name \<le> length data" by (rule len)
  show "require_len data (pos + 11) = Ok ()" "require_len data (pos + 11 + length name) = Ok ()" using len by (simp_all add: exec_simps)
  show "be_u64 data pos = Some ino" using len rd[of 0 8] by (simp add: exec_simps rd_def)
  show "be_u16 data (pos + 9) = Some nl" using len rd[of 9 2] by (simp add: exec_simps rd_def)
  show "get_range data (pos + 11) (pos + 11 + length name) = Some name" using len rd[of 11 "length name"] by (simp add: get_range_def rd_def)
  have "data ! (pos + 8) = drop pos data ! 8" using len by simp
  then show "get_byte data (pos + 8) = Some ft" using len d by (simp add: get_byte_def nth_append)
qed

lemma ext_list_packed:
  assumes "ext_entries sb es = Ok body" "drop pos data = body @ tail" "names_ok es"
  shows "ext_list data (length es) pos = Ok (map (packed_dir_entry sb) es)"
  using assms
proof (induction es arbitrary: body pos)
  case (Cons e es)
  from ext_entries_Cons[OF Cons.prems(1)] obtain nl :: u16 and body' where
    e: "unat nl = length (pe_name e)" "ext_entries sb es = Ok body'"
      "body = (to_be_bytes (de_ino (packed_dir_entry sb e)) @ [pe_ftype e] @ to_be_bytes nl @ pe_name e) @ body'" by blast
  have "drop pos data = (to_be_bytes (de_ino (packed_dir_entry sb e)) @ [pe_ftype e] @ to_be_bytes nl @ pe_name e) @ (body' @ tail)"
    using Cons.prems(2) e(3) by simp
  note r = ext_entry_reads[OF this e(1)]
  from Cons.IH[OF e(2) r(7)] Cons.prems(3) show ?case using r(1-6) e(1)
    by (simp add: packed_dir_entry_def)
qed simp

lemma ext_find_packed:
  assumes "ext_entries sb es = Ok body" "drop pos data = body @ tail" "names_ok es"
  shows "ext_find data target (length es) pos = Ok (find_packed sb es target)"
  using assms
proof (induction es arbitrary: body pos)
  case (Cons e es)
  from ext_entries_Cons[OF Cons.prems(1)] obtain nl :: u16 and body' where
    e: "unat nl = length (pe_name e)" "ext_entries sb es = Ok body'"
      "body = (to_be_bytes (de_ino (packed_dir_entry sb e)) @ [pe_ftype e] @ to_be_bytes nl @ pe_name e) @ body'" by blast
  have "drop pos data = (to_be_bytes (de_ino (packed_dir_entry sb e)) @ [pe_ftype e] @ to_be_bytes nl @ pe_name e) @ (body' @ tail)"
    using Cons.prems(2) e(3) by simp
  note r = ext_entry_reads[OF this e(1)]
  from Cons.IH[OF e(2) r(7)] Cons.prems(3) show ?case using r(1-6) e(1)
    by (simp add: find_packed_def bytes_eq_iff)
qed (simp add: find_packed_def)

section \<open>A directory payload read back\<close>

text \<open>What the reader makes of a payload: as the fork of a local inode (padded), or as an extent payload.\<close>

definition dot_entries :: "u64 \<Rightarrow> u64 \<Rightarrow> DirEntry list" where
  "dot_entries ino parent = [\<lparr>de_ino = ino, de_name = str_dot, de_ftype = 2\<rparr>, \<lparr>de_ino = parent, de_name = str_dotdot, de_ftype = 2\<rparr>]"

definition find_in_dir :: "Superblock \<Rightarrow> u64 \<Rightarrow> u64 \<Rightarrow> PackedEntry list \<Rightarrow> bytes \<Rightarrow> (u64 \<times> u8) option" where
  "find_in_dir sb ino parent es target =
    (if target = str_dot then Some (ino, 2) else if target = str_dotdot then Some (parent, 2) else find_packed sb es target)"

lemma shortform_reads:
  assumes p: "shortform_payload sb parent es = Ok (Some payload)" and names: "names_ok es"
  shows "DirSfHeader_parse (payload @ tail) = Ok (\<lparr>sf_count = of_nat (length es), sf_i8count = 1, sf_parent = parent\<rparr>, 10)"
    "sf_list (payload @ tail) 1 True (length es) 10 = Ok (map (packed_dir_entry sb) es)"
    "sf_find (payload @ tail) 1 True target (length es) 10 = Ok (find_packed sb es target)"
    "length es < 256" "length payload \<le> 336"
proof -
  from p obtain body where body: "sf_entries sb 0 es = Ok body" "length es < 256"
    "payload = [of_nat (length es), 1] @ to_be_bytes parent @ body" "length payload \<le> 336"
    by (auto simp: shortform_payload_def bindE_Ok_iff try_from_Ok Let_def split: if_splits)
  show "length es < 256" "length payload \<le> 336" by fact+
  have d: "drop 10 (payload @ tail) = body @ tail" "10 \<le> length (payload @ tail)" using body(3) by simp_all
  show "sf_list (payload @ tail) 1 True (length es) 10 = Ok (map (packed_dir_entry sb) es)"
    by (rule sf_list_packed[OF body(1) d _ names]) simp
  show "sf_find (payload @ tail) 1 True target (length es) 10 = Ok (find_packed sb es target)"
    by (rule sf_find_packed[OF body(1) d _ names]) simp
  have "rd (payload @ tail) 2 8 = to_be_bytes parent" using body(3) by (simp add: rd_def)
  then show "DirSfHeader_parse (payload @ tail) = Ok (\<lparr>sf_count = of_nat (length es), sf_i8count = 1, sf_parent = parent\<rparr>, 10)"
    using body(3) by (simp add: DirSfHeader_parse_def exec_simps)
qed


lemma extent_dir_reads:
  assumes body: "ext_entries sb es = Ok body" and n: "length es < 2 ^ 32" and names: "names_ok es"
    and payload: "payload = CRABFS_EXTENT_DIR_MAGIC @ to_be_bytes (of_nat (length es) :: u32) @ to_be_bytes parent @ body"
  shows "has_extent_dir_magic payload = Some True"
    "parse_extent_dir_entries payload ino = Ok (dot_entries ino parent @ map (packed_dir_entry sb) es)"
    "find_extent_dir_entry payload ino target = Ok (find_in_dir sb ino parent es target)"
proof -
  have len: "20 \<le> length payload" by (simp add: payload CRABFS_EXTENT_DIR_MAGIC_def)
  have m: "length CRABFS_EXTENT_DIR_MAGIC = 8" by (simp add: CRABFS_EXTENT_DIR_MAGIC_def)
  have r: "rd payload 0 8 = CRABFS_EXTENT_DIR_MAGIC" "rd payload 8 4 = to_be_bytes (of_nat (length es) :: u32)"
    "rd payload 12 8 = to_be_bytes parent" using m by (simp_all add: payload rd_def)
  have d: "drop 20 payload = body @ []" using m by (simp add: payload)
  show "has_extent_dir_magic payload = Some True"
    using len r(1) m by (simp add: has_extent_dir_magic_def get_range_def bytes_eq_iff)
  have c: "be_u32 payload 8 = Some (of_nat (length es))" "be_u64 payload 12 = Some parent" "unat (of_nat (length es) :: u32) = length es"
    using len r n by (simp_all add: exec_simps)
  show "parse_extent_dir_entries payload ino = Ok (dot_entries ino parent @ map (packed_dir_entry sb) es)"
    using len c ext_list_packed[OF body d names] by (simp add: parse_extent_dir_entries_def dot_entries_def)
  show "find_extent_dir_entry payload ino target = Ok (find_in_dir sb ino parent es target)"
    using len c ext_find_packed[OF body d names] by (simp add: find_extent_dir_entry_def find_in_dir_def)
qed

end
