(* ===== verification/Crab_Image.thy ===== *)
theory Crab_Image
  imports Crab_Dir
begin

text \<open>
  The bytes the image builder puts on the device: the sealed inode records, the data blocks of the payloads,
  and where the layout places them.  The writes are brought into the form of a list of offsets and contents,
  inode records first in the image and the payloads behind them, no two overlapping.
\<close>

section \<open>Inode images\<close>

definition extent_bytes :: "u64 \<Rightarrow> u32 \<Rightarrow> bytes" where
  "extent_bytes start cnt = (case serialize_bmap_extent (replicate 16 0) 0 start cnt of Some (Inr h) \<Rightarrow> h | _ \<Rightarrow> [])"

definition packed_format :: "bytes \<Rightarrow> InodeFormat" where
  "packed_format payload = (if length payload \<le> LOCAL_FORK_BYTES then Local else Extents)"

definition packed_fork :: "bytes \<Rightarrow> u64 \<Rightarrow> u64 \<Rightarrow> bytes" where
  "packed_fork payload start blocks =
    (if length payload \<le> LOCAL_FORK_BYTES then payload @ replicate (336 - length payload) 0
     else extent_bytes start (ucast blocks) @ replicate 320 0)"

definition packed_image :: "Inode \<Rightarrow> bytes \<Rightarrow> bytes" where
  "packed_image inode fork = sealed_image (hdr_of 176 (Inode_serialize inode) @ fork) 100 512"

lemma extent_bytes_ok:
  assumes "unat start < 2 ^ 52" "unat cnt < 2 ^ 21"
  shows "serialize_bmap_extent (replicate 16 0) 0 start cnt = Ok (extent_bytes start cnt)" "length (extent_bytes start cnt) = 16"
    "BmapExtent_parse (extent_bytes start cnt @ rest) =
       Ok \<lparr>ext_state = 0, ext_startoff = 0, ext_startblock = start, ext_blockcount = cnt\<rparr>"
proof -
  from serialize_bmap_extent_spec[of 0 start cnt "replicate 16 0"] assms obtain b where
    b: "serialize_bmap_extent (replicate 16 0) 0 start cnt = Ok b" "length b = 16"
      "BmapExtent_parse b = Ok \<lparr>ext_state = 0, ext_startoff = 0, ext_startblock = start, ext_blockcount = cnt\<rparr>" by auto
  then have e: "extent_bytes start cnt = b" by (simp add: extent_bytes_def)
  show "serialize_bmap_extent (replicate 16 0) 0 start cnt = Ok (extent_bytes start cnt)" "length (extent_bytes start cnt) = 16"
    using b e by simp_all
  have "BmapExtent_parse (b @ rest) = BmapExtent_parse b"
    using b(2) by (simp add: BmapExtent_parse_def exec_simps rd_append_left)
  then show "BmapExtent_parse (extent_bytes start cnt @ rest) =
       Ok \<lparr>ext_state = 0, ext_startoff = 0, ext_startblock = start, ext_blockcount = cnt\<rparr>"
    using b e by simp
qed

lemma ucast_small: "unat (w :: u64) < 2 ^ 32 \<Longrightarrow> unat (ucast w :: u32) = unat w"
  by (simp add: unsigned_ucast_eq take_bit_nat_eq_self_iff)

lemma length_packed_fork: "unat start < 2 ^ 52 \<Longrightarrow> unat blocks < 2 ^ 21 \<Longrightarrow> length (packed_fork payload start blocks) = 336"
  using extent_bytes_ok(2)[of start "ucast blocks"] ucast_small[of blocks] by (simp add: packed_fork_def)

lemma packed_image_reads:
  assumes "di_magic inode = XFS_DINODE_MAGIC" "length (di_uuid inode) = 16" "length fork = 336"
  shows "length (packed_image inode fork) = 512" "verify_xfs_crc (packed_image inode fork) 100 = Some True"
    "\<exists>c. Inode_parse (packed_image inode fork) = Ok (inode\<lparr>di_crc := c\<rparr>)" "get_range (packed_image inode fork) 176 512 = Some fork"
proof -
  let ?h = "hdr_of 176 (Inode_serialize inode)"
  note h = hdr_inode_ok[OF assms(1,2)]
  show len: "length (packed_image inode fork) = 512" by (simp add: packed_image_def)
  show "verify_xfs_crc (packed_image inode fork) 100 = Some True"
    unfolding packed_image_def by (rule sealed_image_verifies) simp_all
  obtain c where "Inode_parse ?h = Ok (inode\<lparr>di_crc := c\<rparr>)" using h(3) by blast
  then have "Inode_parse (?h @ fork) = Ok (inode\<lparr>di_crc := c\<rparr>)"
    using Inode_parse_prefix[of "?h @ fork"] h(2) by (simp add: rd_append_left)
  from hdr_inode.parse_sealed_image[OF _ _ _ this, of 512] show "\<exists>c. Inode_parse (packed_image inode fork) = Ok (inode\<lparr>di_crc := c\<rparr>)"
    using h(2) assms(3) by (auto simp: packed_image_def)
  have "rd (packed_image inode fork) 176 336 = rd (?h @ fork) 176 336"
    unfolding packed_image_def using h(2) assms(3) by (intro rd_sealed_image) simp_all
  then show "get_range (packed_image inode fork) 176 512 = Some fork"
    using len h(2) assms(3) by (simp add: get_range_def rd_append_right)
qed

text \<open>The superblocks the image builder works with: one allocation group of 4096-byte blocks.\<close>

definition pack_geometry :: "Superblock \<Rightarrow> bool" where
  "pack_geometry sb \<longleftrightarrow> sb_block_size sb = 4096 \<and> sb_inode_size sb = 512 \<and> length (sb_uuid sb) = 16 \<and>
     sb_rootino sb = 64 \<and> unat (sb_inopblog sb) = 3 \<and> is_v5 sb \<and> has_incompat_feature sb XFS_SB_FEAT_INCOMPAT_FTYPE \<and>
     sb_ag_count sb = 1 \<and> unat (sb_agblklog sb) \<le> 32 \<and> unat (sb_ag_blocks sb) \<le> 2 ^ unat (sb_agblklog sb)"

abbreviation inode_pos :: "nat \<Rightarrow> nat" where
  "inode_pos i \<equiv> 32768 + 512 * i"

lemma put_zero_fork:
  assumes "length h = 176" "length xs \<le> 336"
  shows "wr (h @ replicate 336 0) 176 xs = h @ xs @ replicate (336 - length xs) 0"
  using assms by (simp add: wr_def drop_replicate)

lemma write_inode_record_eq:
  assumes sb: "pack_geometry sb" and ino: "unat ino = 64 + i" and i: "i < 2 ^ 50"
    and len: "length payload < 2 ^ 63" and b: "unat start < 2 ^ 52" "unat blocks < 2 ^ 21"
  shows "write_inode_record write_at sb ino node payload (packed_format payload) start blocks dev =
    bindE (write_at dev (of_nat (inode_pos i))
      (packed_image (node_inode sb ino node payload (packed_format payload) blocks) (packed_fork payload start blocks))) WDevice Ok"
proof -
  let ?inode = "node_inode sb ino node payload (packed_format payload) blocks"
  let ?h = "hdr_of 176 (Inode_serialize ?inode)" and ?fork = "packed_fork payload start blocks"
  have in_ok: "di_magic ?inode = XFS_DINODE_MAGIC" "length (di_uuid ?inode) = 16" using sb by (simp_all add: node_inode_def pack_geometry_def)
  note h = hdr_inode_ok[OF in_ok]
  have fl: "length ?fork = 336" using length_packed_fork[OF b] .
  let ?raw = "wr (replicate (unat (sb_inode_size sb)) 0) 0 ?h"
  have raw: "?raw = ?h @ replicate 336 0" using h(2) sb by (simp add: wr_def pack_geometry_def)
  have slot: "csub ino 64 = Some (of_nat i)"
  proof -
    have "64 \<le> ino" using ino by (simp add: word_le_nat_alt)
    moreover have "unat (ino - 64) = i" using ino \<open>64 \<le> ino\<close> by (simp add: unat_sub)
    moreover have "of_nat (unat (ino - 64)) = ino - 64" by simp
    ultimately show ?thesis by (metis csub_def)
  qed
  have off: "cmul (of_nat i) (512 :: u64) = Some (of_nat (512 * i))" "cadd (32768 :: u64) (of_nat (512 * i)) = Some (of_nat (inode_pos i))"
    using i by (simp_all add: cmul_of_nat cadd_of_nat mult.commute del: of_nat_mult of_nat_add)
  note ext = extent_bytes_ok(1,2)[OF b(1), of "ucast blocks"] ucast_small[of blocks]
  have fork: "(case packed_format payload of
                Local \<Rightarrow> map_option Inr (put_slice XFS_DINODE_SIZE_V3 payload ?raw)
              | Extents \<Rightarrow> do {
                  fork \<leftarrow> get_range ?raw XFS_DINODE_SIZE_V3 (XFS_DINODE_SIZE_V3 + 16);
                  bindE (try_from (unat blocks)) id (\<lambda>(cnt :: u32).
                  bindE (serialize_bmap_extent fork 0 start cnt) id (\<lambda>fork.
                    Ok (wr ?raw XFS_DINODE_SIZE_V3 fork))) }
              | _ \<Rightarrow> Ok ?raw) = Ok (?h @ ?fork)"
  proof (cases "length payload \<le> 336")
    case True
    then show ?thesis using h(2) raw by (simp add: packed_format_def packed_fork_def exec_simps put_zero_fork)
  next
    case False
    have "get_range (?h @ replicate 336 0) 176 192 = Some (replicate 16 0)"
      using h(2) by (simp add: get_range_def rd_append_right) (simp add: rd_def)
    moreover have "(try_from (unat blocks) :: (WriteError, u32) outcome) = Ok (ucast blocks)"
      using b(2) by (simp add: try_from_def)
    ultimately show ?thesis using False h(2) ext b(2) raw
      by (simp add: packed_format_def packed_fork_def put_zero_fork)
  qed
  have seal: "write_xfs_crc 100 (?h @ ?fork) = Some (packed_image ?inode ?fork)"
  proof -
    have "rd (wr (replicate 4096 0) 0 (?h @ ?fork)) 0 512 = ?h @ ?fork" using h(2) fl by (intro rd_wr_same) simp_all
    then show ?thesis using h(2) fl by (simp add: packed_image_def sealed_image_def Let_def write_xfs_crc_eq)
  qed
  have hz: "get_range (replicate 512 (0::u8)) 0 176 = Some (replicate 176 0)" by (simp add: get_range_def rd_def)
  have all: "get_range (?h @ ?fork) 0 512 = Some (?h @ ?fork)" using h(2) fl by (simp add: get_range_def)
  have sbs: "sb_block_size sb = 4096" "sb_inode_size sb = 512" "sb_rootino sb = 64" using sb by (simp_all add: pack_geometry_def)
  have m: "cmul (4096 :: u64) 8 = Some 32768" by (simp add: cmul_def)
  show ?thesis
    unfolding write_inode_record_def Let_def
    using slot off len hz h(1) sbs m all seal fork by simp
qed

section \<open>Data blocks\<close>

definition blocks_of :: "bytes \<Rightarrow> nat" where
  "blocks_of p = (length p + 4095) div 4096"

definition pad_blocks :: "bytes \<Rightarrow> bytes" where
  "pad_blocks p = p @ replicate (4096 * blocks_of p - length p) 0"

lemma blocks_of_bounds: "length p \<le> 4096 * blocks_of p" "4096 * blocks_of p < length p + 4096"
  by (simp_all add: blocks_of_def)

lemma length_pad_blocks [simp]: "length (pad_blocks p) = 4096 * blocks_of p"
  using blocks_of_bounds(1)[of p] by (simp add: pad_blocks_def)

lemma blocks_of_ceil: "length p div 4096 + (if length p mod 4096 = 0 then 0 else 1) = blocks_of p"
proof -
  define q r where "q = length p div 4096" and "r = length p mod 4096"
  have l: "length p = 4096 * q + r" "r < 4096" by (simp_all add: q_def r_def)
  show ?thesis
  proof (cases "r = 0")
    case False
    then have "length p + 4095 = (r - 1) + 4096 * (q + 1)" using l by simp
    also have "\<dots> div 4096 = (q + 1) + (r - 1) div 4096" by (rule div_mult_self2) simp
    finally show ?thesis using l False by (simp add: blocks_of_def)
  qed (use l in \<open>simp add: blocks_of_def\<close>)
qed

lemma blocks_of_0 [simp]: "blocks_of p = 0 \<longleftrightarrow> p = []"
  by (auto simp: blocks_of_def div_eq_0_iff)

lemma blocks_of_Nil [simp]: "blocks_of [] = 0"
  by simp

definition block_writes :: "nat \<Rightarrow> bytes \<Rightarrow> nat \<Rightarrow> nat \<Rightarrow> (nat \<times> bytes) list" where
  "block_writes start p j n = map (\<lambda>k. (4096 * (start + k), rd (pad_blocks p) (4096 * k) 4096)) [j..<j + n]"

lemma block_writes_Suc: "block_writes start p j (Suc n) =
    (4096 * (start + j), rd (pad_blocks p) (4096 * j) 4096) # block_writes start p (Suc j) n"
  by (simp add: block_writes_def upt_conv_Cons del: upt_Suc)

lemma pad_chunk:
  assumes "j < blocks_of p"
  shows "put_slice 0 (rd p (4096 * j) (min (length p) (4096 * j + 4096) - 4096 * j)) (replicate 4096 0) = Some (rd (pad_blocks p) (4096 * j) 4096)"
    "4096 * j \<le> min (length p) (4096 * j + 4096)"
proof -
  have j: "4096 * j + 4096 \<le> 4096 * blocks_of p" using assms by simp
  then show "4096 * j \<le> min (length p) (4096 * j + 4096)" using blocks_of_bounds(2)[of p] by simp
  let ?c = "rd p (4096 * j) (min (length p) (4096 * j + 4096) - 4096 * j)"
  have len: "length ?c \<le> 4096" by simp
  have "wr (replicate 4096 0) 0 ?c = rd (pad_blocks p) (4096 * j) 4096"
    using j by (intro nth_equalityI) (auto simp: nth_wr nth_rd pad_blocks_def nth_append)
  then show "put_slice 0 ?c (replicate 4096 0) = Some (rd (pad_blocks p) (4096 * j) 4096)" using len by (simp add: put_slice_def)
qed

lemma write_blocks_eq:
  assumes sb: "sb_block_size sb = 4096" and s: "unat s + blocks_of p < 2 ^ 51" and n: "j + n = blocks_of p"
  shows "write_blocks write_at sb s p j n dev = write_list write_at dev (block_writes (unat s) p j n)"
  using n
proof (induction n arbitrary: j dev)
  case 0
  then show ?case by (simp add: block_writes_def)
next
  case (Suc n)
  have j: "j < blocks_of p" using Suc.prems by simp
  have off: "cadd s (of_nat j) = Some (of_nat (unat s + j))" "cmul (of_nat (unat s + j)) (4096 :: u64) = Some (of_nat (4096 * (unat s + j)))"
    using s j by (simp_all add: cadd_of_nat cmul_of_nat mult.commute del: of_nat_add of_nat_mult)
  have ch: "get_range p (j * 4096) (min (length p) (j * 4096 + 4096)) = Some (rd p (4096 * j) (min (length p) (4096 * j + 4096) - 4096 * j))"
    using pad_chunk(2)[OF j] by (simp add: get_range_def mult.commute)
  have ih: "write_blocks write_at sb s p (Suc j) n = (\<lambda>dev. write_list write_at dev (block_writes (unat s) p (Suc j) n))"
    using Suc.IH[of "Suc j"] Suc.prems by (intro ext) simp
  show ?case
    using pad_chunk(1)[OF j] by (simp add: sb Let_def ch off block_writes_Suc ih del: of_nat_add of_nat_mult)
qed

lemma write_data_blocks_eq:
  assumes "sb_block_size sb = 4096" "unat s + blocks_of p < 2 ^ 51"
  shows "write_data_blocks write_at sb s p dev = write_list write_at dev (block_writes (unat s) p 0 (blocks_of p))"
  using write_blocks_eq[OF assms, of 0 "blocks_of p"] assms(1) blocks_of_ceil[of p]
  by (simp add: write_data_blocks_def Let_def split del: if_split)

lemma apply_block_writes:
  assumes "j + n \<le> blocks_of p" "4096 * (start + j + n) \<le> length c"
  shows "apply_writes (block_writes start p j n) c = wr c (4096 * (start + j)) (rd (pad_blocks p) (4096 * j) (4096 * n))"
  using assms
proof (induction n arbitrary: j c)
  case 0
  then show ?case by (simp add: block_writes_def wr_def rd_def)
next
  case (Suc n)
  let ?a = "rd (pad_blocks p) (4096 * j) 4096" and ?b = "rd (pad_blocks p) (4096 * Suc j) (4096 * n)"
  have la: "length ?a = 4096" "length ?b = 4096 * n" using Suc.prems(1) by simp_all
  have "apply_writes (block_writes start p j (Suc n)) c = wr (wr c (4096 * (start + j)) ?a) (4096 * (start + Suc j)) ?b"
    using Suc.IH[of "Suc j" "wr c (4096 * (start + j)) ?a"] Suc.prems by (simp add: block_writes_Suc)
  also have "\<dots> = wr c (4096 * (start + j)) (?a @ ?b)"
    using wr_split[of "4096 * (start + j)" ?a ?b c] la Suc.prems(2) by (simp add: algebra_simps)
  also have "?a @ ?b = rd (pad_blocks p) (4096 * j) (4096 * Suc n)"
    using rd_split[of "pad_blocks p" "4096 * j" 4096 "4096 * n"] by (simp add: algebra_simps)
  finally show ?case .
qed

section \<open>Layout\<close>

fun laid_out :: "nat \<Rightarrow> (bytes \<times> u64 \<times> u64) list \<Rightarrow> nat \<Rightarrow> bool" where
  "laid_out nx [] nx' \<longleftrightarrow> nx = nx'" |
  "laid_out nx ((p, s, b) # ps) nx' \<longleftrightarrow> unat b = blocks_of p \<and> unat s = (if p = [] then 0 else nx) \<and> laid_out (nx + blocks_of p) ps nx'"

lemma laid_out_le: "laid_out nx ps nx' \<Longrightarrow> nx \<le> nx'"
  by (induction nx ps nx' rule: laid_out.induct) auto

lemma laid_out_end: "laid_out nx ps nx' \<Longrightarrow> (p, s, b) \<in> set ps \<Longrightarrow> unat b = blocks_of p \<and> unat s + unat b \<le> nx'"
proof (induction nx ps nx' rule: laid_out.induct)
  case (2 nx p' s' b' ps nx')
  then show ?case using laid_out_le[of "nx + blocks_of p'" ps nx'] by auto
qed simp

lemma div_ceil_nat:
  fixes d :: u64
  assumes "n < 2 ^ 64" "2 \<le> unat d"
  shows "\<exists>b. div_ceil (of_nat n) d = Some b \<and> unat b = n div unat d + (if n mod unat d = 0 then 0 else 1)"
proof -
  let ?l = "of_nat n :: u64"
  have u: "unat ?l = n" using assms(1) by simp
  have m: "?l mod d = 0 \<longleftrightarrow> n mod unat d = 0"
    unfolding unat_eq_zero[symmetric] unat_mod u by simp
  let ?b = "?l div d + (if ?l mod d = 0 then 0 else 1)"
  have q: "unat (?l div d) = n div unat d" by (simp add: unat_div u)
  have "n div unat d \<le> n div 2" using assms(2) by (rule div_le_mono2[rotated]) simp
  moreover have "n div 2 + 1 < 2 ^ 64" using assms(1) by simp
  ultimately have "n div unat d + 1 < 2 ^ 64" by simp
  then have "unat ?b = n div unat d + (if n mod unat d = 0 then 0 else 1)"
    using q by (simp add: m unat_word_ariths)
  moreover have "d \<noteq> 0" using assms(2) by auto
  ultimately show ?thesis by (simp add: div_ceil_def)
qed

lemma div_ceil_blocks: "length p < 2 ^ 63 \<Longrightarrow> \<exists>b. div_ceil (of_nat (length p)) (4096 :: u64) = Some b \<and> unat b = blocks_of p"
  using div_ceil_nat[of "length p" 4096] blocks_of_ceil[of p] by simp

lemma layout_nodes_laid_out:
  assumes sb: "sb_block_size sb = 4096" and "layout_nodes nodes sb i n nx = Ok (ps, nx')" "unat nx' < 2 ^ 63"
    and small: "\<forall>j < m. \<forall>p. build_payload nodes j sb = Ok p \<longrightarrow> length p < 2 ^ 63" and m: "i + n \<le> m"
  shows "laid_out (unat nx) ps (unat nx') \<and> length ps = n \<and> (\<forall>j < n. build_payload nodes (i + j) sb = Ok (fst (ps ! j)))"
  using assms(2,3) m
proof (induction n arbitrary: i nx ps)
  case (Suc n)
  from Suc.prems(1) obtain p b ps' nx1 where p: "build_payload nodes i sb = Ok p"
    "(if p = [] then Some 0 else div_ceil (of_nat (length p)) (ucast (sb_block_size sb) :: u64)) = Some b"
    "nx1 = (if b = 0 then nx else sat_add nx b)" "layout_nodes nodes sb (Suc i) n nx1 = Ok (ps', nx')"
    "ps = (p, if b = 0 then 0 else nx, b) # ps'"
    by (auto simp: bindE_Ok_iff Let_def Option.bind_eq_Some_conv)
  have "i < m" using Suc.prems(3) by simp
  then have len: "length p < 2 ^ 63" using small p(1) by blast
  have b: "unat b = blocks_of p" using p(2) div_ceil_blocks[OF len] by (auto simp: sb split: if_splits)
  then have b0: "b = 0 \<longleftrightarrow> p = []" by (metis blocks_of_0 unat_eq_zero)
  have ih: "laid_out (unat nx1) ps' (unat nx') \<and> length ps' = n \<and> (\<forall>j < n. build_payload nodes (Suc i + j) sb = Ok (fst (ps' ! j)))"
    using Suc.IH[OF p(4) Suc.prems(2)] Suc.prems(3) by simp
  have "unat nx1 = unat nx + blocks_of p"
  proof (cases "b = 0")
    case False
    have "unat nx1 < 2 ^ 63" using laid_out_le[of "unat nx1" ps' "unat nx'"] ih Suc.prems(2) by simp
    then show ?thesis using False p(3) b by (simp add: unat_sat_add)
  qed (use p(3) b in simp)
  moreover have "build_payload nodes (i + j) sb = Ok (fst (ps ! j))" if "j < Suc n" for j
    using that ih p(1,5) by (cases j) auto
  ultimately show ?case using ih p(5) b b0 by simp
qed simp


section \<open>All the writes\<close>

definition payload_writes :: "(bytes \<times> u64 \<times> u64) list \<Rightarrow> (nat \<times> bytes) list" where
  "payload_writes ps = concat (map (\<lambda>(p, s, b). block_writes (unat s) p 0 (blocks_of p)) ps)"

definition payload_extents :: "(bytes \<times> u64 \<times> u64) list \<Rightarrow> (nat \<times> bytes) list" where
  "payload_extents ps = map (\<lambda>(p, s, b). (4096 * unat s, pad_blocks p)) ps"

lemma write_payloads_eq:
  assumes "sb_block_size sb = 4096" "laid_out nx ps nx'" "nx' < 2 ^ 51"
  shows "write_payloads write_at sb ps dev = write_list write_at dev (payload_writes ps)"
  using assms(2)
proof (induction ps arbitrary: nx dev)
  case (Cons a ps)
  obtain p s b where a: "a = (p, s, b)" by (cases a) auto
  have lo: "unat b = blocks_of p" "unat s = (if p = [] then 0 else nx)" "laid_out (nx + blocks_of p) ps nx'" using Cons.prems a by simp_all
  then have b0: "b = 0 \<longleftrightarrow> p = []" by (metis blocks_of_0 unat_eq_zero)
  have "unat s + blocks_of p < 2 ^ 51" using lo laid_out_le[OF lo(3)] assms(3) by (auto split: if_splits)
  then have "write_data_blocks write_at sb s p dev = write_list write_at dev (block_writes (unat s) p 0 (blocks_of p))"
    by (rule write_data_blocks_eq[OF assms(1)])
  moreover have "write_payloads write_at sb ps = (\<lambda>dev. write_list write_at dev (payload_writes ps))"
    using Cons.IH[OF lo(3)] by (intro ext) simp
  ultimately show ?case using a b0
    by (cases "p = []") (simp_all add: payload_writes_def write_list_append block_writes_def)
qed (simp add: payload_writes_def)

lemma apply_payload_writes:
  assumes "laid_out nx ps nx'" "4096 * nx' \<le> length c"
  shows "apply_writes (payload_writes ps) c = apply_writes (payload_extents ps) c"
  using assms
proof (induction ps arbitrary: nx c)
  case (Cons a ps)
  obtain p s b where a: "a = (p, s, b)" by (cases a) auto
  have lo: "unat s = (if p = [] then 0 else nx)" "laid_out (nx + blocks_of p) ps nx'" using Cons.prems a by simp_all
  have "apply_writes (block_writes (unat s) p 0 (blocks_of p)) c = wr c (4096 * unat s) (pad_blocks p)"
    using lo laid_out_le[OF lo(2)] Cons.prems(2) by (subst apply_block_writes) (auto split: if_splits)
  then show ?case using Cons.IH[OF lo(2)] Cons.prems(2) a
    by (simp add: payload_writes_def payload_extents_def apply_writes_append)
qed (simp add: payload_writes_def payload_extents_def)

lemma payload_writes_range:
  assumes "laid_out nx ps nx'" "(off, xs) \<in> set (payload_writes ps)"
  shows "off + length xs \<le> 4096 * nx'"
  using assms
proof (induction ps arbitrary: nx)
  case (Cons a ps)
  obtain p s b where a: "a = (p, s, b)" by (cases a) auto
  have lo: "unat s = (if p = [] then 0 else nx)" "laid_out (nx + blocks_of p) ps nx'" using Cons.prems a by simp_all
  from Cons.prems(2) a consider "(off, xs) \<in> set (block_writes (unat s) p 0 (blocks_of p))" | "(off, xs) \<in> set (payload_writes ps)"
    by (auto simp: payload_writes_def)
  then show ?case
  proof cases
    case 1
    then obtain k where k: "k < blocks_of p" "off = 4096 * (unat s + k)" "xs = rd (pad_blocks p) (4096 * k) 4096"
      by (auto simp: block_writes_def)
    then have "p \<noteq> []" "length xs \<le> 4096" by auto
    then show ?thesis using k lo laid_out_le[OF lo(2)] by simp
  qed (rule Cons.IH[OF lo(2)])
qed (simp add: payload_writes_def)

text \<open>Empty payloads aside, the extents follow one another from the first free block.\<close>

lemma payload_extents_ordered:
  assumes "laid_out nx ps nx'"
  shows "sorted_wrt write_before (filter (\<lambda>w. snd w \<noteq> []) (payload_extents ps)) \<and>
    (\<forall>(off, xs) \<in> set (payload_extents ps). xs \<noteq> [] \<longrightarrow> 4096 * nx \<le> off \<and> off + length xs \<le> 4096 * nx')"
  using assms
proof (induction ps arbitrary: nx)
  case (Cons a ps)
  obtain p s b where a: "a = (p, s, b)" by (cases a) auto
  have lo: "unat s = (if p = [] then 0 else nx)" "laid_out (nx + blocks_of p) ps nx'" using Cons.prems a by simp_all
  note ih = Cons.IH[OF lo(2)]
  have ne: "pad_blocks p \<noteq> [] \<longleftrightarrow> p \<noteq> []" using length_pad_blocks[of p] blocks_of_0[of p] by (metis length_0_conv mult_is_0 zero_neq_numeral)
  have "write_before (4096 * unat s, pad_blocks p) w" if "p \<noteq> []" "w \<in> set (payload_extents ps)" "snd w \<noteq> []" for w
    using ih that lo(1) by (cases w) (auto simp: write_before_def)
  moreover have "4096 * nx \<le> off \<and> off + length xs \<le> 4096 * nx'" if "(off, xs) \<in> set (payload_extents ps)" "xs \<noteq> []" for off xs
    using ih that by fastforce
  ultimately show ?case using ih ne a lo(1) laid_out_le[OF lo(2)] by (auto simp: payload_extents_def)
qed (simp add: payload_extents_def)

lemma apply_writes_nonempty: "apply_writes (filter (\<lambda>w. snd w \<noteq> []) ws) c = apply_writes ws c"
  by (induction ws arbitrary: c) (auto simp: wr_def)


text \<open>The record of node \<open>i\<close>.\<close>

definition node_record :: "Superblock \<Rightarrow> nat \<Rightarrow> Node \<Rightarrow> bytes \<times> u64 \<times> u64 \<Rightarrow> bytes" where
  "node_record sb i node = (\<lambda>(p, s, b).
     packed_image (node_inode sb (of_nat (64 + i)) node p (packed_format p) b) (packed_fork p s b))"

definition inode_writes :: "Superblock \<Rightarrow> nat \<Rightarrow> Node list \<Rightarrow> (bytes \<times> u64 \<times> u64) list \<Rightarrow> (nat \<times> bytes) list" where
  "inode_writes sb i nodes ps = map (\<lambda>k. (inode_pos (i + k), node_record sb (i + k) (nodes ! k) (ps ! k))) [0..<length nodes]"

lemma inode_writes_Cons:
  "inode_writes sb i (node # nodes) (q # ps) = (inode_pos i, node_record sb i node q) # inode_writes sb (Suc i) nodes ps"
proof -
  have "[0..<Suc (length nodes)] = 0 # map Suc [0..<length nodes]" by (simp add: map_Suc_upt upt_conv_Cons del: upt_Suc)
  then show ?thesis by (simp add: inode_writes_def comp_def del: upt_Suc)
qed

definition extent_limits :: "(bytes \<times> u64 \<times> u64) list \<Rightarrow> bool" where
  "extent_limits ps \<longleftrightarrow> (\<forall>(p, s, b) \<in> set ps. length p < 2 ^ 63 \<and> unat s < 2 ^ 52 \<and> unat b < 2 ^ 21)"

lemma packed_format_if: "(if length p \<le> 336 then Local else Extents) = packed_format p"
  by (simp add: packed_format_def)

lemma write_inodes_eq:
  assumes sb: "pack_geometry sb" and "length ps = length nodes" "i + length nodes < 2 ^ 50" "extent_limits ps"
  shows "write_inodes write_at sb i nodes ps dev report =
    bindE (write_list write_at dev (inode_writes sb i nodes ps)) id
      (\<lambda>dev. Ok (dev, report\<lparr>packed_inodes := packed_inodes report + length nodes\<rparr>))"
  using assms(2-)
proof (induction nodes arbitrary: i ps dev report)
  case Nil
  then show ?case by (simp add: inode_writes_def)
next
  case (Cons node nodes)
  then obtain p s b ps' where ps: "ps = (p, s, b) # ps'" by (cases ps) auto
  have lim: "length p < 2 ^ 63" "unat s < 2 ^ 52" "unat b < 2 ^ 21" using Cons.prems(3) ps by (simp_all add: extent_limits_def)
  have i: "i < 2 ^ 50" using Cons.prems by simp
  have ino: "inode_number sb i = Ok (of_nat (64 + i))"
    using sb i by (simp add: inode_number_def pack_geometry_def cadd_of_nat del: of_nat_add)
  have u: "unat (of_nat (64 + i) :: u64) = 64 + i" using i by (subst unat_of_nat_small) simp_all
  note rec = write_inode_record_eq[OF sb u i lim(1-3), of write_at node]
  let ?r = "report\<lparr>packed_inodes := packed_inodes report + 1\<rparr>"
  let ?img = "node_record sb i node (p, s, b)"
  have step: "write_inodes write_at sb i (node # nodes) ps dev report =
      bindE (write_at dev (of_nat (inode_pos i)) ?img) WDevice (\<lambda>dev. write_inodes write_at sb (Suc i) nodes ps' dev ?r)"
    using ino rec[of dev] by (simp add: ps packed_format_if node_record_def bindE_assoc del: of_nat_add of_nat_mult split del: if_split)
  have ih: "write_inodes write_at sb (Suc i) nodes ps' dev ?r =
      bindE (write_list write_at dev (inode_writes sb (Suc i) nodes ps')) id
        (\<lambda>dev. Ok (dev, report\<lparr>packed_inodes := packed_inodes report + length (node # nodes)\<rparr>))" for dev
    using Cons.IH[of ps' "Suc i" dev ?r] Cons.prems ps by (simp add: extent_limits_def id_def)
  show ?case unfolding step ih unfolding ps inode_writes_Cons write_list.simps bindE_assoc ..
qed


section \<open>The image\<close>

text \<open>
  \<open>packed sb nodes ps c\<close>: the contents hold the record of every node in the inode table, and behind the
  table every payload at its blocks.
\<close>

definition packed :: "Superblock \<Rightarrow> Node list \<Rightarrow> (bytes \<times> u64 \<times> u64) list \<Rightarrow> bytes \<Rightarrow> bool" where
  "packed sb nodes ps c \<longleftrightarrow> length ps = length nodes \<and>
    (\<forall>i < length nodes. rd c (inode_pos i) 512 = node_record sb i (nodes ! i) (ps ! i)) \<and>
    (\<forall>(p, s, b) \<in> set ps. \<forall>off n. off + n \<le> length p \<longrightarrow> rd c (4096 * unat s + off) n = rd p off n)"

lemma length_node_record: "pack_geometry sb \<Longrightarrow> extent_limits [q] \<Longrightarrow> length (node_record sb i node q) = 512"
  by (cases q) (auto simp: node_record_def packed_image_def)

lemma inode_writes_in:
  assumes "(off, xs) \<in> set (inode_writes sb 0 nodes ps)"
  shows "\<exists>i < length nodes. off = inode_pos i \<and> length xs = 512"
  using assms by (auto simp: inode_writes_def node_record_def packed_image_def split: prod.splits)

lemma inode_writes_sorted: "sorted_wrt write_before (inode_writes sb 0 nodes ps)"
proof -
  have "length (node_record sb k node q) = 512" for k node q by (simp add: node_record_def packed_image_def split: prod.split)
  then show ?thesis by (simp add: inode_writes_def sorted_wrt_map write_before_def sorted_wrt_iff_nth_less del: upt_Suc)
qed

lemma packed_image_of_writes:
  assumes lo: "laid_out nx ps nx'" and len: "length ps = length nodes" and table: "8 + (length nodes + 7) div 8 \<le> nx"
    and c: "4096 * nx' \<le> length c"
  shows "packed sb nodes ps (apply_writes (inode_writes sb 0 nodes ps) (apply_writes (payload_writes ps) c))"
proof -
  let ?iw = "inode_writes sb 0 nodes ps" and ?c1 = "apply_writes (payload_writes ps) c"
  have below: "inode_pos i + 512 \<le> 4096 * nx" if "i < length nodes" for i
    using that table by linarith
  have nx: "nx \<le> nx'" by (rule laid_out_le[OF lo])
  have inode: "rd (apply_writes ?iw ?c1) (inode_pos i) 512 = node_record sb i (nodes ! i) (ps ! i)" if i: "i < length nodes" for i
  proof -
    have m: "(inode_pos i, node_record sb i (nodes ! i) (ps ! i)) \<in> set ?iw" using i by (auto simp: inode_writes_def)
    have l: "length (node_record sb i (nodes ! i) (ps ! i)) = 512" by (simp add: node_record_def packed_image_def split: prod.split)
    from rd_apply_writes_in[OF inode_writes_sorted m, of ?c1 0 512] show ?thesis
      using l below[OF i] nx c by simp
  qed
  have data: "rd (apply_writes ?iw ?c1) (4096 * unat s + off) n = rd p off n"
    if q: "(p, s, b) \<in> set ps" and n: "off + n \<le> length p" for p s b off n
  proof (cases "p = []")
    case True
    then show ?thesis using n by (simp add: rd_def)
  next
    case False
    let ?ws = "filter (\<lambda>w. snd w \<noteq> []) (payload_extents ps)"
    have ne: "pad_blocks p \<noteq> []" using False by (simp add: pad_blocks_def)
    have m: "(4096 * unat s, pad_blocks p) \<in> set ?ws" using q ne by (force simp: payload_extents_def)
    from payload_extents_ordered[OF lo] m ne have r: "4096 * nx \<le> 4096 * unat s" "4096 * unat s + length (pad_blocks p) \<le> 4096 * nx'" by fastforce+
    have "rd (apply_writes ?iw ?c1) (4096 * unat s + off) n = rd ?c1 (4096 * unat s + off) n"
    proof (intro rd_apply_writes_other ballI)
      fix w assume "w \<in> set ?iw"
      moreover obtain o' xs where w: "w = (o', xs)" by (cases w) auto
      ultimately obtain i where "i < length nodes" "o' = inode_pos i" "length xs = 512" using inode_writes_in by blast
      then show "case w of (o', xs) \<Rightarrow> 4096 * unat s + off + n \<le> o' \<or> o' + length xs \<le> 4096 * unat s + off"
        using below[of i] r(1) w by simp
    qed
    also have "\<dots> = rd (apply_writes ?ws c) (4096 * unat s + off) n" using apply_payload_writes[OF lo c] by (simp add: apply_writes_nonempty)
    also have "\<dots> = rd (pad_blocks p) off n"
      using rd_apply_writes_in[OF _ m, of c off n] payload_extents_ordered[OF lo] r(2) c n blocks_of_bounds(1)[of p] by simp
    also have "\<dots> = rd p off n" using n by (simp add: pad_blocks_def rd_append_left)
    finally show ?thesis .
  qed
  show ?thesis using inode data len by (auto simp: packed_def)
qed

lemma writes_keep_head:
  assumes lo: "laid_out nx ps nx'" and c: "4096 * nx' \<le> length c" and nx: "8 \<le> nx" and n: "n \<le> 32768"
  shows "rd (apply_writes (inode_writes sb 0 nodes ps) (apply_writes (payload_writes ps) c)) 0 n = rd c 0 n"
proof -
  let ?ws = "filter (\<lambda>w. snd w \<noteq> []) (payload_extents ps)" and ?c1 = "apply_writes (payload_writes ps) c"
  have "rd (apply_writes (inode_writes sb 0 nodes ps) ?c1) 0 n = rd ?c1 0 n"
  proof (intro rd_apply_writes_other ballI)
    fix w assume "w \<in> set (inode_writes sb 0 nodes ps)"
    then show "case w of (o', xs) \<Rightarrow> 0 + n \<le> o' \<or> o' + length xs \<le> 0"
      using inode_writes_in[of "fst w" "snd w" sb nodes ps] n by (cases w) auto
  qed
  also have "\<dots> = rd (apply_writes ?ws c) 0 n" using apply_payload_writes[OF lo c] by (simp add: apply_writes_nonempty)
  also have "\<dots> = rd c 0 n"
  proof (intro rd_apply_writes_other ballI)
    fix w assume "w \<in> set ?ws"
    then have "4096 * nx \<le> fst w" using payload_extents_ordered[OF lo] by fastforce
    then show "case w of (o', xs) \<Rightarrow> 0 + n \<le> o' \<or> o' + length xs \<le> 0" using nx n by (cases w) auto
  qed
  finally show ?thesis .
qed

lemma ceil_8: "n div 8 + (if n mod 8 = 0 then 0 else 1) = (n + 7) div (8 :: nat)"
proof -
  define q r where "q = n div 8" and "r = n mod 8"
  have "n = 8 * q + r" "r < 8" by (simp_all add: q_def r_def)
  then show ?thesis by (cases "r = 0") auto
qed

definition payload_limits :: "Node list \<Rightarrow> Superblock \<Rightarrow> bool" where
  "payload_limits nodes sb \<longleftrightarrow> (\<forall>i < length nodes. \<forall>p. build_payload nodes i sb = Ok p \<longrightarrow> blocks_of p < 2 ^ 21)"

lemma blocks_of_small: "blocks_of p < 2 ^ 21 \<Longrightarrow> length p < 2 ^ 63"
  using blocks_of_bounds(1)[of p] by simp

lemma laid_out_limits:
  assumes "laid_out nx ps nx'" "nx' < 2 ^ 52" "\<forall>q \<in> set ps. blocks_of (fst q) < 2 ^ 21"
  shows "extent_limits ps"
  using assms
proof (induction nx ps nx' rule: laid_out.induct)
  case (2 nx p s b ps nx')
  have le: "nx + blocks_of p \<le> nx'" using laid_out_le "2.prems"(1) by fastforce
  have "length p < 2 ^ 63" using "2.prems"(3) by (intro blocks_of_small) simp
  moreover have "extent_limits ps" using 2 by simp
  ultimately show ?case using "2.prems" le by (auto simp: extent_limits_def)
qed (simp add: extent_limits_def)

context block_device
begin

lemma pack_nodes_packed:
  assumes sb: "pack_geometry sb" and d: "invar d" "4096 * unat (po_total_blocks opts) \<le> length (contents d)" "length (contents d) < 2 ^ 64"
    and tot: "unat (po_total_blocks opts) < 2 ^ 32" and lim: "payload_limits nodes sb"
    and ok: "pack_nodes write_at sb opts nodes report d = Ok (d', report')"
  shows "\<exists>ps. invar d' \<and> length (contents d') = length (contents d) \<and> packed sb nodes ps (contents d') \<and> extent_limits ps \<and>
    (\<forall>i < length nodes. build_payload nodes i sb = Ok (fst (ps ! i))) \<and>
    (\<forall>(p, s, b) \<in> set ps. unat b = blocks_of p \<and> unat s + unat b \<le> unat (po_total_blocks opts)) \<and>
    8 + (length nodes + 7) div 8 \<le> unat (po_total_blocks opts) \<and>
    (\<forall>n \<le> 32768. rd (contents d') 0 n = rd (contents d) 0 n) \<and>
    report' = report\<lparr>packed_inodes := packed_inodes report + length nodes\<rparr>"
proof -
  let ?n = "length nodes"
  from ok obtain nb nx ps nx' d1 where
    n: "?n < 2 ^ 64" and nb: "div_ceil (of_nat ?n) (8 :: u64) = Some nb" "cadd 8 nb = Some nx"
    and lay: "layout_nodes nodes sb 0 ?n nx = Ok (ps, nx')" "nx' \<le> po_total_blocks opts"
    and w: "write_payloads write_at sb ps d = Ok d1" "write_inodes write_at sb 0 nodes ps d1 report = Ok (d', report')"
    by (auto simp: pack_nodes_def bindE_Ok_iff try_from_Ok Option.bind_eq_Some_conv not_less split: if_splits)
  let ?t = "unat (po_total_blocks opts)"
  have nx't: "unat nx' \<le> ?t" "unat nx' < 2 ^ 32" using lay(2) tot by (simp_all add: word_le_nat_alt)
  have bs: "sb_block_size sb = 4096" using sb by (simp add: pack_geometry_def)
  have small: "\<forall>j < ?n. \<forall>p. build_payload nodes j sb = Ok p \<longrightarrow> length p < 2 ^ 63"
    using lim blocks_of_small by (auto simp: payload_limits_def)
  from layout_nodes_laid_out[OF bs lay(1) _ small] nx't have lo: "laid_out (unat nx) ps (unat nx')" "length ps = ?n"
    "\<forall>j < ?n. build_payload nodes j sb = Ok (fst (ps ! j))" by simp_all
  have lims: "\<forall>q \<in> set ps. blocks_of (fst q) < 2 ^ 21" 
    unfolding all_set_conv_all_nth lo(2) using lo(3) lim by (simp add: payload_limits_def)
  have ext: "extent_limits ps" using laid_out_limits[OF lo(1) _ lims] nx't by simp
  have "unat nb = (?n + 7) div 8" using div_ceil_nat[OF n, of 8] nb(1) by (auto simp: ceil_8)
  then have table: "8 + (?n + 7) div 8 \<le> unat nx" using unat_cadd[OF nb(2)] by simp
  have "(?n + 7) div 8 < 2 ^ 32" using table laid_out_le[OF lo(1)] nx't(2) by linarith
  then have small_n: "0 + ?n < 2 ^ 50" by simp
  have r1: "\<forall>(off, xs) \<in> set (payload_writes ps). off + length xs \<le> length (contents d)"
    using payload_writes_range[OF lo(1)] nx't d(2) by fastforce
  from write_list_ok[OF d(1,3) r1] w(1) write_payloads_eq[OF bs lo(1), of write_at d] nx't have
    d1: "invar d1" "contents d1 = apply_writes (payload_writes ps) (contents d)" by auto
  have r2: "\<forall>(off, xs) \<in> set (inode_writes sb 0 nodes ps). off + length xs \<le> length (contents d1)"
  proof (intro ballI, clarify)
    fix off xs assume "(off, xs) \<in> set (inode_writes sb 0 nodes ps)"
    then obtain i where "i < ?n" "off = inode_pos i" "length xs = 512" using inode_writes_in by blast
    then show "off + length xs \<le> length (contents d1)" using table laid_out_le[OF lo(1)] nx't(1) d(2) d1(2) by simp
  qed
  have l1: "length (contents d1) < 2 ^ 64" using d1 d by simp
  from write_list_ok[OF d1(1) l1 r2] w(2) write_inodes_eq[OF sb lo(2) small_n ext, of write_at d1 report] have
    d': "invar d'" "contents d' = apply_writes (inode_writes sb 0 nodes ps) (contents d1)"
      "report' = report\<lparr>packed_inodes := packed_inodes report + ?n\<rparr>" by (auto simp: bindE_Ok_iff)
  have "packed sb nodes ps (contents d')"
    unfolding d'(2) d1(2) by (rule packed_image_of_writes[OF lo(1,2) table]) (use nx't d(2) in linarith)
  moreover have "rd (contents d') 0 k = rd (contents d) 0 k" if "k \<le> 32768" for k
    unfolding d'(2) d1(2) by (rule writes_keep_head[OF lo(1) _ _ that]) (use nx't d(2) table in linarith)+
  moreover have "\<forall>(p, s, b) \<in> set ps. unat b = blocks_of p \<and> unat s + unat b \<le> ?t"
    using laid_out_end[OF lo(1)] nx't(1) by fastforce
  ultimately show ?thesis
    using d' d1 ext lo table laid_out_le[OF lo(1)] nx't(1) by (intro exI[of _ ps]) auto
qed

end

end
