(* ===== verification/Crab_Unpack.thy ===== *)
theory Crab_Unpack
  imports Crab_Image
begin

text \<open>
  What the reader makes of a packed image: the inode of every node, the contents of files and links at every
  offset, the listing of directories and the lookup of a name in them.
\<close>

section \<open>Reading a node back\<close>

lemma answers_Ok: "answers dev c \<Longrightarrow> off + n \<le> length c \<Longrightarrow> length c < 2 ^ 64 \<Longrightarrow> dev (of_nat off) n = Ok (rd c off n)"
  by (simp add: answers_def)

lemma read_packed_inode:
  assumes sb: "pack_geometry sb" and dev: "answers dev c" and c: "length c < 2 ^ 64" "packed sb nodes ps c"
    and lim: "extent_limits ps" and i: "i < length nodes" "4096 * (8 + (length nodes + 7) div 8) \<le> length c"
    and ag: "8 + (length nodes + 7) div 8 \<le> unat (sb_ag_blocks sb)" and q: "ps ! i = (p, s, b)"
  shows "\<exists>k. read_inode dev sb (of_nat (64 + i)) 512 =
    Ok ((node_inode sb (of_nat (64 + i)) (nodes ! i) p (packed_format p) b)\<lparr>di_crc := k\<rparr>, node_record sb i (nodes ! i) (p, s, b))"
    "get_range (node_record sb i (nodes ! i) (p, s, b)) 176 512 = Some (packed_fork p s b)"
    "length (node_record sb i (nodes ! i) (p, s, b)) = 512"
proof -
  let ?inode = "node_inode sb (of_nat (64 + i)) (nodes ! i) p (packed_format p) b"
  have qs: "(p, s, b) \<in> set ps" using q i(1) c(2) by (metis nth_mem packed_def)
  then have lims: "unat s < 2 ^ 52" "unat b < 2 ^ 21" using lim by (auto simp: extent_limits_def)
  have in_ok: "di_magic ?inode = XFS_DINODE_MAGIC" "length (di_uuid ?inode) = 16" using sb by (simp_all add: node_inode_def pack_geometry_def)
  note img = packed_image_reads[OF in_ok length_packed_fork[OF lims]]
  have rec: "node_record sb i (nodes ! i) (p, s, b) = packed_image ?inode (packed_fork p s b)" by (simp add: node_record_def)
  show "get_range (node_record sb i (nodes ! i) (p, s, b)) 176 512 = Some (packed_fork p s b)"
    "length (node_record sb i (nodes ! i) (p, s, b)) = 512" unfolding rec using img by simp_all
  have pos: "inode_pos i + 512 \<le> length c" using i by simp
  have u: "unat (of_nat (64 + i) :: u64) = 64 + i" using pos c(1) by (subst unat_of_nat_small) simp_all
  have "8 + i div 8 < unat (sb_ag_blocks sb)" using i(1) ag by linarith
  then have "8 + i div 8 < 2 ^ unat (sb_agblklog sb)" using sb by (simp add: pack_geometry_def)
  then have N: "64 + i < 2 ^ (unat (sb_agblklog sb) + 3)" by (simp add: power_add)
  have split: "(64 + i) div 8 * 4096 + (64 + i) mod 8 * 512 = inode_pos i"
  proof -
    have "(64 + i) div 8 = 8 + i div 8" "(64 + i) mod 8 = i mod 8" "i div 8 * 8 + i mod 8 = i" by presburger+
    then show ?thesis by linarith
  qed
  have W: "(of_nat ((64 + i) div 8) * 4096 + of_nat ((64 + i) mod 8) * 512 :: u64) = 32768 + 512 * of_nat i"
    using arg_cong[OF split, of "of_nat :: nat \<Rightarrow> u64"] by simp
  have off: "inode_offset sb (of_nat (64 + i)) = Ok (of_nat (inode_pos i))"
    using inode_offset_ag0[of sb "of_nat (64 + i)"] u N sb pos c(1) split W by (simp add: pack_geometry_def)
  have "dev (of_nat (inode_pos i)) 512 = Ok (packed_image ?inode (packed_fork p s b))"
    using answers_Ok[OF dev pos c(1)] c(2) i(1) q rec by (simp add: packed_def)
  moreover obtain k where "Inode_parse (packed_image ?inode (packed_fork p s b)) = Ok (?inode\<lparr>di_crc := k\<rparr>)" using img(3) by blast
  ultimately show "\<exists>k. read_inode dev sb (of_nat (64 + i)) 512 = Ok (?inode\<lparr>di_crc := k\<rparr>, node_record sb i (nodes ! i) (p, s, b))"
    unfolding rec using off img(2) sb by (auto simp: read_inode_def Let_def pack_geometry_def)
qed

text \<open>The extent of a payload.\<close>

lemma extent_offset:
  assumes sb: "pack_geometry sb" and s: "unat s < unat (sb_ag_blocks sb)"
  shows "extent_to_physical_offset sb \<lparr>ext_state = 0, ext_startoff = 0, ext_startblock = s, ext_blockcount = k\<rparr> = Some (of_nat (4096 * unat s))"
proof -
  let ?a = "unat (sb_agblklog sb)"
  have a: "?a < 64" "unat s < 2 ^ ?a" using sb s by (simp_all add: pack_geometry_def)
  have "unat s < 2 ^ 32" using s unat_bound[of "sb_ag_blocks sb"] by simp
  then have mul: "cmul s (4096 :: u64) = Some (of_nat (4096 * unat s))" by (simp add: cmul_of_nat mult.commute del: of_nat_mult)
  have m: "s AND mask ?a = s" using a(2) by (simp add: and_mask_eq)
  have z: "cmul (0 :: u64) x = Some 0" "cadd (0 :: u64) x = Some x" for x by (simp_all add: cmul_def cadd_def unat_bound[of x, simplified])
  show ?thesis
    using sb a mul m z by (simp add: extent_to_physical_offset_def Let_def cshr_eq cshl_1 csub_pow_1 pack_geometry_def)
qed

lemma read_packed_extent:
  assumes sb: "pack_geometry sb" and dev: "answers dev c" and c: "length c < 2 ^ 64" "packed sb nodes ps c"
    and q: "(p, s, b) \<in> set ps" "unat b = blocks_of p" "unat s + unat b \<le> unat (sb_ag_blocks sb)" "4096 * unat (sb_ag_blocks sb) \<le> length c"
    and lim: "extent_limits ps" and big: "336 < length p"
    and inode: "di_size inode = of_nat (length p)" "di_nextents inode = 1"
    and scratch: "get_range scratch 176 512 = Some (packed_fork p s b)" "length scratch = 512"
  shows "read_extent_range dev sb inode scratch off len = Ok (take (unat len) (drop (unat off) p))"
proof -
  have lims: "unat s < 2 ^ 52" "unat b < 2 ^ 21" "length p < 2 ^ 63" using lim q(1) by (auto simp: extent_limits_def)
  let ?ext = "\<lparr>ext_state = 0, ext_startoff = 0, ext_startblock = s, ext_blockcount = ucast b\<rparr>"
  have ub: "unat (ucast b :: u32) = unat b" using lims(2) by (intro ucast_small) simp
  have parse: "parse_extents (packed_fork p s b) 0 1 = Ok [?ext]"
    using extent_bytes_ok(3)[OF lims(1), of "ucast b" "replicate 320 0"] ub lims(2) big
    by (simp add: packed_fork_def exec_simps)
  have usz: "unat (di_size inode) = length p" using inode(1) lims(3) by simp
  show ?thesis
  proof (cases "unat off < length p")
    case False
    then have "di_size inode \<le> off" using usz by (simp add: word_le_nat_alt)
    then show ?thesis using scratch parse inode(2) False by (simp add: read_extent_range_def Let_def)
  next
  case off: True
  have not_ge: "\<not> di_size inode \<le> off" using off usz by (simp add: word_le_nat_alt)
  let ?avail = "min len (di_size inode - off)"
  have uav: "unat (di_size inode - off) = length p - unat off" using not_ge usz by (simp add: unat_sub)
  have urem: "unat ?avail = min (unat len) (length p - unat off)" using uav by (simp add: min_def word_le_nat_alt)
  have lb: "length p \<le> 4096 * unat b" using blocks_of_bounds(1)[of p] q(2) by simp
  have elen: "cmul (ucast (ucast b :: u32) :: u64) 4096 = Some (of_nat (4096 * unat b))"
    using lims(2) ub by (simp add: cmul_of_nat mult.commute del: of_nat_mult)
  have ulen: "unat (of_nat (4096 * unat b) :: u64) = 4096 * unat b" using lims(2) by (subst unat_of_nat_small) simp_all
  have pos: "0 < blocks_of p" using big by (metis blocks_of_0 gr0I list.size(3) not_less_zero)
  have phys: "extent_to_physical_offset sb ?ext = Some (of_nat (4096 * unat s))"
    by (rule extent_offset[OF sb]) (use q(2,3) pos in simp)
  let ?n = "min (unat len) (length p - unat off)"
  have rng: "4096 * unat s + unat off + ?n \<le> length c" using q(3,4) lb off by linarith
  have padd: "cadd (of_nat (4096 * unat s)) off = Some (of_nat (4096 * unat s + unat off))"
    using rng c(1) by (subst cadd_of_nat) (simp_all del: of_nat_mult of_nat_add)
  have "rd c (4096 * unat s + unat off) ?n = rd p (unat off) ?n" using c(2) q(1) off by (auto simp: packed_def)
  then have read: "dev (of_nat (4096 * unat s + unat off)) ?n = Ok (rd p (unat off) ?n)"
    using answers_Ok[OF dev rng c(1)] by simp
  let ?L = "of_nat (4096 * unat b) :: u64"
  have le: "off \<le> ?L" "off < ?L" using ulen lb off by (simp_all add: word_le_nat_alt word_less_nat_alt del: of_nat_mult)
  have uleft: "unat (?L - off) = 4096 * unat b - unat off" using le(1) ulen by (simp add: unat_sub del: of_nat_mult)
  have "?avail \<le> ?L - off" unfolding word_le_nat_alt uleft urem using lb by simp
  then have mn: "min (?L - off) ?avail = ?avail" by (rule min_absorb2)
  have cur: "cadd off ?avail = Some (off + ?avail)" using urem off lims(3) by (simp add: cadd_def)
  have z: "cmul (0 :: u64) x = Some 0" "cadd (0 :: u64) x = Some x" "csub x 0 = Some x" "csub x x = Some 0" for x :: u64
    by (simp_all add: cmul_def cadd_def csub_def unat_bound[of x, simplified])
  have bs: "sb_block_size sb = 4096" using sb by (simp add: pack_geometry_def)
  have ext: "read_extents dev sb [?ext] [] ?avail off = Ok (rd p (unat off) ?n)"
    using bs elen le phys padd read urem mn cur
    by (simp add: z csub_def[of ?L off] Let_def del: of_nat_mult of_nat_add)
  have av: "csub (di_size inode) off = Some (di_size inode - off)" using not_ge by (simp add: csub_def)
  have "read_extent_range dev sb inode scratch off len = Ok (rd p (unat off) ?n)"
    using scratch parse inode(2) not_ge av ext by (simp add: read_extent_range_def Let_def)
  also have "rd p (unat off) ?n = take (unat len) (drop (unat off) p)"
    by (cases "unat len \<le> length p - unat off") (auto simp: rd_def min_def)
  finally show ?thesis .
  qed
qed

text \<open>
  \<open>image_of sb nodes dev\<close>: the device answers as the packed image of the nodes, payloads and all.
\<close>

definition image_of :: "Superblock \<Rightarrow> Node list \<Rightarrow> reading \<Rightarrow> bool" where
  "image_of sb nodes dev \<longleftrightarrow> pack_geometry sb \<and> (\<exists>c ps. answers dev c \<and> length c < 2 ^ 64 \<and> packed sb nodes ps c \<and> extent_limits ps \<and>
     (\<forall>i < length nodes. build_payload nodes i sb = Ok (fst (ps ! i))) \<and>
     (\<forall>(p, s, b) \<in> set ps. unat b = blocks_of p \<and> unat s + unat b \<le> unat (sb_ag_blocks sb)) \<and>
     8 + (length nodes + 7) div 8 \<le> unat (sb_ag_blocks sb) \<and> 4096 * unat (sb_ag_blocks sb) \<le> length c)"

lemma image_of_node:
  assumes "image_of sb nodes dev" "i < length nodes"
  shows "\<exists>p s b k scratch. build_payload nodes i sb = Ok p \<and> length p < 2 ^ 63 \<and>
    read_inode dev sb (of_nat (64 + i)) 512 =
      Ok ((node_inode sb (of_nat (64 + i)) (nodes ! i) p (packed_format p) b)\<lparr>di_crc := k\<rparr>, scratch) \<and>
    get_range scratch 176 512 = Some (packed_fork p s b) \<and> length scratch = 512 \<and>
    (336 < length p \<longrightarrow> (\<forall>inode off len. di_size inode = of_nat (length p) \<longrightarrow> di_nextents inode = 1 \<longrightarrow>
       read_extent_range dev sb inode scratch off len = Ok (take (unat len) (drop (unat off) p))))"
proof -
  from assms obtain c ps where g: "pack_geometry sb" and c: "answers dev c" "length c < 2 ^ 64" "packed sb nodes ps c" "extent_limits ps"
    "\<forall>i < length nodes. build_payload nodes i sb = Ok (fst (ps ! i))"
    "\<forall>(p, s, b) \<in> set ps. unat b = blocks_of p \<and> unat s + unat b \<le> unat (sb_ag_blocks sb)"
    "8 + (length nodes + 7) div 8 \<le> unat (sb_ag_blocks sb)" "4096 * unat (sb_ag_blocks sb) \<le> length c" by (auto simp: image_of_def)
  obtain p s b where q: "ps ! i = (p, s, b)" by (cases "ps ! i") auto
  have qs: "(p, s, b) \<in> set ps" using q assms(2) c(3) by (metis nth_mem packed_def)
  have tbl: "4096 * (8 + (length nodes + 7) div 8) \<le> length c" using c(7,8) by simp
  note r = read_packed_inode[OF g c(1,2,3,4) assms(2) tbl c(7) q]
  have "unat b = blocks_of p" "unat s + unat b \<le> unat (sb_ag_blocks sb)" using c(6) qs by auto
  note x = read_packed_extent[OF g c(1,2,3) qs this c(8,4) _ _ _ r(2,3)]
  have "length p < 2 ^ 63" "build_payload nodes i sb = Ok p" using c(4,5) qs assms(2) q by (auto simp: extent_limits_def)
  then show ?thesis using r x by blast
qed

lemma take_drop_pad: "stop \<le> length p \<Longrightarrow> off \<le> stop \<Longrightarrow> get_range (p @ z) off stop = Some (take (stop - off) (drop off p))"
  by (simp add: get_range_def rd_append_left) (simp add: rd_def)

definition local_slice :: "bytes \<Rightarrow> bytes \<Rightarrow> u64 \<Rightarrow> u32 \<Rightarrow> (ReadError, bytes) outcome" where
  "local_slice p z off len = (if of_nat (length p) \<le> off then Ok [] else do {
     stop \<leftarrow> cadd off (ucast len);
     map_option Inr (get_range (p @ z) (unat off) (unat (min stop (of_nat (length p))))) })"

lemma local_slice_Ok:
  assumes "length p < 2 ^ 63"
  shows "local_slice p z off len = Ok (take (unat len) (drop (unat off) p))"
proof (cases "unat off < length p")
  case False
  have "unat (of_nat (length p) :: u64) = length p" using assms by simp
  then have "of_nat (length p) \<le> off" using False by (simp add: word_le_nat_alt)
  then show ?thesis using False by (simp add: local_slice_def)
next
  case True
  have us: "unat (of_nat (length p) :: u64) = length p" using assms by simp
  then have nle: "\<not> of_nat (length p) \<le> off" using True by (simp add: word_le_nat_alt)
  have lt: "unat off + unat len < 2 ^ 64" using True assms unat_bound[of len] by simp
  then have add: "cadd off (ucast len) = Some (of_nat (unat off + unat len))" by (subst cadd_of_nat) simp_all
  have "unat (min (of_nat (unat off + unat len)) (of_nat (length p)) :: u64) = min (unat off + unat len) (length p)"
    using us lt by (simp add: min_def word_le_nat_alt del: of_nat_add)
  then have "get_range (p @ z) (unat off) (unat (min (of_nat (unat off + unat len)) (of_nat (length p)) :: u64)) =
      Some (take (unat len) (drop (unat off) p))"
    using True by (subst take_drop_pad) (auto simp: min_def)
  then show ?thesis using nle add unfolding local_slice_def by (metis (mono_tags, lifting) bind.bind_lunit option.simps(9))
qed

lemma read_packed_file:
  assumes img: "image_of sb nodes dev" and i: "i < length nodes" and kind: "nd_kind (nodes ! i) = File data \<or> nd_kind (nodes ! i) = Symlink data"
    and mode: "nd_mode (nodes ! i) AND 0xf000 = 0x8000 \<or> nd_mode (nodes ! i) AND 0xf000 = 0xa000"
  shows "read_file_data dev sb (of_nat (64 + i)) off len = Ok (take (unat len) (drop (unat off) data))"
proof -
  from image_of_node[OF img i] obtain p s b k scratch where n: "build_payload nodes i sb = Ok p" "length p < 2 ^ 63"
    "read_inode dev sb (of_nat (64 + i)) 512 = Ok ((node_inode sb (of_nat (64 + i)) (nodes ! i) p (packed_format p) b)\<lparr>di_crc := k\<rparr>, scratch)"
    "get_range scratch 176 512 = Some (packed_fork p s b)" "length scratch = 512"
    "336 < length p \<longrightarrow> (\<forall>inode off len. di_size inode = of_nat (length p) \<longrightarrow> di_nextents inode = 1 \<longrightarrow>
       read_extent_range dev sb inode scratch off len = Ok (take (unat len) (drop (unat off) p)))" by blast
  have p: "p = data" using n(1) kind by (auto simp: build_payload_def)
  have isz: "unat (sb_inode_size sb) = 512" using img by (simp add: image_of_def pack_geometry_def)
  let ?inode = "(node_inode sb (of_nat (64 + i)) (nodes ! i) p (packed_format p) b)\<lparr>di_crc := k\<rparr>"
  have f: "di_mode ?inode = nd_mode (nodes ! i)" "di_format ?inode = packed_format p" "di_size ?inode = of_nat (length p)"
    "packed_format p = Extents \<Longrightarrow> di_nextents ?inode = 1" by (simp_all add: node_inode_def)
  have us: "unat (of_nat (length p) :: u64) = length p" using n(2) by simp
  show ?thesis
  proof (cases "length p \<le> 336")
    case True
    then have fm: "packed_format p = Local" and fk: "packed_fork p s b = p @ replicate (336 - length p) 0"
      by (simp_all add: packed_format_def packed_fork_def)
    have "read_file_data dev sb (of_nat (64 + i)) off len = local_slice p (replicate (336 - length p) 0) off len"
      unfolding local_slice_def using mode n(3,4,5) f fm fk isz by (elim disjE) (simp_all add: read_file_data_def Let_def)
    then show ?thesis using local_slice_Ok[OF n(2)] p by simp
  next
    case False
    then have fm: "packed_format p = Extents" by (simp add: packed_format_def)
    have "read_file_data dev sb (of_nat (64 + i)) off len = read_extent_range dev sb ?inode scratch off (ucast len)"
      using mode n(3) f(1,2) fm isz by (elim disjE) (simp_all add: read_file_data_def Let_def)
    then show ?thesis using n(6) f(3,4) fm False p by simp
  qed
qed

section \<open>Reading a directory back\<close>

text \<open>The entry a lookup finds in a listing: the first of that name.\<close>

definition lookup_entry :: "DirEntry list \<Rightarrow> bytes \<Rightarrow> (u64 \<times> u8) option" where
  "lookup_entry es target = map_option (\<lambda>e. (de_ino e, de_ftype e)) (find (\<lambda>e. de_name e = target) es)"

lemma find_in_dir_lookup:
  "find_in_dir sb ino parent es target = lookup_entry (dot_entries ino parent @ map (packed_dir_entry sb) es) target"
proof -
  have "find (\<lambda>e. de_name e = target) (map (packed_dir_entry sb) es) = map_option (packed_dir_entry sb) (find (\<lambda>e. pe_name e = target) es)"
    by (induction es) (simp_all add: packed_dir_entry_def)
  then show ?thesis
    by (cases "find (\<lambda>e. pe_name e = target) es")
       (simp_all add: find_in_dir_def lookup_entry_def dot_entries_def find_packed_def packed_dir_entry_def)
qed

lemma inode_number_pack: "pack_geometry sb \<Longrightarrow> inode_number sb j = Ok ino \<Longrightarrow> ino = of_nat (64 + j)"
  by (auto dest!: inode_number_Ok simp: pack_geometry_def)

text \<open>
  \<open>dir_gap names\<close>: the short form of the directory does not fit the inode, but its extent form does.  Such a
  directory gets an extent-form payload in an inode of local format, which the reader takes for the short form.
\<close>

definition sf_dir_bytes :: "bytes list \<Rightarrow> nat" where
  "sf_dir_bytes names = 10 + sum_list (map (\<lambda>n. 12 + length n) names)"

definition ext_dir_bytes :: "bytes list \<Rightarrow> nat" where
  "ext_dir_bytes names = 20 + sum_list (map (\<lambda>n. 11 + length n) names)"

definition dir_gap :: "bytes list \<Rightarrow> bool" where
  "dir_gap names \<longleftrightarrow> LOCAL_FORK_BYTES < sf_dir_bytes names \<and> ext_dir_bytes names \<le> LOCAL_FORK_BYTES"

lemma length_sf_entries: "sf_entries sb slot es = Ok body \<Longrightarrow> 10 + length body = sf_dir_bytes (map pe_name es)"
  by (induction es arbitrary: slot body) (auto simp: bindE_Ok_iff sf_dir_bytes_def)

lemma length_ext_entries: "ext_entries sb es = Ok body \<Longrightarrow> 20 + length body = ext_dir_bytes (map pe_name es)"
  by (induction es arbitrary: body) (auto simp: bindE_Ok_iff ext_dir_bytes_def)

lemma many_entries: "20 + 11 * length names \<le> ext_dir_bytes names"
  by (induction names) (auto simp: ext_dir_bytes_def)

lemma dir_payload_cases:
  assumes "build_payload nodes i sb = Ok p" "nd_kind (nodes ! i) = Directory es" "pack_geometry sb"
  defines "par \<equiv> of_nat (64 + nd_parent_index (nodes ! i)) :: u64"
  obtains (short) "shortform_payload sb par es = Ok (Some p)"
  | (extent) body where "ext_entries sb es = Ok body" "length es < 2 ^ 32" "length p \<le> 336 \<longleftrightarrow> dir_gap (map pe_name es)"
      "p = CRABFS_EXTENT_DIR_MAGIC @ to_be_bytes (of_nat (length es) :: u32) @ to_be_bytes par @ body"
proof (cases "shortform_payload sb par es = Ok (Some p)")
  case True
  then show ?thesis by (rule short)
next
  case False
  from assms(1,2) obtain q sf where q: "inode_number sb (nd_parent_index (nodes ! i)) = Ok q" "shortform_payload sb q es = Ok sf"
    "case sf of Some payload \<Rightarrow> p = payload | None \<Rightarrow> \<exists>body. ext_entries sb es = Ok body \<and> length es < 2 ^ 32 \<and>
       p = CRABFS_EXTENT_DIR_MAGIC @ to_be_bytes (of_nat (length es) :: u32) @ to_be_bytes q @ body"
    by (auto simp: build_payload_def bindE_Ok_iff try_from_Ok split: option.splits)
  have qp: "q = par" using inode_number_pack[OF assms(3) q(1)] by (simp add: par_def)
  with q False obtain body where sf: "shortform_payload sb par es = Ok None" and b: "ext_entries sb es = Ok body" "length es < 2 ^ 32"
    "p = CRABFS_EXTENT_DIR_MAGIC @ to_be_bytes (of_nat (length es) :: u32) @ to_be_bytes par @ body"
    by (cases sf) auto
  have len: "length p = ext_dir_bytes (map pe_name es)"
    using length_ext_entries[OF b(1)] by (simp add: b(3) CRABFS_EXTENT_DIR_MAGIC_def)
  have "336 < sf_dir_bytes (map pe_name es)" if "length p \<le> 336"
  proof -
    have "length es \<le> 255" using many_entries[of "map pe_name es"] len that by simp
    then show ?thesis using sf by (auto simp: shortform_payload_def bindE_Ok_iff Let_def dest!: length_sf_entries split: if_splits)
  qed
  then have "length p \<le> 336 \<longleftrightarrow> dir_gap (map pe_name es)" using len by (auto simp: dir_gap_def)
  then show ?thesis using extent b by blast
qed

lemma read_packed_dir:
  fixes i :: nat and nodes :: "Node list" and sb :: Superblock
  defines "ino \<equiv> of_nat (64 + i) :: u64" and "par \<equiv> of_nat (64 + nd_parent_index (nodes ! i)) :: u64"
  assumes img: "image_of sb nodes dev" and i: "i < length nodes" and kind: "nd_kind (nodes ! i) = Directory es"
    and mode: "nd_mode (nodes ! i) AND 0xf000 = 0x4000" and names: "names_ok es" and gap: "\<not> dir_gap (map pe_name es)"
  shows "list_dir_entries dev sb ino = Ok (dot_entries ino par @ map (packed_dir_entry sb) es) \<and>
    find_dir_entry dev sb ino target = Ok (find_in_dir sb ino par es target)"
proof -
  have g: "pack_geometry sb" using img by (simp add: image_of_def)
  from image_of_node[OF img i, folded ino_def] obtain p s b k scratch where n: "build_payload nodes i sb = Ok p" "length p < 2 ^ 63"
    "read_inode dev sb ino 512 = Ok ((node_inode sb ino (nodes ! i) p (packed_format p) b)\<lparr>di_crc := k\<rparr>, scratch)"
    "get_range scratch 176 512 = Some (packed_fork p s b)" "length scratch = 512"
    "336 < length p \<longrightarrow> (\<forall>inode off len. di_size inode = of_nat (length p) \<longrightarrow> di_nextents inode = 1 \<longrightarrow>
       read_extent_range dev sb inode scratch off len = Ok (take (unat len) (drop (unat off) p)))" by blast
  have isz: "unat (sb_inode_size sb) = 512" "has_incompat_feature sb XFS_SB_FEAT_INCOMPAT_FTYPE" using g by (simp_all add: pack_geometry_def)
  let ?inode = "(node_inode sb ino (nodes ! i) p (packed_format p) b)\<lparr>di_crc := k\<rparr>"
  have f: "di_mode ?inode = nd_mode (nodes ! i)" "di_format ?inode = packed_format p" "di_size ?inode = of_nat (length p)"
    "packed_format p = Extents \<Longrightarrow> di_nextents ?inode = 1" by (simp_all add: node_inode_def)
  show ?thesis
  proof (cases rule: dir_payload_cases[OF n(1) kind g, folded par_def, case_names short extent])
    case short
    note sf = shortform_reads[OF short names]
    have fm: "packed_format p = Local" and fk: "packed_fork p s b = p @ replicate (336 - length p) 0"
      using sf(5) by (simp_all add: packed_format_def packed_fork_def)
    have cnt: "unat (of_nat (length es) :: u8) = length es" using sf(4) by simp
    show ?thesis
      using n(3,4,5) f(1,2) fm fk isz mode cnt sf(1,2,3)
      by (simp add: list_dir_entries_def find_dir_entry_def dot_entries_def find_in_dir_def)
  next
    case (extent body)
    note ext = extent_dir_reads[OF extent(1,2) names extent(4)]
    have big: "336 < length p" using extent(3) gap by simp
    then have fm: "packed_format p = Extents" by (simp add: packed_format_def)
    have "read_extent_payload dev sb ?inode scratch (di_size ?inode) = Ok p"
      using n(2,6) big f(3) f(4)[OF fm] by (simp add: read_extent_payload_def)
    then show ?thesis
      using n(3) f(1,2) fm isz mode ext by (simp add: list_dir_entries_def find_dir_entry_def)
  qed
qed

end
