(* ===== verification/Crab_Roundtrip.thy ===== *)
theory Crab_Roundtrip
  imports Crab_Unpack "HOL-Library.Code_Target_Nat"
begin

text \<open>
  The round trip of the image builder: the nodes collected from a host tree are that tree, an image with room
  for them is written without an error, and the reader shows the tree in it.  At the end the one kind of
  directory for which this fails.
\<close>

section \<open>The nodes of a host tree\<close>

definition host_node :: "HostMeta \<Rightarrow> nat \<Rightarrow> NodeKind \<Rightarrow> Node" where
  "host_node m par kind = \<lparr>nd_parent_index = par, nd_mode = ucast (hm_mode m), nd_uid = hm_uid m, nd_gid = hm_gid m, nd_kind = kind\<rparr>"

fun host_ftype :: "HostNode \<Rightarrow> u8" where
  "host_ftype (HostDir _ _) = 2" |
  "host_ftype (HostLink _ _) = 7" |
  "host_ftype _ = 1"

definition host_entry :: "bytes \<times> HostNode \<Rightarrow> nat \<Rightarrow> PackedEntry" where
  "host_entry c j = \<lparr>pe_name = from_utf8_lossy (fst c), pe_inode_index = j, pe_ftype = host_ftype (snd c)\<rparr>"

abbreviation packable_children :: "(bytes \<times> HostNode) list \<Rightarrow> (bytes \<times> HostNode) list" where
  "packable_children cs \<equiv> filter (\<lambda>c. host_packable (snd c)) cs"

text \<open>\<open>collected nodes par i host\<close>: node \<open>i\<close>, with parent \<open>par\<close>, and those below it are the host tree.\<close>

inductive collected :: "Node list \<Rightarrow> nat \<Rightarrow> nat \<Rightarrow> HostNode \<Rightarrow> bool" for nodes where
  a_file: "i < length nodes \<Longrightarrow> nodes ! i = host_node m par (File data) \<Longrightarrow> collected nodes par i (HostFile m (Some data))"
| a_link: "i < length nodes \<Longrightarrow> nodes ! i = host_node m par (Symlink (from_utf8_lossy target)) \<Longrightarrow>
    collected nodes par i (HostLink m (Some target))"
| a_dir: "i < length nodes \<Longrightarrow> nodes ! i = host_node m par (Directory es) \<Longrightarrow>
    list_all2 (\<lambda>c e. e = host_entry c (pe_inode_index e) \<and> collected nodes i (pe_inode_index e) (snd c))
      (packable_children (host_children cs)) es \<Longrightarrow>
    collected nodes par i (HostDir m (Some cs))"

abbreviation children_collected :: "Node list \<Rightarrow> nat \<Rightarrow> (bytes \<times> HostNode) list \<Rightarrow> PackedEntry list \<Rightarrow> bool" where
  "children_collected nodes i cs es \<equiv>
     list_all2 (\<lambda>c e. e = host_entry c (pe_inode_index e) \<and> collected nodes i (pe_inode_index e) (snd c)) cs es"

definition same_from :: "nat \<Rightarrow> Node list \<Rightarrow> Node list \<Rightarrow> bool" where
  "same_from n xs ys \<longleftrightarrow> length xs \<le> length ys \<and> (\<forall>j. n \<le> j \<longrightarrow> j < length xs \<longrightarrow> ys ! j = xs ! j)"

lemma same_from_prefix:
  assumes "same_from n ys zs" "take (length xs) ys = xs"
  shows "same_from (max n k) xs zs" 
proof -
  have "length xs \<le> length ys" using assms(2) by (metis length_take min.cobounded1)
  moreover have "ys ! j = xs ! j" if "j < length xs" for j using assms(2) that by (metis nth_take)
  ultimately show ?thesis using assms(1) by (auto simp: same_from_def)
qed

lemma collect_collected:
  "collect_tree root path host par nodes rep = Ok (i, nodes', rep') \<Longrightarrow> host_packable host \<Longrightarrow>
     i = length nodes \<and> length nodes < length nodes' \<and> take (length nodes) nodes' = nodes \<and>
     dir_ftype (nodes' ! i) = host_ftype host \<and> (\<forall>ns. same_from (length nodes) nodes' ns \<longrightarrow> collected ns par i host)"
  "collect_children root path cs index es nodes rep = Ok (es', nodes', rep') \<Longrightarrow>
     length nodes \<le> length nodes' \<and> take (length nodes) nodes' = nodes \<and>
     (\<exists>new. es' = es @ new \<and> (\<forall>ns. same_from (length nodes) nodes' ns \<longrightarrow> children_collected ns index (packable_children cs) new))"
proof (induction root path host par nodes rep and root path cs index es nodes rep
    arbitrary: i nodes' rep' and es' nodes' rep' rule: collect_tree_collect_children.induct)
  case (1 root path host par nodes rep)
  let ?n = "length nodes"
  show ?case
  proof (cases "\<exists>m cs. host = HostDir m (Some cs)")
    case False
    then show ?thesis using "1.prems"
      by (cases host) (auto simp: Let_def host_node_def dir_ftype_def same_from_def nth_append intro!: collected.intros split: option.splits)
  next
    case True
    then obtain m cs where h: "host = HostDir m (Some cs)" by blast
    let ?nodes = "nodes @ [host_node m par (Directory [])]"
    from "1.prems"(1) h obtain es ns r where c: "collect_children root path (host_children cs) ?n [] ?nodes rep = Ok (es, ns, r)"
      "i = ?n" "nodes' = ns[?n := (ns ! ?n)\<lparr>nd_kind := Directory es\<rparr>]" "rep' = r"
      by (auto simp: Let_def host_node_def bindE_Ok_iff)
    have meta: "host_meta host = Some m" by (simp add: h)
    from "1.IH"[OF meta refl refl refl h refl, of es ns r] c(1)
    have ih: "Suc ?n \<le> length ns" "take (Suc ?n) ns = ?nodes"
      "\<And>zs. same_from (Suc ?n) ns zs \<Longrightarrow> children_collected zs ?n (packable_children (host_children cs)) es"
      by (simp_all add: host_node_def)
    have at: "ns ! ?n = host_node m par (Directory [])" using ih(2) by (metis lessI nth_append_length nth_take)
    then have node: "nodes' ! ?n = host_node m par (Directory es)" using ih(1) c(3) by (simp add: host_node_def)
    have tk: "take ?n nodes' = nodes" using arg_cong[OF ih(2), of "take ?n"] c(3) by simp
    have "collected zs par ?n host" if z: "same_from ?n nodes' zs" for zs
    proof -
      have "same_from (Suc ?n) ns zs" using z c(3) by (auto simp: same_from_def)
      moreover have "?n < length zs" "zs ! ?n = host_node m par (Directory es)" using z node ih(1) c(3) by (auto simp: same_from_def)
      ultimately show ?thesis unfolding h by (blast intro: collected.a_dir ih(3))
    qed
    then show ?thesis using c ih(1) node tk h by (simp add: dir_ftype_def host_node_def)
  qed
next
  case (2 root path index entries nodes report)
  then show ?case by auto
next
  case (3 root path name child rest index entries nodes report)
  show ?case
  proof (cases "host_packable child")
    case False
    then show ?thesis using 3 by (simp split: if_splits)
  next
    case True
    with "3.prems" obtain j ns r where t: "host_meta child \<noteq> None" "collect_tree root (path @ [name]) child index nodes report = Ok (j, ns, r)"
      and k: "collect_children root path rest index (entries @ [\<lparr>pe_name = from_utf8_lossy name, pe_inode_index = j, pe_ftype = dir_ftype (ns ! j)\<rparr>])
        ns r = Ok (es', nodes', rep')"
      by (auto simp: bindE_Ok_iff split: if_splits)
    note ih1 = "3.IH"(2)[OF t(1) _ t(2) True, simplified True, simplified]
    from "3.IH"(3)[OF t(1) _ t(2) refl refl k] True obtain new where ih2: "length ns \<le> length nodes'" "take (length ns) nodes' = ns"
      "es' = entries @ host_entry (name, child) j # new"
      "\<And>zs. same_from (length ns) nodes' zs \<Longrightarrow> children_collected zs index (packable_children rest) new"
      using ih1 by (auto simp: host_entry_def)
    have "same_from (length nodes) ns zs" "same_from (length ns) nodes' zs" if z: "same_from (length nodes) nodes' zs" for zs
      using z ih1 same_from_prefix[OF z ih2(2), of 0] by (auto simp: same_from_def)
    moreover have "take (length nodes) nodes' = nodes"
      using ih1 ih2(1,2) by (metis less_imp_le min_def take_take)
    ultimately show ?thesis using ih1 ih2 True by (auto simp: host_entry_def)
  qed
qed


text \<open>
  \<open>host_ok\<close>: what the round trip asks of the host tree.  Everything in it can be read; the type bits of a mode
  agree with the type, which is what \<^verbatim>\<open>stat\<close> promises; names have at most 255 bytes; a payload has fewer
  than \<open>2 ^ 21\<close> blocks, the most an extent record can count.  \<open>host_gapless\<close>: no directory falls into the gap.
\<close>

abbreviation (input) max_payload :: nat where "max_payload \<equiv> 4096 * (2 ^ 21 - 1)"

definition child_names :: "(bytes \<times> HostNode) list \<Rightarrow> bytes list" where
  "child_names cs = map (\<lambda>c. from_utf8_lossy (fst c)) (packable_children cs)"

fun host_ok :: "HostNode \<Rightarrow> bool" where
  "host_ok (HostDir m (Some cs)) \<longleftrightarrow> hm_mode m AND 0xf000 = 0x4000 \<and>
     ext_dir_bytes (child_names cs) \<le> max_payload \<and> list_all (\<lambda>n. length n \<le> 255) (child_names cs) \<and>
     list_all (\<lambda>c. host_ok (snd c)) cs" |
  "host_ok (HostFile m (Some data)) \<longleftrightarrow> hm_mode m AND 0xf000 = 0x8000 \<and> length data \<le> max_payload" |
  "host_ok (HostLink m (Some target)) \<longleftrightarrow> hm_mode m AND 0xf000 = 0xa000 \<and> length (from_utf8_lossy target) \<le> max_payload" |
  "host_ok (HostOther m) \<longleftrightarrow> True" |
  "host_ok _ \<longleftrightarrow> False"

fun host_gapless :: "HostNode \<Rightarrow> bool" where
  "host_gapless (HostDir m (Some cs)) \<longleftrightarrow> \<not> dir_gap (child_names cs) \<and> list_all (\<lambda>c. host_gapless (snd c)) cs" |
  "host_gapless _ \<longleftrightarrow> True"

text \<open>The inodes and the data blocks a tree takes.\<close>

definition dir_bytes :: "bytes list \<Rightarrow> nat" where
  "dir_bytes names = (if sf_dir_bytes names \<le> LOCAL_FORK_BYTES then sf_dir_bytes names else ext_dir_bytes names)"

abbreviation block_count :: "nat \<Rightarrow> nat" where "block_count n \<equiv> (n + 4095) div 4096"

fun host_inodes :: "HostNode \<Rightarrow> nat" where
  "host_inodes (HostDir m (Some cs)) = 1 + sum_list (map (\<lambda>c. if host_packable (snd c) then host_inodes (snd c) else 0) cs)" |
  "host_inodes _ = 1"

fun host_blocks :: "HostNode \<Rightarrow> nat" where
  "host_blocks (HostDir m (Some cs)) = block_count (dir_bytes (child_names cs)) +
     sum_list (map (\<lambda>c. if host_packable (snd c) then host_blocks (snd c) else 0) cs)" |
  "host_blocks (HostFile m (Some data)) = block_count (length data)" |
  "host_blocks (HostLink m (Some target)) = block_count (length (from_utf8_lossy target))" |
  "host_blocks _ = block_count 10"

lemma sum_list_children:
  "sum_list (map f (child_names (host_children cs))) = sum_list (map (f :: bytes \<Rightarrow> nat) (child_names cs))"
  by (simp add: child_names_def host_children_def mset_map flip: sum_mset_sum_list)

lemma sum_list_host_children: "sum_list (map f (host_children cs)) = sum_list (map (f :: _ \<Rightarrow> nat) cs)"
  by (simp add: host_children_def mset_map flip: sum_mset_sum_list)

lemma dir_bytes_children:
  "ext_dir_bytes (child_names (host_children cs)) = ext_dir_bytes (child_names cs)"
  "dir_gap (child_names (host_children cs)) = dir_gap (child_names cs)"
  "dir_bytes (child_names (host_children cs)) = dir_bytes (child_names cs)"
  by (simp_all add: dir_gap_def dir_bytes_def ext_dir_bytes_def sf_dir_bytes_def sum_list_children)

lemma set_host_children [simp]: "set (host_children cs) = set cs"
  by (simp add: host_children_def)

lemma entry_names:
  "list_all2 (\<lambda>c e. e = host_entry c (pe_inode_index e) \<and> P c e) (packable_children cs) es \<Longrightarrow> map pe_name es = child_names cs"
proof -
  assume "list_all2 (\<lambda>c e. e = host_entry c (pe_inode_index e) \<and> P c e) (packable_children cs) es"
  then have "list_all2 (\<lambda>c e. pe_name e = from_utf8_lossy (fst c)) (packable_children cs) es"
    by (rule list_all2_mono) (metis PackedEntry.select_convs(1) host_entry_def)
  then show ?thesis unfolding child_names_def by (induction rule: list_all2_induct) simp_all
qed

text \<open>What every node of the list satisfies, \<open>n\<close> the number of nodes.\<close>

definition node_bytes :: "Node \<Rightarrow> nat" where
  "node_bytes node = (case nd_kind node of
     Directory es \<Rightarrow> dir_bytes (map pe_name es) | File data \<Rightarrow> length data | Symlink target \<Rightarrow> length target)"

definition node_fits :: "Node \<Rightarrow> bool" where
  "node_fits node = (case nd_kind node of
     Directory es \<Rightarrow> ext_dir_bytes (map pe_name es) \<le> max_payload \<and> list_all (\<lambda>n. length n \<le> 255) (map pe_name es)
   | File data \<Rightarrow> length data \<le> max_payload
   | Symlink target \<Rightarrow> length target \<le> max_payload)"

definition node_links :: "nat \<Rightarrow> Node \<Rightarrow> bool" where
  "node_links n node \<longleftrightarrow> nd_parent_index node < n \<and>
     (case nd_kind node of Directory es \<Rightarrow> list_all (\<lambda>e. pe_inode_index e < n) es | _ \<Rightarrow> True)"

definition nodes_ready :: "Node list \<Rightarrow> bool" where
  "nodes_ready nodes \<longleftrightarrow> list_all node_fits nodes \<and> list_all (node_links (length nodes)) nodes"

abbreviation nodes_blocks :: "Node list \<Rightarrow> nat" where
  "nodes_blocks nodes \<equiv> sum_list (map (\<lambda>node. block_count (node_bytes node)) nodes)"

lemma node_links_mono: "node_links n node \<Longrightarrow> n \<le> k \<Longrightarrow> node_links k node"
  by (auto simp: node_links_def list_all_iff split: NodeKind.splits)

lemma nodes_ready_snoc:
  assumes "nodes_ready nodes" "node_fits node" "node_links (Suc (length nodes)) node"
  shows "nodes_ready (nodes @ [node])"
  using assms node_links_mono[of "length nodes" _ "Suc (length nodes)"] by (auto simp: nodes_ready_def list_all_iff)

lemma nodes_ready_update:
  assumes "nodes_ready nodes" "node_fits node" "node_links (length nodes) node"
  shows "nodes_ready (nodes[j := node])"
  using assms set_update_subset_insert[of nodes j node] by (auto simp: nodes_ready_def list_all_iff)

lemma nodes_blocks_update:
  "j < length nodes \<Longrightarrow> nodes_blocks (nodes[j := node]) + block_count (node_bytes (nodes ! j)) = nodes_blocks nodes + block_count (node_bytes node)"
proof (induction nodes arbitrary: j)
  case (Cons a nodes)
  then show ?case by (cases j) auto
qed simp

lemma placeholder_ready:
  "node_fits (host_node m par (Directory []))" "par < n \<Longrightarrow> node_links n (host_node m par (Directory []))"
  "node_bytes (host_node m par (Directory [])) = 10"
  by (simp_all add: node_fits_def node_links_def node_bytes_def host_node_def ext_dir_bytes_def dir_bytes_def sf_dir_bytes_def)

lemma collect_ready:
  "host_ok host \<Longrightarrow> nodes_ready nodes \<Longrightarrow> par \<le> length nodes \<Longrightarrow>
     \<exists>i nodes' rep'. collect_tree root path host par nodes rep = Ok (i, nodes', rep') \<and> nodes_ready nodes' \<and>
       length nodes' = length nodes + host_inodes host \<and> nodes_blocks nodes' = nodes_blocks nodes + host_blocks host \<and>
       packed_inodes rep' = packed_inodes rep"
  "list_all (\<lambda>c. host_ok (snd c)) cs \<Longrightarrow> nodes_ready nodes \<Longrightarrow> index < length nodes \<Longrightarrow>
     list_all (\<lambda>e. pe_inode_index e < length nodes) es \<Longrightarrow>
     \<exists>es' nodes' rep'. collect_children root path cs index es nodes rep = Ok (es', nodes', rep') \<and> nodes_ready nodes' \<and>
       length nodes' = length nodes + sum_list (map (\<lambda>c. if host_packable (snd c) then host_inodes (snd c) else 0) cs) \<and>
       nodes_blocks nodes' = nodes_blocks nodes + sum_list (map (\<lambda>c. if host_packable (snd c) then host_blocks (snd c) else 0) cs) \<and>
       list_all (\<lambda>e. pe_inode_index e < length nodes') es' \<and> packed_inodes rep' = packed_inodes rep"
proof (induction root path host par nodes rep and root path cs index es nodes rep rule: collect_tree_collect_children.induct)
  case (1 root path host par nodes rep)
  let ?n = "length nodes"
  show ?case
  proof (cases "\<exists>m cs. host = HostDir m (Some cs)")
    case False
    have leaf: "\<exists>i nodes' rep'. collect_tree root path host par nodes rep = Ok (i, nodes', rep') \<and> nodes_ready nodes' \<and>
       length nodes' = ?n + host_inodes host \<and> nodes_blocks nodes' = nodes_blocks nodes + host_blocks host \<and>
       packed_inodes rep' = packed_inodes rep"
      if "\<exists>rep'. collect_tree root path host par nodes rep = Ok (?n, nodes @ [host_node m par kind], rep') \<and> packed_inodes rep' = packed_inodes rep"
        "node_fits (host_node m par kind)" "node_links (Suc ?n) (host_node m par kind)" "host_inodes host = 1"
        "host_blocks host = block_count (node_bytes (host_node m par kind))" for m kind
      using that nodes_ready_snoc[OF "1.prems"(2) that(2,3)] by auto
    show ?thesis
    proof (cases host)
      case (HostDir m x)
      then show ?thesis using "1.prems" False by (cases x) auto
    next
      case (HostFile m x)
      then obtain data where "x = Some data" using "1.prems" by (cases x) auto
      then show ?thesis using HostFile "1.prems" by (intro leaf[of m "File data"]) (auto simp: Let_def host_node_def node_fits_def node_links_def node_bytes_def)
    next
      case (HostLink m x)
      then obtain t where "x = Some t" using "1.prems" by (cases x) auto
      then show ?thesis using HostLink "1.prems" by (intro leaf[of m "Symlink (from_utf8_lossy t)"]) (auto simp: Let_def host_node_def node_fits_def node_links_def node_bytes_def)
    next
      case (HostOther m)
      then show ?thesis using "1.prems" placeholder_ready[where m = m and par = par] by (intro leaf[of m "Directory []"]) (auto simp: Let_def host_node_def)
    qed (use "1.prems" in simp)
  next
    case True
    then obtain m cs where h: "host = HostDir m (Some cs)" by blast
    let ?ph = "host_node m par (Directory [])"
    let ?nodes = "nodes @ [?ph]"
    have meta: "host_meta host = Some m" by (simp add: h)
    have ok: "list_all (\<lambda>c. host_ok (snd c)) (host_children cs)" "nodes_ready ?nodes" "?n < length ?nodes"
      "list_all (\<lambda>e. pe_inode_index e < length ?nodes) []"
      using "1.prems" h placeholder_ready[where m = m and par = par] by (auto simp: list_all_iff intro!: nodes_ready_snoc)
    from "1.IH"[OF meta refl refl refl h refl, folded host_node_def, OF ok]
    obtain es ns r where c: "collect_children root path (host_children cs) ?n [] ?nodes rep = Ok (es, ns, r)" "nodes_ready ns"
      "length ns = ?n + host_inodes host" "nodes_blocks ns + block_count (dir_bytes (child_names cs)) = nodes_blocks nodes + 1 + host_blocks host"
      "list_all (\<lambda>e. pe_inode_index e < length ns) es" "packed_inodes r = packed_inodes rep"
      by (auto simp: sum_list_host_children placeholder_ready h)
    have cc: "take (Suc ?n) ns = ?nodes" and ch: "children_collected ns ?n (packable_children (host_children cs)) es"
      using collect_collected(2)[OF c(1)] by (auto simp: same_from_def)
    have names: "map pe_name es = child_names (host_children cs)" by (rule entry_names[OF ch])
    have at: "ns ! ?n = ?ph" using cc by (metis lessI nth_append_length nth_take)
    let ?node = "host_node m par (Directory es)"
    have res: "collect_tree root path host par nodes rep = Ok (?n, ns[?n := ?node], r)"
      using c(1) at by (simp add: h Let_def host_node_def)
    have "list_all (\<lambda>n. length n \<le> 255) (child_names (host_children cs))"
      using "1.prems"(1) h by (auto simp: child_names_def list_all_iff)
    then have "node_fits ?node" using names "1.prems"(1) h by (simp add: node_fits_def host_node_def dir_bytes_children)
    moreover have "node_links (length ns) ?node" using c(3,5) "1.prems"(3) h by (simp add: node_links_def host_node_def)
    ultimately have rdy: "nodes_ready (ns[?n := ?node])" by (rule nodes_ready_update[OF c(2)])
    have "node_bytes ?node = dir_bytes (child_names cs)" using names by (simp add: node_bytes_def host_node_def dir_bytes_children)
    moreover have "?n < length ns" using c(3) h by simp
    ultimately have "nodes_blocks (ns[?n := ?node]) = nodes_blocks nodes + host_blocks host"
      using nodes_blocks_update[of ?n ns ?node] at placeholder_ready(3)[of m par] c(4) by simp
    then show ?thesis using res rdy c(3,6) by auto
  qed
next
  case (3 root path name child rest index entries nodes report)
  show ?case
  proof (cases "host_packable child")
    case False
    then show ?thesis using 3 by (cases child) auto
  next
    case True
    have meta: "host_meta child \<noteq> None" using "3.prems"(1) by (cases child) auto
    from "3.IH"(2)[OF meta] True "3.prems" obtain j ns r where t: "collect_tree root (path @ [name]) child index nodes report = Ok (j, ns, r)"
      "nodes_ready ns" "length ns = length nodes + host_inodes child" "nodes_blocks ns = nodes_blocks nodes + host_blocks child"
      "packed_inodes r = packed_inodes report" by auto
    have j: "j = length nodes" "length nodes < length ns" using collect_collected(1)[OF t(1) True] by auto
    from "3.IH"(3)[OF meta _ t(1) refl refl] True "3.prems" t(2,3) j
    show ?thesis using t(1,3,4,5) meta by (fastforce simp: list_all_iff)
  qed
qed auto

section \<open>Enough room is enough\<close>

lemma inode_number_ready: "pack_geometry sb \<Longrightarrow> j < 2 ^ 50 \<Longrightarrow> inode_number sb j = Ok (of_nat (64 + j))"
  by (simp add: inode_number_def pack_geometry_def cadd_of_nat del: of_nat_add)

lemma sf_entries_ready:
  assumes "pack_geometry sb" "\<forall>e \<in> set es. pe_inode_index e < 2 ^ 50 \<and> length (pe_name e) \<le> 255" "slot + length es < 2 ^ 16"
  shows "\<exists>body. sf_entries sb slot es = Ok body"
  using assms(2,3)
proof (induction es arbitrary: slot)
  case (Cons e es)
  then have es: "\<forall>e \<in> set es. pe_inode_index e < 2 ^ 50 \<and> length (pe_name e) \<le> 255" "Suc slot + length es < 2 ^ 16" by simp_all
  obtain body where "sf_entries sb (Suc slot) es = Ok body" using Cons.IH[OF es] by blast
  then show ?case using Cons.prems by (simp add: inode_number_ready[OF assms(1)] try_from_def)
qed simp

lemma ext_entries_ready:
  assumes "pack_geometry sb" "\<forall>e \<in> set es. pe_inode_index e < 2 ^ 50 \<and> length (pe_name e) \<le> 255"
  shows "\<exists>body. ext_entries sb es = Ok body"
  using assms(2) by (induction es) (auto simp: inode_number_ready[OF assms(1)] try_from_def)

lemma build_payload_ready:
  assumes g: "pack_geometry sb" and r: "nodes_ready nodes" and i: "i < length nodes" and n: "length nodes < 2 ^ 50"
  shows "\<exists>p. build_payload nodes i sb = Ok p \<and> length p = node_bytes (nodes ! i)"
proof (cases "nd_kind (nodes ! i)")
  case (Directory es)
  have fits: "node_fits (nodes ! i)" "node_links (length nodes) (nodes ! i)" using r i by (simp_all add: nodes_ready_def list_all_length)
  let ?names = "map pe_name es" and ?par = "of_nat (64 + nd_parent_index (nodes ! i)) :: u64"
  have es: "\<forall>e \<in> set es. pe_inode_index e < 2 ^ 50 \<and> length (pe_name e) \<le> 255" "nd_parent_index (nodes ! i) < 2 ^ 50"
    "ext_dir_bytes ?names \<le> max_payload" using fits Directory n by (auto simp: node_fits_def node_links_def list_all_iff)
  have cnt: "length es < 2 ^ 32" using many_entries[of ?names] es(3) by simp
  obtain body where body: "ext_entries sb es = Ok body" using ext_entries_ready[OF g es(1)] by blast
  note par = inode_number_ready[OF g es(2)]
  have sf: "\<exists>r. shortform_payload sb ?par es = Ok r \<and>
      (case r of Some q \<Rightarrow> length q = sf_dir_bytes ?names \<and> length q \<le> 336 | None \<Rightarrow> 336 < sf_dir_bytes ?names)"
  proof (cases "length es \<le> 255")
    case True
    then obtain b where "sf_entries sb 0 es = Ok b" using sf_entries_ready[OF g es(1), of 0] by auto
    then show ?thesis using True length_sf_entries[of sb 0 es b] by (auto simp: shortform_payload_def try_from_def Let_def)
  next
    case False
    have "12 * length es \<le> sf_dir_bytes ?names" by (induction es) (auto simp: sf_dir_bytes_def)
    then show ?thesis using False by (simp add: shortform_payload_def)
  qed
  then obtain r where r: "shortform_payload sb ?par es = Ok r"
    "case r of Some q \<Rightarrow> length q = sf_dir_bytes ?names \<and> length q \<le> 336 | None \<Rightarrow> 336 < sf_dir_bytes ?names" by blast
  show ?thesis
  proof (cases r)
    case None
    then show ?thesis using r par body cnt length_ext_entries[OF body] Directory
      by (simp add: build_payload_def try_from_def node_bytes_def dir_bytes_def CRABFS_EXTENT_DIR_MAGIC_def)
  next
    case (Some q)
    then show ?thesis using r par Directory by (simp add: build_payload_def node_bytes_def dir_bytes_def)
  qed
qed (simp_all add: build_payload_def node_bytes_def)

lemma layout_ready:
  assumes sb: "sb_block_size sb = 4096" and "unat nx + nodes_blocks (take n (drop i nodes)) < 2 ^ 63" "i + n \<le> length nodes"
    and ok: "\<And>j. j < length nodes \<Longrightarrow> \<exists>p. build_payload nodes j sb = Ok p \<and> length p = node_bytes (nodes ! j) \<and> length p < 2 ^ 63"
  shows "\<exists>ps nx'. layout_nodes nodes sb i n nx = Ok (ps, nx') \<and> unat nx' = unat nx + nodes_blocks (take n (drop i nodes))"
  using assms(2,3)
proof (induction n arbitrary: i nx)
  case (Suc n)
  then have i: "i < length nodes" by simp
  obtain p where p: "build_payload nodes i sb = Ok p" "length p = node_bytes (nodes ! i)" "length p < 2 ^ 63" using ok[OF i] by blast
  obtain b where b: "div_ceil (of_nat (length p)) (4096 :: u64) = Some b" "unat b = blocks_of p" using div_ceil_blocks[OF p(3)] by blast
  have tk: "nodes_blocks (take (Suc n) (drop i nodes)) = blocks_of p + nodes_blocks (take n (drop (Suc i) nodes))"
    using i p(2) by (simp add: Cons_nth_drop_Suc[symmetric] blocks_of_def)
  have b': "(if p = [] then Some 0 else div_ceil (of_nat (length p)) (ucast (sb_block_size sb) :: u64)) = Some b"
    using b sb by (cases "p = []") (simp_all add: unat_eq_zero)
  let ?nx = "if b = 0 then nx else sat_add nx b"
  have nx: "unat ?nx = unat nx + blocks_of p"
    using b(2) Suc.prems(1) tk by (auto simp: unat_sat_add)
  have "\<exists>ps nx'. layout_nodes nodes sb (Suc i) n ?nx = Ok (ps, nx') \<and> unat nx' = unat ?nx + nodes_blocks (take n (drop (Suc i) nodes))"
    using Suc.prems nx tk by (intro Suc.IH) simp_all
  then obtain ps nx' where "layout_nodes nodes sb (Suc i) n ?nx = Ok (ps, nx')" "unat nx' = unat ?nx + nodes_blocks (take n (drop (Suc i) nodes))"
    by blast
  then show ?case using p(1) b' nx tk by (simp add: Let_def split del: if_split)
qed simp


context block_device
begin

lemma pack_nodes_succeeds:
  assumes sb: "pack_geometry sb" and d: "invar d" "4096 * unat (po_total_blocks opts) \<le> length (contents d)" "length (contents d) < 2 ^ 64"
    and tot: "unat (po_total_blocks opts) < 2 ^ 32" and lim: "payload_limits nodes sb" and rdy: "nodes_ready nodes"
    and room: "8 + (length nodes + 7) div 8 + nodes_blocks nodes \<le> unat (po_total_blocks opts)"
  shows "\<exists>d' report'. pack_nodes write_at sb opts nodes report d = Ok (d', report')"
proof -
  let ?n = "length nodes" and ?t = "unat (po_total_blocks opts)"
  have n: "?n < 2 ^ 50" using room tot by simp
  have bs: "sb_block_size sb = 4096" using sb by (simp add: pack_geometry_def)
  have small: "\<forall>j < ?n. \<forall>p. build_payload nodes j sb = Ok p \<longrightarrow> length p < 2 ^ 63"
    using lim blocks_of_small by (auto simp: payload_limits_def)
  have n64: "?n < 2 ^ 64" using n by simp
  obtain nb where nb: "div_ceil (of_nat ?n) (8 :: u64) = Some nb" "unat nb = (?n + 7) div 8"
    using div_ceil_nat[OF n64, of 8] by (auto simp: ceil_8)
  have "unat nb < 2 ^ 32" using nb(2) room tot by linarith
  then have nxc: "cadd 8 nb = Some (8 + nb)" by (simp add: cadd_def)
  obtain nx where nx: "cadd 8 nb = Some nx" "unat nx = 8 + (?n + 7) div 8" using unat_cadd[OF nxc] nb(2) nxc by simp
  have ok: "\<exists>p. build_payload nodes j sb = Ok p \<and> length p = node_bytes (nodes ! j) \<and> length p < 2 ^ 63" if "j < ?n" for j
  proof -
    from build_payload_ready[OF sb rdy that n] obtain p where "build_payload nodes j sb = Ok p" "length p = node_bytes (nodes ! j)" by blast
    moreover have "length p < 2 ^ 63" using small that calculation(1) by blast
    ultimately show ?thesis by blast
  qed
  have "unat nx + nodes_blocks (take ?n (drop 0 nodes)) < 2 ^ 63" using nx(2) room tot by simp
  from layout_ready[OF bs this _ ok] obtain ps nx' where lay: "layout_nodes nodes sb 0 ?n nx = Ok (ps, nx')"
    "unat nx' = unat nx + nodes_blocks nodes" by auto
  have nx't: "unat nx' \<le> ?t" "unat nx' < 2 ^ 32" "nx' \<le> po_total_blocks opts" using lay(2) nx(2) room tot by (simp_all add: word_le_nat_alt)
  from layout_nodes_laid_out[OF bs lay(1) _ small] nx't have lo: "laid_out (unat nx) ps (unat nx')" "length ps = ?n"
    "\<forall>j < ?n. build_payload nodes j sb = Ok (fst (ps ! j))" by simp_all
  have lims: "\<forall>q \<in> set ps. blocks_of (fst q) < 2 ^ 21" 
    unfolding all_set_conv_all_nth lo(2) using lo(3) lim by (simp add: payload_limits_def)
  have ext: "extent_limits ps" using laid_out_limits[OF lo(1) _ lims] nx't by simp
  have r1: "\<forall>(off, xs) \<in> set (payload_writes ps). off + length xs \<le> length (contents d)"
    using payload_writes_range[OF lo(1)] nx't d(2) by fastforce
  from write_list_ok[OF d(1,3) r1] write_payloads_eq[OF bs lo(1), of write_at d] nx't obtain d1 where
    d1: "write_payloads write_at sb ps d = Ok d1" "invar d1" "contents d1 = apply_writes (payload_writes ps) (contents d)" by auto
  have r2: "\<forall>(off, xs) \<in> set (inode_writes sb 0 nodes ps). off + length xs \<le> length (contents d1)"
  proof (intro ballI, clarify)
    fix off xs assume "(off, xs) \<in> set (inode_writes sb 0 nodes ps)"
    then obtain i where "i < ?n" "off = inode_pos i" "length xs = 512" using inode_writes_in by blast
    then show "off + length xs \<le> length (contents d1)" using nx(2) lay(2) nx't(1) d(2) d1(3) by simp
  qed
  have l1: "length (contents d1) < 2 ^ 64" using d1 d by simp
  have small_n: "0 + ?n < 2 ^ 50" using n by simp
  from write_list_ok[OF d1(2) l1 r2] write_inodes_eq[OF sb lo(2) small_n ext, of write_at d1 report] obtain d' where
    "write_inodes write_at sb 0 nodes ps d1 report = Ok (d', report\<lparr>packed_inodes := packed_inodes report + ?n\<rparr>)" by auto
  then show ?thesis using n64 nb nx lay(1) nx't(3) d1(1) by (simp add: pack_nodes_def try_from_def not_less)
qed

end


lemma payload_limits_ready:
  assumes g: "pack_geometry sb" and r: "nodes_ready nodes" and n: "length nodes < 2 ^ 50"
  shows "payload_limits nodes sb"
  unfolding payload_limits_def
proof (intro allI impI)
  fix i p assume i: "i < length nodes" and p: "build_payload nodes i sb = Ok p"
  have "node_fits (nodes ! i)" using r i by (simp add: nodes_ready_def list_all_length)
  then have "node_bytes (nodes ! i) \<le> max_payload"
    by (auto simp: node_fits_def node_bytes_def dir_bytes_def split: NodeKind.splits)
  moreover have "length p = node_bytes (nodes ! i)" using build_payload_ready[OF g r i n] p by auto
  ultimately show "blocks_of p < 2 ^ 21" by (simp add: blocks_of_def)
qed

section \<open>What the image shows\<close>

text \<open>
  \<open>shown dev sb par ino host\<close>: read through the file system, inode \<open>ino\<close> with parent \<open>par\<close> and everything below
  it is the host tree.  The inode has the mode and the owner; a file or a link reads as its contents at every
  offset; a directory lists its two dot entries and then the children that can be packed, in the order of their
  names, and looking a name up finds the first entry of the listing that has it.
\<close>

definition inode_shown :: "reading \<Rightarrow> Superblock \<Rightarrow> u64 \<Rightarrow> HostMeta \<Rightarrow> bool" where
  "inode_shown dev sb ino m \<longleftrightarrow> (\<exists>inode raw. read_inode dev sb ino 512 = Ok (inode, raw) \<and> di_ino inode = ino \<and>
     di_mode inode = ucast (hm_mode m) \<and> di_uid inode = hm_uid m \<and> di_gid inode = hm_gid m)"

definition data_shown :: "reading \<Rightarrow> Superblock \<Rightarrow> u64 \<Rightarrow> bytes \<Rightarrow> bool" where
  "data_shown dev sb ino data \<longleftrightarrow>
     (\<exists>inode raw. read_inode dev sb ino 512 = Ok (inode, raw) \<and> unat (di_size inode) = length data) \<and>
     (\<forall>off len. read_file_data dev sb ino off len = Ok (take (unat len) (drop (unat off) data)))"

inductive shown :: "reading \<Rightarrow> Superblock \<Rightarrow> u64 \<Rightarrow> u64 \<Rightarrow> HostNode \<Rightarrow> bool" for dev sb where
  shown_file: "inode_shown dev sb ino m \<Longrightarrow> data_shown dev sb ino data \<Longrightarrow> shown dev sb par ino (HostFile m (Some data))"
| shown_link: "inode_shown dev sb ino m \<Longrightarrow> data_shown dev sb ino (from_utf8_lossy target) \<Longrightarrow>
    shown dev sb par ino (HostLink m (Some target))"
| shown_dir: "inode_shown dev sb ino m \<Longrightarrow>
    list_dir_entries dev sb ino = Ok (dot_entries ino par @ es) \<Longrightarrow>
    (\<And>target. find_dir_entry dev sb ino target = Ok (lookup_entry (dot_entries ino par @ es) target)) \<Longrightarrow>
    list_all2 (\<lambda>c e. de_name e = from_utf8_lossy (fst c) \<and> de_ftype e = host_ftype (snd c) \<and> shown dev sb ino (de_ino e) (snd c))
      (packable_children (host_children cs)) es \<Longrightarrow>
    shown dev sb par ino (HostDir m (Some cs))"

lemma mode_bits: "(ucast (w :: u32) :: u16) AND 0xf000 = ucast (w AND 0xf000)"
  by (rule bit_word_eqI) (auto simp: bit_simps)

lemma inode_shown_node:
  assumes "image_of sb nodes dev" "i < length nodes" "nodes ! i = host_node m par kind"
  shows "inode_shown dev sb (of_nat (64 + i)) m"
  using image_of_node[OF assms(1,2)] assms(3) by (fastforce simp: inode_shown_def node_inode_def host_node_def)

lemma data_shown_node:
  assumes img: "image_of sb nodes dev" and i: "i < length nodes" and nd: "nodes ! i = host_node m par kind"
    and k: "kind = File data \<and> hm_mode m AND 0xf000 = 0x8000 \<or> kind = Symlink data \<and> hm_mode m AND 0xf000 = 0xa000"
  shows "data_shown dev sb (of_nat (64 + i)) data"
  unfolding data_shown_def
proof (intro conjI allI)
  have "build_payload nodes i sb = Ok data" using nd k by (auto simp: build_payload_def host_node_def)
  then show "\<exists>inode raw. read_inode dev sb (of_nat (64 + i)) 512 = Ok (inode, raw) \<and> unat (di_size inode) = length data"
    using image_of_node[OF img i] by (fastforce simp: node_inode_def)
next
  fix off len
  show "read_file_data dev sb (of_nat (64 + i)) off len = Ok (take (unat len) (drop (unat off) data))"
    by (rule read_packed_file[OF img i]) (use nd k in \<open>auto simp: host_node_def mode_bits\<close>)
qed

lemma collected_shown:
  assumes img: "image_of sb nodes dev" and "collected nodes par i host" "host_ok host" "host_gapless host"
  shows "shown dev sb (of_nat (64 + par)) (of_nat (64 + i)) host"
  using assms(2-)
proof (induction rule: collected.induct)
  case (a_file i m par data)
  then show ?case
    by (intro shown_file inode_shown_node[OF img] data_shown_node[OF img]) auto
next
  case (a_link i m par target)
  then show ?case
    by (intro shown_link inode_shown_node[OF img] data_shown_node[OF img]) auto
next
  case (a_dir i m par es cs)
  let ?ino = "of_nat (64 + i) :: u64" and ?par = "of_nat (64 + par) :: u64"
  have g: "pack_geometry sb" using img by (simp add: image_of_def)
  have ch: "children_collected nodes i (packable_children (host_children cs)) es"
    using a_dir.IH by (rule list_all2_mono) blast
  have nm: "map pe_name es = child_names (host_children cs)" by (rule entry_names[OF ch])
  have gap: "\<not> dir_gap (map pe_name es)" using a_dir.prems nm by (simp add: dir_bytes_children)
  have "\<forall>x \<in> set (map pe_name es). utf8_valid x" unfolding nm by (auto simp: child_names_def)
  then have ok: "names_ok es" by simp
  have nd: "nd_kind (nodes ! i) = Directory es" "nd_mode (nodes ! i) AND 0xf000 = 0x4000" "nd_parent_index (nodes ! i) = par"
    using a_dir by (auto simp: host_node_def mode_bits)
  note rd = read_packed_dir[OF img a_dir.hyps(1) nd(1,2) ok gap, unfolded nd(3) find_in_dir_lookup]
  have all: "\<forall>c \<in> set (host_children cs). host_ok (snd c) \<and> host_gapless (snd c)" using a_dir.prems by (auto simp: list_all_iff)
  have "list_all2 (\<lambda>c e. de_name (packed_dir_entry sb e) = from_utf8_lossy (fst c) \<and> de_ftype (packed_dir_entry sb e) = host_ftype (snd c) \<and>
      shown dev sb ?ino (de_ino (packed_dir_entry sb e)) (snd c)) (packable_children (host_children cs)) es"
  proof (rule list.rel_mono_strong[OF a_dir.IH])
    fix c e assume c: "c \<in> set (packable_children (host_children cs))"
      and e: "e = host_entry c (pe_inode_index e) \<and> collected nodes i (pe_inode_index e) (snd c) \<and>
        (host_ok (snd c) \<longrightarrow> host_gapless (snd c) \<longrightarrow> shown dev sb ?ino (of_nat (64 + pe_inode_index e)) (snd c))"
    have "pe_name e = from_utf8_lossy (fst c)" "pe_ftype e = host_ftype (snd c)"
      using e by (metis PackedEntry.select_convs(1) host_entry_def, metis PackedEntry.select_convs(3) host_entry_def)
    moreover have "de_ino (packed_dir_entry sb e) = of_nat (64 + pe_inode_index e)" using g by (simp add: packed_dir_entry_def pack_geometry_def)
    ultimately show "de_name (packed_dir_entry sb e) = from_utf8_lossy (fst c) \<and> de_ftype (packed_dir_entry sb e) = host_ftype (snd c) \<and>
      shown dev sb ?ino (de_ino (packed_dir_entry sb e)) (snd c)" using all c e by (simp add: packed_dir_entry_def)
  qed
  then show ?case
    using a_dir.hyps by (intro shown_dir[where es = "map (packed_dir_entry sb) es"] inode_shown_node[OF img] conjunct1[OF rd] conjunct2[OF rd])
      (auto simp: list_all2_map2)
qed


section \<open>The round trip\<close>

lemma read_superblock_local:
  assumes "\<And>n. n \<le> 4096 \<Longrightarrow> dev' 0 n = dev 0 n"
  shows "read_superblock dev' = read_superblock dev"
proof -
  have "bindE (ensure_sector_size s) id (\<lambda>n. bindE (dev' 0 n) RDevice k) = bindE (ensure_sector_size s) id (\<lambda>n. bindE (dev 0 n) RDevice k)"
    for s and k :: "bytes \<Rightarrow> (ReadError, Superblock) outcome"
    by (simp add: ensure_sector_size_def Let_def assms)
  then show ?thesis by (simp add: read_superblock_def assms cong: if_cong)
qed

definition pack_opts_ok :: "PackOptions \<Rightarrow> bool" where
  "pack_opts_ok opts \<longleftrightarrow> po_block_size opts = 4096 \<and> 512 \<le> unat (po_sector_size opts) \<and> unat (po_sector_size opts) \<le> 4096 \<and>
     length (po_uuid opts) = 16 \<and> 10 \<le> unat (po_total_blocks opts) \<and> unat (po_total_blocks opts) < 2 ^ 32"

context block_device
begin

lemma mkfs_pack_geometry:
  assumes ok: "pack_opts_ok opts" and d: "invar d" "4096 * unat (po_total_blocks opts) \<le> length (contents d)" "length (contents d) < 2 ^ 64"
  defines "mk \<equiv> \<lparr>mk_block_size = po_block_size opts, mk_sector_size = po_sector_size opts,
          mk_ag_blocks = ucast (po_total_blocks opts), mk_total_blocks = po_total_blocks opts, mk_uuid = po_uuid opts\<rparr>"
  shows "\<exists>d' sb. mkfs write_at d mk = Ok d' \<and> invar d' \<and> length (contents d') = length (contents d) \<and>
    read_superblock (read_at d') = Ok sb \<and> pack_geometry sb \<and> sb_ag_blocks sb = ucast (po_total_blocks opts) \<and>
    sb_sector_size sb = po_sector_size opts"
proof -
  let ?t = "unat (po_total_blocks opts)"
  have t: "unat (ucast (po_total_blocks opts) :: u32) = ?t" using ok by (intro ucast_small) (simp add: pack_opts_ok_def)
  have mo: "mkfs_opts_ok mk" using ok t by (simp add: mkfs_opts_ok_def pack_opts_ok_def mk_def)
  have n: "mkfs_ag_count mk = 1" using ok t by (simp add: mkfs_ag_count_def mk_def pack_opts_ok_def)
  have base: "ag_base mk (mkfs_ag_count mk) \<le> length (contents d)" using n t d(2) ok by (simp add: ag_base_def mk_def pack_opts_ok_def)
  from mkfs_formats[OF mo _ d(1) base d(3)] n obtain d' sb0 where d': "mkfs write_at d mk = Ok d'" "invar d'"
    "length (contents d') = length (contents d)" "mkfs_superblock mk (of_nat 1) = Some sb0" "formatted mk sb0 1 (contents d')" by auto
  obtain sb1 where sb1: "mkfs_superblock mk (of_nat 1) = Some sb1" "Superblock_wf sb1" "is_v5 sb1"
     "sb_block_size sb1 = mk_block_size mk" "sb_sector_size sb1 = mk_sector_size mk" "sb_ag_blocks sb1 = mk_ag_blocks mk" "sb_ag_count sb1 = of_nat 1"
     "sb_inode_size sb1 = 512" "sb_uuid sb1 = mk_uuid mk" "sb_v5 sb1 = Some (mkfs_v5 mk)"
     "sb_rootino sb1 = push_bit (unat (sb_inopblog sb1)) 8" "unat (sb_inopblog sb1) \<le> 3"
     "unat (mk_block_size mk) < 2 ^ (unat (sb_inopblog sb1) + 10)"
     "unat (mk_ag_blocks mk) \<le> 2 ^ unat (sb_agblklog sb1)" "unat (sb_agblklog sb1) \<le> 32"
    using mkfs_superblock_ok[OF mo, of "of_nat 1"] by blast
  have eq: "sb1 = sb0" using d'(4) sb1(1) by simp
  have m: "sb_matches mk sb0" using sb1 eq by (simp add: sb_matches_def)
  have wf: "Superblock_wf sb0" using sb1 eq by simp
  have ans: "answers (read_at d') (contents d')" by (rule answers_device[OF block_device_axioms d'(2)])
  have len: "length (contents d') < 2 ^ 64" using d'(3) d(3) by simp
  obtain k where k: "read_superblock (read_at d') = Ok (Superblock_set_crc k sb0)"
    using read_superblock_formatted[OF mo ans d'(5) len _ wf m] by auto
  have "(2::nat) ^ 12 < 2 ^ (unat (sb_inopblog sb0) + 10)" using sb1(13) ok eq by (simp add: mk_def pack_opts_ok_def)
  then have i3: "unat (sb_inopblog sb0) = 3" using sb1(12) eq by (simp only: pow2_less_iff)
  have "sb_rootino sb0 = 64" using sb1(11) eq i3 by (simp add: push_bit_eq_mult)
  then have "pack_geometry (Superblock_set_crc k sb0)"
    using sb1 eq i3 ok by (simp add: pack_geometry_def Superblock_set_crc_def is_v5_def has_incompat_feature_def mkfs_v5_def mk_def pack_opts_ok_def XFS_SB_FEAT_INCOMPAT_FTYPE_def)
  moreover have "sb_ag_blocks (Superblock_set_crc k sb0) = ucast (po_total_blocks opts)" "sb_sector_size (Superblock_set_crc k sb0) = po_sector_size opts"
    using sb1 eq by (simp_all add: Superblock_set_crc_def mk_def)
  ultimately show ?thesis using d'(1-3) k by blast
qed


lemma pack_image_any:
  assumes ok: "pack_opts_ok opts" and d: "invar d" "4096 * unat (po_total_blocks opts) \<le> length (contents d)" "length (contents d) < 2 ^ 64"
    and tree: "tree = HostDir m (Some cs)" "host_ok tree"
    and room: "8 + (host_inodes tree + 7) div 8 + host_blocks tree \<le> unat (po_total_blocks opts)"
  shows "\<exists>d' report sb. pack_from_directory read_at write_at d source tree opts = Ok (d', report) \<and>
    packed_inodes report = host_inodes tree \<and> pack_geometry sb \<and> answers (read_at d') (contents d') \<and>
    length (contents d') = length (contents d) \<and> (\<exists>nodes. collected nodes 0 0 tree \<and>
      (\<forall>dev. answers dev (contents d') \<longrightarrow> image_of sb nodes dev \<and> read_superblock dev = Ok sb))"
proof -
  let ?t = "unat (po_total_blocks opts)" and ?rep = "\<lparr>packed_inodes = 0, skipped = []\<rparr>"
  have t32: "?t < 2 ^ 32" using ok by (simp add: pack_opts_ok_def)
  have tf: "try_from ?t = Ok (ucast (po_total_blocks opts) :: u32)" using t32 by (simp add: try_from_def)
  from mkfs_pack_geometry[OF ok d] obtain d1 sb where mk: "mkfs write_at d \<lparr>mk_block_size = po_block_size opts, mk_sector_size = po_sector_size opts,
          mk_ag_blocks = ucast (po_total_blocks opts), mk_total_blocks = po_total_blocks opts, mk_uuid = po_uuid opts\<rparr> = Ok d1"
    "invar d1" "length (contents d1) = length (contents d)" "read_superblock (read_at d1) = Ok sb" "pack_geometry sb"
    "sb_ag_blocks sb = ucast (po_total_blocks opts)" by blast
  have "nodes_ready []" by (simp add: nodes_ready_def)
  from collect_ready(1)[OF tree(2) this, of 0 source source ?rep] obtain i nodes rep where
    c: "collect_tree source source tree 0 [] ?rep = Ok (i, nodes, rep)" "nodes_ready nodes" "length nodes = host_inodes tree"
      "nodes_blocks nodes = host_blocks tree" "packed_inodes rep = 0" by auto
  have "host_packable tree" using tree(1) by simp
  from collect_collected(1)[OF c(1) this] have col: "i = 0" "nodes \<noteq> []" "collected nodes 0 0 tree" by (auto simp: same_from_def)
  have n50: "length nodes < 2 ^ 50" using c(3) room t32 by simp
  have lim: "payload_limits nodes sb" by (rule payload_limits_ready[OF mk(5) c(2) n50])
  have d1: "4096 * ?t \<le> length (contents d1)" "length (contents d1) < 2 ^ 64" using mk(3) d by simp_all
  have rm: "8 + (length nodes + 7) div 8 + nodes_blocks nodes \<le> ?t" using room c(3,4) by simp
  from pack_nodes_succeeds[OF mk(5,2) d1 t32 lim c(2) rm, of rep] obtain d' report where
    pk: "pack_nodes write_at sb opts nodes rep d1 = Ok (d', report)" by blast
  from pack_nodes_packed[OF mk(5,2) d1 t32 lim pk] obtain ps where
    p: "invar d'" "length (contents d') = length (contents d1)" "packed sb nodes ps (contents d')" "extent_limits ps"
    "\<forall>i < length nodes. build_payload nodes i sb = Ok (fst (ps ! i))"
    "\<forall>(p, s, b) \<in> set ps. unat b = blocks_of p \<and> unat s + unat b \<le> ?t" "8 + (length nodes + 7) div 8 \<le> ?t"
    "\<forall>n \<le> 32768. rd (contents d') 0 n = rd (contents d1) 0 n" "report = rep\<lparr>packed_inodes := packed_inodes rep + length nodes\<rparr>" by blast
  have ag: "unat (sb_ag_blocks sb) = ?t" unfolding mk(6) using t32 by (intro ucast_small) simp
  have ans: "answers (read_at d') (contents d')" by (rule answers_device[OF block_device_axioms p(1)])
  have img: "image_of sb nodes dev" if "answers dev (contents d')" for dev unfolding image_of_def ag
    using mk(5) that d1 p(2-7) by (intro conjI exI[of _ "contents d'"] exI[of _ ps]) simp_all
  have big: "4096 \<le> length (contents d1)" using d1(1) ok by (simp add: pack_opts_ok_def)
  have "dev 0 n = read_at d1 0 n" if "answers dev (contents d')" "n \<le> 4096" for n dev
    using answersD[OF that(1), of 0 n] read_in_range[OF mk(2), of 0 n] p(2,8) that(2) big by simp
  then have "read_superblock dev = Ok sb" if "answers dev (contents d')" for dev
    using read_superblock_local[of dev "read_at d1"] mk(4) that by simp
  moreover have "pack_from_directory read_at write_at d source tree opts = Ok (d', report)"
    using tf mk(1,4) c(1) col(2) pk by (simp add: pack_from_directory_def Let_def)
  ultimately show ?thesis using p(2,9) c(3,5) mk(3,5) ans img col(3) by auto
qed

lemma pack_image:
  assumes ok: "pack_opts_ok opts" and d: "invar d" "4096 * unat (po_total_blocks opts) \<le> length (contents d)" "length (contents d) < 2 ^ 64"
    and tree: "tree = HostDir m (Some cs)" "host_ok tree"
    and room: "8 + (host_inodes tree + 7) div 8 + host_blocks tree \<le> unat (po_total_blocks opts)"
  shows "\<exists>d' report sb. pack_from_directory read_at write_at d source tree opts = Ok (d', report) \<and>
    packed_inodes report = host_inodes tree \<and> read_superblock (read_at d') = Ok sb \<and> pack_geometry sb \<and>
    (\<exists>nodes. image_of sb nodes (read_at d') \<and> collected nodes 0 0 tree)"
  using pack_image_any[OF assms, of source] by blast

end

section \<open>The gap\<close>

lemma to_be_bytes_small:
  assumes "n < 256"
  shows "to_be_bytes (of_nat n :: u32) = [0, 0, 0, of_nat n]"
proof -
  have "drop_bit k (of_nat n :: u32) = 0" if "8 \<le> k" for k
  proof -
    have "(256::nat) \<le> 2 ^ k" using that power_increasing[of 8 k "2::nat"] by simp
    then have "unat (of_nat n :: u32) < 2 ^ k" using assms by simp
    then have "unat (drop_bit k (of_nat n :: u32)) = 0" unfolding unat_drop_bit_eq by (simp only: drop_bit_eq_div div_less)
    then show ?thesis by (simp only: unat_eq_zero)
  qed
  moreover have "[0..<4] = [0, 1, 2, 3::nat]" by (simp add: upt_rec)
  moreover have "ucast (of_nat n :: u32) = (of_nat n :: u8)" by (rule bit_word_eqI) (simp add: bit_simps)
  ultimately show ?thesis by (simp add: to_be_bytes_def to_le_bytes_def)
qed

lemma magic_tail: "from_be_bytes [73, 82, 48, 48, 48, 49, 0, 0] = (0x4952303030310000 :: u64)"
  by (simp add: from_be_bytes_def)

lemma read_gap_parent:
  assumes img: "image_of sb nodes dev" and i: "i < length nodes" and kind: "nd_kind (nodes ! i) = Directory es"
    and mode: "nd_mode (nodes ! i) AND 0xf000 = 0x4000" and gap: "dir_gap (map pe_name es)"
  shows "find_dir_entry dev sb (of_nat (64 + i)) str_dotdot = Ok (Some (0x4952303030310000, 2))"
proof -
  let ?ino = "of_nat (64 + i) :: u64"
  have g: "pack_geometry sb" using img by (simp add: image_of_def)
  from image_of_node[OF img i] obtain p s b k scratch where n: "build_payload nodes i sb = Ok p"
    "read_inode dev sb ?ino 512 = Ok ((node_inode sb ?ino (nodes ! i) p (packed_format p) b)\<lparr>di_crc := k\<rparr>, scratch)"
    "get_range scratch 176 512 = Some (packed_fork p s b)" "length scratch = 512" by blast
  have isz: "unat (sb_inode_size sb) = 512" using g by (simp add: pack_geometry_def)
  have f: "di_mode (node_inode sb ?ino (nodes ! i) p (packed_format p) b) = nd_mode (nodes ! i)"
    "di_format (node_inode sb ?ino (nodes ! i) p (packed_format p) b) = packed_format p" by (simp_all add: node_inode_def)
  obtain body par where p: "p = CRABFS_EXTENT_DIR_MAGIC @ to_be_bytes (of_nat (length es) :: u32) @ to_be_bytes (par :: u64) @ body" "length p \<le> 336"
  proof (cases rule: dir_payload_cases[OF n(1) kind g, case_names short extent])
    case short
    then have "length p \<le> 336" "length p = sf_dir_bytes (map pe_name es)"
      by (auto simp: shortform_payload_def bindE_Ok_iff Let_def dest!: length_sf_entries split: if_splits)
    then show ?thesis using gap by (simp add: dir_gap_def)
  next
    case (extent body)
    then show ?thesis using gap that by blast
  qed
  have "11 * length es \<le> 336" using many_entries[of "map pe_name es"] gap by (simp add: dir_gap_def)
  then have few: "length es < 256" by simp
  then have cnt: "to_be_bytes (of_nat (length es) :: u32) = [0, 0, 0, of_nat (length es)]"
    by (rule to_be_bytes_small)
  have fm: "packed_format p = Local" and fk: "packed_fork p s b = p @ replicate (336 - length p) 0"
    using p(2) by (simp_all add: packed_format_def packed_fork_def)
  have hdr: "DirSfHeader_parse (p @ tail) = Ok (\<lparr>sf_count = 0x43, sf_i8count = 0x44, sf_parent = 0x4952303030310000\<rparr>, 10)" for tail
    unfolding p(1) cnt by (simp add: DirSfHeader_parse_def CRABFS_EXTENT_DIR_MAGIC_def require_len_def get_byte_def be_u64_def get_range_def rd_def magic_tail)
  show ?thesis
    using n(2,3,4) f fm fk isz mode hdr by (simp add: find_dir_entry_def str_dot_def str_dotdot_def)
qed


section \<open>Properties\<close>

text \<open>
  Property C3.  Packing a host directory into an image and reading the image back gives the directory.  If the
  tree can be read, no directory of it falls into the gap between the two directory formats, and the image has
  room for the inode table and the data blocks, then the builder succeeds, whatever the number of bytes the host
  transfers per call, it counts every inode, and through the reader the root of the image shows the tree: every
  directory with the names and types of its children, found by listing and by lookup; every file and link with
  its contents at every offset; every inode with its mode and owner, checksums verified.
\<close>

theorem pack_then_read:
  assumes "grant_ok grant" and "pack_opts_ok opts"
    and "4096 * unat (po_total_blocks opts) \<le> length (file_data d)" and "length (file_data d) < 2 ^ 64"
    and "host_ok (HostDir m (Some cs))" and "host_gapless (HostDir m (Some cs))"
    and "8 + (host_inodes (HostDir m (Some cs)) + 7) div 8 + host_blocks (HostDir m (Some cs)) \<le> unat (po_total_blocks opts)"
  shows "\<exists>d' report sb.
    pack_from_directory (std_read_at grant) (std_write_at grant) d source (HostDir m (Some cs)) opts = Ok (d', report) \<and>
    packed_inodes report = host_inodes (HostDir m (Some cs)) \<and>
    read_superblock (std_read_at grant d') = Ok sb \<and>
    shown (std_read_at grant d') sb (sb_rootino sb) (sb_rootino sb) (HostDir m (Some cs))"
proof -
  note dev = std_file_block_device[OF assms(1)]
  from block_device.pack_image[OF dev assms(2) _ assms(3,4) refl assms(5,7), of source] obtain d' report sb nodes where
    p: "pack_from_directory (std_read_at grant) (std_write_at grant) d source (HostDir m (Some cs)) opts = Ok (d', report)"
    "packed_inodes report = host_inodes (HostDir m (Some cs))" "read_superblock (std_read_at grant d') = Ok sb" "pack_geometry sb"
    and img: "image_of sb nodes (std_read_at grant d')" "collected nodes 0 0 (HostDir m (Some cs))" by blast
  then show ?thesis using collected_shown[OF img assms(5,6)] by (auto simp: pack_geometry_def)
qed

definition example_tree :: HostNode where
  "example_tree = HostDir \<lparr>hm_mode = 0x41ed, hm_uid = 0, hm_gid = 0\<rparr> (Some
     [([0x62], HostLink \<lparr>hm_mode = 0xa1ff, hm_uid = 0, hm_gid = 0\<rparr> (Some [0x61])),
      ([0x61], HostFile \<lparr>hm_mode = 0x81a4, hm_uid = 7, hm_gid = 7\<rparr> (Some [1, 2, 3]))])"

definition example_pack_opts :: PackOptions where
  "example_pack_opts = \<lparr>po_total_blocks = 16, po_block_size = 4096, po_sector_size = 512, po_uuid = replicate 16 0\<rparr>"

lemma example_pack_opts_ok: "pack_opts_ok example_pack_opts"
  by (simp add: pack_opts_ok_def example_pack_opts_def)

theorem pack_then_read_witness:
  "\<exists>d' report sb. pack_from_directory (std_read_at grant_one) (std_write_at grant_one)
      \<lparr>file_data = replicate 65536 0, file_pos = 0\<rparr> [] example_tree example_pack_opts = Ok (d', report) \<and>
    packed_inodes report = 3 \<and> shown (std_read_at grant_one d') sb (sb_rootino sb) (sb_rootino sb) example_tree"
proof -
  obtain m cs where t: "example_tree = HostDir m (Some cs)" by (simp add: example_tree_def)
  have ok: "host_ok example_tree" "host_gapless example_tree" "host_inodes example_tree = 3" "host_blocks example_tree = 3" by code_simp+
  show ?thesis
    using pack_then_read[OF grant_one_ok example_pack_opts_ok, of "\<lparr>file_data = replicate 65536 0, file_pos = 0\<rparr>",
        OF _ _ ok(1,2)[unfolded t], of "[]"] ok(3,4)
    by (auto simp: example_pack_opts_def t)
qed

text \<open>
  Property C28.  A directory in the gap is packed without an error and cannot be read back: the entry for its
  parent is made of the bytes of the extent-directory tag.  The builder picks the form of a directory by the size
  of the short form and the format of its inode by the size of the payload, and the extent form of more than ten
  entries is the smaller of the two.
\<close>

theorem gap_directory_lost:
  assumes "grant_ok grant" and "pack_opts_ok opts"
    and "4096 * unat (po_total_blocks opts) \<le> length (file_data d)" and "length (file_data d) < 2 ^ 64"
    and "host_ok (HostDir m (Some cs))" and "dir_gap (child_names cs)"
    and "8 + (host_inodes (HostDir m (Some cs)) + 7) div 8 + host_blocks (HostDir m (Some cs)) \<le> unat (po_total_blocks opts)"
  shows "\<exists>d' report sb.
    pack_from_directory (std_read_at grant) (std_write_at grant) d source (HostDir m (Some cs)) opts = Ok (d', report) \<and>
    read_superblock (std_read_at grant d') = Ok sb \<and> sb_rootino sb = 64 \<and>
    find_dir_entry (std_read_at grant d') sb (sb_rootino sb) str_dotdot = Ok (Some (0x4952303030310000, 2))"
proof -
  note dev = std_file_block_device[OF assms(1)]
  from block_device.pack_image[OF dev assms(2) _ assms(3,4) refl assms(5,7), of source] obtain d' report sb nodes where
    p: "pack_from_directory (std_read_at grant) (std_write_at grant) d source (HostDir m (Some cs)) opts = Ok (d', report)"
    "read_superblock (std_read_at grant d') = Ok sb" "pack_geometry sb"
    and img: "image_of sb nodes (std_read_at grant d')" "collected nodes 0 0 (HostDir m (Some cs))" by blast
  from img(2) obtain es where n: "0 < length nodes" "nodes ! 0 = host_node m 0 (Directory es)"
    "children_collected nodes 0 (packable_children (host_children cs)) es" by cases auto
  have "map pe_name es = child_names (host_children cs)" by (rule entry_names[OF n(3)])
  then have gap: "dir_gap (map pe_name es)" using assms(6) by (simp add: dir_bytes_children)
  have "nd_kind (nodes ! 0) = Directory es" "nd_mode (nodes ! 0) AND 0xf000 = 0x4000"
    using n(2) assms(5) by (simp_all add: host_node_def mode_bits)
  from read_gap_parent[OF img(1) n(1) this gap] show ?thesis using p by (auto simp: pack_geometry_def)
qed

definition gap_tree :: HostNode where
  "gap_tree = HostDir \<lparr>hm_mode = 0x41ed, hm_uid = 0, hm_gid = 0\<rparr> (Some
     (map (\<lambda>i. (replicate (if i = 0 then 25 else 17) (0x61 + of_nat i),
        HostFile \<lparr>hm_mode = 0x81a4, hm_uid = 0, hm_gid = 0\<rparr> (Some []))) [0..<11]))"

theorem gap_directory_lost_witness:
  "\<exists>d' report sb. pack_from_directory (std_read_at grant_one) (std_write_at grant_one)
      \<lparr>file_data = replicate 65536 0, file_pos = 0\<rparr> [] gap_tree example_pack_opts = Ok (d', report) \<and>
    find_dir_entry (std_read_at grant_one d') sb 64 str_dotdot = Ok (Some (0x4952303030310000, 2))"
proof -
  obtain m cs where t: "gap_tree = HostDir m (Some cs)" by (simp add: gap_tree_def)
  have "case gap_tree of HostDir m (Some cs) \<Rightarrow> dir_gap (child_names cs)" by code_simp
  then have gap: "dir_gap (child_names cs)" by (simp add: t)
  have ok: "host_ok gap_tree" "host_inodes gap_tree = 12" "host_blocks gap_tree = 1" by code_simp+
  show ?thesis
    using gap_directory_lost[OF grant_one_ok example_pack_opts_ok, of "\<lparr>file_data = replicate 65536 0, file_pos = 0\<rparr>",
        OF _ _ ok(1)[unfolded t] gap, of "[]"] ok(2,3)
    by (auto simp: example_pack_opts_def t)
qed

end
