(* ===== verification/Virtio.thy ===== *)
theory Virtio
  imports Block_Device Rust_Coll
begin

text \<open>
  The virtio block driver of \<^verbatim>\<open>kernel/virtio_blk.rs\<close>: the request page and the queue it shares with the device,
  the submission of one request with its bounded wait, and the block device trait on top of it.  The
  device is a parameter, what it does to its own state and to the shared memory at a notification and between two
  looks at the used ring.  An error leaves the driver usable, so operations return their state with either answer;
  the outer option is a panic.  The discovery on the PCI bus and the negotiation through the configuration
  registers are not modelled: the driver is taken as they leave it.
\<close>

abbreviation (input) VIRTQ_DESC_F_NEXT :: u16 where "VIRTQ_DESC_F_NEXT \<equiv> 1"
abbreviation (input) VIRTQ_DESC_F_WRITE :: u16 where "VIRTQ_DESC_F_WRITE \<equiv> 2"
abbreviation (input) VIRTIO_BLK_T_IN :: u32 where "VIRTIO_BLK_T_IN \<equiv> 0"
abbreviation (input) VIRTIO_BLK_T_OUT :: u32 where "VIRTIO_BLK_T_OUT \<equiv> 1"
abbreviation (input) QUEUE_SIZE :: nat where "QUEUE_SIZE \<equiv> 8"
abbreviation (input) REQUEST_TIMEOUT_SPINS :: nat where "REQUEST_TIMEOUT_SPINS \<equiv> 5000000"
abbreviation (input) SECTOR_SIZE :: nat where "SECTOR_SIZE \<equiv> 512"

record VirtqDesc =
  vd_addr :: u64
  vd_len :: u32
  vd_flags :: u16
  vd_next :: u16

text \<open>The pages of the queue: descriptor table, available ring, used index and request page.\<close>

record VqMem =
  vm_desc :: "VirtqDesc list"
  vm_avail_idx :: u16
  vm_avail_ring :: "u16 list"
  vm_used_idx :: u16
  vm_req :: bytes

record VirtioBlkReqHeader =
  rh_req_type :: u32
  rh_reserved :: u32
  rh_sector :: u64

datatype VirtioBlkError = DeviceNotFound | BadCapabilities | MissingCapability | MmioMap | VirtqueueSetup |
  FeatureNegotiation | RequestFailed | Timeout | VbOutOfRange

record VirtQueue =
  vq_mem :: VqMem
  vq_req_phys :: u64
  vq_last_used_idx :: u16

record 'h VirtioBlkDevice =
  vb_capacity_sectors :: u64
  vb_queue :: VirtQueue
  vb_hw :: 'h

record 'h virtio_hw =
  hw_notify :: "'h \<Rightarrow> 'h"
  hw_step :: "'h \<Rightarrow> VqMem \<Rightarrow> 'h \<times> VqMem"

text \<open>\<^verbatim>\<open>*hdr = VirtioBlkReqHeader { .. }\<close>, a \<^verbatim>\<open>repr(C)\<close> structure on a little-endian machine.\<close>

definition header_bytes :: "VirtioBlkReqHeader \<Rightarrow> bytes" where
  "header_bytes h = to_le_bytes (rh_req_type h) @ to_le_bytes (rh_reserved h) @ to_le_bytes (rh_sector h)"

definition capacity_bytes :: "'h VirtioBlkDevice \<Rightarrow> u64" where
  "capacity_bytes d = sat_mul (vb_capacity_sectors d) (of_nat SECTOR_SIZE)"

text \<open>The writes of \<^verbatim>\<open>submit_rw\<close> up to the notification.\<close>

definition fill_request :: "u32 \<Rightarrow> u64 \<Rightarrow> bytes \<Rightarrow> VirtQueue \<Rightarrow> VqMem exec" where
  "fill_request req_type sector data q = do {
     let mem = vq_mem q;
     req \<leftarrow> put_slice 0 (header_bytes \<lparr>rh_req_type = req_type, rh_reserved = 0, rh_sector = sector\<rparr>) (vm_req mem);
     req \<leftarrow> (if req_type = VIRTIO_BLK_T_OUT then put_slice 64 data req else Some req);
     req \<leftarrow> put_byte (64 + SECTOR_SIZE) 0xff req;
     data_addr \<leftarrow> cadd (vq_req_phys q) 64;
     status_addr \<leftarrow> cadd (vq_req_phys q) (of_nat (64 + SECTOR_SIZE));
     desc \<leftarrow> vec_set 0 \<lparr>vd_addr = vq_req_phys q, vd_len = 16, vd_flags = VIRTQ_DESC_F_NEXT, vd_next = 1\<rparr> (vm_desc mem);
     desc \<leftarrow> vec_set 1 \<lparr>vd_addr = data_addr, vd_len = of_nat SECTOR_SIZE,
       vd_flags = (if req_type = VIRTIO_BLK_T_IN then VIRTQ_DESC_F_NEXT OR VIRTQ_DESC_F_WRITE else VIRTQ_DESC_F_NEXT),
       vd_next = 2\<rparr> desc;
     desc \<leftarrow> vec_set 2 \<lparr>vd_addr = status_addr, vd_len = 1, vd_flags = VIRTQ_DESC_F_WRITE, vd_next = 0\<rparr> desc;
     ring \<leftarrow> vec_set (unat (vm_avail_idx mem) mod QUEUE_SIZE) 0 (vm_avail_ring mem);
     Some (mem\<lparr>vm_req := req, vm_desc := desc, vm_avail_ring := ring, vm_avail_idx := vm_avail_idx mem + 1\<rparr>) }"

text \<open>The wait: \<open>k\<close> looks at the used index, the device running before each of them.\<close>

fun poll_used :: "'h virtio_hw \<Rightarrow> nat \<Rightarrow> u16 \<Rightarrow> 'h \<Rightarrow> VqMem \<Rightarrow> bool \<times> 'h \<times> VqMem" where
  "poll_used hw 0 last_used h mem = (False, h, mem)" |
  "poll_used hw (Suc k) last_used h mem =
    (let (h, mem) = hw_step hw h mem in
     if vm_used_idx mem \<noteq> last_used then (True, h, mem) else poll_used hw k last_used h mem)"

definition submit_rw :: "'h virtio_hw \<Rightarrow> u32 \<Rightarrow> u64 \<Rightarrow> bytes \<Rightarrow> 'h VirtioBlkDevice \<Rightarrow>
    ((VirtioBlkError + bytes) \<times> 'h VirtioBlkDevice) exec" where
  "submit_rw hw req_type sector data d =
    (if length data \<noteq> SECTOR_SIZE then Some (Inl RequestFailed, d)
     else do {
       mem \<leftarrow> fill_request req_type sector data (vb_queue d);
       let (completed, h, mem) =
         poll_used hw (REQUEST_TIMEOUT_SPINS + 1) (vq_last_used_idx (vb_queue d)) (hw_notify hw (vb_hw d)) mem;
       let d = d\<lparr>vb_hw := h, vb_queue := (vb_queue d)\<lparr>vq_mem := mem\<rparr>\<rparr>;
       if \<not> completed then Some (Inl Timeout, d)
       else do {
         let d = d\<lparr>vb_queue := (vb_queue d)\<lparr>vq_last_used_idx := vm_used_idx mem\<rparr>\<rparr>;
         status \<leftarrow> get_byte (vm_req mem) (64 + SECTOR_SIZE);
         if status \<noteq> 0 then Some (Inl RequestFailed, d)
         else if req_type = VIRTIO_BLK_T_IN
         then do { data \<leftarrow> get_range (vm_req mem) 64 (64 + SECTOR_SIZE); Some (Inr data, d) }
         else Some (Inr data, d) } })"

definition read_sector :: "'h virtio_hw \<Rightarrow> u64 \<Rightarrow> 'h VirtioBlkDevice \<Rightarrow> ((VirtioBlkError + bytes) \<times> 'h VirtioBlkDevice) exec" where
  "read_sector hw sector d =
    (if sector \<ge> vb_capacity_sectors d then Some (Inl VbOutOfRange, d)
     else submit_rw hw VIRTIO_BLK_T_IN sector (replicate SECTOR_SIZE 0) d)"

definition write_sector :: "'h virtio_hw \<Rightarrow> u64 \<Rightarrow> bytes \<Rightarrow> 'h VirtioBlkDevice \<Rightarrow> ((VirtioBlkError + bytes) \<times> 'h VirtioBlkDevice) exec" where
  "write_sector hw sector data d =
    (if sector \<ge> vb_capacity_sectors d then Some (Inl VbOutOfRange, d)
     else submit_rw hw VIRTIO_BLK_T_OUT sector data d)"

section \<open>The block device\<close>

lemma in_sector_less: "unat (off mod of_nat SECTOR_SIZE :: u64) < SECTOR_SIZE"
  by (simp add: unat_mod)

function vb_read_loop :: "'h virtio_hw \<Rightarrow> u64 \<Rightarrow> nat \<Rightarrow> bytes \<Rightarrow> 'h VirtioBlkDevice \<Rightarrow>
    ((DeviceError + bytes) \<times> 'h VirtioBlkDevice) exec" where
  "vb_read_loop hw cur_off remaining buf d =
    (if remaining > 0
     then do {
       let sector = cur_off div of_nat SECTOR_SIZE;
       let in_sector = unat (cur_off mod of_nat SECTOR_SIZE);
       let tk = min remaining (SECTOR_SIZE - in_sector);
       (r, d) \<leftarrow> read_sector hw sector d;
       case r of
         Inl _ \<Rightarrow> Some (Inl Io, d)
       | Inr tmp \<Rightarrow> do {
           part \<leftarrow> get_range tmp in_sector (in_sector + tk);
           cur_off \<leftarrow> cadd cur_off (of_nat tk);
           vb_read_loop hw cur_off (remaining - tk) (buf @ part) d } }
     else Some (Inr buf, d))"
  by pat_completeness auto
termination
  by (relation "measure (\<lambda>(hw, off, remaining, buf, d). remaining)")
    (use in_sector_less in \<open>auto simp: Let_def min_def\<close>)

function vb_write_loop :: "'h virtio_hw \<Rightarrow> u64 \<Rightarrow> bytes \<Rightarrow> 'h VirtioBlkDevice \<Rightarrow>
    ((DeviceError + unit) \<times> 'h VirtioBlkDevice) exec" where
  "vb_write_loop hw cur_off buf d =
    (if length buf > 0
     then do {
       let sector = cur_off div of_nat SECTOR_SIZE;
       let in_sector = unat (cur_off mod of_nat SECTOR_SIZE);
       let tk = min (length buf) (SECTOR_SIZE - in_sector);
       (r, d) \<leftarrow> (if tk \<noteq> SECTOR_SIZE then read_sector hw sector d else Some (Inr (replicate SECTOR_SIZE 0), d));
       case r of
         Inl _ \<Rightarrow> Some (Inl Io, d)
       | Inr tmp \<Rightarrow> do {
           tmp \<leftarrow> put_slice in_sector (take tk buf) tmp;
           (r, d) \<leftarrow> write_sector hw sector tmp d;
           case r of
             Inl _ \<Rightarrow> Some (Inl Io, d)
           | Inr _ \<Rightarrow> do {
               cur_off \<leftarrow> cadd cur_off (of_nat tk);
               vb_write_loop hw cur_off (drop tk buf) d } } }
     else Some (Inr (), d))"
  by pat_completeness auto
termination
  by (relation "measure (\<lambda>(hw, off, buf, d). length buf)")
    (use in_sector_less in \<open>auto simp: Let_def min_def\<close>)

declare vb_read_loop.simps [simp del] vb_write_loop.simps [simp del]

definition vb_read_at :: "'h virtio_hw \<Rightarrow> u64 \<Rightarrow> nat \<Rightarrow> 'h VirtioBlkDevice \<Rightarrow> ((DeviceError + bytes) \<times> 'h VirtioBlkDevice) exec" where
  "vb_read_at hw offset n d =
    (if sat_add offset (of_nat n) > capacity_bytes d then Some (Inl OutOfRange, d)
     else if n = 0 then Some (Inr [], d)
     else vb_read_loop hw offset n [] d)"

definition vb_write_at :: "'h virtio_hw \<Rightarrow> u64 \<Rightarrow> bytes \<Rightarrow> 'h VirtioBlkDevice \<Rightarrow> ((DeviceError + unit) \<times> 'h VirtioBlkDevice) exec" where
  "vb_write_at hw offset buf d =
    (if sat_add offset (of_nat (length buf)) > capacity_bytes d then Some (Inl OutOfRange, d)
     else if buf = [] then Some (Inr (), d)
     else vb_write_loop hw offset buf d)"

end
