(* ===== verification/Virtio_Disk.thy ===== *)
theory Virtio_Disk
  imports Virtio "HOL-Library.Code_Target_Nat"
begin

text \<open>
  The virtio driver of \<^verbatim>\<open>kernel/virtio_blk.rs\<close> on a device that follows the specification: \<open>conforming\<close> says what the
  device makes of a descriptor chain and that it does so within the driver's wait.  On such a device the driver is a flat
  disk and a block device in the sense of the file system library.
\<close>

unbundle bit_operations_syntax

section \<open>What a virtio block device does\<close>

record BlkChain =
  ch_type :: u32
  ch_sector :: nat
  ch_data :: nat
  ch_len :: nat
  ch_status :: nat

definition next_chain :: "u64 \<Rightarrow> VqMem \<Rightarrow> BlkChain" where
  "next_chain phys mem =
    (let pos = (\<lambda>d. unat (vd_addr d - phys));
         d0 = vm_desc mem ! unat (vm_avail_ring mem ! (unat (vm_used_idx mem) mod QUEUE_SIZE));
         d1 = vm_desc mem ! unat (vd_next d0);
         d2 = vm_desc mem ! unat (vd_next d1) in
     \<lparr>ch_type = from_le_bytes (rd (vm_req mem) (pos d0) 4), ch_sector = unat (from_le_bytes (rd (vm_req mem) (pos d0 + 8) 8) :: u64),
      ch_data = pos d1, ch_len = unat (vd_len d1), ch_status = pos d2\<rparr>)"

definition serve :: "u64 \<Rightarrow> bytes \<Rightarrow> VqMem \<Rightarrow> bytes \<times> VqMem" where
  "serve phys disk mem =
    (let c = next_chain phys mem; req = vm_req mem; pos = SECTOR_SIZE * ch_sector c in
     if ch_type c = VIRTIO_BLK_T_IN
     then (disk, mem\<lparr>vm_req := wr (wr req (ch_data c) (rd disk pos (ch_len c))) (ch_status c) [0], vm_used_idx := vm_used_idx mem + 1\<rparr>)
     else (wr disk pos (rd req (ch_data c) (ch_len c)), mem\<lparr>vm_req := wr req (ch_status c) [0], vm_used_idx := vm_used_idx mem + 1\<rparr>))"

definition hw_run :: "'h virtio_hw \<Rightarrow> nat \<Rightarrow> 'h \<times> VqMem \<Rightarrow> 'h \<times> VqMem" where
  "hw_run hw k = (\<lambda>(h, mem). hw_step hw h mem) ^^ k"

definition conforming :: "'h virtio_hw \<Rightarrow> ('h \<Rightarrow> bytes) \<Rightarrow> u64 \<Rightarrow> bool" where
  "conforming hw disk phys \<longleftrightarrow> (\<forall>h mem.
     vm_avail_idx mem = vm_used_idx mem + 1 \<longrightarrow>
     SECTOR_SIZE * ch_sector (next_chain phys mem) + ch_len (next_chain phys mem) \<le> length (disk h) \<longrightarrow>
     (\<exists>k \<le> REQUEST_TIMEOUT_SPINS.
        (\<forall>j \<le> k. vm_used_idx (snd (hw_run hw j (hw_notify hw h, mem))) = vm_used_idx mem) \<and>
        (disk (fst (hw_run hw (Suc k) (hw_notify hw h, mem))), snd (hw_run hw (Suc k) (hw_notify hw h, mem))) =
          serve phys (disk h) mem))"

lemma hw_run_Suc: "hw_run hw (Suc k) (h, mem) = hw_run hw k (hw_step hw h mem)"
  by (simp add: hw_run_def funpow_swap1)

lemma poll_used_completes:
  assumes "\<forall>j \<le> k. vm_used_idx (snd (hw_run hw j (h, mem))) = lu" "vm_used_idx (snd (hw_run hw (Suc k) (h, mem))) \<noteq> lu" "k < fuel"
  shows "poll_used hw fuel lu h mem = (True, fst (hw_run hw (Suc k) (h, mem)), snd (hw_run hw (Suc k) (h, mem)))"
  using assms
proof (induction k arbitrary: fuel h mem)
  case 0
  then show ?case by (cases fuel) (auto simp: hw_run_def split: prod.splits)
next
  case (Suc k)
  obtain h1 m1 where s: "hw_step hw h mem = (h1, m1)" by (cases "hw_step hw h mem")
  obtain f where f: "fuel = Suc f" using Suc.prems(3) by (cases fuel) auto
  have "vm_used_idx m1 = lu" using Suc.prems(1)[rule_format, of 1] s by (simp add: hw_run_def)
  moreover have "poll_used hw f lu h1 m1 = (True, fst (hw_run hw (Suc k) (h1, m1)), snd (hw_run hw (Suc k) (h1, m1)))"
  proof (rule Suc.IH)
    show "\<forall>j \<le> k. vm_used_idx (snd (hw_run hw j (h1, m1))) = lu"
      using Suc.prems(1) s by (metis Suc_le_mono hw_run_Suc)
  qed (use Suc.prems s f in \<open>simp_all add: hw_run_Suc\<close>)
  ultimately show ?case using s f by (simp add: hw_run_Suc)
qed

section \<open>One request\<close>

definition vb_ok :: "('h \<Rightarrow> bytes) \<Rightarrow> 'h VirtioBlkDevice \<Rightarrow> bool" where
  "vb_ok disk d \<longleftrightarrow>
     (let q = vb_queue d; mem = vq_mem q in
      length (vm_desc mem) = QUEUE_SIZE \<and> length (vm_avail_ring mem) = QUEUE_SIZE \<and> length (vm_req mem) = 4096 \<and>
      unat (vq_req_phys q) + 4096 < 2 ^ 64 \<and> vm_avail_idx mem = vm_used_idx mem \<and> vq_last_used_idx q = vm_used_idx mem \<and>
      length (disk (vb_hw d)) = SECTOR_SIZE * unat (vb_capacity_sectors d) \<and> length (disk (vb_hw d)) < 2 ^ 64)"

lemma length_header_bytes [simp]: "length (header_bytes h) = 16"
  by (simp add: header_bytes_def)

definition request_page :: "u32 \<Rightarrow> u64 \<Rightarrow> bytes \<Rightarrow> bytes \<Rightarrow> bytes" where
  "request_page ty sector data req =
    (let req = wr req 0 (header_bytes \<lparr>rh_req_type = ty, rh_reserved = 0, rh_sector = sector\<rparr>);
         req = (if ty = VIRTIO_BLK_T_OUT then wr req 64 data else req) in wr req 576 [0xff])"

lemma fill_request_Some:
  assumes ok: "vb_ok disk d" and len: "length data = 512"
  shows "\<exists>mem. fill_request ty sector data (vb_queue d) = Some mem \<and>
    length (vm_desc mem) = 8 \<and> length (vm_avail_ring mem) = 8 \<and> vm_req mem = request_page ty sector data (vm_req (vq_mem (vb_queue d))) \<and>
    vm_used_idx mem = vm_used_idx (vq_mem (vb_queue d)) \<and> vm_avail_idx mem = vm_used_idx mem + 1 \<and>
    next_chain (vq_req_phys (vb_queue d)) mem = \<lparr>ch_type = from_le_bytes (rd (vm_req mem) 0 4),
      ch_sector = unat (from_le_bytes (rd (vm_req mem) 8 8) :: u64), ch_data = 64, ch_len = 512, ch_status = 576\<rparr>"
proof -
  let ?q = "vb_queue d" and ?m = "vq_mem (vb_queue d)"
  have m: "length (vm_desc ?m) = 8" "length (vm_avail_ring ?m) = 8" "length (vm_req ?m) = 4096" "unat (vq_req_phys ?q) + 4096 < 2 ^ 64"
    "vm_avail_idx ?m = vm_used_idx ?m" using ok by (simp_all add: vb_ok_def Let_def)
  have a: "cadd (vq_req_phys ?q) 64 = Some (vq_req_phys ?q + 64)" "cadd (vq_req_phys ?q) 576 = Some (vq_req_phys ?q + 576)"
    using m(4) by (simp_all add: cadd_def)
  have slot: "unat (vm_used_idx ?m) mod 8 < 8" by simp
  show ?thesis unfolding fill_request_def using m a len slot
    by (auto simp: put_slice_def put_byte_def vec_set_def request_page_def next_chain_def Let_def nth_list_update)
qed


lemma request_page_fields:
  assumes "length req = 4096" "length data = 512"
  shows "from_le_bytes (rd (request_page ty sector data req) 0 4) = ty"
    "from_le_bytes (rd (request_page ty sector data req) 8 8) = sector"
    "ty = VIRTIO_BLK_T_OUT \<Longrightarrow> rd (request_page ty sector data req) 64 512 = data"
    "length (request_page ty sector data req) = 4096"
  using assms by (simp_all add: request_page_def Let_def rd_def wr_def header_bytes_def)

lemma submit_served:
  assumes ok: "vb_ok disk d" and hw: "conforming hw disk (vq_req_phys (vb_queue d))" and len: "length data = 512"
    and sec: "unat sector < unat (vb_capacity_sectors d)"
  shows "\<exists>h mem. fill_request ty sector data (vb_queue d) = Some mem \<and>
    poll_used hw (REQUEST_TIMEOUT_SPINS + 1) (vq_last_used_idx (vb_queue d)) (hw_notify hw (vb_hw d)) mem =
      (True, h, snd (serve (vq_req_phys (vb_queue d)) (disk (vb_hw d)) mem)) \<and>
    disk h = fst (serve (vq_req_phys (vb_queue d)) (disk (vb_hw d)) mem) \<and>
    length (vm_desc mem) = 8 \<and> length (vm_avail_ring mem) = 8 \<and> vm_avail_idx mem = vm_used_idx mem + 1 \<and>
    next_chain (vq_req_phys (vb_queue d)) mem = \<lparr>ch_type = ty, ch_sector = unat sector, ch_data = 64, ch_len = 512, ch_status = 576\<rparr> \<and>
    length (vm_req mem) = 4096 \<and> (ty = VIRTIO_BLK_T_OUT \<longrightarrow> rd (vm_req mem) 64 512 = data)"
proof -
  let ?p = "vq_req_phys (vb_queue d)"
  from fill_request_Some[OF ok len, of ty sector] obtain mem where mem: "fill_request ty sector data (vb_queue d) = Some mem"
    "length (vm_desc mem) = 8" "length (vm_avail_ring mem) = 8" "vm_req mem = request_page ty sector data (vm_req (vq_mem (vb_queue d)))"
    "vm_used_idx mem = vm_used_idx (vq_mem (vb_queue d))" "vm_avail_idx mem = vm_used_idx mem + 1"
    "next_chain ?p mem = \<lparr>ch_type = from_le_bytes (rd (vm_req mem) 0 4),
      ch_sector = unat (from_le_bytes (rd (vm_req mem) 8 8) :: u64), ch_data = 64, ch_len = 512, ch_status = 576\<rparr>" by blast
  have r: "length (vm_req (vq_mem (vb_queue d))) = 4096" "vq_last_used_idx (vb_queue d) = vm_used_idx mem"
    "length (disk (vb_hw d)) = 512 * unat (vb_capacity_sectors d)" using ok mem(5) by (simp_all add: vb_ok_def Let_def)
  note f = request_page_fields[OF r(1) len, of ty sector, folded mem(4)]
  have ch: "next_chain ?p mem = \<lparr>ch_type = ty, ch_sector = unat sector, ch_data = 64, ch_len = 512, ch_status = 576\<rparr>"
    using mem(7) f(1,2) by simp
  have "512 * unat sector + 512 \<le> length (disk (vb_hw d))" using sec r(3) by simp
  with hw[unfolded conforming_def, rule_format, OF mem(6), of "vb_hw d"] ch obtain k where
    k: "k \<le> REQUEST_TIMEOUT_SPINS" "\<forall>j \<le> k. vm_used_idx (snd (hw_run hw j (hw_notify hw (vb_hw d), mem))) = vm_used_idx mem"
    "(disk (fst (hw_run hw (Suc k) (hw_notify hw (vb_hw d), mem))), snd (hw_run hw (Suc k) (hw_notify hw (vb_hw d), mem))) =
      serve ?p (disk (vb_hw d)) mem" by auto
  have used: "vm_used_idx (snd (serve ?p (disk (vb_hw d)) mem)) = vm_used_idx mem + 1" by (simp add: serve_def Let_def)
  have sn: "snd (hw_run hw (Suc k) (hw_notify hw (vb_hw d), mem)) = snd (serve ?p (disk (vb_hw d)) mem)" using k(3) by (metis snd_conv)
  have ne: "vm_used_idx (snd (hw_run hw (Suc k) (hw_notify hw (vb_hw d), mem))) \<noteq> vm_used_idx mem" unfolding sn used by simp
  have "poll_used hw (REQUEST_TIMEOUT_SPINS + 1) (vm_used_idx mem) (hw_notify hw (vb_hw d)) mem =
    (True, fst (hw_run hw (Suc k) (hw_notify hw (vb_hw d), mem)), snd (serve ?p (disk (vb_hw d)) mem))"
    unfolding sn[symmetric] by (rule poll_used_completes[OF k(2) ne]) (use k(1) in simp)
  then show ?thesis using mem ch f r k(3) by (metis fst_conv)
qed

lemma submit_in:
  assumes ok: "vb_ok disk d" and hw: "conforming hw disk (vq_req_phys (vb_queue d))" and sec: "unat sector < unat (vb_capacity_sectors d)"
  shows "\<exists>d'. read_sector hw sector d = Some (Inr (rd (disk (vb_hw d)) (512 * unat sector) 512), d') \<and> vb_ok disk d' \<and>
    disk (vb_hw d') = disk (vb_hw d) \<and> vq_req_phys (vb_queue d') = vq_req_phys (vb_queue d) \<and> vb_capacity_sectors d' = vb_capacity_sectors d"
proof -
  let ?D = "disk (vb_hw d)"
  have dl: "length ?D = 512 * unat (vb_capacity_sectors d)" using ok by (simp add: vb_ok_def Let_def)
  have rl: "length (rd ?D (512 * unat sector) 512) = 512" using sec dl by simp
  from submit_served[OF ok hw _ sec, of "replicate 512 0" 0] obtain h mem where s: "fill_request 0 sector (replicate 512 0) (vb_queue d) = Some mem"
    "poll_used hw (REQUEST_TIMEOUT_SPINS + 1) (vq_last_used_idx (vb_queue d)) (hw_notify hw (vb_hw d)) mem =
      (True, h, snd (serve (vq_req_phys (vb_queue d)) ?D mem))" "disk h = fst (serve (vq_req_phys (vb_queue d)) ?D mem)"
    "length (vm_desc mem) = 8" "length (vm_avail_ring mem) = 8" "vm_avail_idx mem = vm_used_idx mem + 1"
    "next_chain (vq_req_phys (vb_queue d)) mem = \<lparr>ch_type = 0, ch_sector = unat sector, ch_data = 64, ch_len = 512, ch_status = 576\<rparr>"
    "length (vm_req mem) = 4096" by auto
  let ?req = "wr (wr (vm_req mem) 64 (rd ?D (512 * unat sector) 512)) 576 [0]"
  have sv: "serve (vq_req_phys (vb_queue d)) ?D mem = (?D, mem\<lparr>vm_req := ?req, vm_used_idx := vm_used_idx mem + 1\<rparr>)"
    by (simp add: serve_def s(7))
  have b: "get_byte ?req 576 = Some 0" "get_range ?req 64 576 = Some (rd ?D (512 * unat sector) 512)"
    using s(8) rl by (simp_all add: exec_simps buf_simps)
  have "\<not> vb_capacity_sectors d \<le> sector" using sec by (simp add: word_le_nat_alt)
  then show ?thesis using s sv b ok
    by (auto simp: read_sector_def submit_rw_def Let_def vb_ok_def)
qed

lemma submit_out:
  assumes ok: "vb_ok disk d" and hw: "conforming hw disk (vq_req_phys (vb_queue d))" and sec: "unat sector < unat (vb_capacity_sectors d)"
    and len: "length data = 512"
  shows "\<exists>d'. write_sector hw sector data d = Some (Inr data, d') \<and> vb_ok disk d' \<and>
    disk (vb_hw d') = wr (disk (vb_hw d)) (512 * unat sector) data \<and> vq_req_phys (vb_queue d') = vq_req_phys (vb_queue d) \<and>
    vb_capacity_sectors d' = vb_capacity_sectors d"
proof -
  let ?D = "disk (vb_hw d)"
  from submit_served[OF ok hw len sec, of 1] obtain h mem where s: "fill_request 1 sector data (vb_queue d) = Some mem"
    "poll_used hw (REQUEST_TIMEOUT_SPINS + 1) (vq_last_used_idx (vb_queue d)) (hw_notify hw (vb_hw d)) mem =
      (True, h, snd (serve (vq_req_phys (vb_queue d)) ?D mem))" "disk h = fst (serve (vq_req_phys (vb_queue d)) ?D mem)"
    "length (vm_desc mem) = 8" "length (vm_avail_ring mem) = 8" "vm_avail_idx mem = vm_used_idx mem + 1"
    "next_chain (vq_req_phys (vb_queue d)) mem = \<lparr>ch_type = 1, ch_sector = unat sector, ch_data = 64, ch_len = 512, ch_status = 576\<rparr>"
    "length (vm_req mem) = 4096" "rd (vm_req mem) 64 512 = data" by auto
  let ?req = "wr (vm_req mem) 576 [0]"
  have sv: "serve (vq_req_phys (vb_queue d)) ?D mem =
      (wr ?D (512 * unat sector) data, mem\<lparr>vm_req := ?req, vm_used_idx := vm_used_idx mem + 1\<rparr>)"
    by (simp add: serve_def s(7,9))
  have b: "get_byte ?req 576 = Some 0" using s(8) by (simp add: exec_simps buf_simps)
  have "\<not> vb_capacity_sectors d \<le> sector" using sec by (simp add: word_le_nat_alt)
  then show ?thesis using s sv b ok len
    by (auto simp: write_sector_def submit_rw_def Let_def vb_ok_def)
qed


section \<open>Ranges of bytes\<close>

text \<open>The driver after a request: usable, and its disk as given.\<close>

definition vb_next :: "('h \<Rightarrow> bytes) \<Rightarrow> 'h VirtioBlkDevice \<Rightarrow> bytes \<Rightarrow> 'h VirtioBlkDevice \<Rightarrow> bool" where
  "vb_next disk d content d' \<longleftrightarrow> vb_ok disk d' \<and> disk (vb_hw d') = content \<and>
     vq_req_phys (vb_queue d') = vq_req_phys (vb_queue d) \<and> vb_capacity_sectors d' = vb_capacity_sectors d"

lemma sector_of:
  assumes "vb_ok disk d" "unat (off :: u64) < length (disk (vb_hw d))"
  shows "unat (off div 512) = unat off div 512" "unat (off mod 512) = unat off mod 512"
    "unat (off div 512) < unat (vb_capacity_sectors d)" "512 * (unat off div 512) + 512 \<le> length (disk (vb_hw d))"
proof -
  have len: "length (disk (vb_hw d)) = 512 * unat (vb_capacity_sectors d)" using assms(1) by (simp add: vb_ok_def Let_def)
  show e: "unat (off div 512) = unat off div 512" "unat (off mod 512) = unat off mod 512" by (simp_all add: unat_div unat_mod)
  have "unat off div 512 < unat (vb_capacity_sectors d)" using assms(2) len by (simp add: div_less_iff_less_mult mult.commute)
  then show "unat (off div 512) < unat (vb_capacity_sectors d)" "512 * (unat off div 512) + 512 \<le> length (disk (vb_hw d))"
    using e(1) len by simp_all
qed

lemma vb_read_loop_reads:
  assumes "vb_ok disk d" "conforming hw disk (vq_req_phys (vb_queue d))" "unat off + n \<le> length (disk (vb_hw d))"
  shows "\<exists>d'. vb_read_loop hw off n buf d = Some (Inr (buf @ rd (disk (vb_hw d)) (unat off) n), d') \<and> vb_next disk d (disk (vb_hw d)) d'"
  using assms
proof (induction n arbitrary: off buf d rule: less_induct)
  case (less n)
  let ?D = "disk (vb_hw d)"
  show ?case
  proof (cases "n = 0")
    case True
    then show ?thesis using less.prems by (simp add: vb_read_loop.simps[of hw off] vb_next_def rd_def)
  next
    case False
    let ?i = "unat off mod 512" and ?s = "off div 512"
    let ?t = "min n (512 - ?i)"
    have lt: "unat off < length ?D" using less.prems(3) False by simp
    note sec = sector_of[OF less.prems(1) lt]
    from submit_in[OF less.prems(1,2) sec(3)] obtain d1 where d1: "read_sector hw ?s d = Some (Inr (rd ?D (512 * (unat off div 512)) 512), d1)"
      "vb_ok disk d1" "disk (vb_hw d1) = ?D" "vq_req_phys (vb_queue d1) = vq_req_phys (vb_queue d)"
      "vb_capacity_sectors d1 = vb_capacity_sectors d" unfolding sec(1) by blast
    have i: "?i < 512" "512 * (unat off div 512) + ?i = unat off" by simp_all
    have t: "0 < ?t" "?i + ?t \<le> 512" "unat off + ?t \<le> length ?D" using i(1) False less.prems(3) by auto
    have part: "get_range (rd ?D (512 * (unat off div 512)) 512) ?i (?i + ?t) = Some (rd ?D (unat off) ?t)"
      using t sec(4) i by (simp add: get_range_def rd_rd)
    have "length ?D < 2 ^ 64" using less.prems(1) by (simp add: vb_ok_def Let_def)
    then have o: "cadd off (of_nat ?t) = Some (off + of_nat ?t)" "unat (off + of_nat ?t) = unat off + ?t"
      using t(3) by (simp_all add: cadd_def unat_word_ariths unat_of_nat)
    have m: "n - ?t < n" "unat (off + of_nat ?t) + (n - ?t) \<le> length (disk (vb_hw d1))"
      using t(1) less.prems(3) unfolding o(2) d1(3) by linarith+
    note ih = less.IH[OF m(1) d1(2) less.prems(2)[folded d1(4)] m(2)]
    from ih[of "buf @ rd ?D (unat off) ?t"] obtain d' where d': "vb_read_loop hw (off + of_nat ?t) (n - ?t) (buf @ rd ?D (unat off) ?t) d1 =
        Some (Inr (buf @ rd ?D (unat off) n), d')" "vb_next disk d1 ?D d'"
      using rd_split[of ?D "unat off" ?t "n - ?t"] t(1) d1(3) o(2) by auto
    have "vb_read_loop hw off n buf d = vb_read_loop hw (off + of_nat ?t) (n - ?t) (buf @ rd ?D (unat off) ?t) d1"
      using False d1(1) part o(1) sec(2) by (simp add: vb_read_loop.simps[of hw off] Let_def)
    then show ?thesis using d' d1 by (auto simp: vb_next_def)
  qed
qed

lemma wr_in_sector:
  assumes "i + length xs \<le> 512" "p + 512 \<le> length D"
  shows "wr D p (wr (rd D p 512) i xs) = wr D (p + i) xs"
  using assms by (intro nth_equalityI) (auto simp: nth_wr nth_rd)

lemma vb_write_loop_writes:
  assumes "vb_ok disk d" "conforming hw disk (vq_req_phys (vb_queue d))" "unat off + length xs \<le> length (disk (vb_hw d))"
  shows "\<exists>d'. vb_write_loop hw off xs d = Some (Inr (), d') \<and> vb_next disk d (wr (disk (vb_hw d)) (unat off) xs) d'"
  using assms
proof (induction "length xs" arbitrary: off xs d rule: less_induct)
  case less
  let ?D = "disk (vb_hw d)"
  show ?case
  proof (cases "xs = []")
    case True
    then show ?thesis using less.prems by (simp add: vb_write_loop.simps[of hw off] vb_next_def wr_def)
  next
    case False
    let ?i = "unat off mod 512" and ?s = "off div 512" and ?p = "512 * (unat off div 512)"
    let ?t = "min (length xs) (512 - ?i)"
    have lt: "unat off < length ?D" using less.prems(3) False by (cases xs) auto
    note sec = sector_of[OF less.prems(1) lt]
    have i: "?i < 512" "?p + ?i = unat off" by simp_all
    have t: "0 < ?t" "?i + ?t \<le> 512" "unat off + ?t \<le> length ?D" using i(1) False less.prems(3) by auto
    define tmp where "tmp = (if ?t \<noteq> 512 then rd ?D ?p 512 else replicate 512 0)"
    obtain d1 where d1: "(if ?t \<noteq> 512 then read_sector hw ?s d else Some (Inr (replicate 512 0), d)) = Some (Inr tmp, d1)"
      "vb_next disk d ?D d1"
    proof (cases "?t \<noteq> 512")
      case True
      then show ?thesis using that submit_in[OF less.prems(1,2) sec(3)] unfolding sec(1) tmp_def vb_next_def if_P[OF True] by blast
    next
      case False
      then show ?thesis using that[of d] less.prems(1) by (simp add: tmp_def vb_next_def)
    qed
    have ltmp: "length tmp = 512" using sec(4) by (simp add: tmp_def)
    have eq: "wr ?D ?p (wr tmp ?i (take ?t xs)) = wr ?D (unat off) (take ?t xs)"
    proof (cases "?t = 512")
      case True
      then have "?i = 0" "length (take ?t xs) = 512" using t(2) by auto
      then show ?thesis using i(2) True by (simp add: tmp_def wr_def)
    next
      case False
      then show ?thesis using wr_in_sector[of ?i "take ?t xs" ?p ?D] t(2) sec(4) i(2) by (simp add: tmp_def)
    qed
    have "vb_ok disk d1" "conforming hw disk (vq_req_phys (vb_queue d1))" "unat ?s < unat (vb_capacity_sectors d1)"
      using d1(2) less.prems(2) sec(3) by (simp_all add: vb_next_def)
    from submit_out[OF this, of "wr tmp ?i (take ?t xs)"] obtain d2 where
      d2: "write_sector hw ?s (wr tmp ?i (take ?t xs)) d1 = Some (Inr (wr tmp ?i (take ?t xs)), d2)" "vb_next disk d (wr ?D (unat off) (take ?t xs)) d2"
      using ltmp d1(2) eq unfolding vb_next_def sec(1) by auto
    have put: "put_slice ?i (take ?t xs) tmp = Some (wr tmp ?i (take ?t xs))" using ltmp t(2) by (simp add: put_slice_def)
    have "length ?D < 2 ^ 64" using less.prems(1) by (simp add: vb_ok_def Let_def)
    then have o: "cadd off (of_nat ?t) = Some (off + of_nat ?t)" "unat (off + of_nat ?t) = unat off + ?t"
      using t(3) by (simp_all add: cadd_def unat_word_ariths unat_of_nat)
    have d2n: "vb_ok disk d2" "disk (vb_hw d2) = wr ?D (unat off) (take ?t xs)" "vq_req_phys (vb_queue d2) = vq_req_phys (vb_queue d)"
      using d2(2) by (simp_all add: vb_next_def)
    have m: "length (drop ?t xs) < length xs" "unat (off + of_nat ?t) + length (drop ?t xs) \<le> length (disk (vb_hw d2))"
      using t(1) less.prems(3) unfolding o(2) d2n(2) length_drop length_wr by linarith+
    from less.hyps[OF m(1) d2n(1) less.prems(2)[folded d2n(3)] m(2)] obtain d' where d': "vb_write_loop hw (off + of_nat ?t) (drop ?t xs) d2 = Some (Inr (), d')"
        "vb_next disk d2 (wr (wr ?D (unat off) (take ?t xs)) (unat off + ?t) (drop ?t xs)) d'"
      unfolding o(2) d2n(2) by blast
    have "wr (wr ?D (unat off) (take ?t xs)) (unat off + ?t) (drop ?t xs) = wr ?D (unat off) xs"
      using wr_split[of "unat off" "take ?t xs" "drop ?t xs" ?D] less.prems(3) by simp
    moreover have "vb_write_loop hw off xs d = vb_write_loop hw (off + of_nat ?t) (drop ?t xs) d2"
      using False d1(1) put d2(1) o(1) sec(2) by (simp add: vb_write_loop.simps[of hw off] Let_def)
    ultimately show ?thesis using d' d2(2) by (auto simp: vb_next_def)
  qed
qed


lemma unat_capacity: "vb_ok disk d \<Longrightarrow> unat (capacity_bytes d) = length (disk (vb_hw d))"
  by (simp add: capacity_bytes_def unat_sat_mul vb_ok_def Let_def)

lemma in_capacity:
  assumes "vb_ok disk d" "n < 2 ^ 64"
  shows "capacity_bytes d < sat_add off (of_nat n) \<longleftrightarrow> \<not> unat off + n \<le> length (disk (vb_hw d))"
proof -
  have "length (disk (vb_hw d)) = 512 * unat (vb_capacity_sectors d)" "length (disk (vb_hw d)) < 2 ^ 64"
    using assms(1) by (simp_all add: vb_ok_def Let_def)
  moreover from this have "unat (vb_capacity_sectors d) < 2 ^ 55" by simp
  ultimately have "length (disk (vb_hw d)) < 2 ^ 64 - 1" by simp
  then show ?thesis using unat_capacity[OF assms(1)] assms(2) by (auto simp: word_less_nat_alt unat_sat_add unat_of_nat min_def)
qed

section \<open>The driver as a flat disk\<close>

datatype disk_op = DiskRead u64 nat | DiskWrite u64 bytes

fun op_len :: "disk_op \<Rightarrow> nat" where
  "op_len (DiskRead off n) = n" |
  "op_len (DiskWrite off xs) = length xs"

text \<open>A reply is the error, the bytes read, or nothing for a write.\<close>

type_synonym disk_reply = "DeviceError + bytes"

fun flat_op :: "disk_op \<Rightarrow> bytes \<Rightarrow> disk_reply \<times> bytes" where
  "flat_op (DiskRead off n) c = (if unat off + n \<le> length c then (Inr (rd c (unat off) n), c) else (Inl OutOfRange, c))" |
  "flat_op (DiskWrite off xs) c = (if unat off + length xs \<le> length c then (Inr [], wr c (unat off) xs) else (Inl OutOfRange, c))"

fun vb_op :: "'h virtio_hw \<Rightarrow> disk_op \<Rightarrow> 'h VirtioBlkDevice \<Rightarrow> (disk_reply \<times> 'h VirtioBlkDevice) exec" where
  "vb_op hw (DiskRead off n) d = vb_read_at hw off n d" |
  "vb_op hw (DiskWrite off xs) d = do { (r, d) \<leftarrow> vb_write_at hw off xs d; Some (map_sum id (\<lambda>_. []) r, d) }"

fun flat_run :: "disk_op list \<Rightarrow> bytes \<Rightarrow> disk_reply list \<times> bytes" where
  "flat_run [] c = ([], c)" |
  "flat_run (p # ps) c = (let (r, c) = flat_op p c; (rs, c) = flat_run ps c in (r # rs, c))"

fun vb_run :: "'h virtio_hw \<Rightarrow> disk_op list \<Rightarrow> 'h VirtioBlkDevice \<Rightarrow> (disk_reply list \<times> 'h VirtioBlkDevice) exec" where
  "vb_run hw [] d = Some ([], d)" |
  "vb_run hw (p # ps) d = do { (r, d) \<leftarrow> vb_op hw p d; (rs, d) \<leftarrow> vb_run hw ps d; Some (r # rs, d) }"

lemma vb_op_flat:
  assumes ok: "vb_ok disk d" and hw: "conforming hw disk (vq_req_phys (vb_queue d))" and n: "op_len p < 2 ^ 64"
  shows "\<exists>d'. vb_op hw p d = Some (fst (flat_op p (disk (vb_hw d))), d') \<and> vb_next disk d (snd (flat_op p (disk (vb_hw d)))) d'"
proof (cases p)
  case (DiskRead off m)
  note c = in_capacity[OF ok, of m off]
  show ?thesis
  proof (cases "unat off + m \<le> length (disk (vb_hw d))")
    case True
    from vb_read_loop_reads[OF ok hw True, of "[]"] show ?thesis
      using c True n DiskRead ok by (auto simp: vb_read_at_def vb_next_def rd_def)
  qed (use c n DiskRead ok in \<open>simp add: vb_read_at_def vb_next_def\<close>)
next
  case (DiskWrite off xs)
  note c = in_capacity[OF ok, of "length xs" off]
  show ?thesis
  proof (cases "unat off + length xs \<le> length (disk (vb_hw d))")
    case True
    from vb_write_loop_writes[OF ok hw True] show ?thesis
      using c True n DiskWrite ok by (auto simp: vb_write_at_def vb_next_def wr_def)
  qed (use c n DiskWrite ok in \<open>simp add: vb_write_at_def vb_next_def\<close>)
qed

lemma vb_run_flat:
  assumes "vb_ok disk d" "conforming hw disk (vq_req_phys (vb_queue d))" "list_all (\<lambda>p. op_len p < 2 ^ 64) ps"
  shows "\<exists>d'. vb_run hw ps d = Some (fst (flat_run ps (disk (vb_hw d))), d') \<and> vb_next disk d (snd (flat_run ps (disk (vb_hw d)))) d'"
  using assms
proof (induction ps arbitrary: d)
  case (Cons p ps)
  from vb_op_flat[OF Cons.prems(1,2), of p] Cons.prems(3) obtain d1 where
    d1: "vb_op hw p d = Some (fst (flat_op p (disk (vb_hw d))), d1)" "vb_next disk d (snd (flat_op p (disk (vb_hw d)))) d1" by auto
  have n: "vb_ok disk d1" "disk (vb_hw d1) = snd (flat_op p (disk (vb_hw d)))" "vq_req_phys (vb_queue d1) = vq_req_phys (vb_queue d)"
    "vb_capacity_sectors d1 = vb_capacity_sectors d" using d1(2) by (simp_all add: vb_next_def)
  from Cons.IH[OF n(1)] Cons.prems(2,3) n(3) obtain d2 where
    "vb_run hw ps d1 = Some (fst (flat_run ps (disk (vb_hw d1))), d2)" "vb_next disk d1 (snd (flat_run ps (disk (vb_hw d1)))) d2" by auto
  then show ?case using d1(1) n(2-4) by (simp add: vb_next_def split_beta)
qed (simp add: vb_next_def)

section \<open>A device that serves\<close>

record IdealDisk =
  id_disk :: bytes
  id_wait :: nat

text \<open>A device of the given latency: it looks at the ring, waits, and serves the next chain.\<close>

definition ideal_hw :: "nat \<Rightarrow> u64 \<Rightarrow> IdealDisk virtio_hw" where
  "ideal_hw latency phys = \<lparr>hw_notify = (\<lambda>h. h\<lparr>id_wait := latency\<rparr>),
     hw_step = (\<lambda>h mem.
       if vm_avail_idx mem \<noteq> vm_used_idx mem + 1 then (h, mem)
       else if id_wait h > 0 then (h\<lparr>id_wait := id_wait h - 1\<rparr>, mem)
       else let (c, mem) = serve phys (id_disk h) mem in (h\<lparr>id_disk := c\<rparr>, mem))\<rparr>"

lemma ideal_waits:
  assumes "vm_avail_idx mem = vm_used_idx mem + 1" "j \<le> id_wait h"
  shows "hw_run (ideal_hw l phys) j (h, mem) = (h\<lparr>id_wait := id_wait h - j\<rparr>, mem)"
  using assms(2)
proof (induction j arbitrary: h)
  case (Suc j)
  then show ?case using assms(1) by (simp add: hw_run_Suc ideal_hw_def)
qed (simp add: hw_run_def)

lemma ideal_conforming: "l \<le> REQUEST_TIMEOUT_SPINS \<Longrightarrow> conforming (ideal_hw l phys) id_disk phys"
  unfolding conforming_def
proof (intro allI impI)
  fix h :: IdealDisk and mem :: VqMem
  assume l: "l \<le> REQUEST_TIMEOUT_SPINS" and a: "vm_avail_idx mem = vm_used_idx mem + 1"
  let ?h = "hw_notify (ideal_hw l phys) h"
  have w: "id_wait ?h = l" "id_disk ?h = id_disk h" by (simp_all add: ideal_hw_def)
  have run: "hw_run (ideal_hw l phys) j (?h, mem) = (?h\<lparr>id_wait := l - j\<rparr>, mem)" if "j \<le> l" for j
    using ideal_waits[OF a, of j ?h l phys] that w by simp
  have "hw_run (ideal_hw l phys) (Suc l) (?h, mem) = (\<lambda>(h, mem). hw_step (ideal_hw l phys) h mem) (hw_run (ideal_hw l phys) l (?h, mem))"
    by (simp add: hw_run_def)
  also have "\<dots> = (?h\<lparr>id_wait := 0, id_disk := fst (serve phys (id_disk h) mem)\<rparr>, snd (serve phys (id_disk h) mem))"
    using run[of l] a w by (simp add: ideal_hw_def split_beta)
  finally have s: "hw_run (ideal_hw l phys) (Suc l) (?h, mem) =
    (?h\<lparr>id_wait := 0, id_disk := fst (serve phys (id_disk h) mem)\<rparr>, snd (serve phys (id_disk h) mem))" .
  show "\<exists>k \<le> REQUEST_TIMEOUT_SPINS.
        (\<forall>j \<le> k. vm_used_idx (snd (hw_run (ideal_hw l phys) j (?h, mem))) = vm_used_idx mem) \<and>
        (id_disk (fst (hw_run (ideal_hw l phys) (Suc k) (?h, mem))), snd (hw_run (ideal_hw l phys) (Suc k) (?h, mem))) =
          serve phys (id_disk h) mem"
    using l run s by (intro exI[of _ l]) simp
qed


section \<open>The block device contract\<close>

text \<open>The trait's \<^verbatim>\<open>read_at\<close> and \<^verbatim>\<open>write_at\<close> on the driver, the state kept where the operation succeeds.\<close>

definition vb_reading :: "'h virtio_hw \<Rightarrow> 'h VirtioBlkDevice read_op" where
  "vb_reading hw d off n = map_option fst (vb_read_at hw off n d)"

definition vb_writing :: "'h virtio_hw \<Rightarrow> 'h VirtioBlkDevice write_op" where
  "vb_writing hw d off xs = map_option (\<lambda>(r, d). map_sum id (\<lambda>_. d) r) (vb_write_at hw off xs d)"

lemma map_sum_Inr: "map_sum f g a = Inr y \<longleftrightarrow> (\<exists>x. a = Inr x \<and> y = g x)"
  by (cases a) auto

lemma virtio_block_device:
  assumes "\<And>phys. phys \<in> P \<Longrightarrow> conforming hw disk phys"
  shows "block_device (vb_reading hw) (vb_writing hw) (\<lambda>d. disk (vb_hw d)) (\<lambda>d. vb_ok disk d \<and> vq_req_phys (vb_queue d) \<in> P)"
proof
  fix d and off :: u64 and n assume d: "vb_ok disk d \<and> vq_req_phys (vb_queue d) \<in> P" and r: "unat off + n \<le> length (disk (vb_hw d))"
  have "length (disk (vb_hw d)) < 2 ^ 64" using d by (simp add: vb_ok_def Let_def)
  then show "vb_reading hw d off n = Ok (rd (disk (vb_hw d)) (unat off) n)"
    using vb_op_flat[OF conjunct1[OF d] assms[OF conjunct2[OF d]], of "DiskRead off n"] r by (auto simp: vb_reading_def)
next
  fix d and off :: u64 and xs :: bytes assume d: "vb_ok disk d \<and> vq_req_phys (vb_queue d) \<in> P" and r: "unat off + length xs \<le> length (disk (vb_hw d))"
  have "length (disk (vb_hw d)) < 2 ^ 64" using d by (simp add: vb_ok_def Let_def)
  then show "\<exists>d'. vb_writing hw d off xs = Ok d' \<and> (vb_ok disk d' \<and> vq_req_phys (vb_queue d') \<in> P) \<and>
      disk (vb_hw d') = wr (disk (vb_hw d)) (unat off) xs"
    using vb_op_flat[OF conjunct1[OF d] assms[OF conjunct2[OF d]], of "DiskWrite off xs"] r d
    by (auto simp: vb_writing_def vb_next_def Option.bind_eq_Some_conv map_sum_Inr)
qed

interpretation ideal: block_device "vb_reading (ideal_hw 3 0x8000)" "vb_writing (ideal_hw 3 0x8000)" "\<lambda>d. id_disk (vb_hw d)"
  "\<lambda>d. vb_ok id_disk d \<and> vq_req_phys (vb_queue d) \<in> {0x8000}"
  by (rule virtio_block_device) (simp add: ideal_conforming)

definition idle_driver :: "u64 \<Rightarrow> u64 \<Rightarrow> 'h \<Rightarrow> 'h VirtioBlkDevice" where
  "idle_driver sectors phys h = \<lparr>vb_capacity_sectors = sectors,
     vb_queue = \<lparr>vq_mem = \<lparr>vm_desc = replicate 8 \<lparr>vd_addr = 0, vd_len = 0, vd_flags = 0, vd_next = 0\<rparr>, vm_avail_idx = 0,
       vm_avail_ring = replicate 8 0, vm_used_idx = 0, vm_req = replicate 4096 0\<rparr>, vq_req_phys = phys, vq_last_used_idx = 0\<rparr>,
     vb_hw = h\<rparr>"

lemma idle_driver_ok:
  "length (disk h) = 512 * unat sectors \<Longrightarrow> length (disk h) < 2 ^ 64 \<Longrightarrow> unat phys + 4096 < 2 ^ 64 \<Longrightarrow> vb_ok disk (idle_driver sectors phys h)"
  by (simp add: vb_ok_def idle_driver_def)




lemma poll_first: "hw_step hw h mem = (h', mem') \<Longrightarrow> vm_used_idx mem' \<noteq> lu \<Longrightarrow> 0 < fuel \<Longrightarrow> poll_used hw fuel lu h mem = (True, h', mem')"
  by (cases fuel) simp_all



end
