(* ===== verification/Vfs_Image.thy ===== *)
theory Vfs_Image
  imports Vfs_Table Crab_Roundtrip Virtio_Disk
begin

text \<open>
  The virtual file system of \<^verbatim>\<open>kernel/vfs.rs\<close> on an image of \<^verbatim>\<open>lib/crabfs/pack.rs\<close>, read through the driver of
  \<^verbatim>\<open>kernel/virtio_blk.rs\<close>: paths of plain names walk the packed tree, and an opened file reads as the host's file.
\<close>

unbundle bit_operations_syntax

section \<open>Walking a packed tree\<close>

text \<open>The node of a host tree at a path of names, as the packed image names them; links on the way are not followed.\<close>

definition child_named :: "(bytes \<times> HostNode) list \<Rightarrow> bytes \<Rightarrow> HostNode option" where
  "child_named cs name = map_option snd (find (\<lambda>c. from_utf8_lossy (fst c) = name) (packable_children (host_children cs)))"

fun host_at :: "HostNode \<Rightarrow> bytes list \<Rightarrow> HostNode option" where
  "host_at node [] = Some node" |
  "host_at (HostDir m (Some cs)) (name # names) =
    (case child_named cs name of None \<Rightarrow> None | Some child \<Rightarrow> host_at child names)" |
  "host_at node (name # names) = None"

text \<open>A component of a path: not empty, without a slash, and neither of the dot entries.\<close>

definition plain_name :: "bytes \<Rightarrow> bool" where
  "plain_name name \<longleftrightarrow> name \<noteq> [] \<and> slash \<notin> set name \<and> name \<noteq> str_dot \<and> name \<noteq> str_dotdot"

fun join_path :: "bytes list \<Rightarrow> bytes" where
  "join_path [] = []" |
  "join_path [name] = name" |
  "join_path (name # names) = name @ slash # join_path names"

lemma join_path_hd: "list_all plain_name names \<Longrightarrow> names \<noteq> [] \<Longrightarrow> join_path names \<noteq> [] \<and> hd (join_path names) \<noteq> slash"
  by (induction names rule: join_path.induct) (auto simp: plain_name_def hd_append dest: hd_in_set)

lemma split_join:
  assumes "plain_name name" "list_all plain_name names"
  shows "split_first_component (join_path (name # names)) = (name, join_path names)"
proof (cases names)
  case Nil
  have "trim_start slash name = name" using assms(1) by (cases name) (auto simp: plain_name_def)
  then show ?thesis using assms(1) Nil by (auto simp: split_first_component_def plain_name_def)
next
  case (Cons n ns)
  let ?p = "name @ slash # join_path names"
  have "trim_start slash ?p = ?p" using assms(1) by (cases name) (auto simp: plain_name_def)
  moreover have "trim_start slash (join_path names) = join_path names"
    using join_path_hd[OF assms(2)] Cons by (intro trim_start_other) simp
  ultimately show ?thesis using assms(1) Cons
    by (simp add: split_first_component_def before_append behind_append plain_name_def)
qed

lemma find_in_set: "find P xs = Some x \<Longrightarrow> x \<in> set xs"
  by (induction xs) (auto split: if_splits)

lemma find_list_all2:
  assumes "list_all2 R cs es" "\<And>c e. R c e \<Longrightarrow> P c = Q e"
  shows "(find P cs = None \<longleftrightarrow> find Q es = None) \<and> (\<forall>c. find P cs = Some c \<longrightarrow> (\<exists>e. find Q es = Some e \<and> R c e))"
  using assms by (induction rule: list_all2_induct) auto

fun is_link :: "HostNode \<Rightarrow> bool" where
  "is_link (HostLink m t) = True" |
  "is_link _ = False"

lemma shown_mode:
  assumes sb: "sb_inode_size sb = 512" and sh: "shown dev sb par ino node" and ok: "host_ok node"
  shows "\<exists>inode. vfs_read_inode dev sb ino = Ok inode \<and> (di_mode inode AND 0xf000 = 0xa000 \<longleftrightarrow> is_link node)"
proof -
  obtain m where m: "inode_shown dev sb ino m" "hm_mode m AND 0xf000 = (if is_link node then 0xa000 else 0x8000) \<or>
      \<not> is_link node \<and> hm_mode m AND 0xf000 = 0x4000"
    using sh ok by (cases rule: shown.cases) auto
  then obtain inode raw where i: "read_inode dev sb ino 512 = Ok (inode, raw)" "di_mode inode = ucast (hm_mode m)"
    by (auto simp: inode_shown_def)
  then show ?thesis using m(2) sb by (auto simp: vfs_read_inode_def mode_bits split: if_splits)
qed

lemma shown_child:
  assumes sh: "shown dev sb par ino (HostDir m (Some cs))" and ok: "host_ok (HostDir m (Some cs))"
    and c: "child_named cs name = Some child" and nm: "plain_name name"
  shows "\<exists>ino' ft. find_dir_entry dev sb ino name = Ok (Some (ino', ft)) \<and> shown dev sb ino ino' child \<and> host_ok child"
proof -
  from sh obtain es where es: "\<And>target. find_dir_entry dev sb ino target = Ok (lookup_entry (dot_entries ino par @ es) target)"
    "list_all2 (\<lambda>c e. de_name e = from_utf8_lossy (fst c) \<and> de_ftype e = host_ftype (snd c) \<and> shown dev sb ino (de_ino e) (snd c))
      (packable_children (host_children cs)) es" by cases auto
  from c obtain nm' where f: "find (\<lambda>c. from_utf8_lossy (fst c) = name) (packable_children (host_children cs)) = Some (nm', child)"
    by (auto simp: child_named_def)
  from find_list_all2[OF es(2), of "\<lambda>c. from_utf8_lossy (fst c) = name" "\<lambda>e. de_name e = name"] f obtain e where
    e: "find (\<lambda>e. de_name e = name) es = Some e" "shown dev sb ino (de_ino e) child" by auto
  have "(nm', child) \<in> set cs" using find_in_set[OF f] by simp
  then have "host_ok child" using ok by (auto simp: list_all_iff)
  moreover have "lookup_entry (dot_entries ino par @ es) name = Some (de_ino e, de_ftype e)"
    using e(1) nm by (auto simp: lookup_entry_def dot_entries_def plain_name_def)
  ultimately show ?thesis using es(1) e(2) by auto
qed

lemma walk_shown:
  assumes sb: "sb_inode_size sb = 512"
    and "shown dev sb par ino node" "host_ok node" "host_at node names = Some target"
    and "list_all plain_name names" "\<not> is_link target" and "names \<noteq> []"
  shows "\<exists>ino' par'. lookup_walk dev sb ino prefix (join_path names) follow depth = Ok ino' \<and> shown dev sb par' ino' target"
  using assms(2-)
proof (induction names arbitrary: node ino par prefix)
  case (Cons name names)
  obtain m cs where node: "node = HostDir m (Some cs)" using Cons.prems(3) by (elim host_at.elims) auto
  obtain child where c: "child_named cs name = Some child" "host_at child names = Some target"
    using Cons.prems(3) node by (auto split: option.splits)
  have nm: "plain_name name" "list_all plain_name names" using Cons.prems(4) by simp_all
  from shown_child[OF Cons.prems(1,2)[unfolded node] c(1) nm(1)] obtain ino' ft where
    f: "find_dir_entry dev sb ino name = Ok (Some (ino', ft))" "shown dev sb ino ino' child" "host_ok child" by blast
  have nolink: "\<not> is_link child" using c(2) Cons.prems(5) by (cases child; cases names) auto
  from shown_mode[OF sb f(2,3)] obtain inode where
    i: "vfs_read_inode dev sb ino' = Ok inode" "di_mode inode AND 0xf000 \<noteq> 0xa000" using nolink by auto
  have ne: "join_path (name # names) \<noteq> []" using join_path_hd[of "name # names"] nm by simp
  have step: "lookup_walk dev sb ino prefix (join_path (name # names)) follow depth =
    (if join_path names = [] then Ok ino' else lookup_walk dev sb ino' ((if prefix \<noteq> [slash] then prefix @ [slash] else prefix) @ name)
      (join_path names) follow depth)"
    using f(1) i ne by (simp add: lookup_walk.simps[of dev sb ino] split_join[OF nm])
  show ?case
  proof (cases "names = []")
    case True
    then show ?thesis using step f(2) c(2) by auto
  next
    case False
    then have "join_path names \<noteq> []" using join_path_hd[OF nm(2)] by simp
    then show ?thesis using step Cons.IH[OF f(2,3) c(2) nm(2) Cons.prems(5) False] by simp
  qed
qed simp


lemma host_at_ok: "host_at node names = Some target \<Longrightarrow> host_ok node \<Longrightarrow> host_ok target"
proof (induction node names rule: host_at.induct)
  case (2 m cs name names)
  then obtain child where c: "child_named cs name = Some child" "host_at child names = Some target" by (auto split: option.splits)
  then obtain nm where "find (\<lambda>c. from_utf8_lossy (fst c) = name) (packable_children (host_children cs)) = Some (nm, child)"
    by (auto simp: child_named_def)
  from find_in_set[OF this] have "host_ok child" using "2.prems"(2) by (auto simp: list_all_iff)
  then show ?case using "2.IH"[OF c(1) c(2)] by simp
qed simp_all

section \<open>Reading an open file\<close>

text \<open>A sequence of reads of the given sizes from one descriptor.\<close>

fun read_many :: "i32 \<Rightarrow> nat list \<Rightarrow> Vfs \<Rightarrow> SerialState \<Rightarrow> (VfsError, bytes \<times> Vfs \<times> SerialState) outcome" where
  "read_many fd [] v s = Ok ([], v, s)" |
  "read_many fd (n # ns) v s =
     bindE (Vfs_read fd n v s) id (\<lambda>(bs, v, s).
     bindE (read_many fd ns v s) id (\<lambda>(cs, v, s). Ok (bs @ cs, v, s)))"

lemma Vfs_file_mut_Ok:
  "Vfs_file fd v = Ok f \<Longrightarrow> Vfs_file_mut fd upd v = Ok (v\<lparr>vf_files := (vf_files v)[unat fd := Some (upd f)]\<rparr>)"
  by (simp add: Vfs_file_mut_def)

lemma Vfs_file_update:
  "Vfs_file fd v = Ok f \<Longrightarrow> Vfs_file fd (v\<lparr>vf_files := (vf_files v)[unat fd := Some g]\<rparr>) = Ok g"
  by (simp add: Vfs_file_iff)

lemma Vfs_read_shown:
  assumes f: "Vfs_file fd v = Ok f" "of_special f = None" and sh: "data_shown (vf_dev v) (vf_sb v) (of_ino f) data"
    and n: "n < 2 ^ 32" and len: "unat (of_offset f) \<le> length data" "length data < 2 ^ 64"
  shows "\<exists>f'. Vfs_read fd n v s = Ok (take n (drop (unat (of_offset f)) data), v\<lparr>vf_files := (vf_files v)[unat fd := Some f']\<rparr>, s) \<and>
    of_special f' = None \<and> of_ino f' = of_ino f \<and> unat (of_offset f') = unat (of_offset f) + min n (length data - unat (of_offset f))"
proof -
  let ?d = "take n (drop (unat (of_offset f)) data)"
  let ?f = "f\<lparr>of_offset := sat_add (of_offset f) (of_nat (length ?d))\<rparr>"
  have "read_file_data (vf_dev v) (vf_sb v) (of_ino f) (of_offset f) (of_nat n) = Ok ?d"
    using sh n by (simp add: data_shown_def)
  then have "Vfs_read fd n v s = Ok (?d, v\<lparr>vf_files := (vf_files v)[unat fd := Some ?f]\<rparr>, s)"
    using f by (simp add: Vfs_read_def Vfs_file_mut_Ok[OF f(1)])
  moreover have "unat (of_offset ?f) = unat (of_offset f) + min n (length data - unat (of_offset f))"
    using len by (simp add: unat_sat_add unat_of_nat)
  ultimately show ?thesis using f(2) by auto
qed

lemma take_take_drop: "take n xs @ take m (drop (min n (length xs)) xs) = take (n + m) xs"
  by (simp add: take_add min_def)

lemma read_many_shown:
  assumes "Vfs_file fd v = Ok f" "of_special f = None" "data_shown (vf_dev v) (vf_sb v) (of_ino f) data"
    and "list_all (\<lambda>n. n < 2 ^ 32) ns" "unat (of_offset f) \<le> length data" "length data < 2 ^ 64"
  shows "\<exists>v'. read_many fd ns v s = Ok (take (sum_list ns) (drop (unat (of_offset f)) data), v', s)"
  using assms
proof (induction ns arbitrary: v f)
  case (Cons n ns)
  let ?o = "unat (of_offset f)"
  from Vfs_read_shown[OF Cons.prems(1-3) _ Cons.prems(5,6), of n s] obtain f' where
    r: "Vfs_read fd n v s = Ok (take n (drop ?o data), v\<lparr>vf_files := (vf_files v)[unat fd := Some f']\<rparr>, s)"
    "of_special f' = None" "of_ino f' = of_ino f" "unat (of_offset f') = ?o + min n (length data - ?o)" using Cons.prems(4) by auto
  let ?v = "v\<lparr>vf_files := (vf_files v)[unat fd := Some f']\<rparr>"
  have "unat (of_offset f') \<le> length data" using r(4) Cons.prems(5) by linarith
  from Cons.IH[OF Vfs_file_update[OF Cons.prems(1)] r(2) _ _ this] obtain v' where
    "read_many fd ns ?v s = Ok (take (sum_list ns) (drop (unat (of_offset f')) data), v', s)"
    using r(3,4) Cons.prems(3-6) by auto
  moreover have "take n (drop ?o data) @ take (sum_list ns) (drop (unat (of_offset f')) data) = take (n + sum_list ns) (drop ?o data)"
    using take_take_drop[of n "drop ?o data" "sum_list ns"] by (simp add: r(4) add.commute)
  ultimately show ?case using r(1) by simp
qed simp

section \<open>Opening a packed file\<close>

lemma mount_files:
  assumes "read_superblock dev = Ok sb"
  shows "\<exists>v. Vfs_mount dev = Ok v \<and> vf_dev v = dev \<and> vf_sb v = sb \<and> alloc_fd_slot v = Ok 3 \<and> length (vf_files v) = 64"
  using assms by (auto simp: Vfs_mount_def alloc_fd_slot_def numeral_eq_Suc)

text \<open>Paths the file system takes as they are: absolute, and none of those it rewrites or treats itself.\<close>

definition plain_path :: "bytes \<Rightarrow> bool" where
  "plain_path path \<longleftrightarrow> normalize_path path = path \<and> \<not> special_path path \<and> \<not> str_eq_lit path (lit ''/usr/etc/ld-musl-x86_64.path'')"

lemma open_packed_file:
  assumes img: "image_of sb nodes dev" "collected nodes 0 0 tree" "host_ok tree" "host_gapless tree" "pack_geometry sb"
    and sb: "read_superblock dev = Ok sb"
    and tgt: "host_at tree names = Some (HostFile m (Some data))" "list_all plain_name names" "names \<noteq> []"
    and path: "plain_path (slash # join_path names)"
  shows "\<exists>v v' f. Vfs_mount dev = Ok v \<and> Vfs_open (slash # join_path names) flags v = Ok (3, v') \<and>
    Vfs_file 3 v' = Ok f \<and> of_special f = None \<and> of_offset f = 0 \<and> data_shown (vf_dev v') (vf_sb v') (of_ino f) data"
proof -
  have root: "shown dev sb (sb_rootino sb) (sb_rootino sb) tree"
    using collected_shown[OF img(1-4)] img(5) by (simp add: pack_geometry_def)
  have i: "sb_inode_size sb = 512" using img(5) by (simp add: pack_geometry_def)
  from walk_shown[OF i root img(3) tgt(1,2) _ tgt(3), of "[slash]" True 0] obtain ino par where
    w: "lookup_walk dev sb (sb_rootino sb) [slash] (join_path names) True 0 = Ok ino" "shown dev sb par ino (HostFile m (Some data))" by auto
  have "trim_start slash (join_path names) = join_path names"
    using join_path_hd[OF tgt(2,3)] by (intro trim_start_other) simp
  then have l: "lookup_path_inner dev sb (slash # join_path names) True 0 = Ok ino"
    using w(1) by (simp add: lookup_path_inner.simps)
  from mount_files[OF sb] obtain v where v: "Vfs_mount dev = Ok v" "vf_dev v = dev" "vf_sb v = sb" "alloc_fd_slot v = Ok 3"
    "length (vf_files v) = 64" by blast
  have d: "data_shown dev sb ino data" using w(2) by cases
  let ?f = "\<lparr>of_ino = ino, of_offset = 0, of_fd_flags = 0, of_status_flags = flags, of_path = slash # join_path names,
          of_special = None, of_refs = 1\<rparr>"
  have "Vfs_open (slash # join_path names) flags v = Ok (3, v\<lparr>vf_files := (vf_files v)[3 := Some ?f]\<rparr>)"
    using path l v by (simp add: Vfs_open_def plain_path_def)
  then show ?thesis using v d by (auto simp: Vfs_file_iff)
qed


lemma pack_onto_disk:
  assumes "grant_ok grant" and "pack_opts_ok opts"
    and "4096 * unat (po_total_blocks opts) \<le> length (file_data d)" and "length (file_data d) < 2 ^ 64"
    and "host_ok (HostDir m (Some cs))"
    and "8 + (host_inodes (HostDir m (Some cs)) + 7) div 8 + host_blocks (HostDir m (Some cs)) \<le> unat (po_total_blocks opts)"
  shows "\<exists>d' report sb nodes. pack_from_directory (std_read_at grant) (std_write_at grant) d source (HostDir m (Some cs)) opts = Ok (d', report) \<and>
    length (file_data d') = length (file_data d) \<and> pack_geometry sb \<and> collected nodes 0 0 (HostDir m (Some cs)) \<and>
    (\<forall>hw disk blk. vb_ok disk blk \<and> disk (vb_hw blk :: 'h) = file_data d' \<and> conforming hw disk (vq_req_phys (vb_queue blk)) \<longrightarrow>
      image_of sb nodes (vb_reading hw blk) \<and> read_superblock (vb_reading hw blk) = Ok sb)"
proof -
  note dev = std_file_block_device[OF assms(1)]
  from block_device.pack_image_any[OF dev assms(2) _ assms(3,4) refl assms(5,6), of source] obtain d' report sb nodes where
    p: "pack_from_directory (std_read_at grant) (std_write_at grant) d source (HostDir m (Some cs)) opts = Ok (d', report)"
    "length (file_data d') = length (file_data d)" "pack_geometry sb" "collected nodes 0 0 (HostDir m (Some cs))"
    and img: "\<And>dev. answers dev (file_data d') \<Longrightarrow> image_of sb nodes dev \<and> read_superblock dev = Ok sb" by blast
  have "answers (vb_reading hw blk) (file_data d')"
    if "vb_ok disk blk" "disk (vb_hw blk) = file_data d'" "conforming hw disk (vq_req_phys (vb_queue blk))"
    for hw and disk :: "'h \<Rightarrow> bytes" and blk
    using block_device.read_in_range[OF virtio_block_device[of "{vq_req_phys (vb_queue blk)}" hw disk]] that
    by (auto simp: answers_def)
  then show ?thesis using p img by blast
qed

text \<open>
  Property C2.  From the host directory to the running kernel.  The image builder packs a host directory into a disk image.
  A virtio disk that holds the image is mounted by the kernel through its own driver.  Opening the path of any regular file
  of the directory then succeeds with the first free descriptor, and reading it in pieces of any sizes gives the
  host's bytes in order.
\<close>

theorem pack_mount_open_read:
  assumes "grant_ok grant" and "pack_opts_ok opts"
    and "4096 * unat (po_total_blocks opts) \<le> length (file_data d)" and "length (file_data d) < 2 ^ 64"
    and "host_ok (HostDir m (Some cs))" and "host_gapless (HostDir m (Some cs))"
    and "8 + (host_inodes (HostDir m (Some cs)) + 7) div 8 + host_blocks (HostDir m (Some cs)) \<le> unat (po_total_blocks opts)"
    and "host_at (HostDir m (Some cs)) names = Some (HostFile fm (Some data))"
    and "list_all plain_name names" and "names \<noteq> []" and "plain_path (slash # join_path names)"
  shows "\<exists>d' report. pack_from_directory (std_read_at grant) (std_write_at grant) d source (HostDir m (Some cs)) opts = Ok (d', report) \<and>
    length (file_data d') = length (file_data d) \<and>
    (\<forall>hw disk blk. vb_ok disk blk \<and> disk (vb_hw blk :: 'h) = file_data d' \<and> conforming hw disk (vq_req_phys (vb_queue blk)) \<longrightarrow>
      (\<exists>v v'. Vfs_mount (vb_reading hw blk) = Ok v \<and> Vfs_open (slash # join_path names) flags v = Ok (3, v') \<and>
        (\<forall>ns s. list_all (\<lambda>n. n < 2 ^ 32) ns \<longrightarrow> (\<exists>v''. read_many 3 ns v' s = Ok (take (sum_list ns) data, v'', s)))))"
proof -
  from pack_onto_disk[OF assms(1-5,7), of source, where 'h = 'h] obtain d' report sb nodes where
    p: "pack_from_directory (std_read_at grant) (std_write_at grant) d source (HostDir m (Some cs)) opts = Ok (d', report)"
    "length (file_data d') = length (file_data d)" "pack_geometry sb" "collected nodes 0 0 (HostDir m (Some cs))"
    and img: "\<And>hw disk blk. vb_ok disk blk \<and> disk (vb_hw blk :: 'h) = file_data d' \<and> conforming hw disk (vq_req_phys (vb_queue blk)) \<Longrightarrow>
      image_of sb nodes (vb_reading hw blk) \<and> read_superblock (vb_reading hw blk) = Ok sb" by blast
  have "\<exists>v v'. Vfs_mount (vb_reading hw blk) = Ok v \<and> Vfs_open (slash # join_path names) flags v = Ok (3, v') \<and>
        (\<forall>ns s. list_all (\<lambda>n. n < 2 ^ 32) ns \<longrightarrow> (\<exists>v''. read_many 3 ns v' s = Ok (take (sum_list ns) data, v'', s)))"
    if blk: "vb_ok disk blk" "disk (vb_hw blk) = file_data d'" "conforming hw disk (vq_req_phys (vb_queue blk))"
    for hw and disk :: "'h \<Rightarrow> bytes" and blk
  proof -
    have i: "image_of sb nodes (vb_reading hw blk)" "read_superblock (vb_reading hw blk) = Ok sb" using img blk by blast+
    from open_packed_file[OF i(1) p(4) assms(5,6) p(3) i(2) assms(8-11), of flags] obtain v v' f where
      v: "Vfs_mount (vb_reading hw blk) = Ok v" "Vfs_open (slash # join_path names) flags v = Ok (3, v')" "Vfs_file 3 v' = Ok f"
      "of_special f = None" "of_offset f = 0" "data_shown (vf_dev v') (vf_sb v') (of_ino f) data" by blast
    have "length data < 2 ^ 64" using host_at_ok[OF assms(8,5)] by simp
    then show ?thesis using v read_many_shown[OF v(3,4,6)] by auto
  qed
  then show ?thesis using p(1,2) by blast
qed

theorem pack_mount_open_read_witness:
  "\<exists>d' report v v'. pack_from_directory (std_read_at grant_one) (std_write_at grant_one)
      \<lparr>file_data = replicate 65536 0, file_pos = 0\<rparr> [] example_tree example_pack_opts = Ok (d', report) \<and>
    Vfs_mount (vb_reading (ideal_hw 3 0x8000) (idle_driver 128 0x8000 \<lparr>id_disk = file_data d', id_wait = 0\<rparr>)) = Ok v \<and>
    Vfs_open (lit ''/a'') 0 v = Ok (3, v') \<and> (\<forall>s. \<exists>v''. read_many 3 [2, 5] v' s = Ok ([1, 2, 3], v'', s))"
proof -
  obtain m cs where t: "example_tree = HostDir m (Some cs)" by (simp add: example_tree_def)
  have ok: "host_ok example_tree" "host_gapless example_tree" "host_inodes example_tree = 3" "host_blocks example_tree = 3" by code_simp+
  have at: "host_at example_tree [[0x61]] = Some (HostFile \<lparr>hm_mode = 0x81a4, hm_uid = 7, hm_gid = 7\<rparr> (Some [1, 2, 3]))" by code_simp
  have nm: "list_all plain_name [[0x61]]" "plain_path (slash # join_path [[0x61]])" "slash # join_path [[0x61]] = lit ''/a''" by code_simp+
  have room: "8 + (host_inodes example_tree + 7) div 8 + host_blocks example_tree \<le> unat (po_total_blocks example_pack_opts)"
    "4096 * unat (po_total_blocks example_pack_opts) \<le> length (file_data \<lparr>file_data = replicate 65536 0, file_pos = 0\<rparr>)"
    "length (file_data \<lparr>file_data = replicate 65536 0, file_pos = 0\<rparr>) < 2 ^ 64"
    using ok(3,4) by (simp_all add: example_pack_opts_def)
  have ne: "[[0x61]] \<noteq> ([] :: bytes list)" by simp
  from pack_mount_open_read[OF grant_one_ok example_pack_opts_ok room(2,3) ok(1,2)[unfolded t] room(1)[unfolded t] at[unfolded t] nm(1) ne nm(2),
      of "[]" 0, where 'h = IdealDisk, folded t]
  obtain d' report where p: "pack_from_directory (std_read_at grant_one) (std_write_at grant_one)
      \<lparr>file_data = replicate 65536 0, file_pos = 0\<rparr> [] example_tree example_pack_opts = Ok (d', report)"
      "length (file_data d') = length (file_data \<lparr>file_data = replicate 65536 0, file_pos = 0\<rparr>)"
    and all: "\<forall>hw disk blk. vb_ok disk blk \<and> disk (vb_hw blk :: IdealDisk) = file_data d' \<and> conforming hw disk (vq_req_phys (vb_queue blk)) \<longrightarrow>
      (\<exists>v v'. Vfs_mount (vb_reading hw blk) = Ok v \<and> Vfs_open (slash # join_path [[0x61]]) 0 v = Ok (3, v') \<and>
        (\<forall>ns s. list_all (\<lambda>n. n < 2 ^ 32) ns \<longrightarrow> (\<exists>v''. read_many 3 ns v' s = Ok (take (sum_list ns) [1, 2, 3], v'', s))))"
    by blast
  let ?b = "idle_driver 128 0x8000 \<lparr>id_disk = file_data d', id_wait = 0\<rparr>"
  have b: "vb_ok id_disk ?b" "id_disk (vb_hw ?b) = file_data d'" "vq_req_phys (vb_queue ?b) = 0x8000"
    using p(2) by (simp_all add: idle_driver_ok) (simp_all add: idle_driver_def)
  have c: "conforming (ideal_hw 3 0x8000) id_disk (vq_req_phys (vb_queue ?b))" unfolding b(3) by (rule ideal_conforming) simp
  from all b(1,2) c obtain v v' where
    v: "Vfs_mount (vb_reading (ideal_hw 3 0x8000) ?b) = Ok v" "Vfs_open (slash # join_path [[0x61]]) 0 v = Ok (3, v')"
    "\<forall>ns s. list_all (\<lambda>n. n < 2 ^ 32) ns \<longrightarrow> (\<exists>v''. read_many 3 ns v' s = Ok (take (sum_list ns) [1, 2, 3], v'', s))" by blast
  have "\<exists>v''. read_many 3 [2, 5] v' s = Ok ([1, 2, 3], v'', s)" for s using v(3)[rule_format, of "[2, 5]" s] by auto
  then show ?thesis using p(1) v(1) v(2)[unfolded nm(3)] by blast
qed

end
