(* ===== verification/Vfs_Paths.thy ===== *)
theory Vfs_Paths
  imports Vfs_Image
begin

text \<open>
  Path resolution of \<^verbatim>\<open>kernel/vfs.rs\<close> against a reference.  The kernel resolves a path as text: at a symbolic link it
  puts the target in place of what it has walked and starts again at the root.  The reference walks the host tree by
  position, and goes on from the directory that holds the link.  On a packed image the two agree.
\<close>

unbundle bit_operations_syntax

section \<open>Paths as lists of names\<close>

text \<open>The names of a path: what stands between its slashes, where that is not empty.\<close>

fun split_slash :: "bytes \<Rightarrow> bytes list" where
  "split_slash [] = [[]]" |
  "split_slash (b # p) = (if b = slash then [] # split_slash p else (b # hd (split_slash p)) # tl (split_slash p))"

definition components :: "bytes \<Rightarrow> bytes list" where
  "components p = filter (\<lambda>n. n \<noteq> []) (split_slash p)"

lemma split_slash_ne [simp]: "split_slash p \<noteq> []"
  by (induction p) auto

lemma split_slash_append: "split_slash (p @ slash # q) = split_slash p @ split_slash q"
  by (induction p) auto

lemma split_slash_name: "slash \<notin> set n \<Longrightarrow> split_slash n = [n]"
  by (induction n) auto

lemma components_append: "components (p @ slash # q) = components p @ components q"
  by (simp add: components_def split_slash_append)

lemma components_slash [simp]: "components (slash # p) = components p"
  by (simp add: components_def)

lemma components_Nil [simp]: "components [] = []"
  by (simp add: components_def)

lemma components_trim [simp]: "components (trim_start slash p) = components p"
  by (induction p) (auto simp: trim_start_def)

lemma components_name: "n \<noteq> [] \<Longrightarrow> slash \<notin> set n \<Longrightarrow> components n = [n]"
  by (simp add: components_def split_slash_name)

lemma split_first_names:
  assumes "split_first_component p = (part, rest)" "p \<noteq> []" "hd p \<noteq> slash"
  shows "components p = part # components rest \<and> part \<noteq> [] \<and> slash \<notin> set part \<and> (rest = [] \<longleftrightarrow> components rest = []) \<and> (rest = [] \<or> hd rest \<noteq> slash)"
proof (cases "slash \<in> set p")
  case True
  have p: "p = before slash p @ slash # behind slash p" by (rule before_split[OF True])
  have b: "before slash p \<noteq> []" "slash \<notin> set (before slash p)" using assms(2,3)
    by (cases p, auto simp: before_def dest: set_takeWhileD)
  let ?r = "trim_start slash (behind slash p)"
  have pr: "part = before slash p" "rest = ?r" using assms True by (auto simp: split_first_component_def)
  have "components p = components (before slash p) @ components (behind slash p)" using components_append p by metis
  moreover have "?r = [] \<or> components ?r \<noteq> []"
  proof (cases ?r)
    case (Cons c r)
    then have "c \<noteq> slash" using trim_start_hd[of slash "behind slash p"] by simp
    then show ?thesis using Cons by (simp add: components_def)
  qed simp
  ultimately show ?thesis using b pr components_name[OF b] trim_start_hd[of slash "behind slash p"] components_trim[of "behind slash p"]
    by (cases ?r) auto
next
  case False
  then show ?thesis using assms components_name[OF assms(2) False] by (auto simp: split_first_component_def)
qed

lemma components_join: "components ((if ends_with p [slash] then p else p @ [slash]) @ q) = components p @ components q"
proof (cases "ends_with p [slash]")
  case True
  then obtain p' where "p = p' @ [slash]" by (cases p rule: rev_cases) auto
  then show ?thesis using True components_append[of p' q] components_append[of p' "[]"] by simp
qed (use components_append[of p q] in auto)

lemma resolve_link_names:
  assumes "starts_with prefix [slash]"
  shows "components (resolve_link prefix target rest) =
      (if starts_with target [slash] then components target else components prefix @ components target) @ components rest"
    "starts_with (resolve_link prefix target rest) [slash]"
proof -
  define r where "r = (if starts_with target [slash] then target else (if ends_with prefix [slash] then prefix else prefix @ [slash]) @ target)"
  have r: "components r = (if starts_with target [slash] then components target else components prefix @ components target)"
    unfolding r_def using components_join[of prefix target] by presburger
  show "components (resolve_link prefix target rest) =
      (if starts_with target [slash] then components target else components prefix @ components target) @ components rest"
    unfolding resolve_link_def Let_def r[symmetric] r_def[symmetric] using components_join[of r rest] by simp
  show "starts_with (resolve_link prefix target rest) [slash]"
    using assms by (auto simp: resolve_link_def Let_def)
qed

section \<open>Resolution on the tree\<close>

text \<open>
  The reference: a position is a node with its ancestors up to the root.  A relative link goes on from the directory that
  holds it, an absolute one from the root, and at most so many links are followed; the last one of a path only on request.
\<close>

fun tree_step :: "HostNode list \<Rightarrow> bytes \<Rightarrow> VfsError + HostNode list" where
  "tree_step (HostDir m (Some cs) # up) name =
    (if name = str_dot then Inr (HostDir m (Some cs) # up)
     else if name = str_dotdot then Inr (if up = [] then [HostDir m (Some cs)] else up)
     else case child_named cs name of None \<Rightarrow> Inl NotFound | Some child \<Rightarrow> Inr (child # HostDir m (Some cs) # up))" |
  "tree_step pos name = Inl VfsIo"

fun link_at :: "HostNode list \<Rightarrow> bytes option" where
  "link_at (HostLink m (Some target) # up) = Some (from_utf8_lossy target)" |
  "link_at pos = None"

function tree_walk :: "HostNode list \<Rightarrow> bytes list \<Rightarrow> bool \<Rightarrow> nat \<Rightarrow> VfsError + HostNode list" where
  "tree_walk pos [] follow links = Inr pos" |
  "tree_walk pos (name # names) follow links =
    (case tree_step pos name of
       Inl e \<Rightarrow> Inl e
     | Inr pos' \<Rightarrow>
         case link_at pos' of
           Some target \<Rightarrow>
             if follow \<or> names \<noteq> []
             then if links = 0 then Inl InvalidPath
                  else tree_walk (if starts_with target [slash] then [last pos] else pos) (components target @ names) follow (links - 1)
             else Inr pos'
         | None \<Rightarrow> tree_walk pos' names follow links)"
  by pat_completeness auto
termination
  by (relation "measures [\<lambda>(pos, names, follow, links). links, \<lambda>(pos, names, follow, links). length names]") auto

text \<open>A position on the image: the inode of its node, with the inodes of its ancestors.\<close>

fun located :: "reading \<Rightarrow> Superblock \<Rightarrow> HostNode list \<Rightarrow> u64 \<Rightarrow> bool" where
  "located dev sb [] ino = False" |
  "located dev sb [node] ino = (ino = sb_rootino sb \<and> shown dev sb ino ino node \<and> host_ok node)" |
  "located dev sb (node # up) ino = (\<exists>par. shown dev sb par ino node \<and> host_ok node \<and> located dev sb up par)"

lemma located_shown: "located dev sb (node # up) ino \<Longrightarrow> \<exists>par. shown dev sb par ino node \<and> host_ok node \<and> (up = [] \<longrightarrow> par = ino) \<and> (up \<noteq> [] \<longrightarrow> located dev sb up par)"
  by (cases up) auto

lemma locatedI: "shown dev sb par ino node \<Longrightarrow> host_ok node \<Longrightarrow> located dev sb up par \<Longrightarrow> located dev sb (node # up) ino"
  by (cases up) auto

lemma located_root: "located dev sb pos ino \<Longrightarrow> located dev sb [last pos] (sb_rootino sb)"
  by (induction dev sb pos ino rule: located.induct) auto

section \<open>The kernel's lookup\<close>

lemma shown_no_child:
  assumes sh: "shown dev sb par ino (HostDir m (Some cs))" and c: "child_named cs name = None" and nm: "plain_name name"
  shows "find_dir_entry dev sb ino name = Ok None"
proof -
  from sh obtain es where es: "\<And>target. find_dir_entry dev sb ino target = Ok (lookup_entry (dot_entries ino par @ es) target)"
    "list_all2 (\<lambda>c e. de_name e = from_utf8_lossy (fst c) \<and> de_ftype e = host_ftype (snd c) \<and> shown dev sb ino (de_ino e) (snd c))
      (packable_children (host_children cs)) es" by cases auto
  have "find (\<lambda>c. from_utf8_lossy (fst c) = name) (packable_children (host_children cs)) = None"
    using c by (simp add: child_named_def)
  then have "find (\<lambda>e. de_name e = name) es = None"
    using find_list_all2[OF es(2), of "\<lambda>c. from_utf8_lossy (fst c) = name" "\<lambda>e. de_name e = name"] by simp
  then show ?thesis using es(1)[of name] nm by (auto simp: lookup_entry_def dot_entries_def plain_name_def)
qed

lemma shown_dots:
  assumes "shown dev sb par ino (HostDir m (Some cs))"
  shows "\<exists>ft. find_dir_entry dev sb ino str_dot = Ok (Some (ino, ft))" "\<exists>ft. find_dir_entry dev sb ino str_dotdot = Ok (Some (par, ft))"
proof -
  from assms obtain es where "\<And>target. find_dir_entry dev sb ino target = Ok (lookup_entry (dot_entries ino par @ es) target)" by cases auto
  moreover have "str_dot \<noteq> str_dotdot" by code_simp
  ultimately show "\<exists>ft. find_dir_entry dev sb ino str_dot = Ok (Some (ino, ft))" "\<exists>ft. find_dir_entry dev sb ino str_dotdot = Ok (Some (par, ft))"
    by (simp_all add: lookup_entry_def dot_entries_def)
qed

lemma shown_not_dir:
  assumes sb: "sb_inode_size sb = 512" and sh: "shown dev sb par ino node" and ok: "host_ok node" and nd: "\<And>m cs. node \<noteq> HostDir m (Some cs)"
  shows "\<exists>e. find_dir_entry dev sb ino name = Err e"
proof -
  obtain m where m: "inode_shown dev sb ino m" "hm_mode m AND 0xf000 \<in> {0xa000, 0x8000}"
    using sh ok nd by (cases rule: shown.cases) auto
  then obtain inode raw where i: "read_inode dev sb ino 512 = Ok (inode, raw)" "di_mode inode = ucast (hm_mode m)"
    by (auto simp: inode_shown_def)
  have "di_mode inode AND 0xf000 \<noteq> 0x4000" using m(2) by (auto simp: i(2) mode_bits)
  then show ?thesis using i(1) sb by (simp add: find_dir_entry_def)
qed

text \<open>What a step on the tree is on the image.\<close>

definition step_shown :: "reading \<Rightarrow> Superblock \<Rightarrow> VfsError + HostNode list \<Rightarrow> u64 \<Rightarrow> bytes \<Rightarrow> bool" where
  "step_shown dev sb r ino name =
    (case r of
       Inl e \<Rightarrow> e = NotFound \<and> find_dir_entry dev sb ino name = Ok None \<or> e = VfsIo \<and> (\<exists>e. find_dir_entry dev sb ino name = Err e)
     | Inr pos \<Rightarrow> \<exists>ino' ft. find_dir_entry dev sb ino name = Ok (Some (ino', ft)) \<and> located dev sb pos ino')"

lemma tree_step_shown:
  assumes sb: "sb_inode_size sb = 512" and l: "located dev sb pos ino" and nm: "name \<noteq> []" "slash \<notin> set name"
  shows "step_shown dev sb (tree_step pos name) ino name"
proof -
  obtain node up where pos: "pos = node # up" using l by (cases pos) auto
  from located_shown[OF l[unfolded pos]] obtain par where
    p: "shown dev sb par ino node" "host_ok node" "up = [] \<Longrightarrow> par = ino" "up \<noteq> [] \<Longrightarrow> located dev sb up par" by blast
  show ?thesis
  proof (cases "\<exists>m cs. node = HostDir m (Some cs)")
    case True
    then obtain m cs where d: "node = HostDir m (Some cs)" by blast
    note p = p[unfolded d]
    consider "name = str_dot" | "name = str_dotdot" "name \<noteq> str_dot" | "plain_name name" using nm by (auto simp: plain_name_def)
    then show ?thesis
    proof cases
      case 1
      then show ?thesis using shown_dots(1)[OF p(1)] l by (auto simp: step_shown_def pos d)
    next
      case 2
      then show ?thesis using shown_dots(2)[OF p(1)] l p(3,4) by (auto simp: step_shown_def pos d)
    next
      case 3
      then have nd: "name \<noteq> str_dot" "name \<noteq> str_dotdot" by (simp_all add: plain_name_def)
      show ?thesis
      proof (cases "child_named cs name")
        case None
        then show ?thesis using nd shown_no_child[OF p(1) None 3] by (simp add: step_shown_def pos d)
      next
        case (Some child)
        from shown_child[OF p(1,2) Some 3] obtain ino' ft where
          c: "find_dir_entry dev sb ino name = Ok (Some (ino', ft))" "shown dev sb ino ino' child" "host_ok child" by blast
        have "located dev sb (child # pos) ino'" using locatedI[OF c(2,3) l] .
        then show ?thesis using nd Some c(1) by (simp add: step_shown_def pos d)
      qed
    qed
  next
    case False
    then have "tree_step pos name = Inl VfsIo" using pos by (cases "(pos, name)" rule: tree_step.cases) auto
    then show ?thesis using shown_not_dir[OF sb p(1,2), of name] False by (auto simp: step_shown_def)
  qed
qed

text \<open>Link targets the kernel can take in one read.\<close>

fun links_short :: "HostNode \<Rightarrow> bool" where
  "links_short (HostDir m (Some cs)) \<longleftrightarrow> list_all (\<lambda>c. links_short (snd c)) cs" |
  "links_short (HostLink m (Some target)) \<longleftrightarrow> length (from_utf8_lossy target) < 2 ^ 32" |
  "links_short _ \<longleftrightarrow> True"

lemma tree_step_keeps:
  assumes "tree_step pos name = Inr pos'" "list_all links_short pos"
  shows "list_all links_short pos' \<and> last pos' = last pos \<and> pos' \<noteq> []"
proof -
  obtain m cs up where pos: "pos = HostDir m (Some cs) # up" using assms(1) by (cases "(pos, name)" rule: tree_step.cases) auto
  have "links_short child" if "child_named cs name = Some child" for child
  proof -
    from that obtain nm where "find (\<lambda>c. from_utf8_lossy (fst c) = name) (packable_children (host_children cs)) = Some (nm, child)"
      by (auto simp: child_named_def)
    from find_in_set[OF this] show ?thesis using assms(2) by (auto simp: pos list_all_iff)
  qed
  then show ?thesis using assms by (auto simp: pos split: if_splits option.splits)
qed

definition walk_result :: "reading \<Rightarrow> Superblock \<Rightarrow> VfsError + HostNode list \<Rightarrow> (VfsError, u64) outcome \<Rightarrow> bool" where
  "walk_result dev sb r out = (case r of Inl e \<Rightarrow> out = Err e | Inr pos \<Rightarrow> \<exists>ino. out = Ok ino \<and> located dev sb pos ino)"

lemma located_mode:
  assumes "sb_inode_size sb = 512" "located dev sb pos ino"
  shows "\<exists>inode. vfs_read_inode dev sb ino = Ok inode \<and> (di_mode inode AND 0xf000 = 0xa000 \<longleftrightarrow> link_at pos \<noteq> None)"
proof -
  obtain node up where pos: "pos = node # up" using assms(2) by (cases pos) auto
  from located_shown[OF assms(2)[unfolded pos]] obtain par where p: "shown dev sb par ino node" "host_ok node" by blast
  have "is_link node \<longleftrightarrow> link_at pos \<noteq> None" using p(1) by cases (simp_all add: pos)
  then show ?thesis using shown_mode[OF assms(1) p] by simp
qed

lemma size_u32_small:
  assumes "unat (di_size inode) = n" "n < 2 ^ 32"
  shows "unat (size_u32 inode) = n"
proof -
  have "uint (di_size inode) = int n" using assms(1) by auto
  then have "sint (di_size inode) = int n" using assms(2) by (simp add: sint_uint signed_take_bit_int_eq_self)
  moreover have "unat (ucast (di_size inode) :: u32) = n"
    using assms by (simp add: unsigned_ucast_eq take_bit_nat_eq_self)
  ultimately show ?thesis by (simp add: size_u32_def)
qed

lemma located_link:
  assumes sb: "sb_inode_size sb = 512" and l: "located dev sb pos ino" "link_at pos = Some target" and short: "list_all links_short pos"
  shows "read_symlink_inode dev sb ino = Ok target"
proof -
  obtain m t up where pos: "pos = HostLink m (Some t) # up" "target = from_utf8_lossy t" using l(2) by (cases pos rule: link_at.cases) auto
  from located_shown[OF l(1)[unfolded pos]] obtain par where p: "shown dev sb par ino (HostLink m (Some t))" by blast
  then have d: "data_shown dev sb ino target" unfolding pos(2) by cases
  then obtain inode raw where i: "read_inode dev sb ino 512 = Ok (inode, raw)" "unat (di_size inode) = length target"
    unfolding data_shown_def by blast
  have "unat (size_u32 inode) = length target" using size_u32_small[OF i(2)] short by (simp add: pos)
  moreover have "read_file_data dev sb ino 0 (size_u32 inode) = Ok (take (unat (size_u32 inode)) (drop 0 target))"
    using d unfolding data_shown_def by (metis unsigned_0)
  ultimately show ?thesis using i(1) sb by (simp add: read_symlink_inode_def vfs_read_inode_def pos(2))
qed

text \<open>The text of a prefix leads from the root to a position.\<close>

definition leads_to :: "HostNode \<Rightarrow> bytes \<Rightarrow> HostNode list \<Rightarrow> bool" where
  "leads_to tree prefix pos \<longleftrightarrow> starts_with prefix [slash] \<and>
     (\<forall>names follow links. tree_walk [tree] (components prefix @ names) follow links = tree_walk pos names follow links)"

lemma leads_to_root: "leads_to tree [slash] [tree]"
  by (simp add: leads_to_def)

lemma leads_to_next:
  assumes "leads_to tree prefix pos" "tree_step pos part = Inr pos'" "link_at pos' = None" "part \<noteq> []" "slash \<notin> set part"
  shows "leads_to tree ((if prefix \<noteq> [slash] then prefix @ [slash] else prefix) @ part) pos'"
proof -
  let ?p = "(if prefix \<noteq> [slash] then prefix @ [slash] else prefix) @ part"
  have "components ?p = components prefix @ [part]"
    using components_append[of prefix part] components_name[OF assms(4,5)] by simp
  moreover have "starts_with ?p [slash]" using assms(1) by (cases prefix) (auto simp: leads_to_def)
  ultimately show ?thesis using assms(1-3) by (simp add: leads_to_def)
qed

text \<open>Arriving at a link.\<close>

lemma lookup_link_tree:
  assumes sb: "sb_inode_size sb = 512"
    and inner: "\<And>path. starts_with path [slash] \<Longrightarrow>
      (if links = 0 then lookup_path_inner dev sb path follow (depth + 1) = Err InvalidPath
       else walk_result dev sb (tree_walk [tree] (components path) follow (links - 1)) (lookup_path_inner dev sb path follow (depth + 1)))"
    and rem: "remaining = [] \<or> hd remaining \<noteq> slash" and pre: "leads_to tree prefix pos" "last pos = tree"
    and sp: "split_first_component remaining = (part, rest)" and ne: "remaining \<noteq> []" and Inr: "tree_step pos part = Inr pos'"
    and f: "find_dir_entry dev sb ino part = Ok (Some (ino', ft))" "located dev sb pos' ino'"
    and short: "list_all links_short pos'" and Some: "link_at pos' = Some target"
  shows "walk_result dev sb (tree_walk pos (components remaining) follow links) (lookup_walk dev sb ino prefix remaining follow depth)"
proof -
  from split_first_names[OF sp ne] rem ne have nm: "components remaining = part # components rest" "rest = [] \<longleftrightarrow> components rest = []" by auto
  from located_mode[OF sb f(2)] Some obtain inode where i: "vfs_read_inode dev sb ino' = Ok inode" "di_mode inode AND 0xf000 = 0xa000" by auto
  have rl: "read_symlink_inode dev sb ino' = Ok target" by (rule located_link[OF sb f(2) Some short])
  let ?path = "resolve_link prefix target rest"
  have "starts_with prefix [slash]" using pre(1) by (simp add: leads_to_def)
  note names = resolve_link_names[OF this, of target rest]
  have walk: "tree_walk [tree] (components ?path) follow n =
    tree_walk (if starts_with target [slash] then [last pos] else pos) (components target @ components rest) follow n" for n
    unfolding names(1) using pre by (simp add: leads_to_def)
  show ?thesis
  proof (cases "follow \<or> rest \<noteq> []")
    case True
    then have "lookup_walk dev sb ino prefix remaining follow depth = lookup_path_inner dev sb ?path follow (depth + 1)"
      using f(1) i ne sp rl by (simp add: lookup_walk.simps[of dev sb ino])
    moreover have "tree_walk pos (components remaining) follow links =
      (if links = 0 then Inl InvalidPath else tree_walk [tree] (components ?path) follow (links - 1))"
      using True Inr Some nm walk by simp
    ultimately show ?thesis using inner[OF names(2)] by (auto simp: walk_result_def split: if_splits)
  next
    case False
    then have "lookup_walk dev sb ino prefix remaining follow depth = Ok ino'"
      using f(1) i ne sp by (simp add: lookup_walk.simps[of dev sb ino])
    moreover have "tree_walk pos (components remaining) follow links = Inr pos'" using False Inr Some nm by simp
    ultimately show ?thesis using f(2) by (simp add: walk_result_def)
  qed
qed

lemma lookup_walk_tree:
  assumes sb: "sb_inode_size sb = 512"
    and inner: "\<And>path. starts_with path [slash] \<Longrightarrow>
      (if links = 0 then lookup_path_inner dev sb path follow (depth + 1) = Err InvalidPath
       else walk_result dev sb (tree_walk [tree] (components path) follow (links - 1)) (lookup_path_inner dev sb path follow (depth + 1)))"
    and "located dev sb pos ino" "remaining = [] \<or> hd remaining \<noteq> slash" "leads_to tree prefix pos" "last pos = tree" "list_all links_short pos"
  shows "walk_result dev sb (tree_walk pos (components remaining) follow links) (lookup_walk dev sb ino prefix remaining follow depth)"
  using assms(3-)
proof (induction "length remaining" arbitrary: pos ino remaining prefix rule: less_induct)
  case less
  show ?case
  proof (cases "remaining = []")
    case True
    then show ?thesis using less.prems(1) by (simp add: lookup_walk.simps[of dev sb ino] walk_result_def)
  next
    case ne: False
    obtain part rest where sp: "split_first_component remaining = (part, rest)" by fastforce
    from split_first_names[OF sp ne] have nm: "components remaining = part # components rest" "part \<noteq> []" "slash \<notin> set part"
      "rest = [] \<longleftrightarrow> components rest = []" "rest = [] \<or> hd rest \<noteq> slash" using less.prems(2) ne by auto
    have st: "step_shown dev sb (tree_step pos part) ino part" by (rule tree_step_shown[OF sb less.prems(1) nm(2,3)])
    show ?thesis
    proof (cases "tree_step pos part")
      case (Inl e)
      then show ?thesis using st nm(1) ne sp by (auto simp: lookup_walk.simps[of dev sb ino] walk_result_def step_shown_def)
    next
      case (Inr pos')
      from st Inr obtain ino' ft where f: "find_dir_entry dev sb ino part = Ok (Some (ino', ft))" "located dev sb pos' ino'"
        by (auto simp: step_shown_def)
      from tree_step_keeps[OF Inr less.prems(5)] have k: "list_all links_short pos'" "last pos' = tree" using less.prems(4) by simp_all
      from located_mode[OF sb f(2)] obtain inode where
        i: "vfs_read_inode dev sb ino' = Ok inode" "di_mode inode AND 0xf000 = 0xa000 \<longleftrightarrow> link_at pos' \<noteq> None" by blast
      show ?thesis
      proof (cases "link_at pos'")
        case None
        let ?prefix = "(if prefix \<noteq> [slash] then prefix @ [slash] else prefix) @ part"
        have "lookup_walk dev sb ino prefix remaining follow depth =
          (if rest = [] then Ok ino' else lookup_walk dev sb ino' ?prefix rest follow depth)"
          using f(1) i None ne sp by (simp add: lookup_walk.simps[of dev sb ino])
        moreover have "lookup_walk dev sb ino' ?prefix rest follow depth = Ok ino'" if "rest = []"
          using that by (simp add: lookup_walk.simps)
        ultimately have "lookup_walk dev sb ino prefix remaining follow depth = lookup_walk dev sb ino' ?prefix rest follow depth" by simp
        moreover have "walk_result dev sb (tree_walk pos' (components rest) follow links) (lookup_walk dev sb ino' ?prefix rest follow depth)"
          using less.hyps[OF _ f(2) nm(5) leads_to_next[OF less.prems(3) Inr None nm(2,3)] k(2,1)] split_first_shorter[OF sp[symmetric] ne] by blast
        ultimately show ?thesis using Inr None nm(1) by simp
      next
        case (Some target)
        show ?thesis
          by (rule lookup_link_tree[OF sb inner less.prems(2-4) sp ne Inr f k(1) Some])
      qed
    qed
  qed
qed

lemma lookup_path_tree:
  assumes sb: "sb_inode_size sb = 512" and root: "located dev sb [tree] (sb_rootino sb)" and short: "links_short tree"
  shows "starts_with path [slash] \<Longrightarrow> links \<le> 16 \<Longrightarrow>
    walk_result dev sb (tree_walk [tree] (components path) follow links) (lookup_path_inner dev sb path follow (16 - links))"
proof (induction links arbitrary: path)
  case 0
  have r: "walk_result dev sb (tree_walk [tree] (components (trim_start slash path)) follow 0)
      (lookup_walk dev sb (sb_rootino sb) [slash] (trim_start slash path) follow 16)"
    by (rule lookup_walk_tree[OF sb _ root trim_start_hd leads_to_root]) (use short in \<open>simp_all add: lookup_path_inner.simps\<close>)
  then show ?case using "0.prems"(1) by (simp add: lookup_path_inner.simps)
next
  case (Suc links)
  have "16 - links = 16 - Suc links + 1" using Suc.prems(2) by simp
  then have "walk_result dev sb (tree_walk [tree] (components (trim_start slash path)) follow (Suc links))
      (lookup_walk dev sb (sb_rootino sb) [slash] (trim_start slash path) follow (16 - Suc links))"
    by (intro lookup_walk_tree[OF sb _ root trim_start_hd leads_to_root]) (use Suc short in simp_all)
  moreover have "\<not> 16 < 15 - links" by simp
  ultimately show ?case using Suc.prems by (simp add: lookup_path_inner.simps)
qed

fun node_meta :: "HostNode \<Rightarrow> HostMeta" where
  "node_meta (HostDir m _) = m" |
  "node_meta (HostFile m _) = m" |
  "node_meta (HostLink m _) = m" |
  "node_meta (HostOther m) = m" |
  "node_meta HostGone = \<lparr>hm_mode = 0, hm_uid = 0, hm_gid = 0\<rparr>"

lemma located_meta:
  assumes sb: "sb_inode_size sb = 512" and l: "located dev sb pos ino"
  shows "\<exists>inode. vfs_read_inode dev sb ino = Ok inode \<and> di_mode inode = ucast (hm_mode (node_meta (hd pos)))"
proof -
  obtain node up where pos: "pos = node # up" using l by (cases pos) auto
  from located_shown[OF l[unfolded pos]] obtain par where "shown dev sb par ino node" by blast
  then have "inode_shown dev sb ino (node_meta node)" by cases simp_all
  then show ?thesis using sb by (auto simp: inode_shown_def vfs_read_inode_def pos)
qed

lemma located_data:
  assumes sb: "sb_inode_size sb = 512" and l: "located dev sb pos ino" "hd pos = HostFile m (Some data)" "length data < 2 ^ 32"
  shows "\<exists>inode. vfs_read_inode dev sb ino = Ok inode \<and> read_file_data dev sb ino 0 (size_u32 inode) = Ok data"
proof -
  obtain up where pos: "pos = HostFile m (Some data) # up" using l by (cases pos) auto
  from located_shown[OF l(1)[unfolded pos]] obtain par where "shown dev sb par ino (HostFile m (Some data))" by blast
  then have d: "data_shown dev sb ino data" by cases
  then obtain inode raw where i: "read_inode dev sb ino 512 = Ok (inode, raw)" "unat (di_size inode) = length data"
    unfolding data_shown_def by blast
  have "read_file_data dev sb ino 0 (size_u32 inode) = Ok (take (unat (size_u32 inode)) (drop 0 data))"
    using d unfolding data_shown_def by (metis unsigned_0)
  then show ?thesis using size_u32_small[OF i(2) l(3)] i(1) sb by (simp add: vfs_read_inode_def)
qed

lemma normalize_path_absolute: "starts_with (normalize_path path) [slash]"
  by (cases path) (auto simp: normalize_path_def Let_def)

text \<open>What the path calls answer at the place a walk on the tree ends.\<close>

definition calls_follow :: "HostNode \<Rightarrow> Vfs \<Rightarrow> bytes \<Rightarrow> bool" where
  "calls_follow tree v path \<longleftrightarrow> (let walk = (\<lambda>follow. tree_walk [tree] (components (normalize_path path)) follow 16) in
     (case walk True of
        Inl e \<Rightarrow> Vfs_lookup_path path v = Err e \<and> Vfs_read_all path v = Err e
      | Inr pos \<Rightarrow> \<forall>m data. hd pos = HostFile m (Some data) \<and> length data < 2 ^ 32 \<longrightarrow> Vfs_read_all path v = Ok data) \<and>
     (case walk False of
        Inl e \<Rightarrow> Vfs_readlink path v = Err e
      | Inr pos \<Rightarrow> \<forall>target. link_at pos = Some target \<longrightarrow> Vfs_readlink path v = Ok target) \<and>
     (\<forall>follow. case walk follow of
        Inl e \<Rightarrow> Vfs_stat_path path follow v = Err e
      | Inr pos \<Rightarrow> \<exists>st. Vfs_stat_path path follow v = Ok st \<and> st_mode st = ucast (hm_mode (node_meta (hd pos)))))"

lemma tree_walk_keeps:
  "tree_walk pos names follow links = Inr pos' \<Longrightarrow> list_all links_short pos \<Longrightarrow> pos \<noteq> [] \<Longrightarrow> list_all links_short pos'"
proof (induction pos names follow links rule: tree_walk.induct)
  case (2 pos name names follow links)
  from "2.prems"(1) obtain p where p: "tree_step pos name = Inr p" by (auto split: sum.splits)
  note k = tree_step_keeps[OF p "2.prems"(2)]
  have root: "list_all links_short [last pos]" using "2.prems"(2,3) by (simp add: list_all_iff)
  show ?case
  proof (cases "link_at p")
    case None
    then show ?thesis using "2.IH"(1)[OF p None] "2.prems"(1) p k by simp
  next
    case (Some target)
    show ?thesis
    proof (cases "(follow \<or> names \<noteq> []) \<and> links \<noteq> 0")
      case True
      then show ?thesis using "2.IH"(2)[OF p Some] "2.prems" p Some root by (auto split: if_splits)
    next
      case False
      then show ?thesis using "2.prems"(1) p Some k by (auto split: if_splits)
    qed
  qed
qed simp

lemma calls_follow_image:
  assumes sb: "sb_inode_size (vf_sb v) = 512" and root: "located (vf_dev v) (vf_sb v) [tree] (sb_rootino (vf_sb v))" and short: "links_short tree"
  shows "calls_follow tree v path"
proof -
  let ?walk = "\<lambda>follow. tree_walk [tree] (components (normalize_path path)) follow 16"
  let ?look = "\<lambda>follow. lookup_path_inner (vf_dev v) (vf_sb v) (normalize_path path) follow 0"
  have w: "walk_result (vf_dev v) (vf_sb v) (?walk follow) (?look follow)" for follow
    using lookup_path_tree[OF sb root short normalize_path_absolute[of path], of 16 follow] by simp
  have all: "case ?walk True of Inl e \<Rightarrow> Vfs_lookup_path path v = Err e \<and> Vfs_read_all path v = Err e
      | Inr pos \<Rightarrow> \<forall>m data. hd pos = HostFile m (Some data) \<and> length data < 2 ^ 32 \<longrightarrow> Vfs_read_all path v = Ok data"
    using w[of True] located_data[OF sb]
    by (fastforce simp: walk_result_def Vfs_lookup_path_def Vfs_read_all_def split: sum.splits)
  have link: "case ?walk False of Inl e \<Rightarrow> Vfs_readlink path v = Err e
      | Inr pos \<Rightarrow> \<forall>target. link_at pos = Some target \<longrightarrow> Vfs_readlink path v = Ok target"
  proof (cases "?walk False")
    case (Inl e)
    then show ?thesis using w[of False] by (simp add: walk_result_def Vfs_readlink_def Vfs_lookup_path_nofollow_def)
  next
    case (Inr pos)
    then obtain ino where o: "?look False = Ok ino" "located (vf_dev v) (vf_sb v) pos ino" using w[of False] by (auto simp: walk_result_def)
    have "list_all links_short pos" using tree_walk_keeps[OF Inr] short by simp
    then show ?thesis using Inr o located_link[OF sb o(2)] by (simp add: Vfs_readlink_def Vfs_lookup_path_nofollow_def)
  qed
  have stat: "case ?walk follow of Inl e \<Rightarrow> Vfs_stat_path path follow v = Err e
      | Inr pos \<Rightarrow> \<exists>st. Vfs_stat_path path follow v = Ok st \<and> st_mode st = ucast (hm_mode (node_meta (hd pos)))" for follow
  proof -
    have "Vfs_stat_path path follow v = bindE (?look follow) id (\<lambda>ino. bindE (vfs_read_inode (vf_dev v) (vf_sb v) ino) id (\<lambda>inode.
        Ok \<lparr>st_ino = ino, st_mode = di_mode inode, st_size = (if sint (di_size inode) < 0 then 0 else di_size inode)\<rparr>))"
      by (cases follow) (simp_all add: Vfs_stat_path_def)
    then show ?thesis using w[of follow] located_meta[OF sb] by (fastforce simp: walk_result_def split: sum.splits)
  qed
  show ?thesis unfolding calls_follow_def Let_def using all link stat by blast
qed

text \<open>
  Property C1.  Path resolution.  On the packed image of a host directory, mounted through the virtio driver, every path, with any mixture of
  dots, empty parts and absolute or relative symbolic links, leads the kernel where the reference walk on the host
  tree leads: whole files read as the host's files, links read as their targets, modes are the host's modes, and where
  the walk fails, after sixteen links at the latest, the calls fail with the same error.
\<close>

theorem lookup_follows_tree:
  assumes "grant_ok grant" and "pack_opts_ok opts"
    and "4096 * unat (po_total_blocks opts) \<le> length (file_data d)" and "length (file_data d) < 2 ^ 64"
    and "host_ok (HostDir m (Some cs))" and "host_gapless (HostDir m (Some cs))" and "links_short (HostDir m (Some cs))"
    and "8 + (host_inodes (HostDir m (Some cs)) + 7) div 8 + host_blocks (HostDir m (Some cs)) \<le> unat (po_total_blocks opts)"
  shows "\<exists>d' report. pack_from_directory (std_read_at grant) (std_write_at grant) d source (HostDir m (Some cs)) opts = Ok (d', report) \<and>
    length (file_data d') = length (file_data d) \<and>
    (\<forall>hw disk blk. vb_ok disk blk \<and> disk (vb_hw blk :: 'h) = file_data d' \<and> conforming hw disk (vq_req_phys (vb_queue blk)) \<longrightarrow>
      (\<exists>v. Vfs_mount (vb_reading hw blk) = Ok v \<and> (\<forall>path. calls_follow (HostDir m (Some cs)) v path)))"
proof -
  from pack_onto_disk[OF assms(1-5,8), of source, where 'h = 'h] obtain d' report sb nodes where
    p: "pack_from_directory (std_read_at grant) (std_write_at grant) d source (HostDir m (Some cs)) opts = Ok (d', report)"
    "length (file_data d') = length (file_data d)" "pack_geometry sb" "collected nodes 0 0 (HostDir m (Some cs))"
    and img: "\<And>hw disk blk. vb_ok disk blk \<and> disk (vb_hw blk :: 'h) = file_data d' \<and> conforming hw disk (vq_req_phys (vb_queue blk)) \<Longrightarrow>
      image_of sb nodes (vb_reading hw blk) \<and> read_superblock (vb_reading hw blk) = Ok sb" by blast
  have "\<exists>v. Vfs_mount dev = Ok v \<and> (\<forall>path. calls_follow (HostDir m (Some cs)) v path)"
    if i: "image_of sb nodes dev" "read_superblock dev = Ok sb" for dev
  proof -
    have s: "sb_inode_size sb = 512" using p(3) by (simp add: pack_geometry_def)
    have "shown dev sb (sb_rootino sb) (sb_rootino sb) (HostDir m (Some cs))"
      using collected_shown[OF i(1) p(4) assms(5,6)] p(3) by (simp add: pack_geometry_def)
    then have "located dev sb [HostDir m (Some cs)] (sb_rootino sb)" using assms(5) by simp
    moreover from mount_files[OF i(2)] obtain v where "Vfs_mount dev = Ok v" "vf_dev v = dev" "vf_sb v = sb" by blast
    ultimately show ?thesis using calls_follow_image[of v] s assms(7) by blast
  qed
  then show ?thesis using p(1,2) img by blast
qed

theorem lookup_follows_tree_witness:
  "\<exists>d' report v. pack_from_directory (std_read_at grant_one) (std_write_at grant_one)
      \<lparr>file_data = replicate 65536 0, file_pos = 0\<rparr> [] example_tree example_pack_opts = Ok (d', report) \<and>
    Vfs_mount (vb_reading (ideal_hw 3 0x8000) (idle_driver 128 0x8000 \<lparr>id_disk = file_data d', id_wait = 0\<rparr>)) = Ok v \<and>
    Vfs_read_all (lit ''/.././/b'') v = Ok [1, 2, 3] \<and> Vfs_readlink (lit ''b'') v = Ok (lit ''a'') \<and>
    Vfs_read_all (lit ''/c'') v = Err NotFound"
proof -
  obtain m cs where t: "example_tree = HostDir m (Some cs)" by (simp add: example_tree_def)
  have ok: "host_ok example_tree" "host_gapless example_tree" "links_short example_tree" "host_inodes example_tree = 3"
    "host_blocks example_tree = 3" by code_simp+
  have room: "8 + (host_inodes example_tree + 7) div 8 + host_blocks example_tree \<le> unat (po_total_blocks example_pack_opts)"
    "4096 * unat (po_total_blocks example_pack_opts) \<le> length (file_data \<lparr>file_data = replicate 65536 0, file_pos = 0\<rparr>)"
    "length (file_data \<lparr>file_data = replicate 65536 0, file_pos = 0\<rparr>) < 2 ^ 64"
    using ok(4,5) by (simp_all add: example_pack_opts_def)
  from lookup_follows_tree[OF grant_one_ok example_pack_opts_ok room(2,3) ok(1-3)[unfolded t] room(1)[unfolded t], of "[]", where 'h = IdealDisk, folded t]
  obtain d' report where p: "pack_from_directory (std_read_at grant_one) (std_write_at grant_one)
      \<lparr>file_data = replicate 65536 0, file_pos = 0\<rparr> [] example_tree example_pack_opts = Ok (d', report)"
      "length (file_data d') = length (file_data \<lparr>file_data = replicate 65536 0, file_pos = 0\<rparr>)"
    and all: "\<And>hw disk blk. vb_ok disk blk \<and> disk (vb_hw blk :: IdealDisk) = file_data d' \<and> conforming hw disk (vq_req_phys (vb_queue blk)) \<Longrightarrow>
      \<exists>v. Vfs_mount (vb_reading hw blk) = Ok v \<and> (\<forall>path. calls_follow example_tree v path)"
    by blast
  let ?b = "idle_driver 128 0x8000 \<lparr>id_disk = file_data d', id_wait = 0\<rparr>"
  have b: "vb_ok id_disk ?b" "id_disk (vb_hw ?b) = file_data d'" "vq_req_phys (vb_queue ?b) = 0x8000"
    using p(2) by (simp_all add: idle_driver_ok) (simp_all add: idle_driver_def)
  have c: "conforming (ideal_hw 3 0x8000) id_disk (vq_req_phys (vb_queue ?b))" unfolding b(3) by (rule ideal_conforming) simp
  from all[of id_disk ?b] b(1,2) c obtain v where
    v: "Vfs_mount (vb_reading (ideal_hw 3 0x8000) ?b) = Ok v" "\<And>path. calls_follow example_tree v path" by blast
  have w: "tree_walk [example_tree] (components (normalize_path (lit ''/.././/b''))) True 16 =
      Inr [HostFile \<lparr>hm_mode = 0x81a4, hm_uid = 7, hm_gid = 7\<rparr> (Some [1, 2, 3]), example_tree]"
    "tree_walk [example_tree] (components (normalize_path (lit ''b''))) False 16 =
      Inr [HostLink \<lparr>hm_mode = 0xa1ff, hm_uid = 0, hm_gid = 0\<rparr> (Some [0x61]), example_tree]"
    "tree_walk [example_tree] (components (normalize_path (lit ''/c''))) True 16 = Inl NotFound" by code_simp+
  have "Vfs_read_all (lit ''/.././/b'') v = Ok [1, 2, 3]" using v(2)[of "lit ''/.././/b''"] w(1) by (simp only: calls_follow_def Let_def sum.case) auto
  moreover have "link_at [HostLink \<lparr>hm_mode = 0xa1ff, hm_uid = 0, hm_gid = 0\<rparr> (Some [0x61]), example_tree] = Some (lit ''a'')" by code_simp
  then have "Vfs_readlink (lit ''b'') v = Ok (lit ''a'')" using v(2)[of "lit ''b''"] w(2) by (simp only: calls_follow_def Let_def sum.case)
  moreover have "Vfs_read_all (lit ''/c'') v = Err NotFound" using v(2)[of "lit ''/c''"] w(3) by (simp only: calls_follow_def Let_def sum.case)
  ultimately show ?thesis using p(1) v(1) by blast
qed

end
