(* ===== verification/Vfs_Pipe.thy ===== *)
theory Vfs_Pipe
  imports Vfs_Table
begin

text \<open>
  Pipes of \<^verbatim>\<open>kernel/vfs.rs\<close>: the contract of a byte channel and its interpretation on the calls on the two descriptors
  of a pipe, polling and the waiting reads, and what duplicating a descriptor does to the count of the open ends.
\<close>

unbundle bit_operations_syntax

section \<open>A pipe as a byte channel\<close>

text \<open>The contract of a channel: what is put is kept in order up to a capacity, and what is got is what was put first.\<close>

locale byte_channel =
  fixes put :: "bytes \<Rightarrow> 's \<Rightarrow> (nat \<times> 's) option"
    and get :: "nat \<Rightarrow> 's \<Rightarrow> (bytes \<times> 's) option"
    and content :: "'s \<Rightarrow> bytes"
    and invar :: "'s \<Rightarrow> bool"
    and capacity :: nat
  assumes put_ok: "invar s \<Longrightarrow> put data s = Some (n, s') \<Longrightarrow> invar s' \<and> n \<le> length data \<and> content s' = content s @ take n data"
    and put_room: "invar s \<Longrightarrow> length (content s) < capacity \<Longrightarrow> data \<noteq> [] \<Longrightarrow>
      \<exists>n s'. put data s = Some (n, s') \<and> n = min (length data) (capacity - length (content s))"
    and get_ok: "invar s \<Longrightarrow> get n s = Some (bs, s') \<Longrightarrow> invar s' \<and> content s = bs @ content s' \<and> length bs \<le> n"
    and get_some: "invar s \<Longrightarrow> content s \<noteq> [] \<Longrightarrow> \<exists>bs s'. get n s = Some (bs, s') \<and> length bs = min n (length (content s))"
    and bounded: "invar s \<Longrightarrow> length (content s) \<le> capacity"

datatype channel_op = Put bytes | Get nat

text \<open>A run: the bytes accepted and the bytes delivered; an operation that is refused changes nothing.\<close>

fun channel_run :: "(bytes \<Rightarrow> 's \<Rightarrow> (nat \<times> 's) option) \<Rightarrow> (nat \<Rightarrow> 's \<Rightarrow> (bytes \<times> 's) option) \<Rightarrow> channel_op list \<Rightarrow> 's \<Rightarrow> bytes \<times> bytes \<times> 's" where
  "channel_run put get [] s = ([], [], s)" |
  "channel_run put get (Put data # ops) s =
    (case put data s of
       None \<Rightarrow> channel_run put get ops s
     | Some (n, s) \<Rightarrow> let (sent, got, s) = channel_run put get ops s in (take n data @ sent, got, s))" |
  "channel_run put get (Get n # ops) s =
    (case get n s of
       None \<Rightarrow> channel_run put get ops s
     | Some (bs, s) \<Rightarrow> let (sent, got, s) = channel_run put get ops s in (sent, bs @ got, s))"

context byte_channel
begin

lemma run_fifo:
  "invar s \<Longrightarrow> channel_run put get ops s = (sent, got, s') \<Longrightarrow>
     invar s' \<and> content s @ sent = got @ content s' \<and> length (content s') \<le> capacity"
proof (induction ops arbitrary: s sent got)
  case Nil
  then show ?case using bounded by auto
next
  case (Cons c ops)
  show ?case
  proof (cases c)
    case (Put data)
    then show ?thesis using Cons.prems Cons.IH put_ok[OF Cons.prems(1), of data]
      by (fastforce split: option.splits prod.splits)
  next
    case (Get n)
    then show ?thesis using Cons.prems Cons.IH get_ok[OF Cons.prems(1), of n]
      by (fastforce split: option.splits prod.splits)
  qed
qed

text \<open>One round of putting and getting moves something as long as there is something to move.\<close>

lemma get_moves: "invar s \<Longrightarrow> content s \<noteq> [] \<Longrightarrow> 0 < n \<Longrightarrow> \<exists>bs s'. get n s = Some (bs, s') \<and> bs \<noteq> []"
  using get_some[of s n] by (metis length_0_conv min_0L min_def neq0_conv)

lemma round_moves:
  assumes "invar s" "0 < capacity" "data \<noteq> []" "0 < n" "channel_run put get [Put data, Get n] s = (sent, got, s')"
  shows "got \<noteq> []"
proof (cases "put data s")
  case None
  then have "content s \<noteq> []" using put_room[OF assms(1) _ assms(3)] assms(2) by fastforce
  from get_moves[OF assms(1) this assms(4)] show ?thesis using None assms(5) by auto
next
  case (Some r)
  then obtain k s1 where k: "put data s = Some (k, s1)" by (cases r) auto
  note i = put_ok[OF assms(1) k]
  have "content s1 \<noteq> []"
  proof
    assume e: "content s1 = []"
    then have "content s = []" using i by simp
    from put_room[OF assms(1) _ assms(3)] this assms(2) k have "k = min (length data) capacity" by simp
    then show False using i e assms(2,3) by (cases data) (simp_all add: min_def split: if_splits)
  qed
  from get_moves[OF _ this assms(4)] i show ?thesis using k assms(5) by auto
qed

end

text \<open>The two ends of a pipe, through the calls on their descriptors.\<close>

definition pipe_put :: "i32 \<Rightarrow> SerialState \<Rightarrow> bytes \<Rightarrow> Vfs \<Rightarrow> (nat \<times> Vfs) option" where
  "pipe_put w s data v = (case Vfs_write w data v s of Some (Inr (n, v, _)) \<Rightarrow> Some (n, v) | _ \<Rightarrow> None)"

definition pipe_get :: "i32 \<Rightarrow> SerialState \<Rightarrow> nat \<Rightarrow> Vfs \<Rightarrow> (bytes \<times> Vfs) option" where
  "pipe_get r s n v = (case Vfs_read r n v s of Some (Inr (bs, v, _)) \<Rightarrow> Some (bs, v) | _ \<Rightarrow> None)"

definition pipe_content :: "u32 \<Rightarrow> Vfs \<Rightarrow> bytes" where
  "pipe_content i v = (case map_of (vf_pipes v) i of None \<Rightarrow> [] | Some p \<Rightarrow> pp_buf p)"

definition joined :: "u32 \<Rightarrow> i32 \<Rightarrow> i32 \<Rightarrow> Vfs \<Rightarrow> bool" where
  "joined i r w v \<longleftrightarrow> vfs_ok v \<and> (\<exists>f. Vfs_file r v = Ok f \<and> of_special f = Some (PipeRead i)) \<and>
     (\<exists>f. Vfs_file w v = Ok f \<and> of_special f = Some (PipeWrite i)) \<and> (\<exists>p. map_of (vf_pipes v) i = Some p \<and> pp_readers p \<noteq> 0)"

lemma Vfs_file_pipes [simp]: "Vfs_file fd (v\<lparr>vf_pipes := ps\<rparr>) = Vfs_file fd v"
  by (simp add: Vfs_file_def fd_slot_def)

lemma joined_put:
  assumes j: "joined i r w v"
  shows "pipe_put w s data v =
    (if data = [] then Some (0, v)
     else if length (pipe_content i v) \<ge> PIPE_CAPACITY then None
     else let n = min (length data) (PIPE_CAPACITY - length (pipe_content i v)) in
       Some (n, v\<lparr>vf_pipes := bt_insert i ((the (map_of (vf_pipes v) i))\<lparr>pp_buf := pipe_content i v @ take n data\<rparr>) (vf_pipes v)\<rparr>))"
  using j by (auto simp: joined_def pipe_put_def pipe_content_def Vfs_write_def write_pipe_def Let_def)

lemma joined_get:
  assumes j: "joined i r w v"
  shows "pipe_get r s n v =
    (if n = 0 then Some ([], v)
     else if pipe_content i v = [] then (if pp_writers (the (map_of (vf_pipes v) i)) = 0 then Some ([], v) else None)
     else Some (take n (pipe_content i v),
       v\<lparr>vf_pipes := bt_insert i ((the (map_of (vf_pipes v) i))\<lparr>pp_buf := drop n (pipe_content i v)\<rparr>) (vf_pipes v)\<rparr>))"
  using j by (auto simp: joined_def pipe_get_def pipe_content_def Vfs_read_def read_pipe_def)

lemma joined_update:
  assumes j: "joined i r w v" and b: "length buf \<le> PIPE_CAPACITY"
  shows "joined i r w (v\<lparr>vf_pipes := bt_insert i ((the (map_of (vf_pipes v) i))\<lparr>pp_buf := buf\<rparr>) (vf_pipes v)\<rparr>)"
    "pipe_content i (v\<lparr>vf_pipes := bt_insert i ((the (map_of (vf_pipes v) i))\<lparr>pp_buf := buf\<rparr>) (vf_pipes v)\<rparr>) = buf"
proof -
  obtain p where p: "map_of (vf_pipes v) i = Some p" "pp_readers p \<noteq> 0" using j by (auto simp: joined_def)
  have ok: "vfs_ok v" using j by (simp add: joined_def)
  have "pipe_ok (p\<lparr>pp_buf := buf\<rparr>)" using vfs_ok_pipe[OF ok p(1)] b by (simp add: pipe_ok_def)
  then show "joined i r w (v\<lparr>vf_pipes := bt_insert i ((the (map_of (vf_pipes v) i))\<lparr>pp_buf := buf\<rparr>) (vf_pipes v)\<rparr>)"
    using j p vfs_ok_set_pipe[OF ok] by (auto simp: joined_def)
qed (simp add: pipe_content_def)

lemma joined_bounded: "joined i r w v \<Longrightarrow> length (pipe_content i v) \<le> PIPE_CAPACITY"
  using vfs_ok_pipe[of v i] by (auto simp: joined_def pipe_content_def pipe_ok_def)

interpretation pipe: byte_channel "pipe_put w s" "pipe_get r s" "pipe_content i" "joined i r w" PIPE_CAPACITY for i r w s
proof
  fix v data n v'
  assume j: "joined i r w v"
  show "joined i r w v' \<and> n \<le> length data \<and> pipe_content i v' = pipe_content i v @ take n data" if "pipe_put w s data v = Some (n, v')"
    using that joined_bounded[OF j] joined_update[OF j, of "pipe_content i v @ take n data"] j unfolding joined_put[OF j]
    by (auto simp: Let_def split: if_splits)
  show "\<exists>n v'. pipe_put w s data v = Some (n, v') \<and> n = min (length data) (PIPE_CAPACITY - length (pipe_content i v))"
    if "length (pipe_content i v) < PIPE_CAPACITY" "data \<noteq> []"
    using that unfolding joined_put[OF j] by (simp add: Let_def)
  show "length (pipe_content i v) \<le> PIPE_CAPACITY" by (rule joined_bounded[OF j])
next
  fix v n bs v'
  assume j: "joined i r w v"
  show "joined i r w v' \<and> pipe_content i v = bs @ pipe_content i v' \<and> length bs \<le> n" if "pipe_get r s n v = Some (bs, v')"
    using that joined_bounded[OF j] joined_update[OF j, of "drop n (pipe_content i v)"] j unfolding joined_get[OF j]
    by (auto split: if_splits)
  show "\<exists>bs v'. pipe_get r s n v = Some (bs, v') \<and> length bs = min n (length (pipe_content i v))" if "pipe_content i v \<noteq> []"
    using that unfolding joined_get[OF j] by (simp add: min.commute)
qed

lemma create_pipe_effect:
  assumes ok: "vfs_ok v" and c: "create_pipe v = Ok ((r, w), v1)"
  shows "\<exists>i rs ws fr fw. i = vf_next_pipe_id v \<and> r = of_nat rs \<and> w = of_nat ws \<and> rs < ws \<and> ws < 64 \<and>
    vf_files v ! rs = None \<and> vf_files v ! ws = None \<and>
    vf_files v1 = (vf_files v)[rs := Some fr, ws := Some fw] \<and> of_special fr = Some (PipeRead i) \<and> of_special fw = Some (PipeWrite i) \<and>
    of_refs fr = 1 \<and> of_refs fw = 1 \<and> map_of (vf_pipes v1) i = Some \<lparr>pp_buf = [], pp_readers = 1, pp_writers = 1\<rparr>"
proof -
  from c obtain rs ws where s: "alloc_fd_slot v = Ok rs" "alloc_fd_slot_from (rs + 1) v = Ok ws" "r = of_nat rs" "w = of_nat ws"
    "v1 = v\<lparr>vf_next_pipe_id := max (vf_next_pipe_id v + 1) 1,
       vf_pipes := bt_insert (vf_next_pipe_id v) \<lparr>pp_buf = [], pp_readers = 1, pp_writers = 1\<rparr> (vf_pipes v),
       vf_files := (vf_files v)[rs := Some (special_file (lit ''[pipe]'') (PipeRead (vf_next_pipe_id v))),
         ws := Some ((special_file (lit ''[pipe]'') (PipeWrite (vf_next_pipe_id v)))\<lparr>of_status_flags := 1\<rparr>)]\<rparr>"
    by (auto simp: create_pipe_def bindE_Ok_iff Let_def)
  have len: "length (vf_files v) = 64" using ok by (simp add: vfs_ok_def)
  let ?fr = "special_file (lit ''[pipe]'') (PipeRead (vf_next_pipe_id v))"
  let ?fw = "(special_file (lit ''[pipe]'') (PipeWrite (vf_next_pipe_id v)))\<lparr>of_status_flags := 1\<rparr>"
  show ?thesis
    by (rule exI[of _ "vf_next_pipe_id v"], rule exI[of _ rs], rule exI[of _ ws], rule exI[of _ ?fr], rule exI[of _ ?fw])
      (use alloc_fd_slot_Ok[OF s(1)] alloc_fd_slot_from_Ok[OF s(2)] len s(3-5) in \<open>simp add: special_file_def\<close>)
qed

lemma create_pipe_joined:
  assumes ok: "vfs_ok v" and c: "create_pipe v = Ok ((r, w), v1)"
  shows "joined (vf_next_pipe_id v) r w v1 \<and> pipe_content (vf_next_pipe_id v) v1 = []"
proof -
  from create_pipe_effect[OF assms] obtain rs ws fr fw where
    e: "r = of_nat rs" "w = of_nat ws" "rs < ws" "ws < 64" "vf_files v1 = (vf_files v)[rs := Some fr, ws := Some fw]"
    "of_special fr = Some (PipeRead (vf_next_pipe_id v))" "of_special fw = Some (PipeWrite (vf_next_pipe_id v))"
    "map_of (vf_pipes v1) (vf_next_pipe_id v) = Some \<lparr>pp_buf = [], pp_readers = 1, pp_writers = 1\<rparr>" by blast
  have len: "length (vf_files v) = 64" "length (vf_files v1) = 64" using ok e(5) by (simp_all add: vfs_ok_def)
  have "Vfs_file r v1 = Ok fr" "Vfs_file w v1 = Ok fw"
    using Vfs_file_slot[OF len(2), of rs] Vfs_file_slot[OF len(2), of ws] e(1-5) len by (simp_all add: nth_list_update)
  then show ?thesis using create_pipe_ok[OF c ok] e(6-8) by (simp add: joined_def pipe_content_def)
qed

text \<open>
  Property C13.  A pipe is a first-in first-out channel.  After any history of calls, a new pipe delivers, whatever sequence of reads and writes of whatever
  sizes is made on its two descriptors, exactly the bytes that were accepted, in order; what is accepted and not yet delivered
  is in the buffer and never exceeds its capacity.
\<close>

theorem pipe_fifo:
  assumes "Vfs_mount dev = Ok v0" and "vfs_history cs v0 v" and "create_pipe v = Ok ((r, w), v1)"
    and "channel_run (pipe_put w s) (pipe_get r s) ops v1 = (sent, got, v2)"
  shows "sent = got @ pipe_content (vf_next_pipe_id v) v2 \<and> length (pipe_content (vf_next_pipe_id v) v2) \<le> PIPE_CAPACITY"
proof -
  have "vfs_ok v" by (rule vfs_history_ok[OF assms(2) mount_ok[OF assms(1)]])
  from create_pipe_joined[OF this assms(3)] show ?thesis using pipe.run_fifo[of "vf_next_pipe_id v" r w v1, OF _ assms(4)] by simp
qed

theorem pipe_fifo_witness:
  "\<exists>v0 v1. Vfs_mount blank_disk = Ok v0 \<and> create_pipe v0 = Ok ((3, 4), v1) \<and>
     (\<forall>s. case channel_run (pipe_put 4 s) (pipe_get 3 s) [Put [1, 2], Put [3], Get 2, Get 5] v1 of
        (sent, got, v2) \<Rightarrow> sent = got @ pipe_content 1 v2)"
proof -
  obtain v0 where v0: "Vfs_mount blank_disk = Ok v0" "vf_files v0 = fresh_table" "vf_next_pipe_id v0 = 1" using blank_disk_mounts by blast
  from pipe_on_fresh_table[OF v0(2,3)] obtain v1 where v1: "create_pipe v0 = Ok ((3, 4), v1)" by blast
  have "case channel_run (pipe_put 4 s) (pipe_get 3 s) [Put [1, 2], Put [3], Get 2, Get 5] v1 of (sent, got, v2) \<Rightarrow> sent = got @ pipe_content 1 v2" for s
    using pipe_fifo[OF v0(1) history_start v1, of s "[Put [1, 2], Put [3], Get 2, Get 5]"] v0(3)
    by (cases "channel_run (pipe_put 4 s) (pipe_get 3 s) [Put [1, 2], Put [3], Get 2, Get 5] v1") (simp del: channel_run.simps)
  then show ?thesis using v0(1) v1 by blast
qed

text \<open>
  Property C35.  A writer and a reader that take turns make progress.  Whatever has been done with a new pipe, full or empty, a write of something followed by a read of something delivers at
  least one byte, so that neither a full buffer nor an empty one can hold both sides up.
\<close>

theorem pipe_turns_progress:
  assumes "Vfs_mount dev = Ok v0" and "vfs_history cs v0 v" and "create_pipe v = Ok ((r, w), v1)"
    and "channel_run (pipe_put w s) (pipe_get r s) ops v1 = (sent, got, v2)" and "data \<noteq> []" and "0 < n"
    and "channel_run (pipe_put w s) (pipe_get r s) [Put data, Get n] v2 = (sent', got', v3)"
  shows "got' \<noteq> []"
proof -
  have "vfs_ok v" by (rule vfs_history_ok[OF assms(2) mount_ok[OF assms(1)]])
  from create_pipe_joined[OF this assms(3)] have "joined (vf_next_pipe_id v) r w v2" using pipe.run_fifo[OF _ assms(4)] by blast
  from pipe.round_moves[OF this _ assms(5-7)] show ?thesis by simp
qed

theorem pipe_turns_progress_witness:
  "\<exists>v0 v1. Vfs_mount blank_disk = Ok v0 \<and> create_pipe v0 = Ok ((3, 4), v1) \<and>
     (\<forall>s. fst (snd (channel_run (pipe_put 4 s) (pipe_get 3 s) [Put [7], Get 5] v1)) \<noteq> [])"
proof -
  obtain v0 v1 where v: "Vfs_mount blank_disk = Ok v0" "create_pipe v0 = Ok ((3, 4), v1)" using fresh_pipe by blast
  have "fst (snd (channel_run (pipe_put 4 s) (pipe_get 3 s) [Put [7], Get 5] v1)) \<noteq> []" for s
    using pipe_turns_progress[OF v(1) history_start v(2), of s "[]" "[]" "[]" v1 "[7]" 5]
    by (cases "channel_run (pipe_put 4 s) (pipe_get 3 s) [Put [7], Get 5] v1") (simp del: channel_run.simps add: channel_run.simps(1))
  then show ?thesis using v by blast
qed

section \<open>Waiting\<close>

text \<open>
  Property C33.  Poll tells whether a call would wait.  On the read end of a pipe, a read waits exactly when neither input nor hang-up is reported,
  and on the write end a write waits exactly when neither room nor an error is reported.
\<close>

theorem poll_tells_waiting:
  assumes "Vfs_file fd v = Ok f" and "Vfs_poll_mask fd v s = Ok (events, s')" and "0 < n" and "data \<noteq> []"
  shows "(\<forall>i. of_special f = Some (PipeRead i) \<longrightarrow> (Vfs_read fd n v s = Err WouldBlock \<longleftrightarrow> events AND (POLLIN OR POLLHUP) = 0)) \<and>
    (\<forall>i. of_special f = Some (PipeWrite i) \<longrightarrow> (Vfs_write fd data v s = Err WouldBlock \<longleftrightarrow> events AND (POLLOUT OR POLLERR) = 0))"
  using assms
  by (auto simp: Vfs_poll_mask_def Vfs_read_def Vfs_write_def read_pipe_def write_pipe_def Let_def split: option.splits if_splits)

theorem poll_tells_waiting_witness:
  "\<exists>v. \<forall>s. Vfs_poll_mask 3 v s = Ok (0, s) \<and> Vfs_read 3 1 v s = Err WouldBlock"
proof -
  obtain v where v: "Vfs_file 3 v = Ok (special_file (lit ''[pipe]'') (PipeRead 1))"
    "map_of (vf_pipes v) 1 = Some \<lparr>pp_buf = [], pp_readers = 1, pp_writers = 1\<rparr>" using fresh_pipe by blast
  have m: "Vfs_poll_mask 3 v s = Ok (0, s)" for s using v by (simp add: Vfs_poll_mask_def special_file_def)
  show ?thesis using poll_tells_waiting[OF v(1) m, of 1 "[0]"] m by (auto simp: special_file_def)
qed

section \<open>The waiting calls\<close>

lemma vfs_read_waits: "read_once fd n st = Err WouldBlock \<Longrightarrow> vfs_read (replicate k id @ ys) fd n st = vfs_read ys fd n st"
  by (induction k) (simp_all add: vfs_read.simps[of "_ # _"])

lemma vfs_read_stuck: "read_once fd n st = Err WouldBlock \<Longrightarrow> vfs_read (replicate k id) fd n st = None"
  using vfs_read_waits[of fd n st k "[]"] by (simp add: vfs_read.simps[of "[]"])

text \<open>Another task that writes, when it gets the processor.\<close>

definition writer_step :: "i32 \<Rightarrow> bytes \<Rightarrow> io_state \<Rightarrow> io_state" where
  "writer_step w data st = (case write_once w data st of Some (Inr (_, st')) \<Rightarrow> st' | _ \<Rightarrow> st)"

lemma joined_read_once:
  assumes "joined i r w v" "pipe_content i v \<noteq> []" "0 < n"
  shows "\<exists>st'. read_once r n (Some v, s) = Ok (take n (pipe_content i v), st')"
  using assms by (auto simp: joined_def pipe_content_def read_once_def Vfs_read_def read_pipe_def)

text \<open>
  Property C34.  A waiting reader is woken by the first write.  A read from a new pipe has no result while the other tasks leave the pipe alone, however
  often the reader tries; once another task has written, the next try returns the first bytes written.
\<close>

theorem waiting_reader_woken:
  assumes "Vfs_mount dev = Ok v0" and "vfs_history cs v0 v" and "create_pipe v = Ok ((r, w), v1)" and "0 < n" and "data \<noteq> []"
  shows "vfs_read (replicate k id) r n (Some v1, s) = None \<and>
    (\<exists>st. vfs_read (replicate k id @ writer_step w data # ys) r n (Some v1, s) = Ok (take n (take PIPE_CAPACITY data), st))"
proof -
  let ?i = "vf_next_pipe_id v"
  have "vfs_ok v" by (rule vfs_history_ok[OF assms(2) mount_ok[OF assms(1)]])
  note j = create_pipe_joined[OF this assms(3)]
  from create_pipe_effect[OF \<open>vfs_ok v\<close> assms(3)] have "map_of (vf_pipes v1) ?i = Some \<lparr>pp_buf = [], pp_readers = 1, pp_writers = 1\<rparr>" by blast
  then have wait: "read_once r n (Some v1, s) = Err WouldBlock"
    using j assms(4) by (auto simp: joined_def read_once_def Vfs_read_def read_pipe_def)
  define m where "m = min (length data) PIPE_CAPACITY"
  obtain v2 where p: "pipe_put w s data v1 = Some (m, v2)"
    using pipe.put_room[of ?i r w v1 data s] j assms(5) by (auto simp: m_def)
  have v2: "joined ?i r w v2" "pipe_content ?i v2 = take m data" using pipe.put_ok[OF _ p, of ?i r] j by simp_all
  obtain s2 where w: "Vfs_write w data v1 s = Ok (m, v2, s2)" using p by (auto simp: pipe_put_def split: option.splits sum.splits prod.splits)
  have st: "writer_step w data (Some v1, s) = (Some v2, s2)" by (simp add: writer_step_def write_once_def w)
  have "pipe_content ?i v2 \<noteq> []" using v2(2) assms(5) by (cases data) (simp_all add: m_def)
  from joined_read_once[OF v2(1) this assms(4), of s2] obtain st' where r: "read_once r n (Some v2, s2) = Ok (take n (take m data), st')"
    using v2(2) by auto
  have "vfs_read (replicate k id @ writer_step w data # ys) r n (Some v1, s) = Ok (take n (take m data), st')"
    using vfs_read_waits[OF wait, of k "writer_step w data # ys"] wait r st
    by (simp add: vfs_read.simps[of "writer_step w data # ys"] vfs_read.simps[of ys])
  moreover have "take m data = take PIPE_CAPACITY data" by (simp add: m_def min_def)
  ultimately show ?thesis using vfs_read_stuck[OF wait] by auto
qed

theorem waiting_reader_woken_witness:
  "\<exists>v0 v1. Vfs_mount blank_disk = Ok v0 \<and> create_pipe v0 = Ok ((3, 4), v1) \<and>
     (\<forall>s. vfs_read [id, id] 3 4 (Some v1, s) = None \<and> (\<exists>st. vfs_read [id, id, writer_step 4 [1, 2]] 3 4 (Some v1, s) = Ok ([1, 2], st)))"
proof -
  obtain v0 v1 where v: "Vfs_mount blank_disk = Ok v0" "create_pipe v0 = Ok ((3, 4), v1)" using fresh_pipe by blast
  show ?thesis using waiting_reader_woken[OF v(1) history_start v(2), of 4 "[1, 2]" 2 _ "[]"] v by (auto simp: numeral_2_eq_2)
qed

section \<open>Duplicated ends\<close>

lemma drop_writer:
  assumes "map_of (vf_pipes v) i = Some p" "pp_readers p \<noteq> 0"
  shows "map_of (vf_pipes (release_special (Some (PipeWrite i)) v)) i = Some (p\<lparr>pp_writers := sat_sub (pp_writers p) 1\<rparr>)"
    "vf_files (release_special (Some (PipeWrite i)) v) = vf_files v"
  using assms by (simp_all add: release_special_def drop_pipe_end_def)

text \<open>
  Property C37.  A duplicated write end is not counted.  When the write end of a new pipe is duplicated and the first descriptor closed, as a shell does for every pipeline, the
  reader is told the end of the file although the duplicate is still open and takes what is written to it.
\<close>

theorem duplicate_writer_uncounted:
  assumes "vfs_ok v" and "create_pipe v = Ok ((r, w), v1)" and "Vfs_dup_fd w min_fd cloexec v1 = Ok (w', v2)" and "0 < n"
  shows "\<exists>v3 f. Vfs_close w v2 = Ok ((), v3) \<and> Vfs_file w' v3 = Ok f \<and> of_special f = Some (PipeWrite (vf_next_pipe_id v)) \<and>
    Vfs_read r n v3 s = Ok ([], v3, s) \<and> (\<forall>b. \<exists>v4. Vfs_write w' [b] v3 s = Ok (1, v4, s))"
proof -
  let ?i = "vf_next_pipe_id v"
  from create_pipe_effect[OF assms(1,2)] obtain rs ws fr fw where
    e: "r = of_nat rs" "w = of_nat ws" "rs < ws" "ws < 64" "vf_files v1 = (vf_files v)[rs := Some fr, ws := Some fw]"
    "of_special fr = Some (PipeRead ?i)" "of_special fw = Some (PipeWrite ?i)" "of_refs fw = 1"
    "map_of (vf_pipes v1) ?i = Some \<lparr>pp_buf = [], pp_readers = 1, pp_writers = 1\<rparr>" by blast
  have len: "length (vf_files v) = 64" "length (vf_files v1) = 64" using assms(1) e(5) by (simp_all add: vfs_ok_def)
  have fw: "Vfs_file w v1 = Ok fw" using Vfs_file_slot[OF len(2), of ws] e(2-5) len by simp
  let ?g = "fw\<lparr>of_fd_flags := if cloexec then 1 else 0\<rparr>"
  from assms(3) fw obtain ds where d: "ds < 64" "vf_files v1 ! ds = None" "w' = of_nat ds" "v2 = v1\<lparr>vf_files := (vf_files v1)[ds := Some ?g]\<rparr>"
    using len(2) by (auto simp: Vfs_dup_fd_def bindE_Ok_iff Let_def dest: alloc_fd_slot_from_Ok)
  have ne: "ds \<noteq> rs" "ds \<noteq> ws" using d(1,2) e(3-5) len by (auto simp: nth_list_update split: if_splits)
  define v3 where "v3 = release_special (Some (PipeWrite ?i)) (v2\<lparr>vf_files := (vf_files v2)[ws := None]\<rparr>)"
  have f3: "vf_files v3 = (vf_files v1)[ds := Some ?g, ws := None]" and
    p3: "map_of (vf_pipes v3) ?i = Some \<lparr>pp_buf = [], pp_readers = 1, pp_writers = 0\<rparr>"
    using drop_writer[of "v2\<lparr>vf_files := (vf_files v2)[ws := None]\<rparr>" ?i] e(9) unfolding v3_def by (simp_all add: d(4) sat_sub_def)
  have "Vfs_file w v2 = Ok fw" using Vfs_file_slot[of v2 ws] e(2,4,5) ne(2) len d(4) by simp
  then have c: "Vfs_close w v2 = Ok ((), v3)" using e(2,4,7,8) fd_of_slot(1)[OF e(4)] by (simp add: Vfs_close_def v3_def)
  have l3: "length (vf_files v3) = 64" using f3 len by simp
  have "Vfs_file w' v3 = Ok ?g" "Vfs_file r v3 = Ok fr"
    using Vfs_file_slot[OF l3 d(1)] Vfs_file_slot[OF l3, of rs] d(1,3) e(1,3-5) ne len f3 by (simp_all add: nth_list_update)
  then show ?thesis using c p3 e(6,7) assms(4) by (auto simp: Vfs_read_def read_pipe_def Vfs_write_def write_pipe_def)
qed

theorem duplicate_writer_uncounted_witness:
  "\<exists>v0 v1 v2 v3 f. Vfs_mount blank_disk = Ok v0 \<and> create_pipe v0 = Ok ((3, 4), v1) \<and> Vfs_dup_fd 4 0 False v1 = Ok (5, v2) \<and>
     Vfs_close 4 v2 = Ok ((), v3) \<and> Vfs_file 5 v3 = Ok f \<and> of_special f = Some (PipeWrite 1) \<and> (\<exists>s. Vfs_read 3 8 v3 s = Ok ([], v3, s))"
proof -
  obtain v0 where v0: "Vfs_mount blank_disk = Ok v0" "vf_files v0 = fresh_table" "vf_next_pipe_id v0 = 1" using blank_disk_mounts by blast
  from pipe_on_fresh_table[OF v0(2,3)] obtain v1 fr fw where v1: "create_pipe v0 = Ok ((3, 4), v1)" and
    f: "vf_files v1 = fresh_table[3 := Some fr, 4 := Some fw]" by auto
  have l: "length (vf_files v1) = 64" by (simp add: f fresh_table_nth)
  have "Vfs_file 4 v1 = Ok fw" using Vfs_file_slot[OF l, of 4] by (simp add: f fresh_table_nth)
  moreover have "position (\<lambda>f. f = None) (vf_files v1) = Some 5" by (simp add: f fresh_table_def numeral_nat)
  ultimately obtain v2 where v2: "Vfs_dup_fd 4 0 False v1 = Ok (5, v2)" by (simp add: Vfs_dup_fd_def alloc_fd_slot_from_def)
  from duplicate_writer_uncounted[OF mount_ok[OF v0(1)] v1 v2, of 8 "undefined"] show ?thesis using v0(1,3) v1 v2 by fastforce
qed

text \<open>
  Property C38.  A write end that is overwritten is not released.  In any history without other duplicates, when another file is put over the descriptor of the write
  end of a new pipe, no descriptor is open on that end any more, and yet the reader waits for ever.
\<close>

theorem overwritten_writer_strands_reader:
  assumes "Vfs_mount dev = Ok v0" and "vfs_history cs v0 v" and "DupCall \<notin> set cs" and "length (filter ((=) PipeCall) cs) < 2 ^ 32 - 2"
    and "create_pipe v = Ok ((r, w), v1)" and "Vfs_file other v1 = Ok g" and "other \<noteq> w" and "0 < n"
  shows "\<exists>v2. Vfs_dup2_fd other w cloexec v1 = Ok (w, v2) \<and>
    (\<nexists>fd f. Vfs_file fd v2 = Ok f \<and> of_special f = Some (PipeWrite (vf_next_pipe_id v))) \<and>
    (\<forall>k. vfs_read (replicate k id) r n (Some v2, s) = None)"
proof -
  let ?i = "vf_next_pipe_id v"
  have ok: "vfs_ok v" by (rule vfs_history_ok[OF assms(2) mount_ok[OF assms(1)]])
  have c: "counted v" using history_counted[OF assms(2) _ assms(3)] mount_counted[OF assms(1)] assms(4) by simp
  have "map_of (vf_pipes v) ?i = None" using counted_at(3)[OF c, of ?i] by (cases "map_of (vf_pipes v) ?i") auto
  then have none: "special_at (vf_files v ! j) \<noteq> Some (PipeWrite ?i)" if "j < 64" for j
    using counted_at(2)[OF c, of ?i] ends_pos[of v "PipeWrite ?i"] that ok by (auto simp: vfs_ok_def)
  from create_pipe_effect[OF ok assms(5)] obtain rs ws fr fw where
    e: "r = of_nat rs" "w = of_nat ws" "rs < ws" "ws < 64" "vf_files v1 = (vf_files v)[rs := Some fr, ws := Some fw]"
    "of_special fr = Some (PipeRead ?i)" "map_of (vf_pipes v1) ?i = Some \<lparr>pp_buf = [], pp_readers = 1, pp_writers = 1\<rparr>" by blast
  have len: "length (vf_files v) = 64" using ok by (simp add: vfs_ok_def)
  have none1: "special_at (vf_files v1 ! j) \<noteq> Some (PipeWrite ?i)" if "j < 64" "j \<noteq> ws" for j
    using none[OF that(1)] that e(3-6) len by (auto simp: nth_list_update special_at_def)
  have g: "unat other < 64" "vf_files v1 ! unat other = Some g" "unat other \<noteq> ws"
    using assms(6,7) e(2,5) len by (auto simp: Vfs_file_iff)
  let ?g = "g\<lparr>of_fd_flags := if cloexec then 1 else 0\<rparr>"
  define v2 where "v2 = v1\<lparr>vf_files := (vf_files v1)[ws := Some ?g]\<rparr>"
  have l2: "length (vf_files v2) = 64" using e(5) len by (simp add: v2_def)
  have d: "Vfs_dup2_fd other w cloexec v1 = Ok (w, v2)"
    using assms(6) e(2,4,5) len fd_of_slot[OF e(4)] by (simp add: Vfs_dup2_fd_def fd_slot_def v2_def)
  have "special_at (vf_files v2 ! j) \<noteq> Some (PipeWrite ?i)" if "j < 64" for j
    using none1[OF that] none1[OF g(1,3)] g(2) e(4,5) len by (auto simp: v2_def nth_list_update special_at_def)
  then have gone: "\<nexists>fd f. Vfs_file fd v2 = Ok f \<and> of_special f = Some (PipeWrite ?i)"
    using l2 by (fastforce simp: Vfs_file_iff special_at_def)
  have "Vfs_file r v2 = Ok fr" using Vfs_file_slot[OF l2, of rs] e(1,3-5) len by (simp add: v2_def nth_list_update)
  then have "read_once r n (Some v2, s) = Err WouldBlock"
    using e(6,7) assms(8) by (simp add: read_once_def Vfs_read_def read_pipe_def v2_def)
  then show ?thesis using d gone vfs_read_stuck by blast
qed

theorem overwritten_writer_strands_reader_witness:
  "\<exists>v0 v1 v2. Vfs_mount blank_disk = Ok v0 \<and> create_pipe v0 = Ok ((3, 4), v1) \<and> Vfs_dup2_fd 3 4 False v1 = Ok (4, v2) \<and>
     (\<exists>s. \<forall>k. vfs_read (replicate k id) 3 8 (Some v2, s) = None)"
proof -
  obtain v0 v1 where v: "Vfs_mount blank_disk = Ok v0" "create_pipe v0 = Ok ((3, 4), v1)" "Vfs_file 3 v1 = Ok (special_file (lit ''[pipe]'') (PipeRead 1))"
    using fresh_pipe by blast
  from overwritten_writer_strands_reader[OF v(1) history_start _ _ v(2,3), of 8 False undefined] show ?thesis using v(1,2) by auto
qed

end
