(* ===== verification/Vfs_Console.thy ===== *)
theory Vfs_Console
  imports Vfs_Table
begin

text \<open>
  Console input of \<^verbatim>\<open>kernel/vfs.rs\<close> over the serial line of \<^verbatim>\<open>kernel/serial.rs\<close>: what a read of the terminal returns,
  consumes and echoes.
\<close>

unbundle bit_operations_syntax

section \<open>Reading the console\<close>

text \<open>A carriage return arrives as a newline; the echo of a byte.\<close>

definition line_byte :: "u8 \<Rightarrow> u8" where
  "line_byte b = (if b = 0x0d then 0x0a else b)"

definition echo_bytes :: "u32 \<Rightarrow> u8 \<Rightarrow> bytes" where
  "echo_bytes lflag b =
    (if lflag AND TTY_LFLAG_ECHO = 0 then []
     else if b = 0x08 \<or> b = 0x7f then [0x08, 0x20, 0x08] else if b = 0x0a then [0x0a] else char_bytes b)"

definition line_output :: "SerialState \<Rightarrow> (u16 \<times> u8) list" where
  "line_output s = sp_writes (se_port s)"

lemma sent_write_str: "sp_writes (write_str bs p) = sp_writes p @ map (Pair 0) bs"
  unfolding write_str_def by (induction bs arbitrary: p) (simp_all add: send_def port_write_def)

lemma serial_ready_twice [simp]: "serial_ready (serial_ready s) = serial_ready s"
  by (simp add: serial_ready_def)

lemma echo_effect:
  "se_ready s \<Longrightarrow> line_output (echo_input_byte b s) = line_output s @ map (Pair 0) (echo_bytes (tty_lflag s) b) \<and>
     se_ready (echo_input_byte b s) \<and> tty_lflag (echo_input_byte b s) = tty_lflag s"
  by (simp add: echo_input_byte_def echo_bytes_def tty_echo_enabled_def serial_print_def serial_ready_def line_output_def sent_write_str Let_def)

lemma read_effect:
  "read_byte_blocking s = Some (b, s') \<Longrightarrow> line_output s' = line_output (serial_ready s) \<and> se_ready s' \<and> tty_lflag s' = tty_lflag s"
  "try_read_byte s = (r, s'') \<Longrightarrow> line_output s'' = line_output (serial_ready s) \<and> se_ready s'' \<and> tty_lflag s'' = tty_lflag s"
  by (auto simp: read_byte_blocking_def try_read_byte_def receive_def line_output_def serial_ready_def Let_def split: option.splits prod.splits list.splits)

text \<open>What the loop on the console gives: some of the line, all of it consumed and echoed, nothing after a newline.\<close>

definition line_taken :: "nat \<Rightarrow> SerialState \<Rightarrow> bytes \<Rightarrow> SerialState \<Rightarrow> bool" where
  "line_taken k s bs s' \<longleftrightarrow> k \<le> length (line_input s) \<and> bs = map line_byte (take k (line_input s)) \<and>
     line_input s' = drop k (line_input s) \<and> 0x0a \<notin> set (butlast bs) \<and>
     line_output s' = line_output (serial_ready s) @ map (Pair 0) (concat (map (echo_bytes (tty_lflag s)) bs))"

lemma serial_ready_id: "se_ready s \<Longrightarrow> serial_ready s = s"
  by (simp add: serial_ready_def)

lemma line_taken_none: "line_input s' = line_input s \<Longrightarrow> line_output s' = line_output (serial_ready s) \<Longrightarrow> line_taken 0 s [] s'"
  by (simp add: line_taken_def)

lemma line_taken_Cons:
  assumes l: "line_input s = b # line_input s1" and e: "line_output s1 = line_output (serial_ready s)" "se_ready s1" "tty_lflag s1 = tty_lflag s"
    and r: "line_taken k (echo_input_byte (line_byte b) s1) bs s'" and nl: "bs \<noteq> [] \<Longrightarrow> line_byte b \<noteq> 0x0a"
  shows "line_taken (Suc k) s (line_byte b # bs) s'"
  using assms echo_effect[OF e(2), of "line_byte b"] by (auto simp: line_taken_def serial_ready_id)

lemma tty_loop_taken:
  assumes "tty_loop n fresh s = Some (bs, s')" "0 < n"
  shows "\<exists>k \<le> n. line_taken k s bs s' \<and> (fresh \<longrightarrow> 0 < k)"
  using assms
proof (induction n arbitrary: fresh s bs)
  case (Suc n)
  show ?case
  proof (cases "\<not> fresh \<and> fst (try_read_byte s) = None")
    case True
    then obtain s1 where t: "try_read_byte s = (None, s1)" by (cases "try_read_byte s") auto
    then have "bs = []" "s' = s1" using True Suc.prems(1) by simp_all
    then show ?thesis using line_taken_none[of s1 s] try_read_byte_input(2)[OF t] read_effect(2)[OF t] True by auto
  next
    case False
    then obtain b s1 where b: "(if fresh then map_option (\<lambda>(b, s). (Some b, s)) (read_byte_blocking s) else Some (try_read_byte s)) = Some (Some b, s1)"
      using Suc.prems(1) by (cases fresh; cases "try_read_byte s"; cases "read_byte_blocking s") auto
    then have l: "line_input s = b # line_input s1" and e: "line_output s1 = line_output (serial_ready s)" "se_ready s1" "tty_lflag s1 = tty_lflag s"
      using read_byte_blocking_input[of s b s1] try_read_byte_input(1)[of s b s1] read_effect(1)[of s b s1] read_effect(2)[of s "Some b" s1]
      by (auto split: if_splits)
    let ?s = "echo_input_byte (line_byte b) s1"
    have step: "tty_loop (Suc n) fresh s = (if line_byte b = 0x0a then Some ([line_byte b], ?s)
      else do { (bs, s) \<leftarrow> tty_loop n False ?s; Some (line_byte b # bs, s) })"
      using b by (simp add: line_byte_def Let_def)
    show ?thesis
    proof (cases "line_byte b = 0x0a \<or> n = 0")
      case True
      then have "bs = [line_byte b]" "s' = ?s" using step Suc.prems(1) by (auto split: if_splits)
      moreover have "line_taken 0 ?s [] ?s" using echo_effect[OF e(2)] by (intro line_taken_none) (simp_all add: serial_ready_id)
      ultimately show ?thesis using line_taken_Cons[OF l e, of 0 "[]"] by (intro exI[of _ "Suc 0"]) simp
    next
      case False
      then obtain rest where r: "tty_loop n False ?s = Some (rest, s')" "bs = line_byte b # rest"
        using step Suc.prems(1) by (auto simp: Option.bind_eq_Some_conv)
      from Suc.IH[OF r(1)] False obtain k where k: "k \<le> n" "line_taken k ?s rest s'" by blast
      show ?thesis using line_taken_Cons[OF l e k(2)] False k(1) r(2) by (intro exI[of _ "Suc k"]) simp
    qed
  qed
qed simp

lemma tty_loop_goes_on: "\<exists>bs s'. tty_loop n False s = Some (bs, s')"
proof (induction n arbitrary: s)
  case (Suc n)
  obtain r s1 where t: "try_read_byte s = (r, s1)" by fastforce
  show ?case
  proof (cases r)
    case (Some b)
    then show ?thesis using t Suc[of "echo_input_byte (line_byte b) s1"] by (auto simp: line_byte_def Let_def)
  qed (use t in simp)
qed simp

lemma tty_loop_returns: "0 < n \<Longrightarrow> tty_loop n True s = None \<longleftrightarrow> line_input s = []"
proof (cases n)
  case (Suc k)
  show ?thesis
  proof (cases "read_byte_blocking s")
    case None
    then show ?thesis using Suc read_byte_blocking_returns[of s] by simp
  next
    case (Some r)
    then obtain b s1 where r: "read_byte_blocking s = Some (b, s1)" by (cases r) auto
    then have "line_input s \<noteq> []" using read_byte_blocking_returns[of s] by auto
    moreover obtain bs s2 where "tty_loop k False (echo_input_byte (line_byte b) s1) = Some (bs, s2)" using tty_loop_goes_on by blast
    ultimately show ?thesis using Suc r by (simp add: line_byte_def Let_def)
  qed
qed simp

text \<open>
  Property C36.  Reading from the console.  A read of standard input or the terminal waits until the line delivers a byte, and then returns, without waiting again, a non-empty
  beginning of what the line delivers, carriage returns as newlines and nothing after the first newline; exactly those bytes are
  consumed, and each of them is echoed once, in order, when echo is on.
\<close>

theorem console_read_line:
  assumes "Vfs_file fd v = Ok f" and "of_special f \<in> {Some Stdin, Some Tty}" and "0 < n"
  shows "if line_input s = [] then Vfs_read fd n v s = None
    else \<exists>k s'. 0 < k \<and> k \<le> n \<and> Vfs_read fd n v s = Ok (map line_byte (take k (line_input s)), v, s') \<and>
      line_input s' = drop k (line_input s) \<and> 0x0a \<notin> set (butlast (map line_byte (take k (line_input s)))) \<and>
      line_output s' = line_output (serial_ready s) @
        map (Pair 0) (concat (map (\<lambda>b. echo_bytes (tty_lflag s) (line_byte b)) (take k (line_input s))))"
proof -
  have r: "Vfs_read fd n v s = do { (bs, s) \<leftarrow> tty_loop n True s; Ok (bs, v, s) }" using assms(1,2) by (auto simp: Vfs_read_def)
  show ?thesis
  proof (cases "line_input s = []")
    case True
    then show ?thesis using r tty_loop_returns[OF assms(3), of s] by simp
  next
    case False
    then obtain bs s' where t: "tty_loop n True s = Some (bs, s')" using tty_loop_returns[OF assms(3)] by fastforce
    from tty_loop_taken[OF t assms(3)] obtain k where "k \<le> n" "0 < k" "line_taken k s bs s'" by blast
    then show ?thesis using False r t by (auto simp: line_taken_def comp_def)
  qed
qed

theorem console_read_line_witness:
  "\<exists>v k s'. Vfs_mount blank_disk = Ok v \<and> 0 < k \<and> k \<le> 10 \<and>
     Vfs_read 0 10 v \<lparr>se_port = \<lparr>sp_polls = [None, Some 0x68, Some 0x0d, Some 0x41], sp_writes = []\<rparr>, se_ready = False,
       tty_iflag = 0, tty_oflag = 0, tty_cflag = 0, tty_lflag = 8\<rparr> = Ok (map line_byte (take k [0x68, 0x0d, 0x41]), v, s') \<and>
     line_input s' = drop k [0x68, 0x0d, 0x41]"
proof -
  let ?s = "\<lparr>se_port = \<lparr>sp_polls = [None, Some 0x68, Some 0x0d, Some 0x41], sp_writes = []\<rparr>, se_ready = False,
    tty_iflag = 0, tty_oflag = 0, tty_cflag = 0, tty_lflag = 8\<rparr> :: SerialState"
  obtain v where v: "Vfs_mount blank_disk = Ok v" "vf_files v = fresh_table" using blank_disk_mounts by blast
  have f: "Vfs_file 0 v = Ok (special_file (lit ''/dev/stdin'') Stdin)" using Vfs_file_slot[of v 0] v(2) fresh_table_nth by simp
  have l: "line_input ?s = [0x68, 0x0d, 0x41]" by (simp add: line_input_def)
  show ?thesis using console_read_line[OF f, of 10 ?s] v(1) unfolding l by (auto simp: special_file_def)
qed

end
