(* ===== verification/Zram.thy ===== *)
theory Zram
  imports Rust_Coll
begin

text \<open>
  The compressed page store of \<^verbatim>\<open>kernel/zram.rs\<close>: size-class pages with a free list and a generation
  per slot, the allocator over them, the page device that compresses what it stores, and the swap
  cache in front of it.  The LZ4 codec is the third-party crate \<^verbatim>\<open>lz4_flex\<close>: \<open>compress\<close> and
  \<open>decompress\<close> are arguments of the operations that call it.
\<close>

section \<open>Data\<close>

abbreviation (input) PAGE_SIZE :: nat where "PAGE_SIZE \<equiv> 4096"

definition SIZE_CLASSES :: "nat list" where
  "SIZE_CLASSES = [64, 96, 128, 160, 192, 256, 320, 512, 768, 1024, 1536, 2048, 3072, 4096]"

record ZsHandle =
  zh_class_index :: nat
  zh_page_index :: nat
  zh_slot_index :: nat
  zh_generation :: u32

datatype ZramEncoding = Raw | Lz4

record ZsStats =
  zss_zspages :: nat
  zss_used_slots :: nat
  zss_capacity_bytes :: nat
  zss_stored_bytes :: nat

record ZramStats =
  zrs_stores :: u64
  zrs_loads :: u64
  zrs_invalidations :: u64
  zrs_compressed_pages :: nat
  zrs_raw_pages :: nat
  zrs_logical_bytes :: nat
  zrs_stored_bytes :: nat
  zrs_allocator :: ZsStats

record ZswapStats =
  zws_hits :: u64
  zws_misses :: u64
  zws_backend :: ZramStats

datatype ZramError =
  PageIndexOutOfRange | PageTooLarge | ObjectTooLarge | InvalidHandle | MissingPage | DecompressionFailed

record ZsPage =
  zp_slot_size :: nat
  zp_pages_per_zspage :: nat
  zp_storage :: bytes
  zp_slot_lengths :: "nat list"
  zp_slot_generations :: "u32 list"
  zp_free_list :: "nat list"
  zp_used_slots :: nat

record SizeClassPool =
  pool_slot_size :: nat
  pool_pages_per_zspage :: nat
  pool_zspages :: "ZsPage list"

record ZsAllocator =
  za_classes :: "SizeClassPool list"

record ZramEntry =
  ze_handle :: ZsHandle
  ze_original_len :: nat
  ze_stored_len :: nat
  ze_encoding :: ZramEncoding

record ZramDevice =
  zd_max_pages :: nat
  zd_allocator :: ZsAllocator
  zd_pages :: "(nat, ZramEntry) btree"
  zd_stores :: u64
  zd_loads :: u64
  zd_invalidations :: u64

record ZswapCache =
  zc_backend :: ZramDevice
  zc_hits :: u64
  zc_misses :: u64

section \<open>One page of slots\<close>

definition size_class_index :: "nat \<Rightarrow> nat option" where
  "size_class_index n = position (\<lambda>c. n \<le> c) SIZE_CLASSES"

definition pages_per_zspage :: "nat \<Rightarrow> nat" where
  "pages_per_zspage slot_size = (if slot_size \<le> 512 then 1 else if slot_size \<le> 2048 then 2 else 4)"

definition nonzero_generation :: "u32 \<Rightarrow> u32" where
  "nonzero_generation g = (if g = 0 then 1 else g)"

definition ZsPage_new :: "nat \<Rightarrow> nat \<Rightarrow> ZsPage exec" where
  "ZsPage_new slot_size pages =
    (let bytes = PAGE_SIZE * pages in
     if slot_size = 0 then None
     else let slots = max (bytes div slot_size) 1 in
       Some \<lparr>zp_slot_size = slot_size, zp_pages_per_zspage = pages, zp_storage = replicate bytes 0,
         zp_slot_lengths = replicate slots 0, zp_slot_generations = replicate slots 0,
         zp_free_list = rev [0..<slots], zp_used_slots = 0\<rparr>)"

definition ZsPage_allocate :: "bytes \<Rightarrow> ZsPage \<Rightarrow> ((nat \<times> u32) option \<times> ZsPage) exec" where
  "ZsPage_allocate bytes p =
    (if zp_slot_size p < length bytes then Some (None, p)
     else case vec_pop (zp_free_list p) of
       None \<Rightarrow> Some (None, p)
     | Some (slot, free_list) \<Rightarrow> do {
         g \<leftarrow> vec_get (zp_slot_generations p) slot;
         let generation = nonzero_generation (g + 1);
         generations \<leftarrow> vec_set slot generation (zp_slot_generations p);
         lengths \<leftarrow> vec_set slot (length bytes) (zp_slot_lengths p);
         storage \<leftarrow> put_slice (slot * zp_slot_size p) bytes (zp_storage p);
         Some (Some (slot, generation),
           p\<lparr>zp_free_list := free_list, zp_slot_generations := generations, zp_slot_lengths := lengths,
             zp_used_slots := zp_used_slots p + 1, zp_storage := storage\<rparr>) })"

definition slot_valid :: "ZsPage \<Rightarrow> nat \<Rightarrow> u32 \<Rightarrow> bool exec" where
  "slot_valid p slot generation =
    (if length (zp_slot_lengths p) \<le> slot then Some False
     else do {
       g \<leftarrow> vec_get (zp_slot_generations p) slot;
       if g \<noteq> generation then Some False
       else do {
         len \<leftarrow> vec_get (zp_slot_lengths p) slot;
         Some (len \<noteq> 0) } })"

definition ZsPage_read :: "ZsPage \<Rightarrow> nat \<Rightarrow> u32 \<Rightarrow> (ZramError, bytes) outcome" where
  "ZsPage_read p slot generation = do {
     valid \<leftarrow> slot_valid p slot generation;
     if \<not> valid then Err InvalidHandle
     else do {
       let offset = slot * zp_slot_size p;
       len \<leftarrow> vec_get (zp_slot_lengths p) slot;
       map_option Inr (get_range (zp_storage p) offset (offset + len)) } }"

definition ZsPage_free :: "ZsPage \<Rightarrow> nat \<Rightarrow> u32 \<Rightarrow> (ZramError, ZsPage) outcome" where
  "ZsPage_free p slot generation = do {
     valid \<leftarrow> slot_valid p slot generation;
     if \<not> valid then Err InvalidHandle
     else do {
       lengths \<leftarrow> vec_set slot 0 (zp_slot_lengths p);
       g \<leftarrow> vec_get (zp_slot_generations p) slot;
       generations \<leftarrow> vec_set slot (nonzero_generation (g + 1)) (zp_slot_generations p);
       Ok (p\<lparr>zp_slot_lengths := lengths, zp_slot_generations := generations,
             zp_free_list := zp_free_list p @ [slot], zp_used_slots := zp_used_slots p - 1\<rparr>) } }"

definition ZsPage_used_bytes :: "ZsPage \<Rightarrow> nat" where
  "ZsPage_used_bytes p = sum_list (zp_slot_lengths p)"

definition ZsPage_capacity_bytes :: "ZsPage \<Rightarrow> nat" where
  "ZsPage_capacity_bytes p = zp_pages_per_zspage p * PAGE_SIZE"

section \<open>The allocator\<close>

definition SizeClassPool_new :: "nat \<Rightarrow> SizeClassPool" where
  "SizeClassPool_new slot_size = \<lparr>pool_slot_size = slot_size,
     pool_pages_per_zspage = pages_per_zspage slot_size, pool_zspages = []\<rparr>"

definition ZsAllocator_new :: ZsAllocator where
  "ZsAllocator_new = \<lparr>za_classes = map SizeClassPool_new SIZE_CLASSES\<rparr>"

text \<open>The loop of \<^verbatim>\<open>store\<close> over the pages of a class, from page \<open>page_index\<close> on.\<close>

fun zs_try_pages :: "bytes \<Rightarrow> nat \<Rightarrow> ZsPage list \<Rightarrow> ((nat \<times> nat \<times> u32) option \<times> ZsPage list) exec" where
  "zs_try_pages bytes page_index [] = Some (None, [])" |
  "zs_try_pages bytes page_index (p # ps) =
    (case ZsPage_allocate bytes p of
       None \<Rightarrow> None
     | Some (Some (slot, generation), p') \<Rightarrow> Some (Some (page_index, slot, generation), p' # ps)
     | Some (None, p') \<Rightarrow>
         (case zs_try_pages bytes (page_index + 1) ps of
            None \<Rightarrow> None
          | Some (r, ps') \<Rightarrow> Some (r, p' # ps')))"

definition ZsAllocator_store :: "bytes \<Rightarrow> ZsAllocator \<Rightarrow> (ZramError, ZsHandle \<times> ZsAllocator) outcome" where
  "ZsAllocator_store bytes a =
    (case size_class_index (length bytes) of
       None \<Rightarrow> Err ObjectTooLarge
     | Some class_index \<Rightarrow> do {
         pool \<leftarrow> vec_get (za_classes a) class_index;
         (found, zspages) \<leftarrow> zs_try_pages bytes 0 (pool_zspages pool);
         case found of
           Some (page_index, slot, generation) \<Rightarrow>
             Ok (\<lparr>zh_class_index = class_index, zh_page_index = page_index, zh_slot_index = slot,
                   zh_generation = generation\<rparr>,
                 a\<lparr>za_classes := (za_classes a)[class_index := pool\<lparr>pool_zspages := zspages\<rparr>]\<rparr>)
         | None \<Rightarrow> do {
             page \<leftarrow> ZsPage_new (pool_slot_size pool) (pool_pages_per_zspage pool);
             (allocated, page) \<leftarrow> ZsPage_allocate bytes page;
             case allocated of
               None \<Rightarrow> Err ObjectTooLarge
             | Some (slot, generation) \<Rightarrow>
                 (let zspages = zspages @ [page] in
                  Ok (\<lparr>zh_class_index = class_index, zh_page_index = length zspages - 1,
                        zh_slot_index = slot, zh_generation = generation\<rparr>,
                      a\<lparr>za_classes := (za_classes a)[class_index := pool\<lparr>pool_zspages := zspages\<rparr>]\<rparr>)) } })"

definition zs_page_at :: "ZsAllocator \<Rightarrow> ZsHandle \<Rightarrow> ZsPage option" where
  "zs_page_at a h =
    (if zh_class_index h < length (za_classes a)
     then (let ps = pool_zspages (za_classes a ! zh_class_index h)
           in if zh_page_index h < length ps then Some (ps ! zh_page_index h) else None)
     else None)"

definition ZsAllocator_load :: "ZsAllocator \<Rightarrow> ZsHandle \<Rightarrow> (ZramError, bytes) outcome" where
  "ZsAllocator_load a h =
    (case zs_page_at a h of
       None \<Rightarrow> Err InvalidHandle
     | Some page \<Rightarrow> ZsPage_read page (zh_slot_index h) (zh_generation h))"

definition zs_put_page :: "ZsAllocator \<Rightarrow> ZsHandle \<Rightarrow> ZsPage \<Rightarrow> ZsAllocator" where
  "zs_put_page a h page =
    (let c = zh_class_index h; pool = za_classes a ! c
     in a\<lparr>za_classes := (za_classes a)[c := pool\<lparr>pool_zspages := (pool_zspages pool)[zh_page_index h := page]\<rparr>]\<rparr>)"

definition ZsAllocator_free :: "ZsAllocator \<Rightarrow> ZsHandle \<Rightarrow> (ZramError, ZsAllocator) outcome" where
  "ZsAllocator_free a h =
    (case zs_page_at a h of
       None \<Rightarrow> Err InvalidHandle
     | Some page \<Rightarrow> bindE (ZsPage_free page (zh_slot_index h) (zh_generation h)) id
                     (\<lambda>page. Ok (zs_put_page a h page)))"

definition ZsAllocator_stats :: "ZsAllocator \<Rightarrow> ZsStats" where
  "ZsAllocator_stats a =
    fold (\<lambda>pool st. fold (\<lambda>page st. st\<lparr>zss_zspages := zss_zspages st + 1,
        zss_used_slots := zss_used_slots st + zp_used_slots page,
        zss_capacity_bytes := zss_capacity_bytes st + ZsPage_capacity_bytes page,
        zss_stored_bytes := zss_stored_bytes st + ZsPage_used_bytes page\<rparr>) (pool_zspages pool) st)
      (za_classes a)
      \<lparr>zss_zspages = 0, zss_used_slots = 0, zss_capacity_bytes = 0, zss_stored_bytes = 0\<rparr>"

section \<open>The page device\<close>

type_synonym compressor = "bytes \<Rightarrow> bytes"
type_synonym decompressor = "bytes \<Rightarrow> nat \<Rightarrow> bytes option"

definition ZramDevice_new :: "nat \<Rightarrow> ZramDevice" where
  "ZramDevice_new max_pages = \<lparr>zd_max_pages = max_pages, zd_allocator = ZsAllocator_new, zd_pages = [],
     zd_stores = 0, zd_loads = 0, zd_invalidations = 0\<rparr>"

definition zram_encode :: "compressor \<Rightarrow> bytes \<Rightarrow> ZramEncoding \<times> bytes" where
  "zram_encode compress page =
    (let compressed = compress page in
     if length compressed < length page \<and> length compressed \<le> PAGE_SIZE
     then (Lz4, compressed) else (Raw, page))"

text \<open>A failing operation reports its error together with the device it leaves behind.\<close>

definition store_page :: "compressor \<Rightarrow> nat \<Rightarrow> bytes \<Rightarrow> ZramDevice \<Rightarrow> ((ZramError + unit) \<times> ZramDevice) exec" where
  "store_page compress page_index page d =
    (if zd_max_pages d \<le> page_index then Some (Inl PageIndexOutOfRange, d)
     else if PAGE_SIZE < length page then Some (Inl PageTooLarge, d)
     else (let (encoding, payload) = zram_encode compress page in
       case ZsAllocator_store payload (zd_allocator d) of
         None \<Rightarrow> None
       | Some (Inl e) \<Rightarrow> Some (Inl e, d)
       | Some (Inr (handle, allocator)) \<Rightarrow>
          (let replaced = map_of (zd_pages d) page_index;
               pages = bt_insert page_index
                 \<lparr>ze_handle = handle, ze_original_len = length page, ze_stored_len = length payload,
                   ze_encoding = encoding\<rparr> (zd_pages d)
           in do {
             allocator \<leftarrow> (case replaced of
                 None \<Rightarrow> Some allocator
               | Some old_entry \<Rightarrow>
                   (case ZsAllocator_free allocator (ze_handle old_entry) of
                      None \<Rightarrow> None
                    | Some (Inl _) \<Rightarrow> Some allocator
                    | Some (Inr allocator) \<Rightarrow> Some allocator));
             Some (Inr (), d\<lparr>zd_allocator := allocator, zd_pages := pages,
                             zd_stores := sat_add (zd_stores d) 1\<rparr>) })))"

definition load_page :: "decompressor \<Rightarrow> nat \<Rightarrow> ZramDevice \<Rightarrow> ((ZramError + bytes) \<times> ZramDevice) exec" where
  "load_page decompress page_index d =
    (case map_of (zd_pages d) page_index of
       None \<Rightarrow> Some (Inl MissingPage, d)
     | Some entry \<Rightarrow>
        (case ZsAllocator_load (zd_allocator d) (ze_handle entry) of
           None \<Rightarrow> None
         | Some (Inl e) \<Rightarrow> Some (Inl e, d)
         | Some (Inr payload) \<Rightarrow>
             Some (case ze_encoding entry of
                     Raw \<Rightarrow> Inr payload
                   | Lz4 \<Rightarrow> (case decompress payload (ze_original_len entry) of
                              None \<Rightarrow> Inl DecompressionFailed
                            | Some page \<Rightarrow> Inr page),
                   d\<lparr>zd_loads := sat_add (zd_loads d) 1\<rparr>)))"

definition invalidate_page :: "nat \<Rightarrow> ZramDevice \<Rightarrow> ((ZramError + unit) \<times> ZramDevice) exec" where
  "invalidate_page page_index d =
    (case map_of (zd_pages d) page_index of
       None \<Rightarrow> Some (Inr (), d)
     | Some entry \<Rightarrow>
        (let d = d\<lparr>zd_pages := bt_remove page_index (zd_pages d),
                   zd_invalidations := sat_add (zd_invalidations d) 1\<rparr>
         in case ZsAllocator_free (zd_allocator d) (ze_handle entry) of
              None \<Rightarrow> None
            | Some (Inl e) \<Rightarrow> Some (Inl e, d)
            | Some (Inr allocator) \<Rightarrow> Some (Inr (), d\<lparr>zd_allocator := allocator\<rparr>)))"

definition ZramDevice_stats :: "ZramDevice \<Rightarrow> ZramStats" where
  "ZramDevice_stats d =
    fold (\<lambda>(_, entry) st.
        (let st = st\<lparr>zrs_logical_bytes := zrs_logical_bytes st + ze_original_len entry,
                     zrs_stored_bytes := zrs_stored_bytes st + ze_stored_len entry\<rparr>
         in case ze_encoding entry of
              Raw \<Rightarrow> st\<lparr>zrs_raw_pages := zrs_raw_pages st + 1\<rparr>
            | Lz4 \<Rightarrow> st\<lparr>zrs_compressed_pages := zrs_compressed_pages st + 1\<rparr>))
      (zd_pages d)
      \<lparr>zrs_stores = zd_stores d, zrs_loads = zd_loads d, zrs_invalidations = zd_invalidations d,
        zrs_compressed_pages = 0, zrs_raw_pages = 0, zrs_logical_bytes = 0, zrs_stored_bytes = 0,
        zrs_allocator = ZsAllocator_stats (zd_allocator d)\<rparr>"

section \<open>The swap cache\<close>

definition ZswapCache_new :: "nat \<Rightarrow> ZswapCache" where
  "ZswapCache_new max_slots = \<lparr>zc_backend = ZramDevice_new max_slots, zc_hits = 0, zc_misses = 0\<rparr>"

definition zswap_store :: "compressor \<Rightarrow> nat \<Rightarrow> bytes \<Rightarrow> ZswapCache \<Rightarrow> ((ZramError + unit) \<times> ZswapCache) exec" where
  "zswap_store compress swap_slot page c =
    map_option (\<lambda>(r, d). (r, c\<lparr>zc_backend := d\<rparr>)) (store_page compress swap_slot page (zc_backend c))"

definition zswap_load :: "decompressor \<Rightarrow> nat \<Rightarrow> ZswapCache \<Rightarrow> ((ZramError + bytes) \<times> ZswapCache) exec" where
  "zswap_load decompress swap_slot c =
    (case load_page decompress swap_slot (zc_backend c) of
       None \<Rightarrow> None
     | Some (Inr page, d) \<Rightarrow> Some (Inr page, c\<lparr>zc_backend := d, zc_hits := sat_add (zc_hits c) 1\<rparr>)
     | Some (Inl e, d) \<Rightarrow> Some (Inl e, c\<lparr>zc_backend := d, zc_misses := sat_add (zc_misses c) 1\<rparr>))"

definition zswap_invalidate :: "nat \<Rightarrow> ZswapCache \<Rightarrow> ((ZramError + unit) \<times> ZswapCache) exec" where
  "zswap_invalidate swap_slot c =
    map_option (\<lambda>(r, d). (r, c\<lparr>zc_backend := d\<rparr>)) (invalidate_page swap_slot (zc_backend c))"

definition ZswapCache_stats :: "ZswapCache \<Rightarrow> ZswapStats" where
  "ZswapCache_stats c = \<lparr>zws_hits = zc_hits c, zws_misses = zc_misses c,
     zws_backend = ZramDevice_stats (zc_backend c)\<rparr>"

section \<open>Slots of one page\<close>

definition page_inv :: "ZsPage \<Rightarrow> bool" where
  "page_inv p \<longleftrightarrow>
    0 < zp_slot_size p \<and>
    length (zp_slot_generations p) = length (zp_slot_lengths p) \<and>
    length (zp_slot_lengths p) * zp_slot_size p \<le> length (zp_storage p) \<and>
    distinct (zp_free_list p) \<and>
    (\<forall>s \<in> set (zp_free_list p). s < length (zp_slot_lengths p) \<and> zp_slot_lengths p ! s = 0) \<and>
    (\<forall>s < length (zp_slot_lengths p). zp_slot_lengths p ! s \<le> zp_slot_size p) \<and>
    zp_used_slots p + length (zp_free_list p) = length (zp_slot_lengths p)"

text \<open>What a slot and generation stand for.\<close>

definition page_view :: "ZsPage \<Rightarrow> nat \<times> u32 \<Rightarrow> bytes option" where
  "page_view p k =
    (if fst k < length (zp_slot_lengths p) \<and> zp_slot_generations p ! fst k = snd k
        \<and> zp_slot_lengths p ! fst k \<noteq> 0
     then Some (rd (zp_storage p) (fst k * zp_slot_size p) (zp_slot_lengths p ! fst k)) else None)"

lemma slot_fits:
  "page_inv p \<Longrightarrow> s < length (zp_slot_lengths p) \<Longrightarrow> n \<le> zp_slot_size p \<Longrightarrow>
   s * zp_slot_size p + n \<le> length (zp_storage p)"
proof -
  assume inv: "page_inv p" and s: "s < length (zp_slot_lengths p)" and n: "n \<le> zp_slot_size p"
  have "Suc s * zp_slot_size p \<le> length (zp_slot_lengths p) * zp_slot_size p"
    using s by (intro mult_right_mono) auto
  then show ?thesis using inv n by (auto simp: page_inv_def)
qed

lemma slots_apart:
  "s \<noteq> t \<Longrightarrow> n \<le> z \<Longrightarrow> m \<le> z \<Longrightarrow> s * z + n \<le> t * z \<or> t * z + m \<le> s * z" for s t z :: nat
proof -
  assume "s \<noteq> t" and nm: "n \<le> z" "m \<le> z"
  then consider "Suc s \<le> t" | "Suc t \<le> s" by linarith
  then show ?thesis
  proof cases
    case 1
    then have "Suc s * z \<le> t * z" by (rule mult_right_mono) simp
    then show ?thesis using nm by simp
  next
    case 2
    then have "Suc t * z \<le> s * z" by (rule mult_right_mono) simp
    then show ?thesis using nm by simp
  qed
qed

lemma slot_valid_eq:
  "page_inv p \<Longrightarrow> slot_valid p s g = Some (page_view p (s, g) \<noteq> None)"
  by (auto simp: slot_valid_def page_view_def page_inv_def exec_simps)

lemma ZsPage_read_eq:
  assumes "page_inv p"
  shows "ZsPage_read p s g = (case page_view p (s, g) of None \<Rightarrow> Err InvalidHandle | Some b \<Rightarrow> Ok b)"
proof (cases "page_view p (s, g)")
  case None
  then show ?thesis by (simp add: ZsPage_read_def slot_valid_eq[OF assms])
next
  case (Some b)
  then have s: "s < length (zp_slot_lengths p)" and
    b: "b = rd (zp_storage p) (s * zp_slot_size p) (zp_slot_lengths p ! s)"
    by (auto simp: page_view_def split: if_split_asm)
  have "s * zp_slot_size p + zp_slot_lengths p ! s \<le> length (zp_storage p)"
    using assms s by (intro slot_fits) (auto simp: page_inv_def)
  then show ?thesis using Some s b by (simp add: ZsPage_read_def slot_valid_eq[OF assms] exec_simps)
qed

lemma nonzero_generation_neq [simp]: "nonzero_generation (g + 1) \<noteq> g"
proof
  assume *: "nonzero_generation (g + 1) = g"
  show False
  proof (cases "g + 1 = 0")
    case True
    then have "g = 1" using * by (simp add: nonzero_generation_def)
    with True show False by simp
  qed (use * in \<open>simp add: nonzero_generation_def\<close>)
qed

text \<open>Allocation takes a fresh key, gives it the bytes and leaves every other key alone.\<close>

lemma ZsPage_allocate_ok:
  assumes inv: "page_inv p" and fits: "length b \<le> zp_slot_size p" and free: "zp_free_list p \<noteq> []"
  obtains k p' where "ZsPage_allocate b p = Some (Some k, p')" "page_inv p'" "page_view p k = None"
    "page_view p' = (page_view p)(k := (if b = [] then None else Some b))"
    "zp_slot_size p' = zp_slot_size p" "zp_pages_per_zspage p' = zp_pages_per_zspage p"
proof -
  obtain s fl where fl: "zp_free_list p = fl @ [s]" using free by (cases "zp_free_list p" rule: rev_cases) auto
  define g where "g = nonzero_generation (zp_slot_generations p ! s + 1)"
  let ?p = "p\<lparr>zp_free_list := fl, zp_slot_generations := (zp_slot_generations p)[s := g],
    zp_slot_lengths := (zp_slot_lengths p)[s := length b], zp_used_slots := zp_used_slots p + 1,
    zp_storage := wr (zp_storage p) (s * zp_slot_size p) b\<rparr>"
  have s: "s < length (zp_slot_lengths p)" "zp_slot_lengths p ! s = 0"
    and len: "length (zp_slot_generations p) = length (zp_slot_lengths p)"
    using inv fl by (auto simp: page_inv_def)
  have room: "s * zp_slot_size p + length b \<le> length (zp_storage p)" by (rule slot_fits[OF inv s(1) fits])
  have pop: "vec_pop (zp_free_list p) = Some (s, fl)" by (simp add: vec_pop_iff fl)
  have run: "ZsPage_allocate b p = Some (Some (s, g), ?p)"
    using fits s room len by (simp add: ZsPage_allocate_def pop exec_simps g_def Let_def)
  moreover have "page_inv ?p"
    using inv fl s fits by (auto simp: page_inv_def nth_list_update)
  moreover have "page_view p (s, g) = None" by (simp add: page_view_def s)
  moreover have "page_view ?p = (page_view p)((s, g) := (if b = [] then None else Some b))"
  proof (rule ext)
    fix k :: "nat \<times> u32"
    obtain t h where k: "k = (t, h)" by fastforce
    show "page_view ?p k = ((page_view p)((s, g) := (if b = [] then None else Some b))) k"
    proof (cases "t = s")
      case True
      then show ?thesis using s room len by (auto simp: k page_view_def rd_wr_same)
    next
      case False
      have "zp_slot_lengths p ! t \<le> zp_slot_size p" if "t < length (zp_slot_lengths p)"
        using inv that by (simp add: page_inv_def)
      then have "rd (wr (zp_storage p) (s * zp_slot_size p) b) (t * zp_slot_size p) (zp_slot_lengths p ! t)
          = rd (zp_storage p) (t * zp_slot_size p) (zp_slot_lengths p ! t)" if "t < length (zp_slot_lengths p)"
        using that slots_apart[OF False[symmetric] fits, of "zp_slot_lengths p ! t"] 
        by (intro rd_wr_other) auto
      then show ?thesis using False by (auto simp: k page_view_def)
    qed
  qed
  ultimately show ?thesis using that[of "(s, g)" ?p] by simp
qed

lemma ZsPage_allocate_full:
  "zp_free_list p = [] \<Longrightarrow> ZsPage_allocate b p = Some (None, p)"
  by (simp add: ZsPage_allocate_def vec_pop_def)

lemma ZsPage_free_ok:
  assumes inv: "page_inv p" and live: "page_view p (s, g) \<noteq> None"
  obtains p' where "ZsPage_free p s g = Ok p'" "page_inv p'" "page_view p' = (page_view p)((s, g) := None)"
    "zp_slot_size p' = zp_slot_size p" "zp_pages_per_zspage p' = zp_pages_per_zspage p"
proof -
  have s: "s < length (zp_slot_lengths p)" "zp_slot_generations p ! s = g" "zp_slot_lengths p ! s \<noteq> 0"
    and len: "length (zp_slot_generations p) = length (zp_slot_lengths p)"
    using live inv by (auto simp: page_view_def page_inv_def split: if_split_asm)
  let ?p = "p\<lparr>zp_slot_lengths := (zp_slot_lengths p)[s := 0],
    zp_slot_generations := (zp_slot_generations p)[s := nonzero_generation (g + 1)],
    zp_free_list := zp_free_list p @ [s], zp_used_slots := zp_used_slots p - 1\<rparr>"
  have run: "ZsPage_free p s g = Ok ?p"
    using live s len by (simp add: ZsPage_free_def slot_valid_eq[OF inv] exec_simps)
  have fresh: "s \<notin> set (zp_free_list p)" using inv s by (auto simp: page_inv_def)
  have "distinct (zp_free_list p @ [s])" using inv fresh by (auto simp: page_inv_def)
  moreover have "set (zp_free_list p @ [s]) \<subseteq> {..<length (zp_slot_lengths p)}"
    using inv s by (auto simp: page_inv_def)
  ultimately have "length (zp_free_list p @ [s]) \<le> length (zp_slot_lengths p)"
    by (metis card_lessThan card_mono distinct_card finite_lessThan)
  then have "0 < zp_used_slots p" using inv by (auto simp: page_inv_def)
  then have "page_inv ?p"
    using inv fresh s by (auto simp: page_inv_def nth_list_update)
  moreover have "page_view ?p = (page_view p)((s, g) := None)"
    using s by (auto simp: page_view_def fun_eq_iff nth_list_update)
  ultimately show ?thesis using that[of ?p] run by simp
qed

lemma ZsPage_new_ok:
  assumes "0 < z" "z \<le> PAGE_SIZE * n"
  obtains p where "ZsPage_new z n = Some p" "page_inv p" "page_view p = (\<lambda>_. None)"
    "zp_slot_size p = z" "zp_pages_per_zspage p = n" "zp_free_list p \<noteq> []"
proof -
  have pos: "0 < PAGE_SIZE * n div z" using assms by (simp add: div_greater_zero_iff)
  then have "max (PAGE_SIZE * n div z) 1 = PAGE_SIZE * n div z" by linarith
  moreover note pos
  moreover have "PAGE_SIZE * n div z * z \<le> PAGE_SIZE * n" by simp
  ultimately show ?thesis using assms
    by (intro that) (auto simp: ZsPage_new_def page_inv_def page_view_def fun_eq_iff Let_def)
qed


section \<open>The allocator\<close>

text \<open>
  What a client of an object store may rely on: handles stand for byte strings, storing takes a handle
  that stood for nothing, freeing forgets exactly one handle.
\<close>

locale slab =
  fixes store :: "bytes \<Rightarrow> 'a \<Rightarrow> (ZramError, 'h \<times> 'a) outcome"
    and load :: "'a \<Rightarrow> 'h \<Rightarrow> (ZramError, bytes) outcome"
    and free :: "'a \<Rightarrow> 'h \<Rightarrow> (ZramError, 'a) outcome"
    and inv :: "'a \<Rightarrow> bool"
    and view :: "'a \<Rightarrow> 'h \<Rightarrow> bytes option"
  assumes load_view: "inv a \<Longrightarrow> load a h = (case view a h of None \<Rightarrow> Err InvalidHandle | Some b \<Rightarrow> Ok b)"
    and store_fits: "inv a \<Longrightarrow> length b \<le> PAGE_SIZE \<Longrightarrow>
      \<exists>h a'. store b a = Ok (h, a') \<and> inv a' \<and> view a h = None \<and>
        view a' = (view a)(h := (if b = [] then None else Some b))"
    and store_large: "PAGE_SIZE < length b \<Longrightarrow> store b a = Err ObjectTooLarge"
    and free_live: "inv a \<Longrightarrow> view a h \<noteq> None \<Longrightarrow>
      \<exists>a'. free a h = Ok a' \<and> inv a' \<and> view a' = (view a)(h := None)"
    and free_stale: "inv a \<Longrightarrow> view a h = None \<Longrightarrow> free a h = Err InvalidHandle"
begin

text \<open>Replacing the object of a handle: the new one is stored before the old one is freed.\<close>

lemma replace:
  assumes "inv a" "b \<noteq> []" "length b \<le> PAGE_SIZE" "view a old \<noteq> None"
  shows "\<exists>h a1 a2. store b a = Ok (h, a1) \<and> free a1 old = Ok a2 \<and> inv a2 \<and> view a h = None \<and> h \<noteq> old \<and>
    view a2 = (view a)(h \<mapsto> b, old := None)"
proof -
  obtain h a1 where 1: "store b a = Ok (h, a1)" "inv a1" "view a h = None" "view a1 = (view a)(h \<mapsto> b)"
    using store_fits[OF assms(1,3)] assms(2) by auto
  then have "h \<noteq> old" using assms(4) by auto
  then have "view a1 old \<noteq> None" using 1 assms(4) by simp
  then obtain a2 where "free a1 old = Ok a2" "inv a2" "view a2 = (view a1)(old := None)"
    using free_live[OF 1(2)] by blast
  then show ?thesis using 1 \<open>h \<noteq> old\<close> by auto
qed

text \<open>A second free of the same handle is refused.\<close>

lemma double_free: "inv a \<Longrightarrow> free a h = Ok a' \<Longrightarrow> free a' h = Err InvalidHandle"
  by (cases "view a h") (use free_stale free_live in fastforce)+

end

definition alloc_inv :: "ZsAllocator \<Rightarrow> bool" where
  "alloc_inv a \<longleftrightarrow> length (za_classes a) = length SIZE_CLASSES \<and>
    (\<forall>c < length SIZE_CLASSES.
      pool_slot_size (za_classes a ! c) = SIZE_CLASSES ! c \<and>
      pool_pages_per_zspage (za_classes a ! c) = pages_per_zspage (SIZE_CLASSES ! c) \<and>
      (\<forall>p \<in> set (pool_zspages (za_classes a ! c)). page_inv p \<and> zp_slot_size p = SIZE_CLASSES ! c))"

definition zs_view :: "ZsAllocator \<Rightarrow> ZsHandle \<Rightarrow> bytes option" where
  "zs_view a h = Option.bind (zs_page_at a h) (\<lambda>p. page_view p (zh_slot_index h, zh_generation h))"

lemma SIZE_CLASSES_bound: "c < length SIZE_CLASSES \<Longrightarrow> 0 < SIZE_CLASSES ! c \<and> SIZE_CLASSES ! c \<le> PAGE_SIZE"
proof -
  have "\<forall>z \<in> set SIZE_CLASSES. 0 < z \<and> z \<le> PAGE_SIZE" by (simp add: SIZE_CLASSES_def)
  then show "c < length SIZE_CLASSES \<Longrightarrow> ?thesis" using nth_mem by blast
qed

lemma pages_per_zspage_pos: "1 \<le> pages_per_zspage z"
  by (simp add: pages_per_zspage_def)

lemma size_class_index_fits:
  assumes "n \<le> PAGE_SIZE"
  obtains c where "size_class_index n = Some c" "c < length SIZE_CLASSES" "n \<le> SIZE_CLASSES ! c"
proof -
  have "PAGE_SIZE \<in> set SIZE_CLASSES" by (simp add: SIZE_CLASSES_def)
  then have "size_class_index n \<noteq> None" using assms by (auto simp: size_class_index_def position_None)
  then show ?thesis using that position_Some by (fastforce simp: size_class_index_def)
qed

lemma size_class_index_large: "PAGE_SIZE < n \<Longrightarrow> size_class_index n = None"
  by (auto simp: size_class_index_def position_None SIZE_CLASSES_def)

lemma zs_try_pages_ok:
  assumes "\<forall>p \<in> set ps. page_inv p \<and> zp_slot_size p = z" "length b \<le> z"
  shows "zs_try_pages b n ps = Some (None, ps) \<or>
    (\<exists>i s g p'. i < length ps \<and> zs_try_pages b n ps = Some (Some (n + i, s, g), ps[i := p']) \<and>
      page_inv p' \<and> zp_slot_size p' = z \<and> page_view (ps ! i) (s, g) = None \<and>
      page_view p' = (page_view (ps ! i))((s, g) := (if b = [] then None else Some b)))"
  using assms(1)
proof (induction ps arbitrary: n)
  case (Cons p ps)
  show ?case
  proof (cases "zp_free_list p = []")
    case True
    have "\<forall>p \<in> set ps. page_inv p \<and> zp_slot_size p = z" using Cons.prems by simp
    from Cons.IH[OF this, of "Suc n"] consider
      "zs_try_pages b (Suc n) ps = Some (None, ps)" |
      i s g p' where "i < length ps" "zs_try_pages b (Suc n) ps = Some (Some (Suc n + i, s, g), ps[i := p'])"
        "page_inv p'" "zp_slot_size p' = z" "page_view (ps ! i) (s, g) = None"
        "page_view p' = (page_view (ps ! i))((s, g) := (if b = [] then None else Some b))"
      by blast
    then show ?thesis
    proof cases
      case 2
      then show ?thesis using ZsPage_allocate_full[OF True]
        by (intro disjI2 exI[of _ "Suc i"] exI[of _ s] exI[of _ g] exI[of _ p']) simp
    qed (simp add: ZsPage_allocate_full[OF True])
  next
    case False
    have "page_inv p" "length b \<le> zp_slot_size p" using Cons.prems assms(2) by auto
    from ZsPage_allocate_ok[OF this False] obtain k p' where
      "ZsPage_allocate b p = Some (Some k, p')" "page_inv p'" "page_view p k = None"
      "page_view p' = (page_view p)(k := (if b = [] then None else Some b))" "zp_slot_size p' = zp_slot_size p"
      by metis
    then show ?thesis using Cons.prems
      by (cases k) (auto intro!: exI[of _ "0::nat"])
  qed
qed simp

text \<open>Exchanging one page of one class changes the view at that page only.\<close>

lemma zs_put_page_inv:
  "alloc_inv a \<Longrightarrow> zs_page_at a h \<noteq> None \<Longrightarrow> page_inv p \<Longrightarrow> zp_slot_size p = SIZE_CLASSES ! zh_class_index h \<Longrightarrow>
   alloc_inv (zs_put_page a h p)"
  by (auto simp: alloc_inv_def zs_put_page_def zs_page_at_def Let_def nth_list_update
      dest!: set_update_subset_insert[THEN subsetD] split: if_split_asm)

lemma zs_view_put_page:
  assumes "zs_page_at a h = Some q" "page_view p = (page_view q)((zh_slot_index h, zh_generation h) := v)"
  shows "zs_view (zs_put_page a h p) = (zs_view a)(h := v)"
proof (rule ext)
  fix k :: ZsHandle
  show "zs_view (zs_put_page a h p) k = ((zs_view a)(h := v)) k"
    using assms
    by (cases k; cases h)
      (auto simp: zs_view_def zs_page_at_def zs_put_page_def Let_def nth_list_update split: if_split_asm)
qed


lemma zs_append_page:
  assumes inv: "alloc_inv a" and c: "c < length SIZE_CLASSES" and p: "page_inv p" "zp_slot_size p = SIZE_CLASSES ! c"
    and view: "page_view p = (\<lambda>_. None)((s, g) := v)"
    and h: "h = \<lparr>zh_class_index = c, zh_page_index = length (pool_zspages (za_classes a ! c)),
              zh_slot_index = s, zh_generation = g\<rparr>"
    and a': "a' = a\<lparr>za_classes := (za_classes a)[c := (za_classes a ! c)\<lparr>pool_zspages :=
              pool_zspages (za_classes a ! c) @ [p]\<rparr>]\<rparr>"
  shows "alloc_inv a' \<and> zs_view a h = None \<and> zs_view a' = (zs_view a)(h := v)"
proof (intro conjI)
  show "alloc_inv a'" using inv c p by (auto simp: alloc_inv_def a' nth_list_update)
  have len: "length (za_classes a) = length SIZE_CLASSES" using inv by (simp add: alloc_inv_def)
  show "zs_view a h = None" by (simp add: h zs_view_def zs_page_at_def)
  show "zs_view a' = (zs_view a)(h := v)"
  proof (rule ext)
    fix k :: ZsHandle
    show "zs_view a' k = ((zs_view a)(h := v)) k"
      using c len view by (cases k)
        (auto simp: h a' zs_view_def zs_page_at_def Let_def nth_list_update nth_append split: if_split_asm)
  qed
qed

lemma ZsAllocator_store_ok:
  assumes inv: "alloc_inv a" and len: "length b \<le> PAGE_SIZE"
  shows "\<exists>h a'. ZsAllocator_store b a = Ok (h, a') \<and> alloc_inv a' \<and> zs_view a h = None \<and>
    zs_view a' = (zs_view a)(h := (if b = [] then None else Some b))"
proof -
  obtain c where c: "size_class_index (length b) = Some c" "c < length SIZE_CLASSES" "length b \<le> SIZE_CLASSES ! c"
    by (rule size_class_index_fits[OF len])
  let ?pool = "za_classes a ! c"
  let ?ps = "pool_zspages ?pool"
  have la: "length (za_classes a) = length SIZE_CLASSES"
    and pool: "pool_slot_size ?pool = SIZE_CLASSES ! c" "pool_pages_per_zspage ?pool = pages_per_zspage (SIZE_CLASSES ! c)"
    and ps: "\<forall>p \<in> set ?ps. page_inv p \<and> zp_slot_size p = SIZE_CLASSES ! c"
    using inv c by (auto simp: alloc_inv_def)
  note run = ZsAllocator_store_def c(1) vec_get_Some la c(2)
  from zs_try_pages_ok[OF ps c(3), of 0] show ?thesis
  proof (elim disjE exE conjE)
    assume none: "zs_try_pages b 0 ?ps = Some (None, ?ps)"
    have "SIZE_CLASSES ! c \<le> PAGE_SIZE * pages_per_zspage (SIZE_CLASSES ! c)"
      using SIZE_CLASSES_bound[OF c(2)] pages_per_zspage_pos[of "SIZE_CLASSES ! c"] by linarith
    then obtain p where p: "ZsPage_new (SIZE_CLASSES ! c) (pages_per_zspage (SIZE_CLASSES ! c)) = Some p"
      "page_inv p" "page_view p = (\<lambda>_. None)" "zp_slot_size p = SIZE_CLASSES ! c" "zp_free_list p \<noteq> []"
      using ZsPage_new_ok SIZE_CLASSES_bound[OF c(2)] by metis
    have "length b \<le> zp_slot_size p" using c p by simp
    from ZsPage_allocate_ok[OF p(2) this p(5)] obtain s g p' where p':
      "ZsPage_allocate b p = Some (Some (s, g), p')" "page_inv p'"
      "page_view p' = (page_view p)((s, g) := (if b = [] then None else Some b))" "zp_slot_size p' = zp_slot_size p"
      by (metis surj_pair)
    show ?thesis
      using zs_append_page[OF inv c(2) p'(2), of s g "if b = [] then None else Some b", OF _ _ refl refl] p p'
      by (auto simp: run none pool Let_def)
  next
    fix i s g p'
    assume found: "i < length ?ps" "zs_try_pages b 0 ?ps = Some (Some (0 + i, s, g), ?ps[i := p'])"
      and p': "page_inv p'" "zp_slot_size p' = SIZE_CLASSES ! c" "page_view (?ps ! i) (s, g) = None"
      "page_view p' = (page_view (?ps ! i))((s, g) := (if b = [] then None else Some b))"
    let ?h = "\<lparr>zh_class_index = c, zh_page_index = i, zh_slot_index = s, zh_generation = g\<rparr>"
    have at: "zs_page_at a ?h = Some (?ps ! i)" using found c la by (simp add: zs_page_at_def)
    have "ZsAllocator_store b a = Ok (?h, zs_put_page a ?h p')"
      using found by (simp add: run zs_put_page_def Let_def)
    moreover have "alloc_inv (zs_put_page a ?h p')" using zs_put_page_inv[OF inv, of ?h p'] at p' by simp
    moreover have "zs_view a ?h = None" using at p' by (simp add: zs_view_def)
    moreover have "zs_view (zs_put_page a ?h p') = (zs_view a)(?h := (if b = [] then None else Some b))"
      using zs_view_put_page[OF at, of p'] p' by simp
    ultimately show ?thesis by blast
  qed
qed

lemma zs_page_at_inv:
  "alloc_inv a \<Longrightarrow> zs_page_at a h = Some p \<Longrightarrow> page_inv p \<and> zp_slot_size p = SIZE_CLASSES ! zh_class_index h"
  by (auto simp: alloc_inv_def zs_page_at_def Let_def split: if_split_asm)

lemma ZsAllocator_load_view:
  "alloc_inv a \<Longrightarrow> ZsAllocator_load a h = (case zs_view a h of None \<Rightarrow> Err InvalidHandle | Some b \<Rightarrow> Ok b)"
  by (auto simp: ZsAllocator_load_def zs_view_def ZsPage_read_eq dest: zs_page_at_inv split: option.split)

lemma ZsAllocator_free_live:
  assumes inv: "alloc_inv a" and live: "zs_view a h \<noteq> None"
  shows "\<exists>a'. ZsAllocator_free a h = Ok a' \<and> alloc_inv a' \<and> zs_view a' = (zs_view a)(h := None)"
proof -
  obtain p where at: "zs_page_at a h = Some p" and "page_view p (zh_slot_index h, zh_generation h) \<noteq> None"
    using live by (auto simp: zs_view_def bind_eq_Some_conv)
  with ZsPage_free_ok[OF conjunct1[OF zs_page_at_inv[OF inv at]]] obtain p' where
    p': "ZsPage_free p (zh_slot_index h) (zh_generation h) = Ok p'" "page_inv p'"
    "page_view p' = (page_view p)((zh_slot_index h, zh_generation h) := None)" "zp_slot_size p' = zp_slot_size p"
    by metis
  have "alloc_inv (zs_put_page a h p')" using zs_put_page_inv[OF inv] at p' zs_page_at_inv[OF inv at] by simp
  then show ?thesis using zs_view_put_page[OF at p'(3)] p'(1) at by (simp add: ZsAllocator_free_def)
qed

lemma ZsAllocator_free_stale:
  "alloc_inv a \<Longrightarrow> zs_view a h = None \<Longrightarrow> ZsAllocator_free a h = Err InvalidHandle"
  by (auto simp: ZsAllocator_free_def zs_view_def ZsPage_free_def slot_valid_eq dest!: zs_page_at_inv
      split: option.split)

interpretation zs: slab ZsAllocator_store ZsAllocator_load ZsAllocator_free alloc_inv zs_view
  by unfold_locales
    (use ZsAllocator_load_view ZsAllocator_store_ok ZsAllocator_free_live ZsAllocator_free_stale in
      \<open>auto simp: ZsAllocator_store_def size_class_index_large\<close>)

lemma ZsAllocator_new_inv: "alloc_inv ZsAllocator_new" and ZsAllocator_new_view: "zs_view ZsAllocator_new h = None"
  by (auto simp: alloc_inv_def ZsAllocator_new_def SizeClassPool_new_def zs_view_def zs_page_at_def)

section \<open>The page device as a map from page numbers to pages\<close>

text \<open>
  The codec's contract: compressed data is never empty, and decompressing it with the length of the
  original gives the original back.
\<close>

definition codec_ok :: "compressor \<Rightarrow> decompressor \<Rightarrow> bool" where
  "codec_ok compress decompress \<longleftrightarrow> (\<forall>p. compress p \<noteq> [] \<and> decompress (compress p) (length p) = Some p)"

text \<open>Requests to a page store, their answers, and what a map from page numbers to pages answers.\<close>

datatype page_op = StorePage nat bytes | LoadPage nat | InvalidatePage nat

datatype page_answer = Stored "ZramError + unit" | Loaded "ZramError + bytes" | Invalidated "ZramError + unit"

fun page_op_ok :: "page_op \<Rightarrow> bool" where
  "page_op_ok (StorePage _ page) = (page \<noteq> [])" |
  "page_op_ok _ = True"

fun spec_step :: "nat \<Rightarrow> page_op \<Rightarrow> (nat \<rightharpoonup> bytes) \<Rightarrow> page_answer \<times> (nat \<rightharpoonup> bytes)" where
  "spec_step cap (StorePage i page) m =
    (if cap \<le> i then (Stored (Inl PageIndexOutOfRange), m)
     else if PAGE_SIZE < length page then (Stored (Inl PageTooLarge), m)
     else (Stored (Inr ()), m(i \<mapsto> page)))" |
  "spec_step cap (LoadPage i) m =
    (case m i of None \<Rightarrow> (Loaded (Inl MissingPage), m) | Some page \<Rightarrow> (Loaded (Inr page), m))" |
  "spec_step cap (InvalidatePage i) m = (Invalidated (Inr ()), m(i := None))"

fun spec_run :: "nat \<Rightarrow> page_op list \<Rightarrow> (nat \<rightharpoonup> bytes) \<Rightarrow> page_answer list \<times> (nat \<rightharpoonup> bytes)" where
  "spec_run cap [] m = ([], m)" |
  "spec_run cap (op # ops) m =
    (let (a, m) = spec_step cap op m; (as, m) = spec_run cap ops m in (a # as, m))"

fun store_step :: "(nat \<Rightarrow> bytes \<Rightarrow> 'd \<Rightarrow> ((ZramError + unit) \<times> 'd) exec) \<Rightarrow>
    (nat \<Rightarrow> 'd \<Rightarrow> ((ZramError + bytes) \<times> 'd) exec) \<Rightarrow> (nat \<Rightarrow> 'd \<Rightarrow> ((ZramError + unit) \<times> 'd) exec) \<Rightarrow>
    page_op \<Rightarrow> 'd \<Rightarrow> (page_answer \<times> 'd) exec" where
  "store_step store load invalidate (StorePage i page) d = map_option (\<lambda>(r, d). (Stored r, d)) (store i page d)" |
  "store_step store load invalidate (LoadPage i) d = map_option (\<lambda>(r, d). (Loaded r, d)) (load i d)" |
  "store_step store load invalidate (InvalidatePage i) d =
     map_option (\<lambda>(r, d). (Invalidated r, d)) (invalidate i d)"

fun run_steps :: "('op \<Rightarrow> 'd \<Rightarrow> ('a \<times> 'd) exec) \<Rightarrow> 'op list \<Rightarrow> 'd \<Rightarrow> ('a list \<times> 'd) exec" where
  "run_steps step [] d = Some ([], d)" |
  "run_steps step (op # ops) d = do {
     (a, d) \<leftarrow> step op d;
     (as, d) \<leftarrow> run_steps step ops d;
     Some (a # as, d) }"

text \<open>The contract of a page store, and its consequence for every sequence of requests.\<close>

locale page_store =
  fixes store :: "nat \<Rightarrow> bytes \<Rightarrow> 'd \<Rightarrow> ((ZramError + unit) \<times> 'd) exec"
    and load :: "nat \<Rightarrow> 'd \<Rightarrow> ((ZramError + bytes) \<times> 'd) exec"
    and invalidate :: "nat \<Rightarrow> 'd \<Rightarrow> ((ZramError + unit) \<times> 'd) exec"
    and inv :: "nat \<Rightarrow> 'd \<Rightarrow> bool"
    and view :: "'d \<Rightarrow> nat \<rightharpoonup> bytes"
  assumes store_ok: "inv n d \<Longrightarrow> i < n \<Longrightarrow> page \<noteq> [] \<Longrightarrow> length page \<le> PAGE_SIZE \<Longrightarrow>
      \<exists>d'. store i page d = Some (Inr (), d') \<and> inv n d' \<and> view d' = (view d)(i \<mapsto> page)"
    and store_range: "inv n d \<Longrightarrow> n \<le> i \<Longrightarrow> store i page d = Some (Inl PageIndexOutOfRange, d)"
    and store_large: "inv n d \<Longrightarrow> i < n \<Longrightarrow> PAGE_SIZE < length page \<Longrightarrow>
      store i page d = Some (Inl PageTooLarge, d)"
    and load_ok: "inv n d \<Longrightarrow> view d i = Some page \<Longrightarrow>
      \<exists>d'. load i d = Some (Inr page, d') \<and> inv n d' \<and> view d' = view d"
    and load_missing: "inv n d \<Longrightarrow> view d i = None \<Longrightarrow> load i d = Some (Inl MissingPage, d)"
    and invalidate_ok: "inv n d \<Longrightarrow>
      \<exists>d'. invalidate i d = Some (Inr (), d') \<and> inv n d' \<and> view d' = (view d)(i := None)"
begin

lemma step_refines:
  assumes "inv n d" "page_op_ok op"
  shows "\<exists>d'. store_step store load invalidate op d = Some (fst (spec_step n op (view d)), d') \<and>
    inv n d' \<and> view d' = snd (spec_step n op (view d))"
proof (cases op)
  case (StorePage i page)
  then show ?thesis using assms store_ok[of n d i page] store_range[of n d i page] store_large[of n d i page]
    by (cases "n \<le> i"; cases "length page \<le> PAGE_SIZE") (auto simp: not_le)
next
  case (LoadPage i)
  then show ?thesis using assms load_ok[of n d i] load_missing[of n d i] by (cases "view d i") auto
next
  case (InvalidatePage i)
  then show ?thesis using assms invalidate_ok[of n d i] by auto
qed

lemma run_refines:
  assumes "inv n d" "\<forall>op \<in> set ops. page_op_ok op"
  shows "\<exists>d'. run_steps (store_step store load invalidate) ops d = Some (fst (spec_run n ops (view d)), d') \<and>
    inv n d' \<and> view d' = snd (spec_run n ops (view d))"
  using assms
proof (induction ops arbitrary: d)
  case (Cons op ops)
  then obtain d1 where 1: "store_step store load invalidate op d = Some (fst (spec_step n op (view d)), d1)"
    "inv n d1" "view d1 = snd (spec_step n op (view d))" using step_refines by (meson list.set_intros(1))
  then obtain d2 where "run_steps (store_step store load invalidate) ops d1 = Some (fst (spec_run n ops (view d1)), d2)"
    "inv n d2" "view d2 = snd (spec_run n ops (view d1))" using Cons by (meson list.set_intros(2))
  with 1 show ?case by (auto simp: split_beta)
qed simp

end

definition entry_page :: "decompressor \<Rightarrow> ZsAllocator \<Rightarrow> ZramEntry \<Rightarrow> bytes option" where
  "entry_page decompress a e = Option.bind (zs_view a (ze_handle e)) (\<lambda>payload.
     case ze_encoding e of Raw \<Rightarrow> Some payload | Lz4 \<Rightarrow> decompress payload (ze_original_len e))"

definition zram_view :: "decompressor \<Rightarrow> ZramDevice \<Rightarrow> nat \<rightharpoonup> bytes" where
  "zram_view decompress d i = Option.bind (map_of (zd_pages d) i) (entry_page decompress (zd_allocator d))"

definition zram_inv :: "decompressor \<Rightarrow> nat \<Rightarrow> ZramDevice \<Rightarrow> bool" where
  "zram_inv decompress n d \<longleftrightarrow> zd_max_pages d = n \<and> alloc_inv (zd_allocator d) \<and> bt_wf (zd_pages d) \<and>
    (\<forall>i e. map_of (zd_pages d) i = Some e \<longrightarrow> i < n \<and> entry_page decompress (zd_allocator d) e \<noteq> None) \<and>
    (\<forall>i j e f. map_of (zd_pages d) i = Some e \<longrightarrow> map_of (zd_pages d) j = Some f \<longrightarrow>
       ze_handle e = ze_handle f \<longrightarrow> i = j)"

lemma zram_new_inv: "zram_inv decompress n (ZramDevice_new n)"
  and zram_new_view: "zram_view decompress (ZramDevice_new n) = Map.empty"
  by (auto simp: zram_inv_def zram_view_def ZramDevice_new_def ZsAllocator_new_inv)

lemma entry_page_cong:
  "zs_view a' (ze_handle e) = zs_view a (ze_handle e) \<Longrightarrow> entry_page decompress a' e = entry_page decompress a e"
  by (simp add: entry_page_def)

lemma zram_encode_ok:
  assumes "codec_ok compress decompress" "page \<noteq> []" "length page \<le> PAGE_SIZE"
    and "zram_encode compress page = (encoding, payload)"
  shows "payload \<noteq> []" "length payload \<le> PAGE_SIZE"
    "(case encoding of Raw \<Rightarrow> Some payload | Lz4 \<Rightarrow> decompress payload (length page)) = Some page"
  using assms by (auto simp: zram_encode_def codec_ok_def Let_def split: if_split_asm)

lemma zram_inv_live:
  assumes "zram_inv decompress n d" "map_of (zd_pages d) i = Some e"
  shows "zs_view (zd_allocator d) (ze_handle e) \<noteq> None"
proof -
  have "entry_page decompress (zd_allocator d) e \<noteq> None" using assms unfolding zram_inv_def by blast
  then show ?thesis by (cases "zs_view (zd_allocator d) (ze_handle e)") (auto simp: entry_page_def)
qed

text \<open>The state after a store: the entry of the page is fresh, the others keep their handles and bytes.\<close>

lemma zram_insert:
  assumes inv: "zram_inv decompress n d" and i: "i < n" and a': "alloc_inv a'"
    and fresh: "zs_view (zd_allocator d) (ze_handle e) = None"
    and new: "entry_page decompress a' e = Some page"
    and same: "\<And>j f. j \<noteq> i \<Longrightarrow> map_of (zd_pages d) j = Some f \<Longrightarrow>
      zs_view a' (ze_handle f) = zs_view (zd_allocator d) (ze_handle f)"
    and d': "d' = d\<lparr>zd_allocator := a', zd_pages := bt_insert i e (zd_pages d), zd_stores := k\<rparr>"
  shows "zram_inv decompress n d' \<and> zram_view decompress d' = (zram_view decompress d)(i \<mapsto> page)"
proof
  have apart: "ze_handle f \<noteq> ze_handle e" if "map_of (zd_pages d) j = Some f" for j f
    using zram_inv_live[OF inv that] fresh by force
  have keep: "entry_page decompress a' f = entry_page decompress (zd_allocator d) f"
    if "j \<noteq> i" "map_of (zd_pages d) j = Some f" for j f
    using same[OF that] by (rule entry_page_cong)
  show "zram_view decompress d' = (zram_view decompress d)(i \<mapsto> page)"
  proof (rule ext)
    fix j show "zram_view decompress d' j = ((zram_view decompress d)(i \<mapsto> page)) j"
      using keep[of j] new by (cases "map_of (zd_pages d) j") (auto simp: zram_view_def d')
  qed
  show "zram_inv decompress n d'"
    unfolding zram_inv_def
  proof (intro conjI allI impI)
    fix j f assume "map_of (zd_pages d') j = Some f"
    then show "j < n" "entry_page decompress (zd_allocator d') f \<noteq> None"
      using inv i new keep[of j f] by (auto simp: d' zram_inv_def split: if_split_asm)
  next
    fix j j' f f'
    assume "map_of (zd_pages d') j = Some f" "map_of (zd_pages d') j' = Some f'" "ze_handle f = ze_handle f'"
    then show "j = j'" using inv apart by (auto simp: d' zram_inv_def split: if_split_asm)
  qed (use inv a' in \<open>auto simp: d' zram_inv_def\<close>)
qed

lemma store_page_ok:
  assumes codec: "codec_ok compress decompress" and inv: "zram_inv decompress n d" and i: "i < n"
    and page: "page \<noteq> []" "length page \<le> PAGE_SIZE"
  shows "\<exists>d'. store_page compress i page d = Some (Inr (), d') \<and> zram_inv decompress n d' \<and>
    zram_view decompress d' = (zram_view decompress d)(i \<mapsto> page)"
proof -
  obtain encoding payload where enc: "zram_encode compress page = (encoding, payload)" by fastforce
  note payload = zram_encode_ok[OF codec page enc]
  have ai: "alloc_inv (zd_allocator d)" and max: "zd_max_pages d = n" using inv by (auto simp: zram_inv_def)
  have go: "\<not> zd_max_pages d \<le> i" "\<not> PAGE_SIZE < length page" using i page max by auto
  show ?thesis
  proof (cases "map_of (zd_pages d) i")
    case None
    obtain h a' where st: "ZsAllocator_store payload (zd_allocator d) = Ok (h, a')" "alloc_inv a'"
      "zs_view (zd_allocator d) h = None" "zs_view a' = (zs_view (zd_allocator d))(h \<mapsto> payload)"
      using zs.store_fits[OF ai payload(2)] payload(1) by auto
    let ?e = "\<lparr>ze_handle = h, ze_original_len = length page, ze_stored_len = length payload, ze_encoding = encoding\<rparr>"
    have "entry_page decompress a' ?e = Some page" using st payload(3) by (cases encoding) (simp_all add: entry_page_def)
    moreover have "zs_view a' (ze_handle f) = zs_view (zd_allocator d) (ze_handle f)"
      if "map_of (zd_pages d) j = Some f" for j f
      using zram_inv_live[OF inv that] st by force
    ultimately show ?thesis
      using zram_insert[OF inv i st(2), of ?e page, OF _ _ _ refl] st go None
      by (auto simp: store_page_def enc)
  next
    case (Some old)
    from zs.replace[OF ai payload(1,2) zram_inv_live[OF inv Some]] obtain h a1 a2 where
      st: "ZsAllocator_store payload (zd_allocator d) = Ok (h, a1)" "ZsAllocator_free a1 (ze_handle old) = Ok a2"
        "alloc_inv a2" "zs_view (zd_allocator d) h = None" "h \<noteq> ze_handle old"
        "zs_view a2 = (zs_view (zd_allocator d))(h \<mapsto> payload, ze_handle old := None)" by blast
    let ?e = "\<lparr>ze_handle = h, ze_original_len = length page, ze_stored_len = length payload, ze_encoding = encoding\<rparr>"
    have "entry_page decompress a2 ?e = Some page" using st payload(3) by (cases encoding) (simp_all add: entry_page_def)
    moreover have "zs_view a2 (ze_handle f) = zs_view (zd_allocator d) (ze_handle f)"
      if "j \<noteq> i" "map_of (zd_pages d) j = Some f" for j f
    proof -
      have "ze_handle f \<noteq> ze_handle old" using inv that Some by (auto simp: zram_inv_def)
      moreover have "ze_handle f \<noteq> h" using zram_inv_live[OF inv that(2)] st by force
      ultimately show ?thesis using st by simp
    qed
    ultimately show ?thesis
      using zram_insert[OF inv i st(3), of ?e page, OF _ _ _ refl] st go Some
      by (auto simp: store_page_def enc)
  qed
qed


lemma load_page_ok:
  assumes inv: "zram_inv decompress n d" and view: "zram_view decompress d i = Some page"
  shows "\<exists>d'. load_page decompress i d = Some (Inr page, d') \<and> zram_inv decompress n d' \<and>
    zram_view decompress d' = zram_view decompress d"
proof -
  obtain e payload where e: "map_of (zd_pages d) i = Some e" "zs_view (zd_allocator d) (ze_handle e) = Some payload"
    "(case ze_encoding e of Raw \<Rightarrow> Some payload | Lz4 \<Rightarrow> decompress payload (ze_original_len e)) = Some page"
    using view by (auto simp: zram_view_def entry_page_def bind_eq_Some_conv)
  have "ZsAllocator_load (zd_allocator d) (ze_handle e) = Ok payload"
    using zs.load_view[of "zd_allocator d"] inv e by (simp add: zram_inv_def)
  then have "load_page decompress i d = Some (Inr page, d\<lparr>zd_loads := sat_add (zd_loads d) 1\<rparr>)"
    using e by (cases "ze_encoding e") (auto simp: load_page_def)
  then show ?thesis using inv by (auto simp: zram_inv_def zram_view_def)
qed

lemma zram_view_None:
  "zram_inv decompress n d \<Longrightarrow> zram_view decompress d i = None \<longleftrightarrow> map_of (zd_pages d) i = None"
  by (cases "map_of (zd_pages d) i") (auto simp: zram_inv_def zram_view_def)

lemma invalidate_page_ok:
  assumes inv: "zram_inv decompress n d"
  shows "\<exists>d'. invalidate_page i d = Some (Inr (), d') \<and> zram_inv decompress n d' \<and>
    zram_view decompress d' = (zram_view decompress d)(i := None)"
proof (cases "map_of (zd_pages d) i")
  case None
  then have "zram_view decompress d i = None" by (simp add: zram_view_def)
  then have "(zram_view decompress d)(i := None) = zram_view decompress d" by auto
  then show ?thesis using None inv by (simp add: invalidate_page_def)
next
  case (Some e)
  have ai: "alloc_inv (zd_allocator d)" using inv by (simp add: zram_inv_def)
  from zs.free_live[OF ai zram_inv_live[OF inv Some]] obtain a' where
    a': "ZsAllocator_free (zd_allocator d) (ze_handle e) = Ok a'" "alloc_inv a'"
    "zs_view a' = (zs_view (zd_allocator d))(ze_handle e := None)" by blast
  have keep: "entry_page decompress a' f = entry_page decompress (zd_allocator d) f"
    if "j \<noteq> i" "map_of (zd_pages d) j = Some f" for j f
  proof (rule entry_page_cong)
    have "ze_handle f \<noteq> ze_handle e" using inv that Some by (auto simp: zram_inv_def)
    then show "zs_view a' (ze_handle f) = zs_view (zd_allocator d) (ze_handle f)" using a' by simp
  qed
  let ?d = "d\<lparr>zd_pages := bt_remove i (zd_pages d), zd_invalidations := sat_add (zd_invalidations d) 1,
    zd_allocator := a'\<rparr>"
  have "invalidate_page i d = Some (Inr (), ?d)" using Some a' by (simp add: invalidate_page_def)
  moreover have "zram_view decompress ?d = (zram_view decompress d)(i := None)"
  proof (rule ext)
    fix j show "zram_view decompress ?d j = ((zram_view decompress d)(i := None)) j"
      using keep[of j] by (cases "map_of (zd_pages d) j") (auto simp: zram_view_def)
  qed
  moreover have "zram_inv decompress n ?d"
    using inv a' keep by (auto simp: zram_inv_def split: if_split_asm)
  ultimately show ?thesis by blast
qed

lemma zram_page_store:
  assumes "codec_ok compress decompress"
  shows "page_store (store_page compress) (load_page decompress) invalidate_page
    (zram_inv decompress) (zram_view decompress)"
proof
  fix n d i page
  assume inv: "zram_inv decompress n d"
  then have max: "zd_max_pages d = n" by (simp add: zram_inv_def)
  show "\<exists>d'. store_page compress i page d = Some (Inr (), d') \<and> zram_inv decompress n d' \<and>
      zram_view decompress d' = (zram_view decompress d)(i \<mapsto> page)"
    if "i < n" "page \<noteq> []" "length page \<le> PAGE_SIZE"
    using store_page_ok[OF assms inv] that by blast
  show "store_page compress i page d = Some (Inl PageIndexOutOfRange, d)" if "n \<le> i"
    using that max by (simp add: store_page_def)
  show "store_page compress i page d = Some (Inl PageTooLarge, d)" if "i < n" "PAGE_SIZE < length page"
    using that max by (simp add: store_page_def)
  show "load_page decompress i d = Some (Inl MissingPage, d)" if "zram_view decompress d i = None"
    using that zram_view_None[OF inv] by (simp add: load_page_def)
qed (use load_page_ok invalidate_page_ok in blast)+

text \<open>A codec that satisfies the contract, and the device over it.\<close>

definition rle_compress :: compressor where
  "rle_compress p = (if p \<noteq> [] \<and> p = replicate (length p) (hd p) then [1, hd p] else 0 # p)"

definition rle_decompress :: decompressor where
  "rle_decompress c n = (case c of [] \<Rightarrow> None
     | tag # rest \<Rightarrow> Some (if tag = 1 then replicate n (hd rest) else rest))"

lemma rle_codec_ok: "codec_ok rle_compress rle_decompress"
  by (auto simp: codec_ok_def rle_compress_def rle_decompress_def)

interpretation zram: page_store "store_page rle_compress" "load_page rle_decompress" invalidate_page
    "zram_inv rle_decompress" "zram_view rle_decompress"
  by (rule zram_page_store[OF rle_codec_ok])

text \<open>
  Property C5. The compressed page device is a map from page numbers to pages: for every sequence of
  stores, loads and invalidations on a new device, whatever the codec does within its contract, no
  request panics and every answer, errors included, is the one of a plain map with the device's
  capacity.  Pages are not empty.
\<close>

theorem zram_refines_map:
  assumes "codec_ok compress decompress" "\<forall>op \<in> set ops. page_op_ok op"
  shows "\<exists>d. run_steps (store_step (store_page compress) (load_page decompress) invalidate_page) ops
      (ZramDevice_new n) = Some (fst (spec_run n ops Map.empty), d)"
  using page_store.run_refines[OF zram_page_store[OF assms(1)] zram_new_inv assms(2)]
  by (auto simp: zram_new_view)

theorem zram_refines_map_witness:
  "\<exists>d. run_steps (store_step (store_page rle_compress) (load_page rle_decompress) invalidate_page)
      [StorePage 1 (replicate 80 7), StorePage 1 [1, 2], LoadPage 1, StorePage 2 [3], InvalidatePage 1,
       LoadPage 1, LoadPage 2, StorePage 5 [4]] (ZramDevice_new 4) =
    Some ([Stored (Inr ()), Stored (Inr ()), Loaded (Inr [1, 2]), Stored (Inr ()), Invalidated (Inr ()),
       Loaded (Inl MissingPage), Loaded (Inr [3]), Stored (Inl PageIndexOutOfRange)], d)"
  using zram_refines_map[OF rle_codec_ok, of "[StorePage 1 (replicate 80 7), StorePage 1 [1, 2], LoadPage 1,
    StorePage 2 [3], InvalidatePage 1, LoadPage 1, LoadPage 2, StorePage 5 [4]]" 4]
  by simp



text \<open>
  Property C20. Objects stored in the allocator cannot be reached through a stale handle: freeing a
  handle that was valid makes the next free and the next load through it fail, and changes no other
  object.
\<close>

theorem zs_free_revokes:
  assumes "alloc_inv a" "ZsAllocator_free a h = Ok a'"
  shows "ZsAllocator_free a' h = Err InvalidHandle \<and> ZsAllocator_load a' h = Err InvalidHandle \<and>
    (\<forall>k. k \<noteq> h \<longrightarrow> ZsAllocator_load a' k = ZsAllocator_load a k)"
proof -
  have live: "zs_view a h \<noteq> None" using zs.free_stale[OF assms(1), of h] assms(2) by auto
  have a': "alloc_inv a'" "zs_view a' = (zs_view a)(h := None)"
    using zs.free_live[OF assms(1) live] assms(2) by auto
  then show ?thesis using zs.double_free[OF assms] assms(1) by (simp add: zs.load_view)
qed

theorem zs_free_revokes_witness:
  "\<exists>h a a'. ZsAllocator_store [5, 6] ZsAllocator_new = Ok (h, a) \<and> ZsAllocator_free a h = Ok a' \<and>
     ZsAllocator_load a h = Ok [5, 6] \<and> ZsAllocator_load a' h = Err InvalidHandle"
proof -
  obtain h a where 1: "ZsAllocator_store [5, 6] ZsAllocator_new = Ok (h, a)" "alloc_inv a"
    "zs_view a = (zs_view ZsAllocator_new)(h \<mapsto> [5, 6])"
    using zs.store_fits[OF ZsAllocator_new_inv, of "[5, 6]"] by auto
  then obtain a' where "ZsAllocator_free a h = Ok a'" using zs.free_live[of a h] by auto
  then show ?thesis using 1 zs_free_revokes[of a h a'] by (auto simp: zs.load_view)
qed

end
