(* ===== verification/Frame_Alloc.thy ===== *)
theory Frame_Alloc
  imports Rust_Coll "HOL-Library.Multiset"
begin

text \<open>
  The physical frame allocators of \<^verbatim>\<open>kernel/allocator.rs\<close>.  A frame is named by its start address.
  \<open>frame_of\<close> stands for \<^verbatim>\<open>PhysFrame::containing_address(PhysAddr::new(addr))\<close> of the \<^verbatim>\<open>x86_64\<close> crate,
  which panics on an address outside the physical range; \<open>firmware\<close> for \<^verbatim>\<open>uefi::boot::allocate_pages\<close>,
  by the number of the call.
\<close>

section \<open>Definitions\<close>

record MemoryDescriptor =
  md_conventional :: bool
  md_phys_start :: u64
  md_page_count :: u64

record MemoryRegion =
  mr_base :: u64
  mr_length :: u64

record BootInfoFrameAllocator =
  bi_regions :: "MemoryRegion list"
  bi_recycled :: "u64 list"
  bi_current_entry :: nat
  bi_current_addr :: u64

record UefiFrameAllocator =
  uf_recycled :: "u64 list"
  uf_calls :: nat

datatype RuntimeFrameAllocator = BootInfo BootInfoFrameAllocator | Uefi UefiFrameAllocator

type_synonym frame_of = "u64 \<Rightarrow> u64 exec"
type_synonym firmware = "nat \<Rightarrow> u64 option"

abbreviation (input) FRAME_SIZE :: u64 where "FRAME_SIZE \<equiv> 4096"

definition init_from_regions :: "MemoryRegion list \<Rightarrow> BootInfoFrameAllocator" where
  "init_from_regions regions =
     \<lparr>bi_regions = regions, bi_recycled = [], bi_current_entry = 0, bi_current_addr = 0\<rparr>"

fun usable_regions :: "MemoryDescriptor list \<Rightarrow> MemoryRegion list exec" where
  "usable_regions [] = Some []" |
  "usable_regions (entry # entries) =
    (if md_conventional entry
     then do {
       len \<leftarrow> cmul (md_page_count entry) FRAME_SIZE;
       regions \<leftarrow> usable_regions entries;
       Some (\<lparr>mr_base = md_phys_start entry, mr_length = len\<rparr> # regions) }
     else usable_regions entries)"

definition init_from_uefi :: "MemoryDescriptor list \<Rightarrow> BootInfoFrameAllocator exec" where
  "init_from_uefi memory_map = map_option init_from_regions (usable_regions memory_map)"

text \<open>The loop of \<^verbatim>\<open>allocate_frame\<close> over the regions.\<close>

function bi_scan :: "frame_of \<Rightarrow> BootInfoFrameAllocator \<Rightarrow> (u64 option \<times> BootInfoFrameAllocator) exec" where
  "bi_scan frame_of st =
    (if bi_current_entry st < length (bi_regions st)
     then do {
       let entry = bi_regions st ! bi_current_entry st;
       let start = mr_base entry;
       stop \<leftarrow> cadd (mr_base entry) (mr_length entry);
       let addr = (if bi_current_addr st < start then start else bi_current_addr st);
       let addr = (if addr < FRAME_SIZE then FRAME_SIZE else addr);
       next \<leftarrow> cadd addr FRAME_SIZE;
       if next \<le> stop
       then do {
         frame \<leftarrow> frame_of addr;
         Some (Some frame, st\<lparr>bi_current_addr := next\<rparr>) }
       else bi_scan frame_of
              (st\<lparr>bi_current_entry := bi_current_entry st + 1, bi_current_addr := 0\<rparr>) }
     else Some (None, st))"
  by pat_completeness auto
termination by (relation "measure (\<lambda>(_, st). length (bi_regions st) - bi_current_entry st)") auto

declare bi_scan.simps [simp del]

definition bi_allocate_frame :: "frame_of \<Rightarrow> BootInfoFrameAllocator \<Rightarrow>
    (u64 option \<times> BootInfoFrameAllocator) exec" where
  "bi_allocate_frame frame_of st =
    (case vec_pop (bi_recycled st) of
       Some (frame, recycled) \<Rightarrow> Some (Some frame, st\<lparr>bi_recycled := recycled\<rparr>)
     | None \<Rightarrow> bi_scan frame_of st)"

text \<open>
  The firmware allocator calls itself again when the firmware hands out the first frame; \<^const>\<open>None\<close>
  is a panic or a call that never returns.
\<close>

partial_function (option) uefi_allocate_frame :: "frame_of \<Rightarrow> firmware \<Rightarrow> UefiFrameAllocator \<Rightarrow>
    (u64 option \<times> UefiFrameAllocator) option" where
  "uefi_allocate_frame frame_of firmware st =
    (case vec_pop (uf_recycled st) of
       Some (frame, recycled) \<Rightarrow> Some (Some frame, st\<lparr>uf_recycled := recycled\<rparr>)
     | None \<Rightarrow>
        (let reply = firmware (uf_calls st); st = st\<lparr>uf_calls := uf_calls st + 1\<rparr> in
         case reply of
           None \<Rightarrow> Some (None, st)
         | Some addr \<Rightarrow>
            (if addr < FRAME_SIZE then uefi_allocate_frame frame_of firmware st
             else case frame_of addr of None \<Rightarrow> None | Some frame \<Rightarrow> Some (Some frame, st))))"

definition rt_allocate_frame :: "frame_of \<Rightarrow> firmware \<Rightarrow> RuntimeFrameAllocator \<Rightarrow>
    (u64 option \<times> RuntimeFrameAllocator) exec" where
  "rt_allocate_frame frame_of firmware rt =
    (case rt of
       BootInfo st \<Rightarrow> map_option (map_prod id BootInfo) (bi_allocate_frame frame_of st)
     | Uefi st \<Rightarrow> map_option (map_prod id Uefi) (uefi_allocate_frame frame_of firmware st))"

fun rt_recycle :: "u64 \<Rightarrow> RuntimeFrameAllocator \<Rightarrow> RuntimeFrameAllocator" where
  "rt_recycle frame (BootInfo st) = BootInfo (st\<lparr>bi_recycled := bi_recycled st @ [frame]\<rparr>)" |
  "rt_recycle frame (Uefi st) = Uefi (st\<lparr>uf_recycled := uf_recycled st @ [frame]\<rparr>)"

section \<open>The frames still to come\<close>

text \<open>
  The contract of the crate's frame constructor on the addresses the allocator uses: an aligned
  address below \<open>2 ^ 52\<close> is the start address of its frame.
\<close>

definition frame_of_ok :: "frame_of \<Rightarrow> bool" where
  "frame_of_ok frame_of \<longleftrightarrow> (\<forall>a. 4096 dvd unat a \<longrightarrow> unat a < 2 ^ 52 \<longrightarrow> frame_of a = Some a)"

definition region_ok :: "MemoryRegion \<Rightarrow> bool" where
  "region_ok r \<longleftrightarrow> 4096 dvd unat (mr_base r) \<and> 4096 dvd unat (mr_length r) \<and>
     unat (mr_base r) + unat (mr_length r) \<le> 2 ^ 52"

text \<open>Start addresses of the whole frames between two addresses, in ascending order.\<close>

function frames_between :: "nat \<Rightarrow> nat \<Rightarrow> nat list" where
  "frames_between lo hi = (if lo + 4096 \<le> hi then lo # frames_between (lo + 4096) hi else [])"
  by pat_completeness auto
termination by (relation "measure (\<lambda>(lo, hi). hi - lo)") auto

declare frames_between.simps [simp del]

definition region_end :: "MemoryRegion \<Rightarrow> nat" where
  "region_end r = unat (mr_base r) + unat (mr_length r)"

definition region_from :: "nat \<Rightarrow> MemoryRegion \<Rightarrow> nat list" where
  "region_from lo r = frames_between (max lo (max (unat (mr_base r)) 4096)) (region_end r)"

definition bi_remaining :: "BootInfoFrameAllocator \<Rightarrow> nat list" where
  "bi_remaining st =
    (case drop (bi_current_entry st) (bi_regions st) of
       [] \<Rightarrow> []
     | r # rs \<Rightarrow> region_from (unat (bi_current_addr st)) r @ concat (map (region_from 0) rs))"

definition bi_inv :: "BootInfoFrameAllocator \<Rightarrow> bool" where
  "bi_inv st \<longleftrightarrow> (\<forall>r \<in> set (bi_regions st). region_ok r) \<and>
     4096 dvd unat (bi_current_addr st) \<and> unat (bi_current_addr st) \<le> 2 ^ 52"

lemma region_from_empty:
  "\<not> max lo (max (unat (mr_base r)) 4096) + 4096 \<le> region_end r \<Longrightarrow> region_from lo r = []"
  by (simp add: region_from_def frames_between.simps)

text \<open>One round of the scan, with the arithmetic done on numbers.\<close>

lemma bi_scan_round:
  assumes frame: "frame_of_ok frame_of" and inv: "bi_inv st" and entry: "bi_current_entry st < length (bi_regions st)"
    and r: "r = bi_regions st ! bi_current_entry st"
    and lo: "lo = max (unat (bi_current_addr st)) (max (unat (mr_base r)) 4096)"
  shows "bi_scan frame_of st =
    (if lo + 4096 \<le> region_end r
     then Some (Some (of_nat lo), st\<lparr>bi_current_addr := of_nat (lo + 4096)\<rparr>)
     else bi_scan frame_of (st\<lparr>bi_current_entry := bi_current_entry st + 1, bi_current_addr := 0\<rparr>))"
proof -
  have ok: "region_ok r" using inv entry by (auto simp: bi_inv_def r)
  then have reg: "unat (mr_base r) \<le> 2 ^ 52" "unat (mr_base r) + unat (mr_length r) < 2 ^ 64"
    by (auto simp: region_ok_def)
  have lo52: "lo \<le> 2 ^ 52" using reg inv by (auto simp: lo bi_inv_def)
  have dvd: "4096 dvd lo" using ok inv by (auto simp: lo region_ok_def bi_inv_def max_def)
  have stop: "cadd (mr_base r) (mr_length r) = Some (of_nat (region_end r))"
    using reg by (simp add: cadd_of_nat region_end_def del: of_nat_add)
  have addr: "(let a = if bi_current_addr st < mr_base r then mr_base r else bi_current_addr st
      in if a < FRAME_SIZE then FRAME_SIZE else a) = of_nat lo"
    using lo52 by (auto simp: lo max_def Let_def word_less_nat_alt not_less word_unat_eq_iff)
  have step: "cadd (of_nat lo) FRAME_SIZE = Some (of_nat (lo + 4096) :: u64)"
    using lo52 by (subst cadd_of_nat) (auto simp del: of_nat_add)
  have le: "(of_nat (lo + 4096) :: u64) \<le> of_nat (region_end r) \<longleftrightarrow> lo + 4096 \<le> region_end r"
    using lo52 reg by (simp add: word_le_nat_alt region_end_def del: of_nat_add)
  have "frame_of (of_nat lo) = Some (of_nat lo)" if "lo + 4096 \<le> region_end r"
    using frame dvd that ok lo52 unfolding frame_of_ok_def region_end_def region_ok_def by simp
  then show ?thesis
    using entry addr
    by (subst bi_scan.simps) (simp add: stop step le Let_def del: of_nat_add flip: r)
qed

text \<open>The scan takes the first frame still to come, and ends only when there is none.\<close>

lemma bi_scan_remaining:
  assumes "frame_of_ok frame_of" "bi_inv st"
  shows "\<exists>st'. bi_scan frame_of st = Some (map_option of_nat (case bi_remaining st of [] \<Rightarrow> None | a # _ \<Rightarrow> Some a), st') \<and>
    bi_remaining st' = tl (bi_remaining st) \<and> bi_inv st' \<and> bi_recycled st' = bi_recycled st \<and>
    bi_regions st' = bi_regions st"
  using assms(2)
proof (induction "length (bi_regions st) - bi_current_entry st" arbitrary: st)
  case 0
  then show ?case by (subst bi_scan.simps) (simp add: bi_remaining_def)
next
  case (Suc n)
  then have entry: "bi_current_entry st < length (bi_regions st)" by simp
  define r where "r = bi_regions st ! bi_current_entry st"
  define lo where "lo = max (unat (bi_current_addr st)) (max (unat (mr_base r)) 4096)"
  note round = bi_scan_round[OF assms(1) Suc.prems entry r_def lo_def]
  have drop: "drop (bi_current_entry st) (bi_regions st) = r # drop (Suc (bi_current_entry st)) (bi_regions st)"
    using entry by (simp add: r_def Cons_nth_drop_Suc)
  have rem: "bi_remaining st = frames_between lo (region_end r) @
      concat (map (region_from 0) (drop (Suc (bi_current_entry st)) (bi_regions st)))"
    by (simp add: bi_remaining_def drop region_from_def lo_def)
  show ?case
  proof (cases "lo + 4096 \<le> region_end r")
    case True
    have ok: "region_ok r" using Suc.prems entry by (auto simp: bi_inv_def r_def)
    then have hi: "lo + 4096 \<le> 2 ^ 52" using True by (auto simp: region_end_def region_ok_def)
    have dvd: "4096 dvd lo + 4096" using ok Suc.prems by (auto simp: lo_def region_ok_def bi_inv_def max_def)
    let ?st = "st\<lparr>bi_current_addr := of_nat (lo + 4096)\<rparr>"
    have "bi_inv ?st" using Suc.prems hi dvd by (simp add: bi_inv_def del: of_nat_add)
    moreover have "max (lo + 4096) (max (unat (mr_base r)) 4096) = lo + 4096" by (simp add: lo_def)
    then have "bi_remaining ?st = frames_between (lo + 4096) (region_end r) @
        concat (map (region_from 0) (drop (Suc (bi_current_entry st)) (bi_regions st)))"
      using hi by (simp add: bi_remaining_def drop region_from_def del: of_nat_add)
    then have "bi_remaining ?st = tl (bi_remaining st)"
      unfolding rem by (simp add: frames_between.simps[of lo] True)
    moreover have "bi_remaining st \<noteq> [] \<and> hd (bi_remaining st) = lo"
      unfolding rem by (simp add: frames_between.simps[of lo] True)
    ultimately show ?thesis using round True by (cases "bi_remaining st") auto
  next
    case False
    let ?st = "st\<lparr>bi_current_entry := bi_current_entry st + 1, bi_current_addr := 0\<rparr>"
    have "bi_inv ?st" using Suc.prems by (simp add: bi_inv_def)
    moreover have "n = length (bi_regions ?st) - bi_current_entry ?st" using Suc.hyps(2) by simp
    moreover have "bi_remaining ?st = bi_remaining st"
      unfolding rem by (simp add: frames_between.simps[of lo] False bi_remaining_def split: list.split)
    ultimately show ?thesis using Suc.hyps(1)[of ?st] round False by auto
  qed
qed


section \<open>Allocation and release\<close>

text \<open>
  A history of the allocator: a frame is allocated, or one that is in use is given back.  The second
  argument is the list of frames in use.
\<close>

inductive frame_history :: "frame_of \<Rightarrow> MemoryRegion list \<Rightarrow> BootInfoFrameAllocator \<Rightarrow> u64 list \<Rightarrow> bool"
  for frame_of :: frame_of and regions :: "MemoryRegion list" where
  start: "frame_history frame_of regions (init_from_regions regions) []" |
  allocate: "frame_history frame_of regions st used \<Longrightarrow>
    bi_allocate_frame frame_of st = Some (Some f, st') \<Longrightarrow> frame_history frame_of regions st' (f # used)" |
  release: "frame_history frame_of regions st used \<Longrightarrow> f \<in> set used \<Longrightarrow>
    rt_recycle f (BootInfo st) = BootInfo st' \<Longrightarrow> frame_history frame_of regions st' (remove1 f used)"

lemma frames_between_set: "a \<in> set (frames_between lo hi) \<Longrightarrow> lo \<le> a \<and> a + 4096 \<le> hi"
proof (induction lo hi rule: frames_between.induct)
  case (1 lo hi)
  show ?case
  proof (cases "lo + 4096 \<le> hi")
    case True
    with "1.prems" have "a = lo \<or> a \<in> set (frames_between (lo + 4096) hi)"
      by (simp add: frames_between.simps[of lo])
    then show ?thesis using 1 True by auto
  next
    case False
    then show ?thesis using "1.prems" by (simp add: frames_between.simps[of lo])
  qed
qed

lemma frames_between_distinct: "distinct (frames_between lo hi)"
proof (induction lo hi rule: frames_between.induct)
  case (1 lo hi)
  have "lo \<notin> set (frames_between (lo + 4096) hi)" using frames_between_set by fastforce
  with 1 show ?case by (subst frames_between.simps) auto
qed

definition regions_ok :: "MemoryRegion list \<Rightarrow> bool" where
  "regions_ok rs \<longleftrightarrow> (\<forall>r \<in> set rs. region_ok r) \<and>
     sorted_wrt (\<lambda>r s. region_end r \<le> unat (mr_base s) \<or> region_end s \<le> unat (mr_base r)) rs"

definition in_region :: "nat \<Rightarrow> MemoryRegion \<Rightarrow> bool" where
  "in_region a r \<longleftrightarrow> unat (mr_base r) \<le> a \<and> a + 4096 \<le> region_end r"

lemma region_from_in: "a \<in> set (region_from lo r) \<Longrightarrow> in_region a r \<and> 4096 \<le> a"
  by (auto simp: region_from_def in_region_def dest!: frames_between_set)

lemma all_frames_distinct: "regions_ok rs \<Longrightarrow> distinct (concat (map (region_from 0) rs))"
proof (induction rs)
  case (Cons r rs)
  have "set (region_from 0 r) \<inter> set (region_from 0 s) = {}" if "s \<in> set rs" for s
    using Cons.prems that by (fastforce simp: regions_ok_def in_region_def dest: region_from_in)
  with Cons show ?case
    by (auto simp: regions_ok_def region_from_def frames_between_distinct)
qed simp

lemma init_remaining: "bi_remaining (init_from_regions rs) = concat (map (region_from 0) rs)"
  by (simp add: bi_remaining_def init_from_regions_def split: list.split)

text \<open>Every frame of the usable regions is recycled, in use or still to come: none is lost or doubled.\<close>

definition frame_books :: "BootInfoFrameAllocator \<Rightarrow> u64 list \<Rightarrow> nat list" where
  "frame_books st used = map unat (bi_recycled st) @ map unat used @ bi_remaining st"

definition history_inv :: "MemoryRegion list \<Rightarrow> BootInfoFrameAllocator \<Rightarrow> u64 list \<Rightarrow> bool" where
  "history_inv regions st used \<longleftrightarrow> bi_inv st \<and>
     mset (frame_books st used) = mset (concat (map (region_from 0) regions))"

lemma bi_recycled_upd [simp]:
  "bi_remaining (st\<lparr>bi_recycled := x\<rparr>) = bi_remaining st" "bi_inv (st\<lparr>bi_recycled := x\<rparr>) = bi_inv st"
  by (simp_all add: bi_remaining_def bi_inv_def split: list.split)

lemma region_frame_word:
  assumes "\<forall>r \<in> set rs. region_ok r" "a \<in> set (concat (map (region_from 0) rs))"
  shows "unat (of_nat a :: u64) = a"
proof -
  obtain r where "r \<in> set rs" "in_region a r" using assms(2) region_from_in by auto
  with assms(1) have "a < 2 ^ 64" by (auto simp: in_region_def region_end_def region_ok_def)
  then show ?thesis by simp
qed

lemma history_inv_start: "regions_ok regions \<Longrightarrow> history_inv regions (init_from_regions regions) []"
  using init_remaining[of regions]
  by (simp add: history_inv_def frame_books_def bi_inv_def regions_ok_def) (simp add: init_from_regions_def)

lemma history_inv_allocate:
  assumes inv: "history_inv regions st used" and ok: "frame_of_ok frame_of" "regions_ok regions"
    and run: "bi_allocate_frame frame_of st = Some (Some f, st')"
  shows "history_inv regions st' (f # used)"
proof (cases "vec_pop (bi_recycled st)")
  case None
  then have rec: "bi_recycled st = []" by (simp add: vec_pop_None)
  have "bi_inv st" using inv by (simp add: history_inv_def)
  from bi_scan_remaining[OF ok(1) this] obtain st1 where st1:
    "bi_scan frame_of st = Some (map_option of_nat (case bi_remaining st of [] \<Rightarrow> None | a # _ \<Rightarrow> Some a), st1)"
    "bi_remaining st1 = tl (bi_remaining st)" "bi_inv st1" "bi_recycled st1 = bi_recycled st"
    by blast
  then obtain a where a: "bi_remaining st = a # bi_remaining st'" "f = of_nat a" "st' = st1"
    using None run by (cases "bi_remaining st") (auto simp: bi_allocate_frame_def)
  have "a \<in># mset (frame_books st used)" using a(1) by (simp add: frame_books_def)
  then have mem: "a \<in> set (concat (map (region_from 0) regions))"
    using inv mset_eq_setD[of "frame_books st used"] unfolding history_inv_def by simp
  have "\<forall>r \<in> set regions. region_ok r" using ok(2) by (simp add: regions_ok_def)
  then have "unat f = a" unfolding a(2) by (rule region_frame_word[OF _ mem])
  then have "frame_books st' (f # used) = a # map unat used @ bi_remaining st'"
    "frame_books st used = map unat used @ a # bi_remaining st'"
    using rec a st1 by (simp_all add: frame_books_def)
  then show ?thesis using inv st1(3) a(3) by (simp add: history_inv_def)
next
  case (Some x)
  then obtain g recycled where pop: "bi_recycled st = recycled @ [g]" "x = (g, recycled)"
    by (cases x) (auto simp: vec_pop_iff)
  then have "f = g" "st' = st\<lparr>bi_recycled := recycled\<rparr>"
    using run Some by (auto simp: bi_allocate_frame_def)
  then show ?thesis using inv pop by (simp add: history_inv_def frame_books_def)
qed

lemma history_inv_release:
  assumes inv: "history_inv regions st used" and f: "f \<in> set used"
  shows "history_inv regions (st\<lparr>bi_recycled := bi_recycled st @ [f]\<rparr>) (remove1 f used)"
proof -
  have "mset used = add_mset f (mset (remove1 f used))" using f by simp
  then have "image_mset unat (mset used) = add_mset (unat f) (image_mset unat (mset (remove1 f used)))"
    by (metis image_mset_add_mset)
  then show ?thesis using inv
    by (simp add: history_inv_def frame_books_def del: mset_remove1)
qed

lemma frame_history_inv:
  assumes "frame_history frame_of regions st used" "frame_of_ok frame_of" "regions_ok regions"
  shows "history_inv regions st used"
  using assms
proof (induction rule: frame_history.induct)
  case start
  then show ?case by (intro history_inv_start)
next
  case (allocate st used f st')
  then show ?case by (blast intro: history_inv_allocate)
next
  case (release st used f st')
  then show ?case using history_inv_release by auto
qed

text \<open>
  Property C21. No frame is given out twice and none is lost: in every history of allocations and
  releases over disjoint page-aligned regions, the frames in use, the recycled ones and those still to
  come are together exactly the frames of the regions, each once; the frames in use are distinct and
  none of them waits to be handed out again, and each lies inside one of the regions and is not the
  first frame of memory.
\<close>

theorem frames_in_use_distinct:
  assumes "frame_history frame_of regions st used" "frame_of_ok frame_of" "regions_ok regions"
  shows "mset (map unat (bi_recycled st) @ map unat used @ bi_remaining st) =
      mset (concat (map (region_from 0) regions)) \<and>
    distinct used \<and> set used \<inter> set (bi_recycled st) = {} \<and>
    (\<forall>f \<in> set used. 4096 \<le> unat f \<and> (\<exists>r \<in> set regions. in_region (unat f) r))"
proof -
  have books: "mset (frame_books st used) = mset (concat (map (region_from 0) regions))"
    using frame_history_inv[OF assms] by (simp add: history_inv_def)
  then have "distinct (frame_books st used)"
    using all_frames_distinct[OF assms(3)] mset_eq_imp_distinct_iff by blast
  then have "distinct (map unat used)" "unat ` set (bi_recycled st) \<inter> unat ` set used = {}"
    by (auto simp: frame_books_def)
  then have "distinct used" "set used \<inter> set (bi_recycled st) = {}" by (auto simp: distinct_map)
  moreover have "4096 \<le> unat f \<and> (\<exists>r \<in> set regions. in_region (unat f) r)" if "f \<in> set used" for f
  proof -
    have "unat f \<in> set (frame_books st used)" using that by (simp add: frame_books_def)
    then have "unat f \<in> set (concat (map (region_from 0) regions))" using mset_eq_setD[OF books] by simp
    then show ?thesis using region_from_in by auto
  qed
  ultimately show ?thesis using books by (simp add: frame_books_def)
qed

definition example_regions :: "MemoryRegion list" where
  "example_regions = [\<lparr>mr_base = 0, mr_length = 0x2000\<rparr>, \<lparr>mr_base = 0x8000, mr_length = 0x1000\<rparr>]"

theorem frames_in_use_distinct_witness:
  "\<exists>st. bi_allocate_frame Some (init_from_regions example_regions) = Some (Some 0x1000, st) \<and>
    0x1000 \<notin> set (bi_recycled st) \<and> (\<exists>r \<in> set example_regions. in_region (unat (0x1000 :: u64)) r)"
proof -
  have ok: "frame_of_ok Some" "regions_ok example_regions"
    by (auto simp: frame_of_ok_def regions_ok_def example_regions_def region_ok_def region_end_def)
  obtain st where run: "bi_allocate_frame Some (init_from_regions example_regions) = Some (Some 0x1000, st)"
    by (simp add: bi_allocate_frame_def init_from_regions_def vec_pop_def example_regions_def)
      (subst (asm) bi_scan.simps, simp add: cadd_def Let_def)
  from frame_history.allocate[OF frame_history.start run] have "frame_history Some example_regions st [0x1000]" .
  note frames_in_use_distinct[OF this ok, THEN conjunct2, THEN conjunct2]
  then have "0x1000 \<notin> set (bi_recycled st)" "\<exists>r \<in> set example_regions. in_region (unat (0x1000 :: u64)) r"
    by (simp_all only: set_simps Int_insert_left ball_simps) (simp_all split: if_split_asm)
  then show ?thesis using run by blast
qed

end
