(* ===== verification/Kernel_Vm.thy ===== *)
theory Kernel_Vm
  imports Zram Frame_Alloc
begin

text \<open>
  Address spaces and page reclaim: the runtime half of \<^verbatim>\<open>kernel/allocator.rs\<close> and
  \<^verbatim>\<open>kernel/reclaim.rs\<close>, which call each other.

  The processor and the \<^verbatim>\<open>x86_64\<close> crate are a parameter, the record \<open>machine\<close>: the page tables and
  the memory behind them are a value of type \<open>'pt\<close>, and mapping, unmapping, reading and writing are
  functions on it.  The statics of the two files are the fields of \<open>kmem\<close>, the lock of the pager is
  one of them.  An operation returns with a result, panics, or never returns.
\<close>

section \<open>Actions\<close>

datatype ('s, 'e, 'a) kres = Returned "'e + 'a" 's | Panicked | Blocked

type_synonym ('s, 'e, 'a) kact = "'s \<Rightarrow> ('s, 'e, 'a) kres"

definition kret :: "'a \<Rightarrow> ('s, 'e, 'a) kact" where
  "kret x s = Returned (Inr x) s"

definition kfail :: "'e \<Rightarrow> ('s, 'e, 'a) kact" where
  "kfail e s = Returned (Inl e) s"

text \<open>Sequencing with the \<^verbatim>\<open>?\<close> operator; \<open>conv\<close> is the error conversion.\<close>

definition kbind :: "('s, 'e, 'a) kact \<Rightarrow> ('e \<Rightarrow> 'f) \<Rightarrow> ('a \<Rightarrow> ('s, 'f, 'b) kact) \<Rightarrow> ('s, 'f, 'b) kact" where
  "kbind m conv k s =
    (case m s of
       Returned (Inl e) s \<Rightarrow> Returned (Inl (conv e)) s
     | Returned (Inr x) s \<Rightarrow> k x s
     | Panicked \<Rightarrow> Panicked
     | Blocked \<Rightarrow> Blocked)"

definition kmodify :: "('s \<Rightarrow> 's) \<Rightarrow> ('s, 'e, unit) kact" where
  "kmodify f s = Returned (Inr ()) (f s)"

definition kexec :: "'a exec \<Rightarrow> ('a \<Rightarrow> ('s, 'e, 'b) kact) \<Rightarrow> ('s, 'e, 'b) kact" where
  "kexec m k s = (case m of None \<Rightarrow> Panicked | Some x \<Rightarrow> k x s)"

named_theorems kact_simps \<open>evaluation of kernel actions\<close>

lemma kact_eval [kact_simps]:
  "kret x s = Returned (Inr x) s" "kfail e s = Returned (Inl e) s" "kmodify f s = Returned (Inr ()) (f s)"
  "kexec (Some x) k s = k x s" "kexec None k s = Panicked"
  by (simp_all add: kret_def kfail_def kmodify_def kexec_def)

lemma kbind_eval [kact_simps]:
  "m s = Returned (Inr x) t \<Longrightarrow> kbind m conv k s = k x t"
  "m s = Returned (Inl e) t \<Longrightarrow> kbind m conv k s = Returned (Inl (conv e)) t"
  "m s = Panicked \<Longrightarrow> kbind m conv k s = Panicked"
  "m s = Blocked \<Longrightarrow> kbind m conv k s = Blocked"
  by (simp_all add: kbind_def)

section \<open>The machine and the kernel's memory state\<close>

datatype MapToError = MapFrameAllocationFailed | MapParentEntryHugePage | MapPageAlreadyMapped u64
datatype UnmapError = UnmapParentEntryHugePage | UnmapPageNotMapped | UnmapInvalidFrameAddress u64
datatype FlagUpdateError = FlagParentEntryHugePage | FlagPageNotMapped

datatype VmError =
  RuntimeNotInitialized | FrameAllocationFailed | PageAlreadyMapped | ParentEntryHugePage | PageNotMapped

record 'pt machine =
  mx_frame_of :: frame_of
  mx_firmware :: firmware
  mx_virt :: "u64 \<Rightarrow> u64 exec"
  mx_page_of :: "u64 \<Rightarrow> u64"
  mx_flags_rw :: u64
  mx_cr3 :: "'pt \<Rightarrow> u64"
  mx_map_to :: "u64 \<Rightarrow> u64 \<Rightarrow> u64 \<Rightarrow> u64 \<Rightarrow> u64 \<Rightarrow> 'pt \<Rightarrow> RuntimeFrameAllocator \<Rightarrow>
    ((MapToError + unit) \<times> 'pt \<times> RuntimeFrameAllocator) exec"
  mx_unmap :: "u64 \<Rightarrow> u64 \<Rightarrow> u64 \<Rightarrow> 'pt \<Rightarrow> (UnmapError + u64) \<times> 'pt"
  mx_update_flags :: "u64 \<Rightarrow> u64 \<Rightarrow> u64 \<Rightarrow> u64 \<Rightarrow> 'pt \<Rightarrow> (FlagUpdateError + unit) \<times> 'pt"
  mx_read :: "u64 \<Rightarrow> nat \<Rightarrow> 'pt \<Rightarrow> bytes"
  mx_write :: "u64 \<Rightarrow> bytes \<Rightarrow> 'pt \<Rightarrow> 'pt"

abbreviation (input) RECLAIM_START :: nat where "RECLAIM_START \<equiv> 0x555500000000"
abbreviation (input) RECLAIM_MAX_PAGES :: nat where "RECLAIM_MAX_PAGES \<equiv> 256"
abbreviation (input) HEAP_START :: u64 where "HEAP_START \<equiv> 0x444444440000"
abbreviation (input) HEAP_SIZE :: u64 where "HEAP_SIZE \<equiv> 0x4000000"

datatype ReclaimError =
  Vm VmError | ZramErr ZramError | OutOfVirtualSpace | UntrackedPage | AlreadyReclaimed

datatype EntryState = Resident u64 | Compressed

record ReclaimEntry =
  re_page_index :: nat
  re_state :: EntryState

record ReclaimStats =
  rs_allocated_pages :: nat
  rs_resident_pages :: nat
  rs_compressed_pages :: nat
  rs_reclaims :: u64
  rs_restored_faults :: u64

record ReclaimPager =
  rp_next_region_page :: nat
  rp_next_backend_page :: nat
  rp_entries :: "(u64, ReclaimEntry) btree"
  rp_resident_queue :: "u64 list"
  rp_backend :: ZramDevice
  rp_reclaims :: u64
  rp_restored_faults :: u64

record 'pt kmem =
  km_offset :: u64
  km_heap_base :: u64
  km_heap :: "(u64 \<times> u64) option"
  km_ready :: bool
  km_allocator :: "RuntimeFrameAllocator option"
  km_pt :: 'pt
  km_pager :: ReclaimPager
  km_pager_locked :: bool

type_synonym ('pt, 'e, 'a) vm = "('pt kmem, 'e, 'a) kact"

section \<open>Frames and mappings\<close>

definition ReclaimPager_new :: ReclaimPager where
  "ReclaimPager_new = \<lparr>rp_next_region_page = 0, rp_next_backend_page = 0, rp_entries = [],
     rp_resident_queue = [], rp_backend = ZramDevice_new RECLAIM_MAX_PAGES, rp_reclaims = 0,
     rp_restored_faults = 0\<rparr>"

definition init_runtime_with_allocator :: "u64 \<Rightarrow> RuntimeFrameAllocator \<Rightarrow> 'pt kmem \<Rightarrow> 'pt kmem" where
  "init_runtime_with_allocator offset allocator s =
     s\<lparr>km_offset := offset, km_allocator := Some allocator, km_ready := True\<rparr>"

definition init_runtime :: "u64 \<Rightarrow> BootInfoFrameAllocator \<Rightarrow> 'pt kmem \<Rightarrow> 'pt kmem" where
  "init_runtime offset allocator = init_runtime_with_allocator offset (BootInfo allocator)"

definition init_uefi_runtime :: "'pt kmem \<Rightarrow> 'pt kmem" where
  "init_uefi_runtime = init_runtime_with_allocator 0 (Uefi \<lparr>uf_recycled = [], uf_calls = 0\<rparr>)"

definition set_heap_base :: "u64 \<Rightarrow> 'pt kmem \<Rightarrow> 'pt kmem" where
  "set_heap_base addr s = s\<lparr>km_heap_base := addr\<rparr>"

definition physical_memory_offset :: "'pt machine \<Rightarrow> ('pt, VmError, u64) vm" where
  "physical_memory_offset M s =
    (if \<not> km_ready s then kfail RuntimeNotInitialized s
     else kexec (mx_virt M (km_offset s)) kret s)"

fun map_error_to_vm :: "MapToError \<Rightarrow> VmError" where
  "map_error_to_vm MapFrameAllocationFailed = FrameAllocationFailed" |
  "map_error_to_vm MapParentEntryHugePage = ParentEntryHugePage" |
  "map_error_to_vm (MapPageAlreadyMapped _) = PageAlreadyMapped"

fun unmap_error_to_vm :: "UnmapError \<Rightarrow> VmError" where
  "unmap_error_to_vm UnmapParentEntryHugePage = ParentEntryHugePage" |
  "unmap_error_to_vm UnmapPageNotMapped = PageNotMapped" |
  "unmap_error_to_vm (UnmapInvalidFrameAddress _) = PageNotMapped"

fun flag_update_error_to_vm :: "FlagUpdateError \<Rightarrow> VmError" where
  "flag_update_error_to_vm FlagParentEntryHugePage = ParentEntryHugePage" |
  "flag_update_error_to_vm FlagPageNotMapped = PageNotMapped"

text \<open>\<open>f\<close> gets the offset, the root frame, the tables and the frame allocator under its lock.\<close>

definition with_runtime_in_with_offset :: "u64 \<Rightarrow> u64 \<Rightarrow>
    (u64 \<Rightarrow> u64 \<Rightarrow> 'pt \<Rightarrow> RuntimeFrameAllocator \<Rightarrow> ((VmError + 'a) \<times> 'pt \<times> RuntimeFrameAllocator) exec) \<Rightarrow>
    ('pt, VmError, 'a) vm" where
  "with_runtime_in_with_offset root offset f s =
    (case km_allocator s of
       None \<Rightarrow> kfail RuntimeNotInitialized s
     | Some allocator \<Rightarrow>
        (case f offset root (km_pt s) allocator of
           None \<Rightarrow> Panicked
         | Some (r, pt, allocator) \<Rightarrow> Returned r (s\<lparr>km_pt := pt, km_allocator := Some allocator\<rparr>)))"

definition with_runtime_in where
  "with_runtime_in M root f =
     kbind (physical_memory_offset M) id (\<lambda>offset. with_runtime_in_with_offset root offset f)"

definition with_runtime where
  "with_runtime M f =
     kbind (physical_memory_offset M) id (\<lambda>offset s.
       with_runtime_in_with_offset (mx_cr3 M (km_pt s)) offset f s)"

definition run_map_to :: "'pt machine \<Rightarrow> u64 \<Rightarrow> u64 \<Rightarrow> u64 \<Rightarrow> u64 \<Rightarrow> u64 \<Rightarrow> 'pt \<Rightarrow> RuntimeFrameAllocator \<Rightarrow>
    ((VmError + unit) \<times> 'pt \<times> RuntimeFrameAllocator) exec" where
  "run_map_to M page frame flags offset root pt allocator =
     map_option (\<lambda>(r, x). (map_sum map_error_to_vm id r, x)) (mx_map_to M offset root page frame flags pt allocator)"

definition map_existing_page :: "'pt machine \<Rightarrow> u64 \<Rightarrow> u64 \<Rightarrow> u64 \<Rightarrow> ('pt, VmError, unit) vm" where
  "map_existing_page M page frame flags = with_runtime M (run_map_to M page frame flags)"

definition map_existing_page_in :: "'pt machine \<Rightarrow> u64 \<Rightarrow> u64 \<Rightarrow> u64 \<Rightarrow> u64 \<Rightarrow> ('pt, VmError, unit) vm" where
  "map_existing_page_in M root page frame flags = with_runtime_in M root (run_map_to M page frame flags)"

definition run_update_flags :: "'pt machine \<Rightarrow> u64 \<Rightarrow> u64 \<Rightarrow> u64 \<Rightarrow> u64 \<Rightarrow> 'pt \<Rightarrow> RuntimeFrameAllocator \<Rightarrow>
    ((VmError + unit) \<times> 'pt \<times> RuntimeFrameAllocator) exec" where
  "run_update_flags M page flags offset root pt allocator =
    (let (r, pt) = mx_update_flags M offset root page flags pt
     in Some (map_sum flag_update_error_to_vm id r, pt, allocator))"

definition update_page_flags :: "'pt machine \<Rightarrow> u64 \<Rightarrow> u64 \<Rightarrow> ('pt, VmError, unit) vm" where
  "update_page_flags M page flags = with_runtime M (run_update_flags M page flags)"

definition update_page_flags_in :: "'pt machine \<Rightarrow> u64 \<Rightarrow> u64 \<Rightarrow> u64 \<Rightarrow> ('pt, VmError, unit) vm" where
  "update_page_flags_in M root page flags = with_runtime_in M root (run_update_flags M page flags)"

definition run_unmap :: "'pt machine \<Rightarrow> u64 \<Rightarrow> u64 \<Rightarrow> u64 \<Rightarrow> 'pt \<Rightarrow> RuntimeFrameAllocator \<Rightarrow>
    ((VmError + u64) \<times> 'pt \<times> RuntimeFrameAllocator) exec" where
  "run_unmap M page offset root pt allocator =
    (let (r, pt) = mx_unmap M offset root page pt in Some (map_sum unmap_error_to_vm id r, pt, allocator))"

definition unmap_page :: "'pt machine \<Rightarrow> u64 \<Rightarrow> ('pt, VmError, u64) vm" where
  "unmap_page M page = with_runtime M (run_unmap M page)"

definition unmap_page_in :: "'pt machine \<Rightarrow> u64 \<Rightarrow> u64 \<Rightarrow> ('pt, VmError, u64) vm" where
  "unmap_page_in M root page = with_runtime_in M root (run_unmap M page)"

definition deallocate_frame :: "u64 \<Rightarrow> ('pt, VmError, unit) vm" where
  "deallocate_frame frame s =
    (case km_allocator s of
       None \<Rightarrow> kfail RuntimeNotInitialized s
     | Some allocator \<Rightarrow> kret () (s\<lparr>km_allocator := Some (rt_recycle frame allocator)\<rparr>))"

definition try_allocate_frame :: "'pt machine \<Rightarrow> ('pt, VmError, u64 option) vm" where
  "try_allocate_frame M s =
    (case km_allocator s of
       None \<Rightarrow> kfail RuntimeNotInitialized s
     | Some allocator \<Rightarrow>
        (case rt_allocate_frame (mx_frame_of M) (mx_firmware M) allocator of
           None \<Rightarrow> Panicked
         | Some (frame, allocator) \<Rightarrow> kret frame (s\<lparr>km_allocator := Some allocator\<rparr>)))"

definition zero_page :: "'pt machine \<Rightarrow> u64 \<Rightarrow> ('pt, 'e, unit) vm" where
  "zero_page M page = kmodify (\<lambda>s. s\<lparr>km_pt := mx_write M page (replicate PAGE_SIZE 0) (km_pt s)\<rparr>)"

definition zero_frame :: "'pt machine \<Rightarrow> u64 \<Rightarrow> ('pt, VmError, unit) vm" where
  "zero_frame M frame =
     kbind (physical_memory_offset M) id (\<lambda>offset.
     kexec (cadd offset frame) (\<lambda>ptr.
       kmodify (\<lambda>s. s\<lparr>km_pt := mx_write M ptr (replicate PAGE_SIZE 0) (km_pt s)\<rparr>)))"

section \<open>Reclaiming pages\<close>

definition pager_upd :: "(ReclaimPager \<Rightarrow> ReclaimPager) \<Rightarrow> 'pt kmem \<Rightarrow> 'pt kmem" where
  "pager_upd f s = s\<lparr>km_pager := f (km_pager s)\<rparr>"

definition remove_from_resident_queue :: "u64 \<Rightarrow> ReclaimPager \<Rightarrow> ReclaimPager" where
  "remove_from_resident_queue page_start p =
     p\<lparr>rp_resident_queue :=
        (case position (\<lambda>candidate. candidate = page_start) (rp_resident_queue p) of
           None \<Rightarrow> rp_resident_queue p
         | Some i \<Rightarrow> remove_at i (rp_resident_queue p))\<rparr>"

text \<open>A call into the compressed store of the pager.\<close>

definition with_backend :: "(ZramDevice \<Rightarrow> ((ZramError + 'a) \<times> ZramDevice) exec) \<Rightarrow> ('pt, ReclaimError, 'a) vm" where
  "with_backend f s =
    (case f (rp_backend (km_pager s)) of
       None \<Rightarrow> Panicked
     | Some (r, backend) \<Rightarrow>
         Returned (map_sum ZramErr id r) (pager_upd (\<lambda>p. p\<lparr>rp_backend := backend\<rparr>) s))"

definition set_entry :: "u64 \<Rightarrow> ReclaimEntry \<Rightarrow> ReclaimPager \<Rightarrow> ReclaimPager" where
  "set_entry page_start entry p = p\<lparr>rp_entries := bt_insert page_start entry (rp_entries p)\<rparr>"

definition pager_reclaim_page :: "'pt machine \<Rightarrow> compressor \<Rightarrow> u64 \<Rightarrow> ('pt, ReclaimError, unit) vm" where
  "pager_reclaim_page M compress addr s =
    (let page_start = mx_page_of M addr in
     case map_of (rp_entries (km_pager s)) page_start of
       None \<Rightarrow> kfail UntrackedPage s
     | Some entry \<Rightarrow>
        (case re_state entry of
           Compressed \<Rightarrow> kfail AlreadyReclaimed s
         | Resident frame \<Rightarrow>
            (let bytes = mx_read M page_start PAGE_SIZE (km_pt s) in
             kbind (with_backend (store_page compress (re_page_index entry) bytes)) id (\<lambda>_.
             kbind (unmap_page M page_start) Vm (\<lambda>unmapped.
             kbind (if unmapped = frame then deallocate_frame unmapped else kret ()) Vm (\<lambda>_.
               kmodify (pager_upd (\<lambda>p. 
                 (remove_from_resident_queue page_start (set_entry page_start (entry\<lparr>re_state := Compressed\<rparr>) p))
                   \<lparr>rp_reclaims := sat_add (rp_reclaims p) 1\<rparr>))))) s)))"

fun is_resident :: "EntryState \<Rightarrow> bool" where
  "is_resident (Resident _) = True" |
  "is_resident Compressed = False"

text \<open>The loop of \<^verbatim>\<open>reclaim_one\<close>, with the number of rounds left.\<close>

fun reclaim_rounds :: "'pt machine \<Rightarrow> compressor \<Rightarrow> nat \<Rightarrow> ('pt, ReclaimError, bool) vm" where
  "reclaim_rounds M compress 0 s = kret False s" |
  "reclaim_rounds M compress (Suc n) s =
    (case rp_resident_queue (km_pager s) of
       [] \<Rightarrow> kret False s
     | page_start # queue \<Rightarrow>
        (let s = pager_upd (\<lambda>p. p\<lparr>rp_resident_queue := queue @ [page_start]\<rparr>) s in
         case map_of (rp_entries (km_pager s)) page_start of
           None \<Rightarrow> reclaim_rounds M compress n s
         | Some entry \<Rightarrow>
            (if is_resident (re_state entry)
             then kexec (mx_virt M page_start) (\<lambda>addr.
                    kbind (pager_reclaim_page M compress addr) id (\<lambda>_. kret True)) s
             else reclaim_rounds M compress n s)))"

definition pager_reclaim_one :: "'pt machine \<Rightarrow> compressor \<Rightarrow> ('pt, ReclaimError, bool) vm" where
  "pager_reclaim_one M compress s =
     reclaim_rounds M compress (length (rp_resident_queue (km_pager s))) s"

text \<open>
  The pager's lock is not re-entrant: taking it while it is held never returns.
\<close>

definition with_pager :: "('pt, 'e, 'a) vm \<Rightarrow> ('pt, 'e, 'a) vm" where
  "with_pager body s =
    (if km_pager_locked s then Blocked
     else case body (s\<lparr>km_pager_locked := True\<rparr>) of
       Returned r s \<Rightarrow> Returned r (s\<lparr>km_pager_locked := False\<rparr>)
     | Panicked \<Rightarrow> Panicked
     | Blocked \<Rightarrow> Blocked)"

definition reclaim_one :: "'pt machine \<Rightarrow> compressor \<Rightarrow> ('pt, ReclaimError, bool) vm" where
  "reclaim_one M compress = with_pager (pager_reclaim_one M compress)"

definition reclaim_page :: "'pt machine \<Rightarrow> compressor \<Rightarrow> u64 \<Rightarrow> ('pt, ReclaimError, unit) vm" where
  "reclaim_page M compress addr = with_pager (pager_reclaim_page M compress addr)"

fun reclaim_error_to_vm :: "ReclaimError \<Rightarrow> VmError" where
  "reclaim_error_to_vm (Vm e) = e" |
  "reclaim_error_to_vm _ = FrameAllocationFailed"

text \<open>
  The loop of \<^verbatim>\<open>allocate_frame\<close>: every round but the last compresses one resident page, so one round
  more than there are tracked pages is enough.
\<close>

fun allocate_rounds :: "'pt machine \<Rightarrow> compressor \<Rightarrow> nat \<Rightarrow> ('pt, VmError, u64) vm" where
  "allocate_rounds M compress 0 s = Blocked" |
  "allocate_rounds M compress (Suc n) s =
     kbind (try_allocate_frame M) id (\<lambda>found.
       case found of
         Some frame \<Rightarrow> kret frame
       | None \<Rightarrow>
           kbind (reclaim_one M compress) reclaim_error_to_vm (\<lambda>reclaimed.
             if reclaimed then allocate_rounds M compress n else kfail FrameAllocationFailed)) s"

definition allocate_frame :: "'pt machine \<Rightarrow> compressor \<Rightarrow> ('pt, VmError, u64) vm" where
  "allocate_frame M compress s = allocate_rounds M compress (Suc (length (rp_entries (km_pager s)))) s"

definition allocate_and_map_page :: "'pt machine \<Rightarrow> compressor \<Rightarrow> u64 \<Rightarrow> u64 \<Rightarrow> ('pt, VmError, u64) vm" where
  "allocate_and_map_page M compress page flags =
     kbind (allocate_frame M compress) id (\<lambda>frame.
     kbind (map_existing_page M page frame flags) id (\<lambda>_. kret frame))"

text \<open>The loop of \<^verbatim>\<open>allocate_region\<close> from \<open>page_offset\<close> on.\<close>

fun region_pages :: "'pt machine \<Rightarrow> compressor \<Rightarrow> u64 \<Rightarrow> nat \<Rightarrow> nat \<Rightarrow> ('pt, ReclaimError, unit) vm" where
  "region_pages M compress base page_offset 0 = kret ()" |
  "region_pages M compress base page_offset (Suc n) =
     kexec (cadd base (of_nat (page_offset * PAGE_SIZE))) (\<lambda>addr.
     kexec (mx_virt M addr) (\<lambda>virt.
     (let page = mx_page_of M virt in
     kbind (allocate_and_map_page M compress page (mx_flags_rw M)) Vm (\<lambda>frame.
     kbind (zero_page M page) id (\<lambda>_.
     kbind (kmodify (pager_upd (\<lambda>p.
        (set_entry page \<lparr>re_page_index = rp_next_backend_page p, re_state = Resident frame\<rparr> p)
          \<lparr>rp_next_backend_page := rp_next_backend_page p + 1,
           rp_resident_queue := rp_resident_queue p @ [page],
           rp_next_region_page := rp_next_region_page p + 1\<rparr>))) id (\<lambda>_.
       region_pages M compress base (page_offset + 1) n))))))"

definition pager_allocate_region :: "'pt machine \<Rightarrow> compressor \<Rightarrow> nat \<Rightarrow> ('pt, ReclaimError, u64) vm" where
  "pager_allocate_region M compress page_count s =
    (let next = rp_next_region_page (km_pager s) in
     if 2 ^ 64 \<le> next + page_count then Panicked
     else if RECLAIM_MAX_PAGES < next + page_count then kfail OutOfVirtualSpace s
     else kexec (mx_virt M (of_nat (RECLAIM_START + next * PAGE_SIZE))) (\<lambda>base.
            kbind (region_pages M compress base 0 page_count) id (\<lambda>_. kret base)) s)"

definition pager_handle_page_fault :: "'pt machine \<Rightarrow> compressor \<Rightarrow> decompressor \<Rightarrow> u64 \<Rightarrow>
    ('pt, ReclaimError, bool) vm" where
  "pager_handle_page_fault M compress decompress addr s =
    (let page = mx_page_of M addr in
     case map_of (rp_entries (km_pager s)) page of
       None \<Rightarrow> kret False s
     | Some entry \<Rightarrow>
        (if is_resident (re_state entry) then kret False s
         else
           kbind (with_backend (load_page decompress (re_page_index entry))) id (\<lambda>bytes.
           kbind (allocate_and_map_page M compress page (mx_flags_rw M)) Vm (\<lambda>frame.
           kbind (kmodify (\<lambda>s. s\<lparr>km_pt := mx_write M page bytes (km_pt s)\<rparr>)) id (\<lambda>_.
           kbind (if length bytes < PAGE_SIZE
                  then kmodify (\<lambda>s. s\<lparr>km_pt := mx_write M (page + of_nat (length bytes))
                         (replicate (PAGE_SIZE - length bytes) 0) (km_pt s)\<rparr>)
                  else kret ()) id (\<lambda>_.
           kbind (with_backend (invalidate_page (re_page_index entry))) id (\<lambda>_.
           kbind (kmodify (pager_upd (\<lambda>p.
              (let p = remove_from_resident_queue page (set_entry page (entry\<lparr>re_state := Resident frame\<rparr>) p)
               in p\<lparr>rp_resident_queue := rp_resident_queue p @ [page],
                    rp_restored_faults := sat_add (rp_restored_faults p) 1\<rparr>)))) id (\<lambda>_.
             kret True)))))) s))"

definition pager_stats :: "ReclaimPager \<Rightarrow> ReclaimStats" where
  "pager_stats p = \<lparr>rs_allocated_pages = length (rp_entries p),
     rs_resident_pages = length (filter (\<lambda>e. is_resident (re_state (snd e))) (rp_entries p)),
     rs_compressed_pages = length (filter (\<lambda>e. \<not> is_resident (re_state (snd e))) (rp_entries p)),
     rs_reclaims = rp_reclaims p, rs_restored_faults = rp_restored_faults p\<rparr>"

definition allocate_region :: "'pt machine \<Rightarrow> compressor \<Rightarrow> nat \<Rightarrow> ('pt, ReclaimError, u64) vm" where
  "allocate_region M compress page_count = with_pager (pager_allocate_region M compress page_count)"

definition handle_page_fault :: "'pt machine \<Rightarrow> compressor \<Rightarrow> decompressor \<Rightarrow> u64 \<Rightarrow> ('pt, ReclaimError, bool) vm" where
  "handle_page_fault M compress decompress addr = with_pager (pager_handle_page_fault M compress decompress addr)"

definition reclaim_stats :: "('pt, 'e, ReclaimStats) vm" where
  "reclaim_stats = with_pager (\<lambda>s. kret (pager_stats (km_pager s)) s)"

section \<open>The kernel heap\<close>

text \<open>
  \<^verbatim>\<open>init_heap\<close> runs before the statics exist: it gets the tables and the frame allocator.  The heap
  itself is the third-party \<^verbatim>\<open>linked_list_allocator\<close>; what the source gives it is recorded.
\<close>

fun heap_pages :: "'pt machine \<Rightarrow> u64 \<Rightarrow> u64 \<Rightarrow> u64 \<Rightarrow> nat \<Rightarrow> 'pt \<Rightarrow> RuntimeFrameAllocator \<Rightarrow>
    ((MapToError + unit) \<times> 'pt \<times> RuntimeFrameAllocator) exec" where
  "heap_pages M offset root page 0 pt allocator = Some (Inr (), pt, allocator)" |
  "heap_pages M offset root page (Suc n) pt allocator =
    (case rt_allocate_frame (mx_frame_of M) (mx_firmware M) allocator of
       None \<Rightarrow> None
     | Some (None, allocator) \<Rightarrow> Some (Inl MapFrameAllocationFailed, pt, allocator)
     | Some (Some frame, allocator) \<Rightarrow>
        (case mx_map_to M offset root page frame (mx_flags_rw M) pt allocator of
           None \<Rightarrow> None
         | Some (Inl e, x) \<Rightarrow> Some (Inl e, x)
         | Some (Inr _, pt, allocator) \<Rightarrow> heap_pages M offset root (page + 4096) n pt allocator))"

definition init_heap :: "'pt machine \<Rightarrow> u64 \<Rightarrow> u64 \<Rightarrow> RuntimeFrameAllocator \<Rightarrow> 'pt kmem \<Rightarrow>
    ((MapToError + unit) \<times> RuntimeFrameAllocator \<times> 'pt kmem) exec" where
  "init_heap M offset root allocator s = do {
     start \<leftarrow> mx_virt M HEAP_START;
     stop \<leftarrow> mx_virt M (HEAP_START + HEAP_SIZE - 1);
     let first = mx_page_of M start;
     let last = mx_page_of M stop;
     (r, pt, allocator) \<leftarrow>
       heap_pages M offset root first ((unat last - unat first) div 4096 + 1) (km_pt s) allocator;
     let s = s\<lparr>km_pt := pt\<rparr>;
     case r of
       Inl e \<Rightarrow> Some (Inl e, allocator, s)
     | Inr _ \<Rightarrow> Some (Inr (), allocator, s\<lparr>km_heap := Some (HEAP_START, HEAP_SIZE), km_heap_base := HEAP_START\<rparr>) }"

end
