(* ===== verification/Kernel_Reclaim.thy ===== *)
theory Kernel_Reclaim
  imports Kernel_Vm
begin

text \<open>
  What page reclaim guarantees: the invariant of the pager over every sequence of its operations,
  that a page comes back from the compressed store with its bytes, that asking for a frame outside the
  pager's lock ends, and that a page fault without a free frame never returns.  The machine's part is
  the predicate \<open>machine_ok\<close>, satisfied by the flat machine below.
\<close>

section \<open>What the calls into the allocator leave alone\<close>

lemmas vm_frame_defs = with_runtime_def with_runtime_in_with_offset_def physical_memory_offset_def
  kbind_def kexec_def kfail_def kret_def

definition same_pager :: "'pt kmem \<Rightarrow> 'pt kmem \<Rightarrow> bool" where
  "same_pager s t \<longleftrightarrow> km_pager t = km_pager s \<and> km_pager_locked t = km_pager_locked s"

lemma same_pager_refl [simp]: "same_pager s s"
  and same_pager_trans: "same_pager s t \<Longrightarrow> same_pager t u \<Longrightarrow> same_pager s u"
  by (simp_all add: same_pager_def)

lemma with_runtime_pager: "with_runtime M f s = Returned r t \<Longrightarrow> same_pager s t"
  by (auto simp: vm_frame_defs same_pager_def split: option.split_asm if_split_asm)

lemma unmap_page_pager: "unmap_page M page s = Returned r t \<Longrightarrow> same_pager s t"
  by (simp add: unmap_page_def with_runtime_pager)

lemma map_existing_page_pager: "map_existing_page M page frame flags s = Returned r t \<Longrightarrow> same_pager s t"
  by (simp add: map_existing_page_def with_runtime_pager)

lemma map_existing_page_ok:
  assumes "map_existing_page M page frame flags s = Returned (Inr ()) t"
  obtains off al al' where
    "mx_map_to M off (mx_cr3 M (km_pt s)) page frame flags (km_pt s) al = Some (Inr (), km_pt t, al')"
proof -
  obtain off al where 1: "km_ready s" "mx_virt M (km_offset s) = Some off" "km_allocator s = Some al"
    and "with_runtime_in_with_offset (mx_cr3 M (km_pt s)) off (run_map_to M page frame flags) s = Returned (Inr ()) t"
    using assms
    by (cases "km_ready s"; cases "mx_virt M (km_offset s)"; cases "km_allocator s")
      (auto simp: map_existing_page_def vm_frame_defs)
  then obtain r pt al' where "mx_map_to M off (mx_cr3 M (km_pt s)) page frame flags (km_pt s) al = Some (r, pt, al')"
    "map_sum map_error_to_vm id r = Inr ()" "pt = km_pt t"
    by (auto simp: with_runtime_in_with_offset_def run_map_to_def split: option.split_asm)
  then show ?thesis using that by (cases r) auto
qed

lemma deallocate_frame_pager: "deallocate_frame frame s = Returned r t \<Longrightarrow> same_pager s t"
  by (auto simp: deallocate_frame_def kfail_def kret_def same_pager_def split: option.split_asm)

lemma try_allocate_frame_pager: "try_allocate_frame M s = Returned r t \<Longrightarrow> same_pager s t"
  by (auto simp: try_allocate_frame_def kfail_def kret_def same_pager_def split: option.split_asm)

lemma kbind_Returned:
  "kbind m conv k s = Returned r t \<longleftrightarrow>
    (\<exists>e. m s = Returned (Inl e) t \<and> r = Inl (conv e)) \<or> (\<exists>x u. m s = Returned (Inr x) u \<and> k x u = Returned r t)"
  by (auto simp: kbind_def split: kres.split_asm sum.split_asm)

lemma kexec_Returned: "kexec m k s = Returned r t \<longleftrightarrow> (\<exists>x. m = Some x \<and> k x s = Returned r t)"
  by (auto simp: kexec_def split: option.split_asm)

lemmas kact_Returned = kbind_Returned kexec_Returned kret_def kfail_def kmodify_def

text \<open>With the pager's lock held, a frame comes from the allocator or not at all.\<close>

lemma allocate_frame_locked:
  assumes "km_pager_locked s"
  shows "allocate_frame M compress s =
    (case try_allocate_frame M s of
       Returned (Inr (Some frame)) t \<Rightarrow> Returned (Inr frame) t
     | Returned (Inr None) t \<Rightarrow> Blocked
     | Returned (Inl e) t \<Rightarrow> Returned (Inl e) t
     | Panicked \<Rightarrow> Panicked
     | Blocked \<Rightarrow> Blocked)"
  using assms
  by (auto simp: allocate_frame_def kbind_def kret_def reclaim_one_def with_pager_def same_pager_def
      split: kres.split sum.split option.split dest: try_allocate_frame_pager)

lemma allocate_and_map_page_locked:
  assumes "km_pager_locked s" "allocate_and_map_page M compress page flags s = Returned r t"
  shows "same_pager s t \<and> (\<forall>frame. r = Inr frame \<longrightarrow>
    (\<exists>u. same_pager s u \<and> try_allocate_frame M s = Returned (Inr (Some frame)) u \<and>
      map_existing_page M page frame flags u = Returned (Inr ()) t))"
  using assms
  by (auto simp: allocate_and_map_page_def kact_Returned allocate_frame_locked
      split: kres.split_asm sum.split_asm option.split_asm
      dest: try_allocate_frame_pager map_existing_page_pager intro: same_pager_trans)

section \<open>The pager's transitions\<close>

text \<open>What each operation of the pager does to the pager itself.\<close>

definition compressed_pager :: "u64 \<Rightarrow> ReclaimEntry \<Rightarrow> ZramDevice \<Rightarrow> ReclaimPager \<Rightarrow> ReclaimPager" where
  "compressed_pager page entry d p =
     p\<lparr>rp_backend := d, rp_entries := bt_insert page (entry\<lparr>re_state := Compressed\<rparr>) (rp_entries p),
       rp_resident_queue := remove1 page (rp_resident_queue p), rp_reclaims := sat_add (rp_reclaims p) 1\<rparr>"

definition restored_pager :: "u64 \<Rightarrow> ReclaimEntry \<Rightarrow> u64 \<Rightarrow> ZramDevice \<Rightarrow> ReclaimPager \<Rightarrow> ReclaimPager" where
  "restored_pager page entry frame d p =
     p\<lparr>rp_backend := d, rp_entries := bt_insert page (entry\<lparr>re_state := Resident frame\<rparr>) (rp_entries p),
       rp_resident_queue := remove1 page (rp_resident_queue p) @ [page],
       rp_restored_faults := sat_add (rp_restored_faults p) 1\<rparr>"

lemma remove_from_resident_queue_eq:
  "remove_from_resident_queue page p = p\<lparr>rp_resident_queue := remove1 page (rp_resident_queue p)\<rparr>"
  by (simp add: remove_from_resident_queue_def remove_at_position)

definition set_backend :: "ZramDevice \<Rightarrow> 'pt kmem \<Rightarrow> 'pt kmem" where
  "set_backend d s = s\<lparr>km_pager := (km_pager s)\<lparr>rp_backend := d\<rparr>\<rparr>"

lemma set_backend_fields [simp]:
  "km_pt (set_backend d s) = km_pt s" "km_allocator (set_backend d s) = km_allocator s"
  "km_ready (set_backend d s) = km_ready s" "km_offset (set_backend d s) = km_offset s"
  "km_pager_locked (set_backend d s) = km_pager_locked s"
  "km_pager (set_backend d s) = (km_pager s)\<lparr>rp_backend := d\<rparr>"
  by (simp_all add: set_backend_def)

lemma with_backend_Inl:
  "with_backend f s = Returned (Inl e) t \<longleftrightarrow>
    (\<exists>e' d. f (rp_backend (km_pager s)) = Some (Inl e', d) \<and> e = ZramErr e' \<and> t = set_backend d s)"
  and with_backend_Inr:
  "with_backend f s = Returned (Inr x) t \<longleftrightarrow>
    (\<exists>d. f (rp_backend (km_pager s)) = Some (Inr x, d) \<and> t = set_backend d s)"
  by (auto simp: with_backend_def pager_upd_def set_backend_def map_sum_def split: option.split_asm sum.split_asm)

lemma pager_reclaim_page_Returned:
  assumes run: "pager_reclaim_page M compress addr s = Returned r t" and page: "page = mx_page_of M addr"
  obtains
    (untouched) e where "r = Inl e" "same_pager s t"
  | (stored) entry frame r' d e where "r = Inl e" "map_of (rp_entries (km_pager s)) page = Some entry"
      "re_state entry = Resident frame"
      "store_page compress (re_page_index entry) (mx_read M page PAGE_SIZE (km_pt s)) (rp_backend (km_pager s)) = Some (r', d)"
      "km_pager t = (km_pager s)\<lparr>rp_backend := d\<rparr>" "km_pager_locked t = km_pager_locked s"
  | (finished) entry frame d where "r = Inr ()" "map_of (rp_entries (km_pager s)) page = Some entry"
      "re_state entry = Resident frame"
      "store_page compress (re_page_index entry) (mx_read M page PAGE_SIZE (km_pt s)) (rp_backend (km_pager s)) = Some (Inr (), d)"
      "km_pager t = compressed_pager page entry d (km_pager s)" "km_pager_locked t = km_pager_locked s"
proof (cases "map_of (rp_entries (km_pager s)) page")
  case None
  then show ?thesis using run untouched by (auto simp: pager_reclaim_page_def page kfail_def)
next
  case (Some entry)
  show ?thesis
  proof (cases "re_state entry")
    case Compressed
    then show ?thesis using run Some untouched by (auto simp: pager_reclaim_page_def page kfail_def)
  next
    case (Resident frame)
    let ?store = "store_page compress (re_page_index entry) (mx_read M page PAGE_SIZE (km_pt s)) (rp_backend (km_pager s))"
    let ?s = "\<lambda>d. set_backend d s"
    let ?upd = "\<lambda>p. (remove_from_resident_queue page (set_entry page (entry\<lparr>re_state := Compressed\<rparr>) p))
        \<lparr>rp_reclaims := sat_add (rp_reclaims p) 1\<rparr>"
    let ?free = "\<lambda>unmapped. if unmapped = frame then deallocate_frame unmapped else kret ()"
    from run have "kbind (with_backend (store_page compress (re_page_index entry) (mx_read M page PAGE_SIZE (km_pt s)))) id
        (\<lambda>_. kbind (unmap_page M page) Vm (\<lambda>unmapped. kbind (?free unmapped) Vm (\<lambda>_. kmodify (pager_upd ?upd)))) s
        = Returned r t"
      by (simp add: pager_reclaim_page_def Some Resident Let_def flip: page)
    then consider (full) r1 d e where "?store = Some (r1, d)" "t = ?s d" "r = Inl e"
      | (go) d where "?store = Some (Inr (), d)"
          "kbind (unmap_page M page) Vm (\<lambda>unmapped. kbind (?free unmapped) Vm (\<lambda>_. kmodify (pager_upd ?upd))) (?s d) = Returned r t"
      unfolding kbind_Returned[of "with_backend _"] with_backend_Inl with_backend_Inr by auto
    then obtain r1 d where st: "?store = Some (r1, d)"
      and "(\<exists>e. r = Inl e \<and> same_pager (?s d) t) \<or> (\<exists>u. r1 = Inr () \<and> r = Inr () \<and> same_pager (?s d) u \<and> t = pager_upd ?upd u)"
    proof cases
      case (go d)
      from go(2) consider (unmapping) e where "unmap_page M page (?s d) = Returned (Inl e) t" "r = Inl (Vm e)"
        | (unmapped) f u where "unmap_page M page (?s d) = Returned (Inr f) u"
            "kbind (?free f) Vm (\<lambda>_. kmodify (pager_upd ?upd)) u = Returned r t"
        unfolding kbind_Returned[of "unmap_page _ _"] by blast
      then show ?thesis
      proof cases
        case unmapping
        then show ?thesis using that go(1) unmap_page_pager by blast
      next
        case unmapped
        have sp: "same_pager (?s d) v" if "?free f u = Returned x v" for x v
          using that unmap_page_pager[OF unmapped(1)]
          by (auto simp: kret_def split: if_split_asm dest: deallocate_frame_pager intro: same_pager_trans)
        from unmapped(2) consider (freeing) e where "?free f u = Returned (Inl e) t" "r = Inl (Vm e)"
          | (freed) v where "?free f u = Returned (Inr ()) v" "t = pager_upd ?upd v" "r = Inr ()"
          unfolding kbind_Returned[of "?free f"] by (auto simp: kmodify_def)
        then show ?thesis
        proof cases
          case freeing
          then show ?thesis using that[OF go(1)] sp by blast
        next
          case freed
          then show ?thesis using that[OF go(1)] sp by blast
        qed
      qed
    qed (use that in auto)
    then consider (err) e where "r = Inl e" "same_pager (?s d) t"
      | (ok) u where "r1 = Inr ()" "r = Inr ()" "same_pager (?s d) u" "t = pager_upd ?upd u" by blast
    then show ?thesis
    proof cases
      case err
      then show ?thesis using stored[OF _ Some Resident st] by (auto simp: same_pager_def set_backend_def)
    next
      case ok
      then have "km_pager t = compressed_pager page entry d (km_pager s)" "km_pager_locked t = km_pager_locked s"
        by (simp_all add: pager_upd_def remove_from_resident_queue_eq set_entry_def compressed_pager_def same_pager_def set_backend_def)
      then show ?thesis using finished[OF _ Some Resident, of d] st ok by simp
    qed
  qed
qed


section \<open>The invariant of the pager\<close>

definition region_addr :: "nat \<Rightarrow> u64" where
  "region_addr k = of_nat (RECLAIM_START + k * PAGE_SIZE)"

lemma region_addr_unat: "k \<le> RECLAIM_MAX_PAGES \<Longrightarrow> unat (region_addr k) = RECLAIM_START + k * PAGE_SIZE"
  unfolding region_addr_def by (rule unat_of_nat_small) simp

lemma region_addr_inj: "j \<le> RECLAIM_MAX_PAGES \<Longrightarrow> k \<le> RECLAIM_MAX_PAGES \<Longrightarrow> region_addr j = region_addr k \<longleftrightarrow> j = k"
proof -
  assume "j \<le> RECLAIM_MAX_PAGES" "k \<le> RECLAIM_MAX_PAGES"
  then have "unat (region_addr j) = unat (region_addr k) \<longleftrightarrow> j = k" by (simp add: region_addr_unat)
  then show ?thesis by (simp only: word_unat_eq_iff)
qed

text \<open>
  Page \<open>k\<close> of the region is tracked under its address with the number \<open>k\<close> in the compressed store; the
  queue lists the resident pages, each once; a page that is not resident has its bytes in the store.
\<close>

definition pager_inv :: "decompressor \<Rightarrow> ReclaimPager \<Rightarrow> bool" where
  "pager_inv decompress p \<longleftrightarrow>
    rp_next_region_page p \<le> RECLAIM_MAX_PAGES \<and> rp_next_backend_page p = rp_next_region_page p \<and>
    bt_wf (rp_entries p) \<and> zram_inv decompress RECLAIM_MAX_PAGES (rp_backend p) \<and>
    (\<forall>a e. map_of (rp_entries p) a = Some e \<longrightarrow>
       re_page_index e < rp_next_region_page p \<and> a = region_addr (re_page_index e)) \<and>
    (\<forall>k < rp_next_region_page p. map_of (rp_entries p) (region_addr k) \<noteq> None) \<and>
    distinct (rp_resident_queue p) \<and>
    (\<forall>a. a \<in> set (rp_resident_queue p) \<longleftrightarrow> (\<exists>e. map_of (rp_entries p) a = Some e \<and> is_resident (re_state e))) \<and>
    (\<forall>a e. map_of (rp_entries p) a = Some e \<longrightarrow> \<not> is_resident (re_state e) \<longrightarrow>
       (\<exists>bs. zram_view decompress (rp_backend p) (re_page_index e) = Some bs \<and> length bs = PAGE_SIZE))"

lemma pager_inv_new: "pager_inv decompress ReclaimPager_new"
  by (simp add: pager_inv_def ReclaimPager_new_def zram_new_inv)

lemma pager_inv_index_inj:
  assumes "pager_inv decompress p" "map_of (rp_entries p) a = Some e" "map_of (rp_entries p) b = Some f"
  shows "re_page_index e = re_page_index f \<longleftrightarrow> a = b"
  using assms unfolding pager_inv_def by (metis option.inject)

lemma pager_inv_index_bound:
  "pager_inv decompress p \<Longrightarrow> map_of (rp_entries p) a = Some e \<Longrightarrow> re_page_index e < RECLAIM_MAX_PAGES"
  unfolding pager_inv_def by (meson less_le_trans)

text \<open>Changing the stored bytes of a resident page keeps the invariant, and so do the two transitions.\<close>

lemma pager_inv_backend:
  assumes inv: "pager_inv decompress p" and entry: "map_of (rp_entries p) a = Some e" "is_resident (re_state e)"
    and d: "zram_inv decompress RECLAIM_MAX_PAGES d"
    and view: "zram_view decompress d = (zram_view decompress (rp_backend p))(re_page_index e := v)"
  shows "pager_inv decompress (p\<lparr>rp_backend := d\<rparr>)"
proof -
  have "re_page_index f \<noteq> re_page_index e" if "map_of (rp_entries p) b = Some f" "\<not> is_resident (re_state f)" for b f
    using pager_inv_index_inj[OF inv that(1) entry(1)] that entry by auto
  then show ?thesis using inv d view unfolding pager_inv_def by simp
qed

lemma pager_inv_compressed:
  assumes inv: "pager_inv decompress p" and entry: "map_of (rp_entries p) a = Some e" "is_resident (re_state e)"
    and d: "zram_inv decompress RECLAIM_MAX_PAGES d"
    and view: "zram_view decompress d = (zram_view decompress (rp_backend p))(re_page_index e \<mapsto> bs)" "length bs = PAGE_SIZE"
  shows "pager_inv decompress (compressed_pager a e d p)"
proof -
  have other: "re_page_index f \<noteq> re_page_index e" if "map_of (rp_entries p) b = Some f" "b \<noteq> a" for b f
    using pager_inv_index_inj[OF inv that(1) entry(1)] that by auto
  have dist: "distinct (rp_resident_queue p)" using inv by (simp add: pager_inv_def)
  show ?thesis
    unfolding pager_inv_def
  proof (intro conjI allI impI)
    fix b
    show "b \<in> set (rp_resident_queue (compressed_pager a e d p)) \<longleftrightarrow>
        (\<exists>f. map_of (rp_entries (compressed_pager a e d p)) b = Some f \<and> is_resident (re_state f))"
      using inv dist by (auto simp: compressed_pager_def pager_inv_def)
  next
    fix b f
    assume "map_of (rp_entries (compressed_pager a e d p)) b = Some f"
    then show "re_page_index f < rp_next_region_page (compressed_pager a e d p)" "b = region_addr (re_page_index f)"
      using inv entry by (auto simp: compressed_pager_def pager_inv_def split: if_split_asm)
  next
    fix b f
    assume "map_of (rp_entries (compressed_pager a e d p)) b = Some f" "\<not> is_resident (re_state f)"
    then show "\<exists>bs. zram_view decompress (rp_backend (compressed_pager a e d p)) (re_page_index f) = Some bs \<and> length bs = PAGE_SIZE"
      using inv view other[of b f] by (auto simp: compressed_pager_def pager_inv_def split: if_split_asm)
  qed (use inv d in \<open>auto simp: compressed_pager_def pager_inv_def\<close>)
qed

lemma pager_inv_restored:
  assumes inv: "pager_inv decompress p" and entry: "map_of (rp_entries p) a = Some e"
    and d: "zram_inv decompress RECLAIM_MAX_PAGES d"
    and view: "zram_view decompress d = (zram_view decompress (rp_backend p))(re_page_index e := None)"
  shows "pager_inv decompress (restored_pager a e frame d p)"
proof -
  have other: "re_page_index f \<noteq> re_page_index e" if "map_of (rp_entries p) b = Some f" "b \<noteq> a" for b f
    using pager_inv_index_inj[OF inv that(1) entry] that by auto
  have dist: "distinct (rp_resident_queue p)" using inv by (simp add: pager_inv_def)
  show ?thesis
    unfolding pager_inv_def
  proof (intro conjI allI impI)
    fix b
    show "b \<in> set (rp_resident_queue (restored_pager a e frame d p)) \<longleftrightarrow>
        (\<exists>f. map_of (rp_entries (restored_pager a e frame d p)) b = Some f \<and> is_resident (re_state f))"
      using inv dist by (auto simp: restored_pager_def pager_inv_def)
  next
    fix b f
    assume "map_of (rp_entries (restored_pager a e frame d p)) b = Some f"
    then show "re_page_index f < rp_next_region_page (restored_pager a e frame d p)" "b = region_addr (re_page_index f)"
      using inv entry by (auto simp: restored_pager_def pager_inv_def split: if_split_asm)
  next
    fix b f
    assume "map_of (rp_entries (restored_pager a e frame d p)) b = Some f" "\<not> is_resident (re_state f)"
    then show "\<exists>bs. zram_view decompress (rp_backend (restored_pager a e frame d p)) (re_page_index f) = Some bs \<and> length bs = PAGE_SIZE"
      using inv view other[of b f] by (auto simp: restored_pager_def pager_inv_def split: if_split_asm)
  qed (use inv d dist in \<open>auto simp: restored_pager_def pager_inv_def\<close>)
qed

text \<open>The bytes of a page that is compressed away.\<close>

definition saved :: "decompressor \<Rightarrow> ReclaimPager \<Rightarrow> u64 \<Rightarrow> bytes \<Rightarrow> bool" where
  "saved decompress p a bs \<longleftrightarrow> (\<exists>e. map_of (rp_entries p) a = Some e \<and> \<not> is_resident (re_state e) \<and>
     zram_view decompress (rp_backend p) (re_page_index e) = Some bs)"

lemma saved_backend:
  assumes "pager_inv decompress p" "map_of (rp_entries p) a = Some e" "is_resident (re_state e)"
    and "zram_view decompress d = (zram_view decompress (rp_backend p))(re_page_index e := v)"
    and "saved decompress p b bs"
  shows "saved decompress (p\<lparr>rp_backend := d\<rparr>) b bs" "saved decompress (compressed_pager a e d p) b bs"
proof -
  obtain f where f: "map_of (rp_entries p) b = Some f" "\<not> is_resident (re_state f)"
    "zram_view decompress (rp_backend p) (re_page_index f) = Some bs"
    using assms(5) by (auto simp: saved_def)
  have "b \<noteq> a" using f(1,2) assms(2,3) by auto
  then have "re_page_index f \<noteq> re_page_index e" using pager_inv_index_inj[OF assms(1) f(1) assms(2)] by simp
  with \<open>b \<noteq> a\<close> show "saved decompress (p\<lparr>rp_backend := d\<rparr>) b bs" "saved decompress (compressed_pager a e d p) b bs"
    using f assms(4) by (auto simp: saved_def compressed_pager_def)
qed

lemma saved_restored:
  assumes "pager_inv decompress p" "map_of (rp_entries p) a = Some e" "b \<noteq> a"
    and "zram_view decompress d = (zram_view decompress (rp_backend p))(re_page_index e := None)"
    and "saved decompress p b bs"
  shows "saved decompress (restored_pager a e frame d p) b bs"
proof -
  obtain f where f: "map_of (rp_entries p) b = Some f" "\<not> is_resident (re_state f)"
    "zram_view decompress (rp_backend p) (re_page_index f) = Some bs"
    using assms(5) by (auto simp: saved_def)
  have "re_page_index f \<noteq> re_page_index e" using assms(3) pager_inv_index_inj[OF assms(1) f(1) assms(2)] by simp
  then show ?thesis using f assms(3,4) by (auto simp: saved_def restored_pager_def)
qed

text \<open>
  The contract of the machine the pager relies on.  \<open>tr\<close> is the translation of the active tables.
\<close>

definition machine_ok :: "'pt machine \<Rightarrow> ('pt \<Rightarrow> u64 \<rightharpoonup> u64) \<Rightarrow> bool" where
  "machine_ok M tr \<longleftrightarrow>
    (\<forall>a. mx_page_of M a = of_nat (unat a div 4096 * 4096)) \<and>
    (\<forall>a. unat a < 2 ^ 47 \<longrightarrow> mx_virt M a = Some a) \<and>
    (\<forall>a n pt. length (mx_read M a n pt) = n) \<and>
    (\<forall>off page frame flags pt al pt' al'.
       mx_map_to M off (mx_cr3 M pt) page frame flags pt al = Some (Inr (), pt', al') \<longrightarrow>
       tr pt' = (tr pt)(page \<mapsto> frame)) \<and>
    (\<forall>page bs pt. mx_page_of M page = page \<longrightarrow> tr pt page \<noteq> None \<longrightarrow> length bs = 4096 \<longrightarrow>
       mx_read M page 4096 (mx_write M page bs pt) = bs)"

lemma machine_read_length: "machine_ok M tr \<Longrightarrow> length (mx_read M a n pt) = n"
  by (simp add: machine_ok_def)

lemma store_page_pager:
  assumes "codec_ok compress decompress" "pager_inv decompress p" "map_of (rp_entries p) a = Some e" "length bs = PAGE_SIZE"
    and "store_page compress (re_page_index e) bs (rp_backend p) = Some (r, d)"
  shows "r = Inr () \<and> zram_inv decompress RECLAIM_MAX_PAGES d \<and>
    zram_view decompress d = (zram_view decompress (rp_backend p))(re_page_index e \<mapsto> bs)"
proof -
  have "zram_inv decompress RECLAIM_MAX_PAGES (rp_backend p)" using assms(2) by (simp add: pager_inv_def)
  moreover have "bs \<noteq> []" "length bs \<le> PAGE_SIZE" using assms(4) by auto
  ultimately show ?thesis
    using store_page_ok[OF assms(1) _ pager_inv_index_bound[OF assms(2,3)], of "rp_backend p" bs] assms(5) by auto
qed

lemma pager_reclaim_page_inv:
  assumes codec: "codec_ok compress decompress" and M: "machine_ok M tr" and inv: "pager_inv decompress (km_pager s)"
    and run: "pager_reclaim_page M compress addr s = Returned r t"
  shows "pager_inv decompress (km_pager t) \<and> km_pager_locked t = km_pager_locked s \<and>
    (\<forall>a bs. saved decompress (km_pager s) a bs \<longrightarrow> saved decompress (km_pager t) a bs)"
proof (rule pager_reclaim_page_Returned[OF run refl])
  show ?thesis if "same_pager s t" using inv that by (simp add: same_pager_def)
next
  fix entry frame r' d
  assume *: "map_of (rp_entries (km_pager s)) (mx_page_of M addr) = Some entry" "re_state entry = Resident frame"
    "store_page compress (re_page_index entry) (mx_read M (mx_page_of M addr) PAGE_SIZE (km_pt s)) (rp_backend (km_pager s)) = Some (r', d)"
  note d = store_page_pager[OF codec inv *(1) machine_read_length[OF M] *(3)]
  have res: "is_resident (re_state entry)" using * by simp
  show ?thesis if "km_pager t = (km_pager s)\<lparr>rp_backend := d\<rparr>" "km_pager_locked t = km_pager_locked s"
    using pager_inv_backend[OF inv *(1) res] saved_backend(1)[OF inv *(1) res] d that by simp
next
  fix entry frame d
  assume *: "map_of (rp_entries (km_pager s)) (mx_page_of M addr) = Some entry" "re_state entry = Resident frame"
    "store_page compress (re_page_index entry) (mx_read M (mx_page_of M addr) PAGE_SIZE (km_pt s)) (rp_backend (km_pager s)) = Some (Inr (), d)"
  note d = store_page_pager[OF codec inv *(1) machine_read_length[OF M] *(3)]
  have res: "is_resident (re_state entry)" using * by simp
  show ?thesis if "km_pager t = compressed_pager (mx_page_of M addr) entry d (km_pager s)" "km_pager_locked t = km_pager_locked s"
    using pager_inv_compressed[OF inv *(1) res] saved_backend(2)[OF inv *(1) res] d that machine_read_length[OF M] by simp
qed


lemma pager_inv_rotate:
  assumes "pager_inv decompress p" "rp_resident_queue p = a # q"
  shows "pager_inv decompress (p\<lparr>rp_resident_queue := q @ [a]\<rparr>)"
proof -
  have "set (q @ [a]) = set (rp_resident_queue p)" "distinct (q @ [a]) = distinct (rp_resident_queue p)"
    using assms(2) by auto
  then show ?thesis using assms(1) unfolding pager_inv_def by simp
qed

lemma region_page_of: "machine_ok M tr \<Longrightarrow> k \<le> RECLAIM_MAX_PAGES \<Longrightarrow> mx_page_of M (region_addr k) = region_addr k"
  and region_virt: "machine_ok M tr \<Longrightarrow> k \<le> RECLAIM_MAX_PAGES \<Longrightarrow> mx_virt M (region_addr k) = Some (region_addr k)"
proof -
  assume M: "machine_ok M tr" and k: "k \<le> RECLAIM_MAX_PAGES"
  note u = region_addr_unat[OF k]
  have "unat (region_addr k) div 4096 * 4096 = unat (region_addr k)" unfolding u by simp
  then show "mx_page_of M (region_addr k) = region_addr k" using M by (simp add: machine_ok_def del: of_nat_mult)
  have "unat (region_addr k) < 2 ^ 47" unfolding u using k by simp
  then show "mx_virt M (region_addr k) = Some (region_addr k)" using M by (simp add: machine_ok_def)
qed

lemma pager_inv_queued:
  assumes "pager_inv decompress p" "a \<in> set (rp_resident_queue p)"
  obtains e where "map_of (rp_entries p) a = Some e" "is_resident (re_state e)"
    "a = region_addr (re_page_index e)" "re_page_index e \<le> RECLAIM_MAX_PAGES"
proof -
  obtain e where e: "map_of (rp_entries p) a = Some e" "is_resident (re_state e)"
    using assms unfolding pager_inv_def by blast
  moreover have "a = region_addr (re_page_index e)" using assms(1) e(1) unfolding pager_inv_def by blast
  ultimately show ?thesis using that pager_inv_index_bound[OF assms(1) e(1)] by simp
qed

text \<open>
  The search for a page to reclaim meets a resident page in its first round, or the queue is empty.
\<close>

lemma pager_reclaim_one_eq:
  assumes M: "machine_ok M tr" and inv: "pager_inv decompress (km_pager s)"
  shows "pager_reclaim_one M compress s =
    (case rp_resident_queue (km_pager s) of
       [] \<Rightarrow> Returned (Inr False) s
     | a # q \<Rightarrow> kbind (pager_reclaim_page M compress a) id (\<lambda>_. kret True)
                 (pager_upd (\<lambda>p. p\<lparr>rp_resident_queue := q @ [a]\<rparr>) s))"
proof (cases "rp_resident_queue (km_pager s)")
  case (Cons a q)
  then obtain e where e: "map_of (rp_entries (km_pager s)) a = Some e" "is_resident (re_state e)"
    "a = region_addr (re_page_index e)" "re_page_index e \<le> RECLAIM_MAX_PAGES"
    using pager_inv_queued[OF inv, of a] by auto
  then have "mx_virt M a = Some a" using region_virt[OF M] by simp
  then show ?thesis using Cons e by (simp add: pager_reclaim_one_def pager_upd_def kact_simps)
qed (simp add: pager_reclaim_one_def kret_def)

lemma pager_reclaim_one_inv:
  assumes codec: "codec_ok compress decompress" and M: "machine_ok M tr" and inv: "pager_inv decompress (km_pager s)"
    and run: "pager_reclaim_one M compress s = Returned r t"
  shows "pager_inv decompress (km_pager t) \<and> km_pager_locked t = km_pager_locked s \<and>
    (\<forall>a bs. saved decompress (km_pager s) a bs \<longrightarrow> saved decompress (km_pager t) a bs)"
proof (cases "rp_resident_queue (km_pager s)")
  case Nil
  then show ?thesis using run inv by (simp add: pager_reclaim_one_eq[OF M inv])
next
  case (Cons a q)
  let ?s = "pager_upd (\<lambda>p. p\<lparr>rp_resident_queue := q @ [a]\<rparr>) s"
  have inv': "pager_inv decompress (km_pager ?s)"
    using pager_inv_rotate[OF inv Cons] by (simp add: pager_upd_def)
  obtain r' where "pager_reclaim_page M compress a ?s = Returned r' t"
    using run Cons by (auto simp: pager_reclaim_one_eq[OF M inv] kact_Returned)
  from pager_reclaim_page_inv[OF codec M inv' this] show ?thesis by (simp add: pager_upd_def saved_def)
qed

text \<open>Page faults.\<close>

lemma load_page_pager:
  assumes inv: "pager_inv decompress p" and e: "map_of (rp_entries p) a = Some e" "\<not> is_resident (re_state e)"
  obtains bs d where "load_page decompress (re_page_index e) (rp_backend p) = Some (Inr bs, d)" "length bs = PAGE_SIZE"
    "zram_view decompress (rp_backend p) (re_page_index e) = Some bs"
    "zram_inv decompress RECLAIM_MAX_PAGES d" "zram_view decompress d = zram_view decompress (rp_backend p)"
proof -
  obtain bs where bs: "zram_view decompress (rp_backend p) (re_page_index e) = Some bs" "length bs = PAGE_SIZE"
    using inv e unfolding pager_inv_def by blast
  have "zram_inv decompress RECLAIM_MAX_PAGES (rp_backend p)" using inv by (simp add: pager_inv_def)
  from load_page_ok[OF this bs(1)] that bs show ?thesis by blast
qed

lemma pager_inv_loaded:
  assumes "pager_inv decompress p" "zram_inv decompress RECLAIM_MAX_PAGES d" "zram_view decompress d = zram_view decompress (rp_backend p)"
  shows "pager_inv decompress (p\<lparr>rp_backend := d\<rparr>)"
  using assms unfolding pager_inv_def by simp

lemma pager_handle_page_fault_Returned:
  assumes inv: "pager_inv decompress (km_pager s)" and locked: "km_pager_locked s" and page: "page = mx_page_of M addr"
    and run: "pager_handle_page_fault M compress decompress addr s = Returned r t"
  obtains
    (ignored) "r = Inr False" "t = s"
      "\<nexists>entry. map_of (rp_entries (km_pager s)) page = Some entry \<and> \<not> is_resident (re_state entry)"
  | (failed) e d where "r = Inl e" "km_pager t = (km_pager s)\<lparr>rp_backend := d\<rparr>" "km_pager_locked t"
      "zram_inv decompress RECLAIM_MAX_PAGES d" "zram_view decompress d = zram_view decompress (rp_backend (km_pager s))"
  | (restored) entry frame bs d u v where "r = Inr True" "map_of (rp_entries (km_pager s)) page = Some entry"
      "\<not> is_resident (re_state entry)"
      "zram_view decompress (rp_backend (km_pager s)) (re_page_index entry) = Some bs" "length bs = PAGE_SIZE"
      "map_existing_page M page frame (mx_flags_rw M) u = Returned (Inr ()) v"
      "km_pt t = mx_write M page bs (km_pt v)"
      "km_pager t = restored_pager page entry frame d (km_pager s)" "km_pager_locked t"
      "zram_inv decompress RECLAIM_MAX_PAGES d"
      "zram_view decompress d = (zram_view decompress (rp_backend (km_pager s)))(re_page_index entry := None)"
proof (cases "\<exists>entry. map_of (rp_entries (km_pager s)) page = Some entry \<and> \<not> is_resident (re_state entry)")
  case False
  then show ?thesis using run ignored
    by (auto simp: pager_handle_page_fault_def kret_def Let_def simp flip: page split: option.split_asm if_split_asm)
next
  case True
  then obtain entry where entry: "map_of (rp_entries (km_pager s)) page = Some entry" "\<not> is_resident (re_state entry)" by blast
  from load_page_pager[OF inv entry] obtain bs d where
    ld: "load_page decompress (re_page_index entry) (rp_backend (km_pager s)) = Some (Inr bs, d)" "length bs = PAGE_SIZE"
      "zram_view decompress (rp_backend (km_pager s)) (re_page_index entry) = Some bs"
      "zram_inv decompress RECLAIM_MAX_PAGES d" "zram_view decompress d = zram_view decompress (rp_backend (km_pager s))" .
  let ?s = "set_backend d s"
  have "with_backend (load_page decompress (re_page_index entry)) s = Returned (Inr bs) ?s"
    by (simp add: with_backend_Inr ld)
  note step = run[unfolded pager_handle_page_fault_def Let_def, folded page]
  have locked': "km_pager_locked ?s" using locked by (simp add: set_backend_def)
  from invalidate_page_ok[OF ld(4), of "re_page_index entry"] obtain d' where
    d': "invalidate_page (re_page_index entry) d = Some (Inr (), d')" "zram_inv decompress RECLAIM_MAX_PAGES d'"
      "zram_view decompress d' = (zram_view decompress d)(re_page_index entry := None)" by blast
  show ?thesis
  proof (cases "allocate_and_map_page M compress page (mx_flags_rw M) ?s")
    case (Returned ra v)
    note am = allocate_and_map_page_locked[OF locked' Returned]
    show ?thesis
    proof (cases ra)
      case (Inl e)
      then have "r = Inl (Vm e)" "t = v"
        using step entry \<open>with_backend _ s = _\<close> Returned by (simp_all add: kact_simps)
      then show ?thesis using failed[of "Vm e" d] am ld locked by (simp add: same_pager_def set_backend_def)
    next
      case (Inr frame)
      then obtain u where u: "map_existing_page M page frame (mx_flags_rw M) u = Returned (Inr ()) v" and v: "same_pager ?s v"
        using am by blast
      let ?w = "v\<lparr>km_pt := mx_write M page bs (km_pt v)\<rparr>"
      have "with_backend (invalidate_page (re_page_index entry)) ?w = Returned (Inr ()) (set_backend d' ?w)"
        using v d' by (simp add: with_backend_Inr same_pager_def set_backend_def)
      then have "r = Inr True \<and> t = pager_upd (\<lambda>p. restored_pager page entry frame d' p) (set_backend d' ?w)"
        using step entry \<open>with_backend _ s = _\<close> Returned Inr ld(2)
        by (simp add: kact_simps pager_upd_def restored_pager_def remove_from_resident_queue_eq set_entry_def set_backend_def Let_def)
      then show ?thesis using restored[OF _ entry ld(3,2) u, of d'] v d' ld locked
        by (simp add: same_pager_def set_backend_def pager_upd_def restored_pager_def)
    qed
  qed (use step entry \<open>with_backend _ s = _\<close> in \<open>simp_all add: kact_simps\<close>)
qed


lemma pager_handle_page_fault_inv:
  assumes inv: "pager_inv decompress (km_pager s)" and locked: "km_pager_locked s"
    and run: "pager_handle_page_fault M compress decompress addr s = Returned r t"
  shows "pager_inv decompress (km_pager t) \<and> km_pager_locked t \<and>
    (\<forall>a bs. a \<noteq> mx_page_of M addr \<longrightarrow> saved decompress (km_pager s) a bs \<longrightarrow> saved decompress (km_pager t) a bs)"
proof (rule pager_handle_page_fault_Returned[OF inv locked refl run])
  show ?thesis if "t = s" using that inv locked by simp
  show ?thesis if "km_pager t = (km_pager s)\<lparr>rp_backend := d\<rparr>" "km_pager_locked t"
      "zram_inv decompress RECLAIM_MAX_PAGES d" "zram_view decompress d = zram_view decompress (rp_backend (km_pager s))" for d
    using that pager_inv_loaded[OF inv] by (simp add: saved_def)
  show ?thesis if "map_of (rp_entries (km_pager s)) (mx_page_of M addr) = Some entry"
      "km_pager t = restored_pager (mx_page_of M addr) entry frame d (km_pager s)" "km_pager_locked t"
      "zram_inv decompress RECLAIM_MAX_PAGES d"
      "zram_view decompress d = (zram_view decompress (rp_backend (km_pager s)))(re_page_index entry := None)" for entry frame d
    using that pager_inv_restored[OF inv that(1)] saved_restored[OF inv that(1)] by simp
qed

text \<open>A new page of the region.\<close>

definition extended_pager :: "u64 \<Rightarrow> u64 \<Rightarrow> ReclaimPager \<Rightarrow> ReclaimPager" where
  "extended_pager page frame p =
    (set_entry page \<lparr>re_page_index = rp_next_backend_page p, re_state = Resident frame\<rparr> p)
      \<lparr>rp_next_backend_page := rp_next_backend_page p + 1,
       rp_resident_queue := rp_resident_queue p @ [page],
       rp_next_region_page := rp_next_region_page p + 1\<rparr>"

lemma pager_inv_extended:
  assumes inv: "pager_inv decompress p" and n: "rp_next_region_page p < RECLAIM_MAX_PAGES"
    and page: "page = region_addr (rp_next_region_page p)"
  shows "pager_inv decompress (extended_pager page frame p)"
    "saved decompress p a bs \<Longrightarrow> saved decompress (extended_pager page frame p) a bs"
proof -
  have fresh: "map_of (rp_entries p) page = None"
  proof (rule ccontr)
    assume "map_of (rp_entries p) page \<noteq> None"
    then obtain e where "map_of (rp_entries p) page = Some e" by blast
    then have "re_page_index e < rp_next_region_page p" "page = region_addr (re_page_index e)"
      using inv unfolding pager_inv_def by blast+
    then show False using page n region_addr_inj[of "re_page_index e" "rp_next_region_page p"] by simp
  qed
  show "saved decompress p a bs \<Longrightarrow> saved decompress (extended_pager page frame p) a bs"
    using fresh by (auto simp: saved_def extended_pager_def set_entry_def)
  have "page \<notin> set (rp_resident_queue p)" using inv fresh unfolding pager_inv_def by simp
  then show "pager_inv decompress (extended_pager page frame p)"
    using inv n page fresh unfolding pager_inv_def extended_pager_def set_entry_def
    by (auto simp: less_Suc_eq)
qed

lemma region_pages_inv:
  assumes M: "machine_ok M tr" and "pager_inv decompress (km_pager s)" "km_pager_locked s"
    and "rp_next_region_page (km_pager s) = n0 + off" "n0 + off + n \<le> RECLAIM_MAX_PAGES"
    and "region_pages M compress (region_addr n0) off n s = Returned r t"
  shows "pager_inv decompress (km_pager t) \<and> km_pager_locked t \<and>
    (\<forall>a bs. saved decompress (km_pager s) a bs \<longrightarrow> saved decompress (km_pager t) a bs)"
  using assms(2-)
proof (induction n arbitrary: off s)
  case 0
  then show ?case by (simp add: kret_def)
next
  case (Suc n)
  have k: "n0 + off < RECLAIM_MAX_PAGES" using Suc.prems by simp
  let ?a = "region_addr (n0 + off)"
  have "unat (region_addr n0) + unat (of_nat (off * PAGE_SIZE) :: u64) < 2 ^ 64"
    using k by (simp add: region_addr_unat del: of_nat_mult)
  then have add: "cadd (region_addr n0) (of_nat (off * PAGE_SIZE)) = Some ?a"
    using k by (simp add: cadd_of_nat region_addr_unat del: of_nat_mult of_nat_add)
      (simp add: region_addr_def algebra_simps)
  have vp: "mx_virt M ?a = Some ?a" "mx_page_of M ?a = ?a"
    using k region_virt[OF M, of "n0 + off"] region_page_of[OF M, of "n0 + off"] by simp_all
  let ?am = "allocate_and_map_page M compress ?a (mx_flags_rw M)"
  from Suc.prems(5) consider e where "?am s = Returned (Inl e) t"
    | frame u where "?am s = Returned (Inr frame) u"
        "region_pages M compress (region_addr n0) (off + 1) n
          (pager_upd (extended_pager ?a frame) (u\<lparr>km_pt := mx_write M ?a (replicate PAGE_SIZE 0) (km_pt u)\<rparr>)) = Returned r t"
    by (auto simp: add vp kexec_def kbind_Returned zero_page_def kmodify_def extended_pager_def[abs_def] Let_def
        simp del: of_nat_mult)
  then show ?case
  proof cases
    case 1
    then show ?thesis using allocate_and_map_page_locked[OF Suc.prems(2)] Suc.prems(1,2) by (auto simp: same_pager_def)
  next
    case 2
    let ?u = "pager_upd (extended_pager ?a frame) (u\<lparr>km_pt := mx_write M ?a (replicate PAGE_SIZE 0) (km_pt u)\<rparr>)"
    have "same_pager s u" using allocate_and_map_page_locked[OF Suc.prems(2) 2(1)] by blast
    then have u: "km_pager ?u = extended_pager ?a frame (km_pager s)" "km_pager_locked ?u"
      using Suc.prems(2) by (simp_all add: same_pager_def pager_upd_def)
    have "rp_next_region_page (km_pager s) < RECLAIM_MAX_PAGES" "?a = region_addr (rp_next_region_page (km_pager s))"
      using Suc.prems(3) k by simp_all
    note ext = pager_inv_extended[OF Suc.prems(1) this]
    have "pager_inv decompress (km_pager ?u)" unfolding u by (rule ext)
    moreover have "rp_next_region_page (km_pager ?u) = n0 + (off + 1)"
      using Suc.prems(3) by (simp add: u extended_pager_def set_entry_def)
    ultimately have "pager_inv decompress (km_pager t) \<and> km_pager_locked t \<and>
        (\<forall>a bs. saved decompress (km_pager ?u) a bs \<longrightarrow> saved decompress (km_pager t) a bs)"
      using Suc.IH[of ?u "off + 1"] u(2) Suc.prems(4) 2(2) by simp
    then show ?thesis using ext(2) unfolding u by blast
  qed
qed

lemma pager_allocate_region_inv:
  assumes M: "machine_ok M tr" and inv: "pager_inv decompress (km_pager s)" and locked: "km_pager_locked s"
    and run: "pager_allocate_region M compress n s = Returned r t"
  shows "pager_inv decompress (km_pager t) \<and> km_pager_locked t \<and>
    (\<forall>a bs. saved decompress (km_pager s) a bs \<longrightarrow> saved decompress (km_pager t) a bs)"
proof -
  let ?n = "rp_next_region_page (km_pager s)"
  show ?thesis
  proof (cases "?n + n \<le> RECLAIM_MAX_PAGES")
    case True
    then have "mx_virt M (of_nat (RECLAIM_START + ?n * PAGE_SIZE)) = Some (region_addr ?n)"
      using region_virt[OF M, of ?n] by (simp add: region_addr_def)
    then obtain r' where "region_pages M compress (region_addr ?n) 0 n s = Returned r' t"
      using run True by (auto simp: pager_allocate_region_def kbind_Returned kexec_def kret_def Let_def simp del: of_nat_add of_nat_mult)
    then show ?thesis using region_pages_inv[OF M inv locked, of ?n 0 n] True by simp
  next
    case False
    then show ?thesis using run inv locked
      by (auto simp: pager_allocate_region_def kfail_def Let_def split: if_split_asm)
  qed
qed


section \<open>Every operation keeps the invariant\<close>

text \<open>The entry points of the pager, and the states a sequence of them leads to.\<close>

datatype pager_op = OpAllocateRegion nat | OpReclaimPage u64 | OpReclaimOne | OpPageFault u64

inductive pager_step :: "'pt machine \<Rightarrow> compressor \<Rightarrow> decompressor \<Rightarrow> pager_op \<Rightarrow> 'pt kmem \<Rightarrow> 'pt kmem \<Rightarrow> bool"
  for M :: "'pt machine" and compress :: compressor and decompress :: decompressor where
  "allocate_region M compress n s = Returned r t \<Longrightarrow> pager_step M compress decompress (OpAllocateRegion n) s t" |
  "reclaim_page M compress addr s = Returned r t \<Longrightarrow> pager_step M compress decompress (OpReclaimPage addr) s t" |
  "reclaim_one M compress s = Returned r t \<Longrightarrow> pager_step M compress decompress OpReclaimOne s t" |
  "handle_page_fault M compress decompress addr s = Returned r t \<Longrightarrow> pager_step M compress decompress (OpPageFault addr) s t"

inductive pager_run :: "'pt machine \<Rightarrow> compressor \<Rightarrow> decompressor \<Rightarrow> 'pt kmem \<Rightarrow> pager_op list \<Rightarrow> 'pt kmem \<Rightarrow> bool"
  for M :: "'pt machine" and compress :: compressor and decompress :: decompressor where
  "pager_run M compress decompress s [] s" |
  "pager_step M compress decompress op s t \<Longrightarrow> pager_run M compress decompress t ops u \<Longrightarrow>
   pager_run M compress decompress s (op # ops) u"

inductive_cases pager_stepE: "pager_step M compress decompress op s t"

lemma with_pager_Returned:
  "with_pager body s = Returned r t \<Longrightarrow>
   \<not> km_pager_locked s \<and> (\<exists>u. body (s\<lparr>km_pager_locked := True\<rparr>) = Returned r u \<and> t = u\<lparr>km_pager_locked := False\<rparr>)"
  by (auto simp: with_pager_def split: if_split_asm kres.split_asm)

definition kmem_inv :: "decompressor \<Rightarrow> 'pt kmem \<Rightarrow> bool" where
  "kmem_inv decompress s \<longleftrightarrow> pager_inv decompress (km_pager s) \<and> \<not> km_pager_locked s"

fun faults_on :: "'pt machine \<Rightarrow> u64 \<Rightarrow> pager_op \<Rightarrow> bool" where
  "faults_on M page (OpPageFault addr) = (mx_page_of M addr = page)" |
  "faults_on M page _ = False"

lemma pager_step_inv:
  assumes codec: "codec_ok compress decompress" and M: "machine_ok M tr" and inv: "kmem_inv decompress s"
    and step: "pager_step M compress decompress op s t"
  shows "kmem_inv decompress t \<and>
    (\<forall>a bs. \<not> faults_on M a op \<longrightarrow> saved decompress (km_pager s) a bs \<longrightarrow> saved decompress (km_pager t) a bs)"
proof -
  let ?s = "s\<lparr>km_pager_locked := True\<rparr>"
  have s: "pager_inv decompress (km_pager ?s)" "km_pager_locked ?s" using inv by (auto simp: kmem_inv_def)
  have "\<exists>u. (pager_inv decompress (km_pager u) \<and>
      (\<forall>a bs. \<not> faults_on M a op \<longrightarrow> saved decompress (km_pager ?s) a bs \<longrightarrow> saved decompress (km_pager u) a bs)) \<and>
      t = u\<lparr>km_pager_locked := False\<rparr>"
    using step
  proof cases
    case (1 n r)
    then show ?thesis using pager_allocate_region_inv[OF M s] unfolding allocate_region_def by (blast dest: with_pager_Returned)
  next
    case (2 addr r)
    then show ?thesis using pager_reclaim_page_inv[OF codec M s(1)] unfolding reclaim_page_def by (blast dest: with_pager_Returned)
  next
    case (3 r)
    then show ?thesis using pager_reclaim_one_inv[OF codec M s(1)] unfolding reclaim_one_def by (blast dest: with_pager_Returned)
  next
    case (4 addr r)
    then obtain u where "pager_handle_page_fault M compress decompress addr ?s = Returned r u" "t = u\<lparr>km_pager_locked := False\<rparr>"
      unfolding handle_page_fault_def by (blast dest: with_pager_Returned)
    with pager_handle_page_fault_inv[OF s this(1)] 4(1) show ?thesis by auto
  qed
  then show ?thesis by (auto simp: kmem_inv_def)
qed

lemma pager_run_inv:
  assumes "pager_run M compress decompress s ops t" "codec_ok compress decompress" "machine_ok M tr" "kmem_inv decompress s"
  shows "kmem_inv decompress t \<and>
    (\<forall>a bs. (\<forall>op \<in> set ops. \<not> faults_on M a op) \<longrightarrow> saved decompress (km_pager s) a bs \<longrightarrow> saved decompress (km_pager t) a bs)"
  using assms
proof (induction rule: pager_run.induct)
  case (2 op s t ops u)
  then show ?case using pager_step_inv[OF 2(4,5,6) 2(1)] by simp
qed simp

text \<open>A machine that satisfies the contract: tables that map every page they are asked to.\<close>

record flat_tables =
  ft_map :: "(u64, u64) btree"
  ft_mem :: "(u64, bytes) btree"

definition flat_read :: "u64 \<Rightarrow> nat \<Rightarrow> flat_tables \<Rightarrow> bytes" where
  "flat_read a n pt = (case map_of (ft_mem pt) a of
     Some bs \<Rightarrow> take n (bs @ replicate n 0) | None \<Rightarrow> replicate n 0)"

definition flat_machine :: "flat_tables machine" where
  "flat_machine = \<lparr>mx_frame_of = Some, mx_firmware = (\<lambda>_. None),
     mx_virt = (\<lambda>a. if unat a < 2 ^ 47 then Some a else None),
     mx_page_of = (\<lambda>a. of_nat (unat a div 4096 * 4096)), mx_flags_rw = 3, mx_cr3 = (\<lambda>_. 0),
     mx_map_to = (\<lambda>_ _ page frame _ pt al. Some (Inr (), pt\<lparr>ft_map := bt_insert page frame (ft_map pt)\<rparr>, al)),
     mx_unmap = (\<lambda>_ _ page pt. case map_of (ft_map pt) page of
        None \<Rightarrow> (Inl UnmapPageNotMapped, pt)
      | Some frame \<Rightarrow> (Inr frame, pt\<lparr>ft_map := bt_remove page (ft_map pt)\<rparr>)),
     mx_update_flags = (\<lambda>_ _ _ _ pt. (Inr (), pt)),
     mx_read = flat_read,
     mx_write = (\<lambda>a bs pt. pt\<lparr>ft_mem := bt_insert a bs (ft_mem pt)\<rparr>)\<rparr>"

lemma flat_machine_ok: "machine_ok flat_machine (\<lambda>pt. map_of (ft_map pt))"
  by (auto simp: machine_ok_def flat_machine_def flat_read_def split: option.split)

definition boot_kmem :: "BootInfoFrameAllocator \<Rightarrow> flat_tables kmem" where
  "boot_kmem allocator = init_runtime 0 allocator
     \<lparr>km_offset = 0, km_heap_base = 0, km_heap = None, km_ready = False, km_allocator = None,
      km_pt = \<lparr>ft_map = [], ft_mem = []\<rparr>, km_pager = ReclaimPager_new, km_pager_locked = False\<rparr>"

lemma boot_kmem_inv: "kmem_inv decompress (boot_kmem allocator)"
  by (simp add: kmem_inv_def boot_kmem_def init_runtime_def init_runtime_with_allocator_def pager_inv_new)


text \<open>
  Property C11. The pager loses no page: whatever region allocations, reclaims and page faults, failed
  ones included, lead to a state from a new pager, the region's pages are tracked in order, the queue
  lists exactly the resident ones, each once, and a page that is not resident has its 4096 bytes in
  the compressed store.
\<close>

theorem pager_keeps_pages:
  assumes "codec_ok compress decompress" "machine_ok M tr" "kmem_inv decompress s"
    and "pager_run M compress decompress s ops t"
  shows "\<not> km_pager_locked t \<and> distinct (rp_resident_queue (km_pager t)) \<and>
    (\<forall>k < rp_next_region_page (km_pager t). \<exists>e. map_of (rp_entries (km_pager t)) (region_addr k) = Some e \<and>
       re_page_index e = k \<and>
       (if is_resident (re_state e) then region_addr k \<in> set (rp_resident_queue (km_pager t))
        else region_addr k \<notin> set (rp_resident_queue (km_pager t)) \<and>
          (\<exists>bs. zram_view decompress (rp_backend (km_pager t)) k = Some bs \<and> length bs = PAGE_SIZE)))"
proof -
  have inv: "pager_inv decompress (km_pager t)" "\<not> km_pager_locked t"
    using pager_run_inv[OF assms(4,1,2,3)] by (simp_all add: kmem_inv_def)
  show ?thesis
  proof (intro conjI allI impI)
    fix k assume k: "k < rp_next_region_page (km_pager t)"
    obtain e where e: "map_of (rp_entries (km_pager t)) (region_addr k) = Some e"
      using inv(1) k unfolding pager_inv_def by blast
    then have "region_addr k = region_addr (re_page_index e)" "re_page_index e < RECLAIM_MAX_PAGES" "k \<le> RECLAIM_MAX_PAGES"
      using inv(1) pager_inv_index_bound[OF inv(1) e] k unfolding pager_inv_def by auto
    then have k_eq: "re_page_index e = k" using region_addr_inj[of k "re_page_index e"] by simp
    have queue: "region_addr k \<in> set (rp_resident_queue (km_pager t)) \<longleftrightarrow> is_resident (re_state e)"
      using inv(1) e unfolding pager_inv_def by simp
    have bytes: "\<exists>bs. zram_view decompress (rp_backend (km_pager t)) k = Some bs \<and> length bs = PAGE_SIZE"
      if "\<not> is_resident (re_state e)"
      using inv(1) e that k_eq unfolding pager_inv_def by blast
    show "\<exists>e. map_of (rp_entries (km_pager t)) (region_addr k) = Some e \<and> re_page_index e = k \<and>
       (if is_resident (re_state e) then region_addr k \<in> set (rp_resident_queue (km_pager t))
        else region_addr k \<notin> set (rp_resident_queue (km_pager t)) \<and>
          (\<exists>bs. zram_view decompress (rp_backend (km_pager t)) k = Some bs \<and> length bs = PAGE_SIZE))"
      using e k_eq queue bytes by (intro exI[of _ e]) simp
  qed (use inv in \<open>simp_all add: pager_inv_def\<close>)
qed

section \<open>Reclaim is invisible\<close>

lemma reclaim_page_ok:
  assumes codec: "codec_ok compress decompress" and M: "machine_ok M tr" and inv: "kmem_inv decompress s"
    and run: "reclaim_page M compress addr s = Returned (Inr ()) t"
  shows "saved decompress (km_pager t) (mx_page_of M addr) (mx_read M (mx_page_of M addr) PAGE_SIZE (km_pt s))"
proof -
  let ?s = "s\<lparr>km_pager_locked := True\<rparr>"
  have s: "pager_inv decompress (km_pager ?s)" using inv by (auto simp: kmem_inv_def)
  obtain u where u: "pager_reclaim_page M compress addr ?s = Returned (Inr ()) u" "t = u\<lparr>km_pager_locked := False\<rparr>"
    using run with_pager_Returned unfolding reclaim_page_def by blast
  show ?thesis
  proof (rule pager_reclaim_page_Returned[OF u(1) refl])
    fix entry frame d
    assume *: "map_of (rp_entries (km_pager ?s)) (mx_page_of M addr) = Some entry"
      "store_page compress (re_page_index entry) (mx_read M (mx_page_of M addr) PAGE_SIZE (km_pt ?s)) (rp_backend (km_pager ?s)) = Some (Inr (), d)"
      "km_pager u = compressed_pager (mx_page_of M addr) entry d (km_pager ?s)"
    show ?thesis
      using store_page_pager[OF codec s *(1) machine_read_length[OF M] *(2)] *(3) u(2)
      by (simp add: compressed_pager_def saved_def)
  qed simp_all
qed

lemma handle_page_fault_ok:
  assumes M: "machine_ok M tr" and inv: "kmem_inv decompress s"
    and saved: "saved decompress (km_pager s) (mx_page_of M addr) bs"
    and run: "handle_page_fault M compress decompress addr s = Returned (Inr b) t"
  shows "b \<and> mx_read M (mx_page_of M addr) PAGE_SIZE (km_pt t) = bs"
proof -
  let ?s = "s\<lparr>km_pager_locked := True\<rparr>"
  let ?page = "mx_page_of M addr"
  obtain e where e: "map_of (rp_entries (km_pager s)) ?page = Some e" "\<not> is_resident (re_state e)"
      "zram_view decompress (rp_backend (km_pager s)) (re_page_index e) = Some bs"
    using saved by (auto simp: saved_def)
  have s: "pager_inv decompress (km_pager ?s)" "km_pager_locked ?s" using inv by (auto simp: kmem_inv_def)
  obtain u where u: "pager_handle_page_fault M compress decompress addr ?s = Returned (Inr b) u" "t = u\<lparr>km_pager_locked := False\<rparr>"
    using run with_pager_Returned unfolding handle_page_fault_def by blast
  from u(1) show ?thesis
  proof (rule pager_handle_page_fault_Returned[OF s refl])
    assume "\<nexists>entry. map_of (rp_entries (km_pager ?s)) ?page = Some entry \<and> \<not> is_resident (re_state entry)"
    then show ?thesis using e(1,2) by auto
  next
    fix entry frame bs' d v w
    assume *: "Inr b = Inr True" "map_of (rp_entries (km_pager ?s)) ?page = Some entry"
      "zram_view decompress (rp_backend (km_pager ?s)) (re_page_index entry) = Some bs'" "length bs' = PAGE_SIZE"
      "map_existing_page M ?page frame (mx_flags_rw M) v = Returned (Inr ()) w" "km_pt u = mx_write M ?page bs' (km_pt w)"
    have "bs' = bs" using * e by simp
    from *(5) obtain off al al' where
      "mx_map_to M off (mx_cr3 M (km_pt v)) ?page frame (mx_flags_rw M) (km_pt v) al = Some (Inr (), km_pt w, al')"
      by (rule map_existing_page_ok)
    then have "tr (km_pt w) ?page \<noteq> None" using M unfolding machine_ok_def by (metis fun_upd_same option.distinct(1))
    moreover have "mx_page_of M ?page = ?page"
    proof -
      have "unat addr div 4096 * 4096 \<le> unat addr" by simp
      then have "unat addr div 4096 * 4096 < 2 ^ 64" using unat_bound[of addr] by simp
      then show ?thesis using M by (simp add: machine_ok_def del: of_nat_mult)
    qed
    ultimately have "mx_read M ?page PAGE_SIZE (mx_write M ?page bs (km_pt w)) = bs"
      using M *(4) \<open>bs' = bs\<close> unfolding machine_ok_def by blast
    then show ?thesis using * u(2) \<open>bs' = bs\<close> by simp
  qed simp_all
qed

text \<open>
  Property C6. Reclaim is invisible: after a page has been compressed away, whatever other operations
  of the pager run in between, page faults on this page excepted, the page fault that brings it back
  leaves the bytes at the page that were there before.
\<close>

theorem reclaim_then_fault:
  assumes "codec_ok compress decompress" "machine_ok M tr" "kmem_inv decompress s"
    and "reclaim_page M compress addr s = Returned (Inr ()) s1"
    and "pager_run M compress decompress s1 ops s2" "\<forall>op \<in> set ops. \<not> faults_on M (mx_page_of M addr) op"
    and "handle_page_fault M compress decompress addr s2 = Returned (Inr b) s3"
  shows "b \<and> mx_read M (mx_page_of M addr) PAGE_SIZE (km_pt s3) = mx_read M (mx_page_of M addr) PAGE_SIZE (km_pt s)"
proof -
  have inv: "kmem_inv decompress s1" using pager_step_inv[OF assms(1-3) pager_step.intros(2)[OF assms(4)]] by simp
  note run = pager_run_inv[OF assms(5,1,2) inv]
  have "saved decompress (km_pager s2) (mx_page_of M addr) (mx_read M (mx_page_of M addr) PAGE_SIZE (km_pt s))"
    using run reclaim_page_ok[OF assms(1-4)] assms(6) by blast
  with handle_page_fault_ok[OF assms(2) _ _ assms(7)] run show ?thesis by blast
qed


section \<open>When the operations succeed, and when they never return\<close>

definition runtime_on :: "'pt machine \<Rightarrow> u64 \<Rightarrow> RuntimeFrameAllocator \<Rightarrow> 'pt kmem \<Rightarrow> bool" where
  "runtime_on M off al s \<longleftrightarrow> km_ready s \<and> mx_virt M (km_offset s) = Some off \<and> km_allocator s = Some al"

lemma with_runtime_on:
  "runtime_on M off al s \<Longrightarrow> with_runtime M f s = with_runtime_in_with_offset (mx_cr3 M (km_pt s)) off f s"
  by (simp add: runtime_on_def with_runtime_def physical_memory_offset_def kact_simps)

lemma pager_reclaim_page_succeeds:
  assumes codec: "codec_ok compress decompress" and M: "machine_ok M tr" and inv: "pager_inv decompress (km_pager s)"
    and page: "page = mx_page_of M addr" "map_of (rp_entries (km_pager s)) page = Some e" "re_state e = Resident frame"
    and on: "runtime_on M off al s" and unmap: "mx_unmap M off (mx_cr3 M (km_pt s)) page (km_pt s) = (Inr frame, pt)"
  shows "\<exists>t. pager_reclaim_page M compress addr s = Returned (Inr ()) t \<and> km_pt t = pt \<and> runtime_on M off (rt_recycle frame al) t"
proof -
  let ?bs = "mx_read M page PAGE_SIZE (km_pt s)"
  have "zram_inv decompress RECLAIM_MAX_PAGES (rp_backend (km_pager s))" using inv by (simp add: pager_inv_def)
  from store_page_ok[OF codec this pager_inv_index_bound[OF inv page(2)], of ?bs] obtain d where
    d: "store_page compress (re_page_index e) ?bs (rp_backend (km_pager s)) = Some (Inr (), d)"
    using machine_read_length[OF M, of page PAGE_SIZE "km_pt s"] by fastforce
  let ?u = "(set_backend d s)\<lparr>km_pt := pt, km_allocator := Some al\<rparr>"
  have on': "runtime_on M off al (set_backend d s)" using on by (simp add: runtime_on_def)
  have "unmap_page M page (set_backend d s) = Returned (Inr frame) ?u"
    using unmap on by (simp add: unmap_page_def with_runtime_on[OF on'] with_runtime_in_with_offset_def run_unmap_def runtime_on_def)
  moreover have "deallocate_frame frame ?u = Returned (Inr ()) (?u\<lparr>km_allocator := Some (rt_recycle frame al)\<rparr>)"
    by (simp add: deallocate_frame_def kact_simps)
  moreover have "with_backend (store_page compress (re_page_index e) ?bs) s = Returned (Inr ()) (set_backend d s)"
    by (simp add: with_backend_Inr d)
  ultimately show ?thesis
    using page on by (simp add: pager_reclaim_page_def kact_simps Let_def pager_upd_def runtime_on_def)
qed

lemma reclaim_page_succeeds:
  assumes "codec_ok compress decompress" "machine_ok M tr" and inv: "kmem_inv decompress s"
    and "page = mx_page_of M addr" "map_of (rp_entries (km_pager s)) page = Some e" "re_state e = Resident frame"
    and on: "runtime_on M off al s" and "mx_unmap M off (mx_cr3 M (km_pt s)) page (km_pt s) = (Inr frame, pt)"
  shows "\<exists>t. reclaim_page M compress addr s = Returned (Inr ()) t \<and> km_pt t = pt \<and> runtime_on M off (rt_recycle frame al) t"
proof -
  let ?s = "s\<lparr>km_pager_locked := True\<rparr>"
  have "pager_inv decompress (km_pager ?s)" "\<not> km_pager_locked s" "runtime_on M off al ?s"
    using inv on by (auto simp: kmem_inv_def runtime_on_def)
  with pager_reclaim_page_succeeds[of compress decompress M tr ?s page addr e frame off al pt] assms
  obtain t where "pager_reclaim_page M compress addr ?s = Returned (Inr ()) t" "km_pt t = pt" "runtime_on M off (rt_recycle frame al) t"
    by auto
  then show ?thesis using \<open>\<not> km_pager_locked s\<close> by (simp add: reclaim_page_def with_pager_def runtime_on_def)
qed

lemma reclaim_one_succeeds:
  assumes codec: "codec_ok compress decompress" and M: "machine_ok M tr" and inv: "kmem_inv decompress s"
    and queue: "rp_resident_queue (km_pager s) = page # queue"
    and e: "map_of (rp_entries (km_pager s)) page = Some e" "re_state e = Resident frame"
    and on: "runtime_on M off al s" and unmap: "mx_unmap M off (mx_cr3 M (km_pt s)) page (km_pt s) = (Inr frame, pt)"
  shows "\<exists>t. reclaim_one M compress s = Returned (Inr True) t \<and> runtime_on M off (rt_recycle frame al) t"
proof -
  let ?s = "s\<lparr>km_pager_locked := True\<rparr>"
  let ?r = "pager_upd (\<lambda>p. p\<lparr>rp_resident_queue := queue @ [page]\<rparr>) ?s"
  have p: "pager_inv decompress (km_pager ?s)" "\<not> km_pager_locked s" using inv by (auto simp: kmem_inv_def)
  have r: "pager_inv decompress (km_pager ?r)" "runtime_on M off al ?r"
    using pager_inv_rotate[OF p(1), of page queue] queue on by (simp_all add: pager_upd_def runtime_on_def)
  have "page = region_addr (re_page_index e)" "re_page_index e \<le> RECLAIM_MAX_PAGES"
    using p(1) e pager_inv_index_bound[OF p(1), of page e] unfolding pager_inv_def by auto
  then have "page = mx_page_of M page" using region_page_of[OF M] by simp
  moreover have "map_of (rp_entries (km_pager ?r)) page = Some e" using e by (simp add: pager_upd_def)
  moreover have "mx_unmap M off (mx_cr3 M (km_pt ?r)) page (km_pt ?r) = (Inr frame, pt)"
    using unmap by (simp add: pager_upd_def)
  ultimately obtain t where
    "pager_reclaim_page M compress page ?r = Returned (Inr ()) t" "runtime_on M off (rt_recycle frame al) t"
    using pager_reclaim_page_succeeds[OF codec M r(1) _ _ e(2) r(2)] by blast
  then show ?thesis using p(2) queue
    by (simp add: reclaim_one_def with_pager_def pager_reclaim_one_eq[OF M p(1)] kact_simps runtime_on_def)
qed

lemma handle_page_fault_succeeds:
  assumes M: "machine_ok M tr" and inv: "kmem_inv decompress s"
    and saved: "saved decompress (km_pager s) (mx_page_of M addr) bs" and on: "runtime_on M off al s"
    and frame: "rt_allocate_frame (mx_frame_of M) (mx_firmware M) al = Some (Some frame, al1)"
    and map: "mx_map_to M off (mx_cr3 M (km_pt s)) (mx_page_of M addr) frame (mx_flags_rw M) (km_pt s) al1 = Some (Inr (), pt, al2)"
  shows "\<exists>t. handle_page_fault M compress decompress addr s = Returned (Inr True) t"
proof -
  let ?s = "s\<lparr>km_pager_locked := True\<rparr>"
  let ?page = "mx_page_of M addr"
  have p: "pager_inv decompress (km_pager ?s)" "\<not> km_pager_locked s" using inv by (auto simp: kmem_inv_def)
  obtain e where e: "map_of (rp_entries (km_pager ?s)) ?page = Some e" "\<not> is_resident (re_state e)"
    using saved by (auto simp: saved_def)
  from load_page_pager[OF p(1) e] obtain bs d where
    ld: "load_page decompress (re_page_index e) (rp_backend (km_pager ?s)) = Some (Inr bs, d)" "length bs = PAGE_SIZE"
      "zram_inv decompress RECLAIM_MAX_PAGES d" by metis
  then have load: "with_backend (load_page decompress (re_page_index e)) ?s = Returned (Inr bs) (set_backend d ?s)"
    by (simp add: with_backend_Inr)
  from invalidate_page_ok[OF ld(3), of "re_page_index e"] obtain d' where
    d': "invalidate_page (re_page_index e) d = Some (Inr (), d')" by blast
  let ?u = "(set_backend d ?s)\<lparr>km_allocator := Some al1\<rparr>"
  let ?v = "?u\<lparr>km_pt := pt, km_allocator := Some al2\<rparr>"
  have locked: "km_pager_locked (set_backend d ?s)" by (simp add: set_backend_def)
  have "try_allocate_frame M (set_backend d ?s) = Returned (Inr (Some frame)) ?u"
    using on frame by (simp add: try_allocate_frame_def runtime_on_def set_backend_def kact_simps)
  then have af: "allocate_frame M compress (set_backend d ?s) = Returned (Inr frame) ?u"
    by (simp add: allocate_frame_locked[OF locked])
  have on': "runtime_on M off al1 ?u" using on by (simp add: runtime_on_def)
  have "map_existing_page M ?page frame (mx_flags_rw M) ?u = Returned (Inr ()) ?v"
    using map by (simp add: map_existing_page_def with_runtime_on[OF on'] with_runtime_in_with_offset_def run_map_to_def)
  then have am: "allocate_and_map_page M compress ?page (mx_flags_rw M) (set_backend d ?s) = Returned (Inr frame) ?v"
    using af by (simp add: allocate_and_map_page_def kact_simps)
  let ?w = "?v\<lparr>km_pt := mx_write M ?page bs pt\<rparr>"
  have "with_backend (invalidate_page (re_page_index e)) ?w = Returned (Inr ()) (set_backend d' ?w)"
    using d' by (simp add: with_backend_Inr)
  then show ?thesis
    using p(2) e load am ld(2)
    by (simp add: handle_page_fault_def with_pager_def pager_handle_page_fault_def kact_simps Let_def pager_upd_def)
qed

text \<open>A small state: one resident page, one frame that nobody uses.\<close>

definition example_kmem :: "flat_tables kmem" where
  "example_kmem = \<lparr>km_offset = 0, km_heap_base = 0, km_heap = None, km_ready = True,
     km_allocator = Some (BootInfo (init_from_regions [])),
     km_pt = \<lparr>ft_map = [(region_addr 0, 0x5000)], ft_mem = [(region_addr 0, [1, 2, 3])]\<rparr>,
     km_pager = ReclaimPager_new\<lparr>rp_next_region_page := 1, rp_next_backend_page := 1,
       rp_entries := [(region_addr 0, \<lparr>re_page_index = 0, re_state = Resident 0x5000\<rparr>)],
       rp_resident_queue := [region_addr 0]\<rparr>,
     km_pager_locked = False\<rparr>"

lemma example_kmem_inv: "kmem_inv decompress example_kmem"
  by (auto simp: kmem_inv_def example_kmem_def pager_inv_def ReclaimPager_new_def zram_new_inv bt_wf_def)

lemma example_reclaim:
  obtains s1 where "reclaim_page flat_machine rle_compress (region_addr 0) example_kmem = Returned (Inr ()) s1"
    "runtime_on flat_machine 0 (BootInfo \<lparr>bi_regions = [], bi_recycled = [0x5000], bi_current_entry = 0, bi_current_addr = 0\<rparr>) s1"
proof -
  have page: "region_addr 0 = mx_page_of flat_machine (region_addr 0)"
    using region_page_of[OF flat_machine_ok, of 0] by simp
  have on: "runtime_on flat_machine 0 (BootInfo (init_from_regions [])) example_kmem"
    by (simp add: runtime_on_def flat_machine_def example_kmem_def)
  have "\<exists>t. reclaim_page flat_machine rle_compress (region_addr 0) example_kmem = Returned (Inr ()) t \<and>
      km_pt t = \<lparr>ft_map = [], ft_mem = [(region_addr 0, [1, 2, 3])]\<rparr> \<and>
      runtime_on flat_machine 0 (rt_recycle 0x5000 (BootInfo (init_from_regions []))) t"
    by (rule reclaim_page_succeeds[OF rle_codec_ok flat_machine_ok example_kmem_inv page _ _ on])
      (auto simp: example_kmem_def flat_machine_def bt_remove_def)
  then show ?thesis using that by (auto simp: init_from_regions_def)
qed

theorem reclaim_then_fault_witness:
  "\<exists>s1 s3. reclaim_page flat_machine rle_compress (region_addr 0) example_kmem = Returned (Inr ()) s1 \<and>
    handle_page_fault flat_machine rle_compress rle_decompress (region_addr 0) s1 = Returned (Inr True) s3 \<and>
    mx_read flat_machine (region_addr 0) PAGE_SIZE (km_pt s3) = mx_read flat_machine (region_addr 0) PAGE_SIZE (km_pt example_kmem)"
proof -
  obtain s1 where s1: "reclaim_page flat_machine rle_compress (region_addr 0) example_kmem = Returned (Inr ()) s1"
    and on: "runtime_on flat_machine 0 (BootInfo \<lparr>bi_regions = [], bi_recycled = [0x5000], bi_current_entry = 0, bi_current_addr = 0\<rparr>) s1"
    by (rule example_reclaim)
  have page: "mx_page_of flat_machine (region_addr 0) = region_addr 0"
    using region_page_of[OF flat_machine_ok, of 0] by simp
  have inv: "kmem_inv rle_decompress s1"
    using pager_step_inv[OF rle_codec_ok flat_machine_ok example_kmem_inv pager_step.intros(2)[OF s1]] by simp
  have saved: "\<exists>bs. saved rle_decompress (km_pager s1) (mx_page_of flat_machine (region_addr 0)) bs"
    using reclaim_page_ok[OF rle_codec_ok flat_machine_ok example_kmem_inv s1] by blast
  have frame: "rt_allocate_frame (mx_frame_of flat_machine) (mx_firmware flat_machine)
      (BootInfo \<lparr>bi_regions = [], bi_recycled = [0x5000], bi_current_entry = 0, bi_current_addr = 0\<rparr>) =
      Some (Some 0x5000, BootInfo \<lparr>bi_regions = [], bi_recycled = [], bi_current_entry = 0, bi_current_addr = 0\<rparr>)"
    by (simp add: rt_allocate_frame_def bi_allocate_frame_def vec_pop_def)
  have map: "\<exists>pt. mx_map_to flat_machine 0 (mx_cr3 flat_machine (km_pt s1)) page 0x5000 (mx_flags_rw flat_machine) (km_pt s1) al =
      Some (Inr (), pt, al)" for page al
    by (simp add: flat_machine_def)
  obtain s3 where s3: "handle_page_fault flat_machine rle_compress rle_decompress (region_addr 0) s1 = Returned (Inr True) s3"
    using handle_page_fault_succeeds[OF flat_machine_ok inv _ on frame] saved map by blast
  from reclaim_then_fault[OF rle_codec_ok flat_machine_ok example_kmem_inv s1 pager_run.intros(1) _ s3] s1 s3 page
  show ?thesis by auto
qed


theorem pager_keeps_pages_witness:
  "\<exists>s1. pager_run flat_machine rle_compress rle_decompress example_kmem [OpReclaimPage (region_addr 0)] s1 \<and>
    \<not> km_pager_locked s1 \<and> distinct (rp_resident_queue (km_pager s1))"
proof -
  obtain s1 where s1: "reclaim_page flat_machine rle_compress (region_addr 0) example_kmem = Returned (Inr ()) s1"
    by (rule example_reclaim)
  have run: "pager_run flat_machine rle_compress rle_decompress example_kmem [OpReclaimPage (region_addr 0)] s1"
    using pager_step.intros(2)[OF s1] by (blast intro: pager_run.intros)
  then show ?thesis using pager_keeps_pages[OF rle_codec_ok flat_machine_ok example_kmem_inv run] by blast
qed

text \<open>
  Property C19. A page fault with no free frame hangs the kernel.  The fault handler holds the pager's
  lock when it asks for a frame; when the allocator has none it turns to \<^verbatim>\<open>reclaim_one\<close>, which takes the
  same lock again.  So the handler never returns, although compressing another resident page, from
  outside the lock, would have freed a frame.
\<close>

theorem fault_without_frame_blocks:
  assumes "codec_ok compress decompress" "machine_ok M tr" "kmem_inv decompress s"
    and "saved decompress (km_pager s) (mx_page_of M addr) bs" "runtime_on M off al s"
    and "rt_allocate_frame (mx_frame_of M) (mx_firmware M) al = Some (None, al1)"
    and "rp_resident_queue (km_pager s) = page # queue"
    and "map_of (rp_entries (km_pager s)) page = Some e" "re_state e = Resident frame"
    and "mx_unmap M off (mx_cr3 M (km_pt s)) page (km_pt s) = (Inr frame, pt)"
  shows "handle_page_fault M compress decompress addr s = Blocked \<and>
    (\<exists>t. reclaim_one M compress s = Returned (Inr True) t \<and> runtime_on M off (rt_recycle frame al) t)"
proof
  show "\<exists>t. reclaim_one M compress s = Returned (Inr True) t \<and> runtime_on M off (rt_recycle frame al) t"
    by (rule reclaim_one_succeeds[OF assms(1-3,7-9,5,10)])
  let ?s = "s\<lparr>km_pager_locked := True\<rparr>"
  have p: "pager_inv decompress (km_pager ?s)" "\<not> km_pager_locked s" using assms(3) by (auto simp: kmem_inv_def)
  obtain f where f: "map_of (rp_entries (km_pager ?s)) (mx_page_of M addr) = Some f" "\<not> is_resident (re_state f)"
    using assms(4) by (auto simp: saved_def)
  from load_page_pager[OF p(1) f] obtain bs d where
    "load_page decompress (re_page_index f) (rp_backend (km_pager ?s)) = Some (Inr bs, d)" by metis
  then have load: "with_backend (load_page decompress (re_page_index f)) ?s = Returned (Inr bs) (set_backend d ?s)"
    by (simp add: with_backend_Inr)
  have locked: "km_pager_locked (set_backend d ?s)" by simp
  have "try_allocate_frame M (set_backend d ?s) = Returned (Inr None) ((set_backend d ?s)\<lparr>km_allocator := Some al1\<rparr>)"
    using assms(5,6) by (simp add: try_allocate_frame_def runtime_on_def kact_simps)
  then have "allocate_and_map_page M compress (mx_page_of M addr) (mx_flags_rw M) (set_backend d ?s) = Blocked"
    by (simp add: allocate_and_map_page_def kact_simps allocate_frame_locked[OF locked])
  then show "handle_page_fault M compress decompress addr s = Blocked"
    using p(2) f load by (simp add: handle_page_fault_def with_pager_def pager_handle_page_fault_def kact_simps Let_def)
qed

text \<open>Two pages, one compressed and one resident, and no frame left.\<close>

definition exhausted_kmem :: "ZramDevice \<Rightarrow> flat_tables kmem" where
  "exhausted_kmem d = \<lparr>km_offset = 0, km_heap_base = 0, km_heap = None, km_ready = True,
     km_allocator = Some (BootInfo (init_from_regions [])),
     km_pt = \<lparr>ft_map = [(region_addr 1, 0x6000)], ft_mem = []\<rparr>,
     km_pager = ReclaimPager_new\<lparr>rp_next_region_page := 2, rp_next_backend_page := 2,
       rp_entries := [(region_addr 0, \<lparr>re_page_index = 0, re_state = Compressed\<rparr>),
                      (region_addr 1, \<lparr>re_page_index = 1, re_state = Resident 0x6000\<rparr>)],
       rp_resident_queue := [region_addr 1], rp_backend := d\<rparr>,
     km_pager_locked = False\<rparr>"

lemma region_addr_01: "region_addr 0 < region_addr 1" "region_addr 0 \<noteq> region_addr 1"
  using region_addr_unat[of 0] region_addr_unat[of 1] region_addr_inj[of 0 1] by (simp_all add: word_less_nat_alt)

lemma exhausted_kmem_inv:
  assumes "zram_inv decompress RECLAIM_MAX_PAGES d" "zram_view decompress d = [0 \<mapsto> bs]" "length bs = PAGE_SIZE"
  shows "kmem_inv decompress (exhausted_kmem d)" "saved decompress (km_pager (exhausted_kmem d)) (region_addr 0) bs"
  using assms region_addr_01
  by (auto simp: kmem_inv_def exhausted_kmem_def pager_inv_def ReclaimPager_new_def bt_wf_def saved_def
      less_2_cases_iff split: if_split_asm)

theorem fault_without_frame_blocks_witness:
  "\<exists>s. handle_page_fault flat_machine rle_compress rle_decompress (region_addr 0) s = Blocked \<and>
    (\<exists>t. reclaim_one flat_machine rle_compress s = Returned (Inr True) t)"
proof -
  define bs :: bytes where "bs = replicate PAGE_SIZE 0"
  have "bs \<noteq> []" "length bs = PAGE_SIZE" by (simp_all add: bs_def)
  then obtain d where d: "zram_inv rle_decompress RECLAIM_MAX_PAGES d" "zram_view rle_decompress d = [0 \<mapsto> bs]"
    using store_page_ok[OF rle_codec_ok zram_new_inv[of rle_decompress RECLAIM_MAX_PAGES], of 0 bs] by (auto simp: zram_new_view)
  note ex = exhausted_kmem_inv[OF d \<open>length bs = PAGE_SIZE\<close>]
  have page: "mx_page_of flat_machine (region_addr 0) = region_addr 0"
    using region_page_of[OF flat_machine_ok, of 0] by simp
  have on: "runtime_on flat_machine 0 (BootInfo (init_from_regions [])) (exhausted_kmem d)"
    by (simp add: runtime_on_def flat_machine_def exhausted_kmem_def)
  have none: "rt_allocate_frame (mx_frame_of flat_machine) (mx_firmware flat_machine) (BootInfo (init_from_regions [])) =
      Some (None, BootInfo (init_from_regions []))"
    by (simp add: rt_allocate_frame_def bi_allocate_frame_def vec_pop_def init_from_regions_def)
      (subst bi_scan.simps, simp)
  have "handle_page_fault flat_machine rle_compress rle_decompress (region_addr 0) (exhausted_kmem d) = Blocked \<and>
    (\<exists>t. reclaim_one flat_machine rle_compress (exhausted_kmem d) = Returned (Inr True) t \<and>
      runtime_on flat_machine 0 (rt_recycle 0x6000 (BootInfo (init_from_regions []))) t)"
    by (rule fault_without_frame_blocks[OF rle_codec_ok flat_machine_ok ex(1) _ on none,
          where bs = bs and page = "region_addr 1" and queue = "[]" and
            e = "\<lparr>re_page_index = 1, re_state = Resident 0x6000\<rparr>" and pt = "\<lparr>ft_map = [], ft_mem = []\<rparr>"])
      (use ex(2) page region_addr_01 in \<open>auto simp: exhausted_kmem_def flat_machine_def bt_remove_def\<close>)
  then show ?thesis by blast
qed

section \<open>Asking for a frame ends\<close>

lemma kbind_Blocked:
  "kbind m conv k s = Blocked \<longleftrightarrow> m s = Blocked \<or> (\<exists>x u. m s = Returned (Inr x) u \<and> k x u = Blocked)"
  by (auto simp: kbind_def split: kres.split_asm sum.split_asm)

lemma with_runtime_not_Blocked: "with_runtime M f s \<noteq> Blocked"
  by (auto simp: vm_frame_defs split: option.split)

lemma deallocate_frame_not_Blocked: "deallocate_frame frame s \<noteq> Blocked"
  and try_allocate_frame_not_Blocked: "try_allocate_frame M s \<noteq> Blocked"
  and with_backend_not_Blocked: "with_backend f s \<noteq> Blocked"
  by (auto simp: deallocate_frame_def try_allocate_frame_def with_backend_def kfail_def kret_def split: option.split)

lemma pager_reclaim_page_not_Blocked: "pager_reclaim_page M compress addr s \<noteq> Blocked"
  by (simp add: pager_reclaim_page_def kbind_Blocked with_backend_not_Blocked unmap_page_def
      with_runtime_not_Blocked deallocate_frame_not_Blocked kfail_def kret_def kmodify_def Let_def
      split: option.split EntryState.split)

lemma reclaim_one_shrinks:
  assumes M: "machine_ok M tr" and inv: "kmem_inv decompress s"
  shows "reclaim_one M compress s \<noteq> Blocked"
    and "reclaim_one M compress s = Returned (Inr True) t \<Longrightarrow>
      length (rp_resident_queue (km_pager t)) < length (rp_resident_queue (km_pager s))"
proof -
  let ?s = "s\<lparr>km_pager_locked := True\<rparr>"
  have p: "pager_inv decompress (km_pager ?s)" "\<not> km_pager_locked s" using inv by (auto simp: kmem_inv_def)
  have "pager_reclaim_one M compress ?s \<noteq> Blocked"
    by (cases "rp_resident_queue (km_pager ?s)")
      (simp_all add: pager_reclaim_one_eq[OF M p(1)] kbind_Blocked pager_reclaim_page_not_Blocked kret_def)
  then show "reclaim_one M compress s \<noteq> Blocked"
    using p(2) by (simp add: reclaim_one_def with_pager_def split: kres.split)
  assume "reclaim_one M compress s = Returned (Inr True) t"
  then obtain u where u: "pager_reclaim_one M compress ?s = Returned (Inr True) u" "t = u\<lparr>km_pager_locked := False\<rparr>"
    using with_pager_Returned unfolding reclaim_one_def by blast
  then obtain a q where q: "rp_resident_queue (km_pager ?s) = a # q"
    by (cases "rp_resident_queue (km_pager ?s)") (auto simp: pager_reclaim_one_eq[OF M p(1)])
  let ?r = "pager_upd (\<lambda>p. p\<lparr>rp_resident_queue := q @ [a]\<rparr>) ?s"
  have run: "pager_reclaim_page M compress a ?r = Returned (Inr ()) u"
    using u(1) q by (auto simp: pager_reclaim_one_eq[OF M p(1)] kact_Returned)
  have "a \<in> set (rp_resident_queue (km_pager ?s))" using q by simp
  then have a: "mx_page_of M a = a" by (rule pager_inv_queued[OF p(1)]) (simp add: region_page_of[OF M])
  show "length (rp_resident_queue (km_pager t)) < length (rp_resident_queue (km_pager s))"
  proof (rule pager_reclaim_page_Returned[OF run refl])
    fix entry d
    assume "km_pager u = compressed_pager (mx_page_of M a) entry d (km_pager ?r)"
    then show ?thesis using q u(2) a by (simp add: compressed_pager_def pager_upd_def length_remove1)
  qed simp_all
qed

lemma allocate_rounds_not_Blocked:
  assumes codec: "codec_ok compress decompress" and M: "machine_ok M tr"
  shows "kmem_inv decompress s \<Longrightarrow> length (rp_resident_queue (km_pager s)) < n \<Longrightarrow> allocate_rounds M compress n s \<noteq> Blocked"
proof (induction n arbitrary: s)
  case (Suc n)
  show ?case
  proof
    assume "allocate_rounds M compress (Suc n) s = Blocked"
    then obtain u where u: "try_allocate_frame M s = Returned (Inr None) u"
      and blocked: "kbind (reclaim_one M compress) reclaim_error_to_vm (\<lambda>reclaimed.
         if reclaimed then allocate_rounds M compress n else kfail FrameAllocationFailed) u = Blocked"
      by (auto simp: kbind_Blocked[of "try_allocate_frame M"] try_allocate_frame_not_Blocked kret_def split: option.split_asm)
    have inv: "kmem_inv decompress u" and q: "rp_resident_queue (km_pager u) = rp_resident_queue (km_pager s)"
      using Suc.prems(1) try_allocate_frame_pager[OF u] by (auto simp: kmem_inv_def same_pager_def)
    note one = reclaim_one_shrinks[OF M inv, of compress]
    from blocked one(1) obtain t where t: "reclaim_one M compress u = Returned (Inr True) t"
      and rest: "allocate_rounds M compress n t = Blocked"
      by (auto simp: kbind_Blocked kfail_def split: if_split_asm)
    have "kmem_inv decompress t" using pager_step_inv[OF codec M inv pager_step.intros(3)[OF t]] by simp
    then show False using Suc.IH[of t] rest one(2)[OF t] q Suc.prems(2) by simp
  qed
qed simp

text \<open>
  Property C18. Asking for a frame ends: outside the pager's lock the loop that compresses pages until
  the allocator has a frame stops, because every round but the last takes one page out of the queue of
  resident pages; one round more than there are tracked pages is enough.
\<close>

theorem allocate_frame_ends:
  assumes "codec_ok compress decompress" "machine_ok M tr" "kmem_inv decompress s" "km_allocator s = Some (BootInfo st)"
  shows "allocate_frame M compress s \<noteq> Blocked"
proof -
  have inv: "pager_inv decompress (km_pager s)" using assms(3) by (simp add: kmem_inv_def)
  have "set (rp_resident_queue (km_pager s)) \<subseteq> fst ` set (rp_entries (km_pager s))"
  proof
    fix a assume "a \<in> set (rp_resident_queue (km_pager s))"
    then have "map_of (rp_entries (km_pager s)) a \<noteq> None" using inv unfolding pager_inv_def by auto
    then show "a \<in> fst ` set (rp_entries (km_pager s))" by (simp add: map_of_eq_None_iff)
  qed
  from card_mono[OF _ this] have "card (set (rp_resident_queue (km_pager s))) \<le> length (rp_entries (km_pager s))"
    using card_image_le[of "set (rp_entries (km_pager s))" fst] card_length[of "rp_entries (km_pager s)"]
    by simp
  moreover have "distinct (rp_resident_queue (km_pager s))" using inv by (simp add: pager_inv_def)
  ultimately have "length (rp_resident_queue (km_pager s)) < Suc (length (rp_entries (km_pager s)))"
    by (simp add: distinct_card)
  then show ?thesis unfolding allocate_frame_def by (rule allocate_rounds_not_Blocked[OF assms(1-3)])
qed

theorem allocate_frame_ends_witness: "allocate_frame flat_machine rle_compress example_kmem \<noteq> Blocked"
  by (rule allocate_frame_ends[OF rle_codec_ok flat_machine_ok example_kmem_inv])
    (simp add: example_kmem_def)

end
