(* ===== verification/Sched.thy ===== *)
theory Sched
  imports Rust_Coll
begin

text \<open>
  The scheduler of \<^verbatim>\<open>kernel/process.rs\<close>: tasks, run queues per processor and class, accounting, and the
  choice of the next task.  Counters keep their width and saturate or panic as in the source; deficits,
  which stay small, are integers.  \<open>SchedWorld\<close> adds to the scheduler the statics that a switch
  writes: the current task identifiers, the calls of \<^verbatim>\<open>user::activate_task\<close>, and the kernel stack top
  of the system-call entry.
\<close>

section \<open>Data\<close>

abbreviation (input) MAX_CPUS :: nat where "MAX_CPUS \<equiv> 32"
abbreviation (input) KERNEL_STACK_SIZE :: u64 where "KERNEL_STACK_SIZE \<equiv> 65536"
abbreviation (input) KERNEL_STACK_RESERVE :: u64 where "KERNEL_STACK_RESERVE \<equiv> 4096"
abbreviation (input) NUM_CLASSES :: nat where "NUM_CLASSES \<equiv> 4"
abbreviation (input) RUNNABLE_SCALE :: u64 where "RUNNABLE_SCALE \<equiv> 1024"
abbreviation (input) HOG_UTIL_THRESHOLD :: u64 where "HOG_UTIL_THRESHOLD \<equiv> 896"
abbreviation (input) HOG_SLICE_THRESHOLD :: u64 where "HOG_SLICE_THRESHOLD \<equiv> 4"
abbreviation (input) WAKE_CREDIT_PER_TICK :: u64 where "WAKE_CREDIT_PER_TICK \<equiv> 32"
abbreviation (input) MAX_SLEEP_CREDIT :: u64 where "MAX_SLEEP_CREDIT \<equiv> 256"

definition CLASS_QUANTA :: "int list" where "CLASS_QUANTA = [6, 4, 2, 1]"
definition CLASS_WEIGHTS :: "u64 list" where "CLASS_WEIGHTS = [4, 3, 2, 1]"

datatype TaskState = Ready | Running | Blocked | Exited

datatype TaskClass = Game | Normal | Hog | Background

fun TaskClass_index :: "TaskClass \<Rightarrow> nat" where
  "TaskClass_index Game = 0" |
  "TaskClass_index Normal = 1" |
  "TaskClass_index Hog = 2" |
  "TaskClass_index Background = 3"

definition TaskClass_from_index :: "nat \<Rightarrow> TaskClass" where
  "TaskClass_from_index i = (if i = 0 then Game else if i = 1 then Normal else if i = 2 then Hog else Background)"

record SavedTaskContext =
  ctx_r15 :: u64
  ctx_r14 :: u64
  ctx_r13 :: u64
  ctx_r12 :: u64
  ctx_r11 :: u64
  ctx_r10 :: u64
  ctx_r9 :: u64
  ctx_r8 :: u64
  ctx_rbp :: u64
  ctx_rdi :: u64
  ctx_rsi :: u64
  ctx_rdx :: u64
  ctx_rcx :: u64
  ctx_rbx :: u64
  ctx_rax :: u64
  ctx_rip :: u64
  ctx_cs :: u64
  ctx_rflags :: u64
  ctx_rsp :: u64
  ctx_ss :: u64

record SchedParams =
  sp_class_hint :: "TaskClass option"
  sp_nice :: int
  sp_preferred_cpu :: "nat option"
  sp_process_id :: u32

record Task =
  tk_id :: u64
  tk_process_id :: u32
  tk_thread_id :: u64
  tk_state :: TaskState
  tk_stack :: u64
  tk_saved_rsp :: u64
  tk_class_hint :: "TaskClass option"
  tk_class :: TaskClass
  tk_nice :: int
  tk_preferred_cpu :: "nat option"
  tk_last_cpu :: nat
  tk_runtime_ticks :: u64
  tk_runnable_avg :: u64
  tk_vruntime :: u64
  tk_sleep_credit :: u64
  tk_deficit :: int
  tk_slice_ticks :: u64
  tk_voluntary_yields :: u64
  tk_full_slice_runs :: u64
  tk_sleep_started_at :: "u64 option"
  tk_queued :: bool

record CpuRunQueue =
  rq_id :: nat
  rq_llc_id :: nat
  rq_current_task :: "u64 option"
  rq_class_cursor :: nat
  rq_class_deficits :: "int list"
  rq_queues :: "u64 list list"

record LlcDomain =
  llc_id :: nat
  llc_cpus :: "nat list"

record Scheduler =
  sc_tasks :: "Task list"
  sc_task_lookup :: "(u64, nat) btree"
  sc_cpus :: "CpuRunQueue list"
  sc_llc_domains :: "LlcDomain list"
  sc_global_tick :: u64
  sc_started :: bool
  sc_next_task_id :: u64

record SchedWorld =
  sw_sched :: Scheduler
  sw_current_task_ids :: "u64 list"
  sw_activations :: "u64 list"
  sw_kernel_stack_top :: u64

section \<open>Arithmetic of shares\<close>

definition align_down :: "u64 \<Rightarrow> u64 \<Rightarrow> u64" where
  "align_down value align = value AND NOT (align - 1)"

definition clamp :: "int \<Rightarrow> int \<Rightarrow> int \<Rightarrow> int" where
  "clamp lo hi x = max lo (min hi x)"

definition nice_weight :: "int \<Rightarrow> nat" where
  "nice_weight nice = nat (max (40 - (clamp (-20) 19 nice + 20)) 1)"

definition task_quantum :: "TaskClass \<Rightarrow> int \<Rightarrow> int" where
  "task_quantum class nice = max ((CLASS_QUANTA ! TaskClass_index class * int (nice_weight nice)) div 20) 1"

definition vruntime_delta :: "TaskClass \<Rightarrow> int \<Rightarrow> u64" where
  "vruntime_delta class nice =
    1024 div max (sat_mul (CLASS_WEIGHTS ! TaskClass_index class) (of_nat (nice_weight nice))) 1"

section \<open>Tasks\<close>

definition stack_end :: "Task \<Rightarrow> u64 exec" where
  "stack_end t = map_option (\<lambda>top. align_down top 16) (cadd (tk_stack t) KERNEL_STACK_SIZE)"

definition kernel_stack_top :: "Task \<Rightarrow> u64 exec" where
  "kernel_stack_top t = map_option (\<lambda>top. sat_sub top KERNEL_STACK_RESERVE) (stack_end t)"

definition SchedParams_default :: SchedParams where
  "SchedParams_default = \<lparr>sp_class_hint = None, sp_nice = 0, sp_preferred_cpu = None, sp_process_id = 0\<rparr>"

definition fresh_task :: "u64 \<Rightarrow> u64 \<Rightarrow> u64 \<Rightarrow> SchedParams \<Rightarrow> Task" where
  "fresh_task task_id thread_id stack params =
     \<lparr>tk_id = task_id, tk_process_id = sp_process_id params, tk_thread_id = thread_id, tk_state = Ready,
      tk_stack = stack, tk_saved_rsp = 0, tk_class_hint = sp_class_hint params,
      tk_class = (case sp_class_hint params of Some c \<Rightarrow> c | None \<Rightarrow> Normal),
      tk_nice = clamp (-20) 19 (sp_nice params), tk_preferred_cpu = sp_preferred_cpu params,
      tk_last_cpu = 0, tk_runtime_ticks = 0, tk_runnable_avg = 0, tk_vruntime = 0, tk_sleep_credit = 0,
      tk_deficit = 0, tk_slice_ticks = 0, tk_voluntary_yields = 0, tk_full_slice_runs = 0,
      tk_sleep_started_at = None, tk_queued = False\<rparr>"

definition empty_context :: SavedTaskContext where
  "empty_context = \<lparr>ctx_r15 = 0, ctx_r14 = 0, ctx_r13 = 0, ctx_r12 = 0, ctx_r11 = 0, ctx_r10 = 0, ctx_r9 = 0,
     ctx_r8 = 0, ctx_rbp = 0, ctx_rdi = 0, ctx_rsi = 0, ctx_rdx = 0, ctx_rcx = 0, ctx_rbx = 0, ctx_rax = 0,
     ctx_rip = 0, ctx_cs = 0, ctx_rflags = 0, ctx_rsp = 0, ctx_ss = 0\<rparr>"

abbreviation (input) CONTEXT_SIZE :: u64 where "CONTEXT_SIZE \<equiv> 160"

text \<open>
  The constructors return the task and what they write to its stack: the word at an address, and the
  context at the task's saved stack pointer.  \<open>cs\<close> and \<open>ss\<close> are the segment registers, \<open>trampoline\<close> the
  address of the return trampoline, \<open>stack\<close> the address of the stack the heap gave.
\<close>

definition Task_with_params :: "u64 \<Rightarrow> u64 \<Rightarrow> u64 \<Rightarrow> SchedParams \<Rightarrow> u64 \<Rightarrow> u64 \<Rightarrow> u64 \<Rightarrow> u64 \<Rightarrow>
    (Task \<times> (u64 \<times> u64) \<times> SavedTaskContext) exec" where
  "Task_with_params task_id thread_id entry params stack trampoline cs ss = do {
     let task = fresh_task task_id thread_id stack params;
     stack_top \<leftarrow> stack_end task;
     call_like_rsp \<leftarrow> csub stack_top 40;
     context_rsp \<leftarrow> csub call_like_rsp CONTEXT_SIZE;
     Some (task\<lparr>tk_saved_rsp := context_rsp\<rparr>, (call_like_rsp, trampoline),
       empty_context\<lparr>ctx_rip := entry, ctx_cs := cs, ctx_rflags := 0x202, ctx_rsp := call_like_rsp, ctx_ss := ss\<rparr>) }"

definition Task_new :: "u64 \<Rightarrow> u64 \<Rightarrow> u64 \<Rightarrow> u64 \<Rightarrow> u64 \<Rightarrow> u64 \<Rightarrow> u64 \<Rightarrow>
    (Task \<times> (u64 \<times> u64) \<times> SavedTaskContext) exec" where
  "Task_new task_id thread_id entry = Task_with_params task_id thread_id entry SchedParams_default"

definition Task_with_initial_context :: "u64 \<Rightarrow> u64 \<Rightarrow> SavedTaskContext \<Rightarrow> SchedParams \<Rightarrow> u64 \<Rightarrow>
    (Task \<times> SavedTaskContext) exec" where
  "Task_with_initial_context task_id thread_id context params stack = do {
     let task = fresh_task task_id thread_id stack params;
     stack_top \<leftarrow> stack_end task;
     context_rsp \<leftarrow> csub stack_top CONTEXT_SIZE;
     Some (task\<lparr>tk_saved_rsp := context_rsp\<rparr>, context) }"

section \<open>Lookup and queues\<close>

definition CpuRunQueue_new :: "nat \<Rightarrow> nat \<Rightarrow> CpuRunQueue" where
  "CpuRunQueue_new cpu llc = \<lparr>rq_id = cpu, rq_llc_id = llc, rq_current_task = None, rq_class_cursor = 0,
     rq_class_deficits = replicate NUM_CLASSES 0, rq_queues = replicate NUM_CLASSES []\<rparr>"

definition Scheduler_new :: Scheduler where
  "Scheduler_new = \<lparr>sc_tasks = [], sc_task_lookup = [], sc_cpus = [CpuRunQueue_new 0 0],
     sc_llc_domains = [\<lparr>llc_id = 0, llc_cpus = [0]\<rparr>], sc_global_tick = 0, sc_started = False,
     sc_next_task_id = 1\<rparr>"

definition task_index :: "Scheduler \<Rightarrow> u64 \<Rightarrow> nat exec" where
  "task_index s task_id = map_of (sc_task_lookup s) task_id"

definition task_of :: "Scheduler \<Rightarrow> u64 \<Rightarrow> Task exec" where
  "task_of s task_id = do { i \<leftarrow> task_index s task_id; vec_get (sc_tasks s) i }"

definition task_mut :: "u64 \<Rightarrow> (Task \<Rightarrow> Task) \<Rightarrow> Scheduler \<Rightarrow> Scheduler exec" where
  "task_mut task_id f s = do {
     i \<leftarrow> task_index s task_id;
     t \<leftarrow> vec_get (sc_tasks s) i;
     Some (s\<lparr>sc_tasks := (sc_tasks s)[i := f t]\<rparr>) }"

definition cpu_of :: "Scheduler \<Rightarrow> nat \<Rightarrow> CpuRunQueue exec" where
  "cpu_of s cpu = vec_get (sc_cpus s) cpu"

definition cpu_mut :: "nat \<Rightarrow> (CpuRunQueue \<Rightarrow> CpuRunQueue) \<Rightarrow> Scheduler \<Rightarrow> Scheduler exec" where
  "cpu_mut cpu f s = do {
     rq \<leftarrow> cpu_of s cpu;
     Some (s\<lparr>sc_cpus := (sc_cpus s)[cpu := f rq]\<rparr>) }"

definition class_queue :: "Scheduler \<Rightarrow> nat \<Rightarrow> nat \<Rightarrow> u64 list exec" where
  "class_queue s cpu class_idx = do { rq \<leftarrow> cpu_of s cpu; vec_get (rq_queues rq) class_idx }"

definition set_queue :: "nat \<Rightarrow> u64 list \<Rightarrow> CpuRunQueue \<Rightarrow> CpuRunQueue" where
  "set_queue class_idx q rq = rq\<lparr>rq_queues := (rq_queues rq)[class_idx := q]\<rparr>"

definition cpu_is_idle :: "Scheduler \<Rightarrow> nat \<Rightarrow> bool exec" where
  "cpu_is_idle s cpu = do {
     rq \<leftarrow> cpu_of s cpu;
     Some (rq_current_task rq = None \<and> list_all (\<lambda>q. q = []) (rq_queues rq)) }"

definition rq_load :: "CpuRunQueue \<Rightarrow> nat" where
  "rq_load rq = (if rq_current_task rq \<noteq> None then 1 else 0) + sum_list (map length (rq_queues rq))"

text \<open>\<^verbatim>\<open>min_by_key\<close>: the first element with the least key.\<close>

fun min_by_key :: "('a \<Rightarrow> nat) \<Rightarrow> 'a list \<Rightarrow> 'a option" where
  "min_by_key f [] = None" |
  "min_by_key f (x # xs) =
    (case min_by_key f xs of None \<Rightarrow> Some x | Some y \<Rightarrow> if f x \<le> f y then Some x else Some y)"

definition select_cpu_for_task :: "Scheduler \<Rightarrow> Task \<Rightarrow> nat exec" where
  "select_cpu_for_task s task = do {
     idle \<leftarrow> cpu_is_idle s (tk_last_cpu task);
     if idle then Some (tk_last_cpu task)
     else do {
       preferred \<leftarrow> (case tk_preferred_cpu task of
           Some c \<Rightarrow> if c < length (sc_cpus s)
                     then map_option (\<lambda>idle. if idle then Some c else None) (cpu_is_idle s c)
                     else Some None
         | None \<Rightarrow> Some None);
       case preferred of
         Some c \<Rightarrow> Some c
       | None \<Rightarrow> Some (case min_by_key rq_load (sc_cpus s) of Some rq \<Rightarrow> rq_id rq | None \<Rightarrow> 0) } }"

definition select_cpu :: "Scheduler \<Rightarrow> u64 \<Rightarrow> nat exec" where
  "select_cpu s task_id = do { task \<leftarrow> task_of s task_id; select_cpu_for_task s task }"

definition enqueue_task :: "u64 \<Rightarrow> Scheduler \<Rightarrow> Scheduler exec" where
  "enqueue_task task_id s = do {
     task \<leftarrow> task_of s task_id;
     if \<not> (tk_state task = Ready \<and> \<not> tk_queued task) then Some s
     else do {
       q \<leftarrow> class_queue s (tk_last_cpu task) (TaskClass_index (tk_class task));
       s \<leftarrow> cpu_mut (tk_last_cpu task) (set_queue (TaskClass_index (tk_class task)) (q @ [task_id])) s;
       task_mut task_id (\<lambda>t. t\<lparr>tk_queued := True\<rparr>) s } }"

definition recompute_task_class :: "Task \<Rightarrow> Task" where
  "recompute_task_class t = t\<lparr>tk_class :=
     (case tk_class_hint t of Some c \<Rightarrow> c | None \<Rightarrow> if 10 \<le> tk_nice t then Background else Normal)\<rparr>"

definition running_class :: "Task \<Rightarrow> TaskClass" where
  "running_class t =
    (case tk_class_hint t of
       Some c \<Rightarrow> c
     | None \<Rightarrow> if 10 \<le> tk_nice t then Background
               else if HOG_UTIL_THRESHOLD \<le> tk_runnable_avg t \<and> HOG_SLICE_THRESHOLD \<le> tk_full_slice_runs t then Hog
               else Normal)"

definition recompute_task_class_by_id :: "u64 \<Rightarrow> Scheduler \<Rightarrow> Scheduler exec" where
  "recompute_task_class_by_id task_id = task_mut task_id (\<lambda>t. t\<lparr>tk_class := running_class t\<rparr>)"

definition add_task :: "Task \<Rightarrow> Scheduler \<Rightarrow> Scheduler exec" where
  "add_task task s = do {
     let task_id = tk_id task;
     cpu \<leftarrow> select_cpu_for_task s task;
     let task = recompute_task_class (task\<lparr>tk_last_cpu := cpu\<rparr>);
     let task = task\<lparr>tk_deficit := task_quantum (tk_class task) (tk_nice task)\<rparr>;
     let index = length (sc_tasks s);
     let s = s\<lparr>sc_tasks := sc_tasks s @ [task], sc_task_lookup := bt_insert task_id index (sc_task_lookup s)\<rparr>;
     s \<leftarrow> enqueue_task task_id s;
     Some (s\<lparr>sc_next_task_id := max (sc_next_task_id s) (sat_add task_id 1)\<rparr>) }"

definition allocate_task_id :: "Scheduler \<Rightarrow> u64 \<times> Scheduler" where
  "allocate_task_id s =
    (let task_id = max (sc_next_task_id s) 1 in (task_id, s\<lparr>sc_next_task_id := sat_add task_id 1\<rparr>))"

definition sched_configure_topology :: "nat \<Rightarrow> Scheduler \<Rightarrow> Scheduler" where
  "sched_configure_topology cpu_count s =
    (if sc_tasks s \<noteq> [] \<or> sc_started s then s
     else let n = max cpu_count 1
          in s\<lparr>sc_cpus := map (\<lambda>cpu. CpuRunQueue_new cpu 0) [0..<n],
               sc_llc_domains := [\<lparr>llc_id = 0, llc_cpus = [0..<n]\<rparr>]\<rparr>)"

section \<open>Choosing a task\<close>

definition has_ready_task_in_class :: "Scheduler \<Rightarrow> nat \<Rightarrow> nat \<Rightarrow> bool exec" where
  "has_ready_task_in_class s cpu class_idx = do {
     q \<leftarrow> class_queue s cpu class_idx;
     let any = (\<lambda>tid acc. case acc of
         None \<Rightarrow> None
       | Some True \<Rightarrow> Some True
       | Some False \<Rightarrow> map_option (\<lambda>t. tk_state t = Ready) (task_of s tid));
     fold any q (Some False) }"

definition refilled :: "int \<Rightarrow> int \<Rightarrow> int" where
  "refilled deficit quantum = min (max deficit 0 + quantum) (quantum * 2)"

fun refill_classes :: "nat \<Rightarrow> nat list \<Rightarrow> Scheduler \<Rightarrow> Scheduler exec" where
  "refill_classes cpu [] s = Some s" |
  "refill_classes cpu (class_idx # rest) s = do {
     ready \<leftarrow> has_ready_task_in_class s cpu (TaskClass_index (TaskClass_from_index class_idx));
     s \<leftarrow> (if ready
            then cpu_mut cpu (\<lambda>rq. rq\<lparr>rq_class_deficits := (rq_class_deficits rq)[class_idx :=
                   refilled (rq_class_deficits rq ! class_idx) (CLASS_QUANTA ! class_idx)]\<rparr>) s
            else Some s);
     refill_classes cpu rest s }"

definition refill_class_deficits :: "nat \<Rightarrow> Scheduler \<Rightarrow> Scheduler exec" where
  "refill_class_deficits cpu = refill_classes cpu [0..<NUM_CLASSES]"

fun refill_tasks :: "TaskClass \<Rightarrow> u64 list \<Rightarrow> Scheduler \<Rightarrow> Scheduler exec" where
  "refill_tasks class [] s = Some s" |
  "refill_tasks class (tid # ids) s = do {
     s \<leftarrow> task_mut tid (\<lambda>t. if tk_state t \<noteq> Ready then t
            else t\<lparr>tk_deficit := refilled (tk_deficit t) (task_quantum class (tk_nice t))\<rparr>) s;
     refill_tasks class ids s }"

definition refill_task_deficits :: "nat \<Rightarrow> TaskClass \<Rightarrow> Scheduler \<Rightarrow> Scheduler exec" where
  "refill_task_deficits cpu class s = do {
     q \<leftarrow> class_queue s cpu (TaskClass_index class);
     refill_tasks class q s }"

definition effective_vruntime :: "Task \<Rightarrow> u64" where
  "effective_vruntime t = sat_sub (tk_vruntime t) (tk_sleep_credit t)"

text \<open>The scan over the queue snapshot: the best task so far and its virtual runtime.\<close>

fun best_task :: "Scheduler \<Rightarrow> u64 list \<Rightarrow> u64 option \<times> u64 \<Rightarrow> (u64 option \<times> u64) exec" where
  "best_task s [] best = Some best" |
  "best_task s (tid # ids) best = do {
     t \<leftarrow> task_of s tid;
     best_task s ids
       (if tk_state t \<noteq> Ready \<or> tk_deficit t \<le> 0 then best
        else if effective_vruntime t < snd best then (Some tid, effective_vruntime t) else best) }"

definition take_best :: "nat \<Rightarrow> TaskClass \<Rightarrow> Scheduler \<Rightarrow> (u64 option \<times> Scheduler) exec" where
  "take_best cpu class s = do {
     q \<leftarrow> class_queue s cpu (TaskClass_index class);
     (best, _) \<leftarrow> best_task s q (None, -1);
     case best of
       None \<Rightarrow> Some (None, s)
     | Some task_id \<Rightarrow> do {
         i \<leftarrow> position (\<lambda>c. c = task_id) q;
         s \<leftarrow> cpu_mut cpu (set_queue (TaskClass_index class) (remove_at i q)) s;
         s \<leftarrow> task_mut task_id (\<lambda>t. t\<lparr>tk_queued := False\<rparr>) s;
         Some (Some task_id, s) } }"

definition pick_task_from_class :: "nat \<Rightarrow> TaskClass \<Rightarrow> Scheduler \<Rightarrow> (u64 option \<times> Scheduler) exec" where
  "pick_task_from_class cpu class s = do {
     (found, s) \<leftarrow> take_best cpu class s;
     case found of
       Some tid \<Rightarrow> Some (Some tid, s)
     | None \<Rightarrow> do {
         s \<leftarrow> refill_task_deficits cpu class s;
         take_best cpu class s } }"

text \<open>Making a task the current one: the statics that follow it.\<close>

definition publish :: "nat \<Rightarrow> u64 \<Rightarrow> SchedWorld \<Rightarrow> SchedWorld exec" where
  "publish cpu task_id w = do {
     ids \<leftarrow> vec_set cpu task_id (sw_current_task_ids w);
     t \<leftarrow> task_of (sw_sched w) task_id;
     top \<leftarrow> kernel_stack_top t;
     Some (w\<lparr>sw_current_task_ids := ids, sw_activations := sw_activations w @ [task_id],
             sw_kernel_stack_top := top\<rparr>) }"

definition switch_to :: "nat \<Rightarrow> nat \<Rightarrow> u64 \<Rightarrow> u64 option \<Rightarrow> SchedWorld \<Rightarrow> (u64 \<times> SchedWorld) exec" where
  "switch_to cpu class_idx task_id previous w = do {
     s \<leftarrow> cpu_mut cpu (\<lambda>rq. rq\<lparr>rq_class_cursor := (class_idx + 1) mod NUM_CLASSES,
            rq_class_deficits := (rq_class_deficits rq)[class_idx := rq_class_deficits rq ! class_idx - 1]\<rparr>) (sw_sched w);
     s \<leftarrow> task_mut task_id (\<lambda>t.
            let t = t\<lparr>tk_state := Running, tk_last_cpu := cpu\<rparr>;
                t = (if Some task_id \<noteq> previous then t\<lparr>tk_slice_ticks := 0\<rparr> else t);
                t = (if tk_deficit t \<le> 0 then t\<lparr>tk_deficit := task_quantum (tk_class t) (tk_nice t)\<rparr> else t)
            in t\<lparr>tk_deficit := tk_deficit t - 1\<rparr>) s;
     t \<leftarrow> task_of s task_id;
     s \<leftarrow> cpu_mut cpu (\<lambda>rq. rq\<lparr>rq_current_task := Some task_id\<rparr>) s;
     w \<leftarrow> publish cpu task_id (w\<lparr>sw_sched := s\<rparr>);
     Some (tk_saved_rsp t, w) }"

text \<open>One sweep over the classes, from the cursor on.\<close>

fun pick_sweep :: "nat \<Rightarrow> u64 option \<Rightarrow> nat list \<Rightarrow> SchedWorld \<Rightarrow> (u64 option \<times> SchedWorld) exec" where
  "pick_sweep cpu previous [] w = Some (None, w)" |
  "pick_sweep cpu previous (offset # rest) w = do {
     rq \<leftarrow> cpu_of (sw_sched w) cpu;
     let class_idx = (rq_class_cursor rq + offset) mod NUM_CLASSES;
     deficit \<leftarrow> vec_get (rq_class_deficits rq) class_idx;
     if deficit \<le> 0 then pick_sweep cpu previous rest w
     else do {
       (found, s) \<leftarrow> pick_task_from_class cpu (TaskClass_from_index class_idx) (sw_sched w);
       let w = w\<lparr>sw_sched := s\<rparr>;
       case found of
         Some task_id \<Rightarrow> map_option (map_prod Some id) (switch_to cpu class_idx task_id previous w)
       | None \<Rightarrow> pick_sweep cpu previous rest w } }"

fun pick_rounds :: "nat \<Rightarrow> u64 option \<Rightarrow> nat \<Rightarrow> SchedWorld \<Rightarrow> (u64 option \<times> SchedWorld) exec" where
  "pick_rounds cpu previous 0 w = Some (None, w)" |
  "pick_rounds cpu previous (Suc n) w = do {
     (found, w) \<leftarrow> pick_sweep cpu previous [0..<NUM_CLASSES] w;
     case found of
       Some rsp \<Rightarrow> Some (Some rsp, w)
     | None \<Rightarrow> do {
         s \<leftarrow> refill_class_deficits cpu (sw_sched w);
         pick_rounds cpu previous n (w\<lparr>sw_sched := s\<rparr>) } }"

definition resume_previous :: "nat \<Rightarrow> u64 \<Rightarrow> SchedWorld \<Rightarrow> (u64 option \<times> SchedWorld) exec" where
  "resume_previous cpu task_id w = do {
     t \<leftarrow> task_of (sw_sched w) task_id;
     if tk_state t = Ready \<or> tk_state t = Running
     then do {
       s \<leftarrow> task_mut task_id (\<lambda>t. t\<lparr>tk_state := Running\<rparr>) (sw_sched w);
       s \<leftarrow> cpu_mut cpu (\<lambda>rq. rq\<lparr>rq_current_task := Some task_id\<rparr>) s;
       w \<leftarrow> publish cpu task_id (w\<lparr>sw_sched := s\<rparr>);
       Some (Some (tk_saved_rsp t), w) }
     else Some (None, w) }"

definition pick_next_task :: "nat \<Rightarrow> u64 option \<Rightarrow> SchedWorld \<Rightarrow> (u64 option \<times> SchedWorld) exec" where
  "pick_next_task cpu previous w = do {
     (found, w) \<leftarrow> pick_rounds cpu previous 2 w;
     case found of
       Some rsp \<Rightarrow> Some (Some rsp, w)
     | None \<Rightarrow>
        (case previous of
           Some task_id \<Rightarrow> resume_previous cpu task_id w
         | None \<Rightarrow> do {
             ids \<leftarrow> vec_set cpu 0 (sw_current_task_ids w);
             Some (None, w\<lparr>sw_current_task_ids := ids\<rparr>) }) }"

section \<open>Events\<close>

definition charge :: "u64 \<Rightarrow> Task \<Rightarrow> Task exec" where
  "charge current_rsp t = do {
     let quantum = (of_int (task_quantum (tk_class t) (tk_nice t)) :: u64);
     avg \<leftarrow> cmul (tk_runnable_avg t) 7;
     avg \<leftarrow> cadd avg RUNNABLE_SCALE;
     let t = t\<lparr>tk_saved_rsp := current_rsp, tk_runtime_ticks := sat_add (tk_runtime_ticks t) 1,
               tk_slice_ticks := sat_add (tk_slice_ticks t) 1, tk_runnable_avg := avg div 8,
               tk_vruntime := sat_add (tk_vruntime t) (vruntime_delta (tk_class t) (tk_nice t)),
               tk_sleep_credit := sat_sub (tk_sleep_credit t) 1\<rparr>;
     let t = (if quantum \<le> tk_slice_ticks t
              then t\<lparr>tk_full_slice_runs := sat_add (tk_full_slice_runs t) 1, tk_slice_ticks := 0\<rparr> else t);
     Some (if tk_state t = Running then t\<lparr>tk_state := Ready\<rparr> else t) }"

definition account_running_task :: "nat \<Rightarrow> u64 \<Rightarrow> u64 \<Rightarrow> Scheduler \<Rightarrow> Scheduler exec" where
  "account_running_task cpu task_id current_rsp s = do {
     t \<leftarrow> task_of s task_id;
     t \<leftarrow> charge current_rsp t;
     s \<leftarrow> task_mut task_id (\<lambda>_. t) s;
     s \<leftarrow> recompute_task_class_by_id task_id s;
     t \<leftarrow> task_of s task_id;
     s \<leftarrow> (if tk_state t = Ready then enqueue_task task_id s else Some s);
     cpu_mut cpu (\<lambda>rq. rq\<lparr>rq_current_task := None\<rparr>) s }"

definition on_timer_tick :: "nat \<Rightarrow> u64 \<Rightarrow> SchedWorld \<Rightarrow> (u64 \<times> SchedWorld) exec" where
  "on_timer_tick cpu current_rsp w =
    (let s = sw_sched w in
     if \<not> sc_started s then Some (current_rsp, w)
     else do {
       let s = s\<lparr>sc_global_tick := sc_global_tick s + 1\<rparr>;
       rq \<leftarrow> cpu_of s cpu;
       s \<leftarrow> (case rq_current_task rq of
               Some task_id \<Rightarrow> account_running_task cpu task_id current_rsp s
             | None \<Rightarrow> Some s);
       (next, w) \<leftarrow> pick_next_task cpu (rq_current_task rq) (w\<lparr>sw_sched := s\<rparr>);
       Some (case next of Some rsp \<Rightarrow> rsp | None \<Rightarrow> current_rsp, w) })"

definition with_current :: "nat \<Rightarrow> (Task \<Rightarrow> Task) \<Rightarrow> Scheduler \<Rightarrow> Scheduler exec" where
  "with_current cpu f s = do {
     rq \<leftarrow> cpu_of s cpu;
     case rq_current_task rq of
       None \<Rightarrow> Some s
     | Some task_id \<Rightarrow> task_mut task_id f s }"

definition request_yield :: "nat \<Rightarrow> Scheduler \<Rightarrow> Scheduler exec" where
  "request_yield cpu = with_current cpu (\<lambda>t.
     t\<lparr>tk_voluntary_yields := sat_add (tk_voluntary_yields t) 1, tk_slice_ticks := 0, tk_deficit := 0\<rparr>)"

definition block_current :: "nat \<Rightarrow> Scheduler \<Rightarrow> Scheduler exec" where
  "block_current cpu s = with_current cpu (\<lambda>t.
     t\<lparr>tk_state := Blocked, tk_queued := False, tk_slice_ticks := 0, tk_deficit := 0,
       tk_sleep_started_at := Some (sc_global_tick s)\<rparr>) s"

definition woken :: "u64 \<Rightarrow> Task \<Rightarrow> Task" where
  "woken tick t =
    (let slept = (case tk_sleep_started_at t of Some start \<Rightarrow> sat_sub tick start | None \<Rightarrow> 0)
     in t\<lparr>tk_sleep_started_at := None,
          tk_sleep_credit := min MAX_SLEEP_CREDIT (sat_add (tk_sleep_credit t) (sat_mul slept WAKE_CREDIT_PER_TICK)),
          tk_state := Ready, tk_deficit := task_quantum (tk_class t) (tk_nice t)\<rparr>)"

definition wake_task :: "u64 \<Rightarrow> Scheduler \<Rightarrow> Scheduler exec" where
  "wake_task task_id s = do {
     t \<leftarrow> task_of s task_id;
     if tk_state t \<noteq> Blocked then Some s
     else do {
       s \<leftarrow> task_mut task_id (woken (sc_global_tick s)) s;
       enqueue_task task_id s } }"

definition exit_current :: "nat \<Rightarrow> SchedWorld \<Rightarrow> (u64 option \<times> SchedWorld) exec" where
  "exit_current cpu w = do {
     rq \<leftarrow> cpu_of (sw_sched w) cpu;
     s \<leftarrow> (case rq_current_task rq of
             None \<Rightarrow> Some (sw_sched w)
           | Some task_id \<Rightarrow> do {
               s \<leftarrow> cpu_mut cpu (\<lambda>rq. rq\<lparr>rq_current_task := None\<rparr>) (sw_sched w);
               task_mut task_id (\<lambda>t. t\<lparr>tk_state := Exited, tk_queued := False\<rparr>) s });
     pick_next_task cpu None (w\<lparr>sw_sched := s\<rparr>) }"

definition sched_start :: "SchedWorld \<Rightarrow> (u64 option \<times> SchedWorld) exec" where
  "sched_start w = pick_next_task 0 None (w\<lparr>sw_sched := (sw_sched w)\<lparr>sc_started := True\<rparr>\<rparr>)"

definition current_task_id :: "nat \<Rightarrow> SchedWorld \<Rightarrow> u64 option exec" where
  "current_task_id cpu w = map_option (\<lambda>tid. if tid = 0 then None else Some tid) (vec_get (sw_current_task_ids w) cpu)"

text \<open>
  The timer entry: \<open>current_ctx\<close> is the interrupted context with its address, absent for a null
  pointer; an interrupt from user mode is not rescheduled.
\<close>

definition scheduler_timer_tick :: "nat \<Rightarrow> (u64 \<times> SavedTaskContext) option \<Rightarrow> SchedWorld \<Rightarrow> (u64 \<times> SchedWorld) exec" where
  "scheduler_timer_tick cpu current_ctx w =
    (case current_ctx of
       None \<Rightarrow> Some (0, w)
     | Some (addr, ctx) \<Rightarrow>
        (if ctx_cs ctx AND 3 = 3 then Some (addr, w) else on_timer_tick cpu addr w))"

end
