(* ===== verification/Sched_Inv.thy ===== *)
theory Sched_Inv
  imports Sched
begin

text \<open>
  The scheduler's invariant: the task table is consistent, and every run queue refers to known tasks
  that belong to its processor.  The primitive updates keep it (\<open>steady\<close>), refilling deficits
  changes nothing else (\<open>quiet\<close>), and looking for a task of a class finds one exactly when the
  class has a runnable one.
\<close>

section \<open>The invariant\<close>

text \<open>
  A run queue holds, in its queues and as its current task, known tasks that belong to its processor.
\<close>

definition rq_ok :: "(u64 \<rightharpoonup> Task) \<Rightarrow> nat \<Rightarrow> CpuRunQueue \<Rightarrow> bool" where
  "rq_ok T c rq \<longleftrightarrow> rq_id rq = c \<and> length (rq_queues rq) = NUM_CLASSES \<and> length (rq_class_deficits rq) = NUM_CLASSES \<and>
    (\<forall>q \<in> set (rq_queues rq). \<forall>tid \<in> set q. \<exists>t. T tid = Some t \<and> tk_last_cpu t = c) \<and>
    (\<forall>tid. rq_current_task rq = Some tid \<longrightarrow> (\<exists>t. T tid = Some t \<and> tk_last_cpu t = c))"

definition task_ok :: "nat \<Rightarrow> Task \<Rightarrow> bool" where
  "task_ok n t \<longleftrightarrow> tk_last_cpu t < n \<and> unat (tk_runnable_avg t) \<le> 1024 \<and> unat (tk_stack t) + 65536 < 2 ^ 64"

definition lookup_ok :: "Scheduler \<Rightarrow> bool" where
  "lookup_ok s \<longleftrightarrow> (\<forall>tid i. map_of (sc_task_lookup s) tid = Some i \<longrightarrow>
     i < length (sc_tasks s) \<and> tk_id (sc_tasks s ! i) = tid)"

definition sched_inv :: "Scheduler \<Rightarrow> bool" where
  "sched_inv s \<longleftrightarrow> lookup_ok s \<and> sc_cpus s \<noteq> [] \<and>
    (\<forall>tid t. task_of s tid = Some t \<longrightarrow> task_ok (length (sc_cpus s)) t) \<and>
    (\<forall>c < length (sc_cpus s). rq_ok (task_of s) c (sc_cpus s ! c))"

lemma task_of_lookup: "lookup_ok s \<Longrightarrow> task_of s tid = map_option (\<lambda>i. sc_tasks s ! i) (map_of (sc_task_lookup s) tid)"
  by (cases "map_of (sc_task_lookup s) tid") (auto simp: task_of_def task_index_def lookup_ok_def exec_simps)

lemma task_of_id: "lookup_ok s \<Longrightarrow> task_of s tid = Some t \<Longrightarrow> tk_id t = tid"
  by (auto simp: task_of_lookup lookup_ok_def)

lemma task_of_cong [simp]:
  "task_of (s\<lparr>sc_cpus := c\<rparr>) = task_of s" "lookup_ok (s\<lparr>sc_cpus := c\<rparr>) = lookup_ok s"
  "task_of (s\<lparr>sc_global_tick := g\<rparr>) = task_of s" "lookup_ok (s\<lparr>sc_global_tick := g\<rparr>) = lookup_ok s"
  "task_of (s\<lparr>sc_started := b\<rparr>) = task_of s" "lookup_ok (s\<lparr>sc_started := b\<rparr>) = lookup_ok s"
  "task_of (s\<lparr>sc_next_task_id := x\<rparr>) = task_of s" "lookup_ok (s\<lparr>sc_next_task_id := x\<rparr>) = lookup_ok s"
  by (simp_all add: task_of_def task_index_def lookup_ok_def fun_eq_iff)

text \<open>The two primitive updates, on the view of the scheduler as a map of tasks and a list of queues.\<close>

lemma task_mut_ok:
  assumes ok: "lookup_ok s" and t: "task_of s tid = Some t" and tid: "tk_id (f t) = tid"
  obtains s' where "task_mut tid f s = Some s'" "lookup_ok s'" "task_of s' = (task_of s)(tid \<mapsto> f t)"
    "sc_cpus s' = sc_cpus s" "sc_global_tick s' = sc_global_tick s" "sc_started s' = sc_started s"
    "sc_task_lookup s' = sc_task_lookup s" "sc_next_task_id s' = sc_next_task_id s"
proof -
  obtain i where i: "map_of (sc_task_lookup s) tid = Some i" "t = sc_tasks s ! i" "i < length (sc_tasks s)"
    using ok t by (auto simp: task_of_lookup lookup_ok_def)
  let ?s = "s\<lparr>sc_tasks := (sc_tasks s)[i := f t]\<rparr>"
  have other: "j \<noteq> i" if "map_of (sc_task_lookup s) u = Some j" "u \<noteq> tid" for u j
    using ok that i(1) unfolding lookup_ok_def by metis
  have "lookup_ok ?s" using ok tid i other by (auto simp: lookup_ok_def nth_list_update)
  moreover have "task_of ?s = (task_of s)(tid \<mapsto> f t)"
    using other i ok \<open>lookup_ok ?s\<close> by (auto simp: fun_eq_iff task_of_lookup nth_list_update map_option_case split: option.split)
  moreover have "task_mut tid f s = Some ?s"
    using i by (simp add: task_mut_def task_index_def exec_simps)
  ultimately show ?thesis by (intro that[of ?s]) auto
qed

lemma cpu_mut_ok: "c < length (sc_cpus s) \<Longrightarrow> cpu_mut c f s = Some (s\<lparr>sc_cpus := (sc_cpus s)[c := f (sc_cpus s ! c)]\<rparr>)"
  by (simp add: cpu_mut_def cpu_of_def exec_simps)

lemma cpu_of_ok: "c < length (sc_cpus s) \<Longrightarrow> cpu_of s c = Some (sc_cpus s ! c)"
  by (simp add: cpu_of_def exec_simps)

lemma class_queue_ok:
  "sched_inv s \<Longrightarrow> c < length (sc_cpus s) \<Longrightarrow> k < NUM_CLASSES \<Longrightarrow> class_queue s c k = Some (rq_queues (sc_cpus s ! c) ! k)"
  by (simp add: class_queue_def cpu_of_ok sched_inv_def rq_ok_def exec_simps)

lemma sched_inv_queue:
  assumes "sched_inv s" "c < length (sc_cpus s)" "k < NUM_CLASSES" "tid \<in> set (rq_queues (sc_cpus s ! c) ! k)"
  obtains t where "task_of s tid = Some t" "tk_last_cpu t = c"
proof -
  have "rq_queues (sc_cpus s ! c) ! k \<in> set (rq_queues (sc_cpus s ! c))"
    using assms by (intro nth_mem) (simp add: sched_inv_def rq_ok_def)
  then show ?thesis using assms that unfolding sched_inv_def rq_ok_def by blast
qed

text \<open>Tasks may change as long as they stay on their processor.\<close>

lemma rq_ok_task_upd:
  assumes "rq_ok T c rq" "T tid = Some t" "tk_last_cpu t' = tk_last_cpu t"
  shows "rq_ok (T(tid \<mapsto> t')) c rq"
  using assms unfolding rq_ok_def by fastforce

lemma sched_inv_task:
  assumes inv: "sched_inv s" and t: "task_of s tid = Some t"
    and s': "lookup_ok s'" "task_of s' = (task_of s)(tid \<mapsto> t')" "sc_cpus s' = sc_cpus s"
    and t': "tk_last_cpu t' = tk_last_cpu t" "unat (tk_runnable_avg t') \<le> 1024" "tk_stack t' = tk_stack t"
  shows "sched_inv s'"
proof -
  have "task_ok (length (sc_cpus s)) t'" using inv t t' by (auto simp: sched_inv_def task_ok_def)
  moreover have "rq_ok ((task_of s)(tid \<mapsto> t')) c (sc_cpus s ! c)" if "c < length (sc_cpus s)" for c
    using inv that t t'(1) by (intro rq_ok_task_upd[where t = t]) (auto simp: sched_inv_def)
  ultimately show ?thesis using inv s' unfolding sched_inv_def by simp
qed

lemma sched_inv_cpu:
  assumes "sched_inv s" "c < length (sc_cpus s)" "rq_ok (task_of s) c rq"
  shows "sched_inv (s\<lparr>sc_cpus := (sc_cpus s)[c := rq]\<rparr>)"
  using assms by (auto simp: sched_inv_def nth_list_update)

lemma sched_inv_misc [simp]:
  "sched_inv (s\<lparr>sc_global_tick := g\<rparr>) = sched_inv s" "sched_inv (s\<lparr>sc_started := b\<rparr>) = sched_inv s"
  "sched_inv (s\<lparr>sc_next_task_id := x\<rparr>) = sched_inv s"
  by (simp_all add: sched_inv_def)

text \<open>
  \<open>steady\<close>: the scheduler keeps its invariant, its processors, its task numbers and the processor of
  every task.
\<close>

definition steady :: "Scheduler \<Rightarrow> Scheduler \<Rightarrow> bool" where
  "steady s s' \<longleftrightarrow> sched_inv s' \<and> length (sc_cpus s') = length (sc_cpus s) \<and>
     sc_next_task_id s' = sc_next_task_id s \<and> sc_started s' = sc_started s \<and>
     (\<forall>tid. map_option tk_last_cpu (task_of s' tid) = map_option tk_last_cpu (task_of s tid))"

lemma steady_refl: "sched_inv s \<Longrightarrow> steady s s"
  and steady_trans: "steady s t \<Longrightarrow> steady t u \<Longrightarrow> steady s u"
  by (auto simp: steady_def)

lemma steady_known: "steady s s' \<Longrightarrow> task_of s tid = Some t \<Longrightarrow> \<exists>t'. task_of s' tid = Some t' \<and> tk_last_cpu t' = tk_last_cpu t"
  unfolding steady_def by (metis map_option_eq_Some option.simps(9))

lemma task_mut_steady:
  assumes inv: "sched_inv s" and t: "task_of s tid = Some t"
    and f: "tk_id (f t) = tk_id t" "tk_last_cpu (f t) = tk_last_cpu t" "unat (tk_runnable_avg (f t)) \<le> 1024" "tk_stack (f t) = tk_stack t"
  shows "\<exists>s'. task_mut tid f s = Some s' \<and> steady s s' \<and> task_of s' = (task_of s)(tid \<mapsto> f t) \<and> sc_cpus s' = sc_cpus s \<and>
    sc_global_tick s' = sc_global_tick s \<and> sc_started s' = sc_started s \<and> sc_next_task_id s' = sc_next_task_id s"
proof -
  have ok: "lookup_ok s" using inv by (simp add: sched_inv_def)
  have "tk_id (f t) = tid" using f(1) task_of_id[OF ok t] by simp
  from task_mut_ok[where f = f, OF ok t this] obtain s' where s': "task_mut tid f s = Some s'" "lookup_ok s'"
    "task_of s' = (task_of s)(tid \<mapsto> f t)" "sc_cpus s' = sc_cpus s" "sc_global_tick s' = sc_global_tick s"
    "sc_started s' = sc_started s" "sc_next_task_id s' = sc_next_task_id s" by metis
  moreover have "steady s s'"
    using sched_inv_task[OF inv t s'(2-4) f(2,3,4)] s' t f(2) by (auto simp: steady_def)
  ultimately show ?thesis by blast
qed

lemma task_avg: "sched_inv s \<Longrightarrow> task_of s tid = Some t \<Longrightarrow> unat (tk_runnable_avg t) \<le> 1024"
  by (auto simp: sched_inv_def task_ok_def)

lemma cpu_mut_steady:
  assumes "sched_inv s" "c < length (sc_cpus s)" "rq_ok (task_of s) c (f (sc_cpus s ! c))"
  shows "\<exists>s'. cpu_mut c f s = Some s' \<and> steady s s' \<and> task_of s' = task_of s \<and>
    sc_cpus s' = (sc_cpus s)[c := f (sc_cpus s ! c)] \<and> sc_global_tick s' = sc_global_tick s"
  using sched_inv_cpu[OF assms] by (simp add: cpu_mut_ok[OF assms(2)] steady_def)

lemma TaskClass_index_less [simp]: "TaskClass_index c < NUM_CLASSES"
  by (cases c) auto

lemma TaskClass_index_from [simp]: "k < NUM_CLASSES \<Longrightarrow> TaskClass_index (TaskClass_from_index k) = k"
  by (auto simp: TaskClass_from_index_def)

lemma rq_ok_set_queue:
  assumes "rq_ok T c rq" "k < NUM_CLASSES" "\<forall>tid \<in> set q. \<exists>t. T tid = Some t \<and> tk_last_cpu t = c"
  shows "rq_ok T c (set_queue k q rq)"
proof -
  have "set ((rq_queues rq)[k := q]) \<subseteq> insert q (set (rq_queues rq))" by (rule set_update_subset_insert)
  then show ?thesis using assms unfolding rq_ok_def set_queue_def by auto
qed

text \<open>
  \<open>keeps tid\<close>: no other task has changed and no queue has lost a task.
\<close>

definition queue_of :: "Scheduler \<Rightarrow> nat \<Rightarrow> nat \<Rightarrow> u64 list" where
  "queue_of s cpu k = rq_queues (sc_cpus s ! cpu) ! k"

definition keeps :: "u64 \<Rightarrow> Scheduler \<Rightarrow> Scheduler \<Rightarrow> bool" where
  "keeps tid s s' \<longleftrightarrow> (\<forall>u. u \<noteq> tid \<longrightarrow> task_of s' u = task_of s u) \<and> (\<forall>c k. set (queue_of s c k) \<subseteq> set (queue_of s' c k))"

lemma keeps_refl: "keeps tid s s"
  and keeps_trans: "keeps tid s t \<Longrightarrow> keeps tid t u \<Longrightarrow> keeps tid s u"
  unfolding keeps_def subset_eq by simp_all

lemma enqueue_task_steady:
  assumes inv: "sched_inv s" and t: "task_of s tid = Some t"
  shows "\<exists>s'. enqueue_task tid s = Some s' \<and> steady s s' \<and> keeps tid s s'"
proof (cases "tk_state t = Ready \<and> \<not> tk_queued t")
  case False
  then show ?thesis using t steady_refl[OF inv] by (auto simp: enqueue_task_def keeps_refl)
next
  case True
  let ?c = "tk_last_cpu t" and ?k = "TaskClass_index (tk_class t)"
  have c: "?c < length (sc_cpus s)" using inv t by (auto simp: sched_inv_def task_ok_def)
  have len: "length (rq_queues (sc_cpus s ! ?c)) = NUM_CLASSES" using inv c by (simp add: sched_inv_def rq_ok_def)
  let ?q = "rq_queues (sc_cpus s ! ?c) ! ?k"
  have "\<exists>t'. task_of s u = Some t' \<and> tk_last_cpu t' = ?c" if "u \<in> set ?q" for u
    using sched_inv_queue[OF inv c TaskClass_index_less that] by blast
  then have "\<forall>u \<in> set (?q @ [tid]). \<exists>t'. task_of s u = Some t' \<and> tk_last_cpu t' = ?c" using t by simp
  then have "rq_ok (task_of s) ?c (set_queue ?k (?q @ [tid]) (sc_cpus s ! ?c))"
    using inv c by (intro rq_ok_set_queue) (auto simp: sched_inv_def)
  from cpu_mut_steady[where f = "set_queue ?k (?q @ [tid])", OF inv c this]
  obtain s1 where s1: "cpu_mut ?c (set_queue ?k (?q @ [tid])) s = Some s1" "steady s s1" "task_of s1 = task_of s"
    "sc_cpus s1 = (sc_cpus s)[?c := set_queue ?k (?q @ [tid]) (sc_cpus s ! ?c)]" by blast
  have "sched_inv s1" using s1(2) by (simp add: steady_def)
  moreover have "task_of s1 tid = Some t" using s1(3) t by simp
  ultimately obtain s2 where s2: "task_mut tid (\<lambda>t. t\<lparr>tk_queued := True\<rparr>) s1 = Some s2" "steady s1 s2"
    "task_of s2 = (task_of s1)(tid \<mapsto> t\<lparr>tk_queued := True\<rparr>)" "sc_cpus s2 = sc_cpus s1"
    using task_mut_steady[of s1 tid t "\<lambda>t. t\<lparr>tk_queued := True\<rparr>"] task_avg[OF inv t] by auto
  have "set (queue_of s c' k) \<subseteq> set (queue_of s2 c' k)" for c' k
    using c len s1(4) s2(4) by (cases "c' = ?c"; cases "k = ?k") (auto simp: queue_of_def set_queue_def)
  then have "keeps tid s s2" using s1(3) s2(3) by (simp add: keeps_def)
  then show ?thesis using True t s1 s2 steady_trans by (auto simp: enqueue_task_def class_queue_ok[OF inv c])
qed

section \<open>Looking for a task\<close>

text \<open>\<open>quiet\<close>: nothing but deficits of tasks has changed.\<close>

definition but_deficit :: "Task \<Rightarrow> Task" where
  "but_deficit t = t\<lparr>tk_deficit := 0\<rparr>"

definition quiet :: "Scheduler \<Rightarrow> Scheduler \<Rightarrow> bool" where
  "quiet s s' \<longleftrightarrow> steady s s' \<and> sc_cpus s' = sc_cpus s \<and>
     (\<forall>tid. map_option but_deficit (task_of s' tid) = map_option but_deficit (task_of s tid))"

lemma quiet_refl: "sched_inv s \<Longrightarrow> quiet s s"
  and quiet_trans: "quiet s t \<Longrightarrow> quiet t u \<Longrightarrow> quiet s u"
  using steady_trans by (auto simp: quiet_def steady_refl)

lemma but_deficit_fields:
  assumes "but_deficit t = but_deficit t'"
  shows "tk_state t = tk_state t'" "effective_vruntime t = effective_vruntime t'" "tk_nice t = tk_nice t'"
    "tk_last_cpu t = tk_last_cpu t'" "tk_class t = tk_class t'"
proof -
  have "f (but_deficit t) = f (but_deficit t')" for f :: "Task \<Rightarrow> 'b" using assms by simp
  note eq = this
  show "tk_state t = tk_state t'" using eq[of tk_state] by (simp add: but_deficit_def)
  show "tk_nice t = tk_nice t'" using eq[of tk_nice] by (simp add: but_deficit_def)
  show "tk_last_cpu t = tk_last_cpu t'" using eq[of tk_last_cpu] by (simp add: but_deficit_def)
  show "tk_class t = tk_class t'" using eq[of tk_class] by (simp add: but_deficit_def)
  show "effective_vruntime t = effective_vruntime t'"
    using eq[of tk_vruntime] eq[of tk_sleep_credit] by (simp add: but_deficit_def effective_vruntime_def)
qed

lemma quiet_task:
  assumes "quiet s s'" "task_of s tid = Some t"
  obtains t' where "task_of s' tid = Some t'" "but_deficit t' = but_deficit t"
  using assms unfolding quiet_def by (metis map_option_eq_Some option.simps(9))

lemma refilled_pos: "1 \<le> q \<Longrightarrow> 1 \<le> refilled d q"
  by (auto simp: refilled_def)

lemma task_quantum_pos: "1 \<le> task_quantum c n"
  by (simp add: task_quantum_def)

lemma refill_tasks_quiet:
  assumes "sched_inv s" "\<forall>tid \<in> set ids. task_of s tid \<noteq> None"
  shows "\<exists>s'. refill_tasks cl ids s = Some s' \<and> quiet s s' \<and>
    (\<forall>tid t. task_of s' tid = Some t \<longrightarrow> tk_state t = Ready \<longrightarrow>
       tid \<in> set ids \<or> (\<exists>u. task_of s tid = Some u \<and> 1 \<le> tk_deficit u) \<longrightarrow> 1 \<le> tk_deficit t)"
  using assms
proof (induction ids arbitrary: s)
  case Nil
  then show ?case using quiet_refl by auto
next
  case (Cons a ids)
  then obtain t where t: "task_of s a = Some t" by force
  define f where "f = (\<lambda>t :: Task. if tk_state t \<noteq> Ready then t
            else t\<lparr>tk_deficit := refilled (tk_deficit t) (task_quantum cl (tk_nice t))\<rparr>)"
  have "tk_id (f t) = tk_id t" "tk_last_cpu (f t) = tk_last_cpu t" "unat (tk_runnable_avg (f t)) \<le> 1024" "tk_stack (f t) = tk_stack t"
    using task_avg[OF Cons.prems(1) t] by (simp_all add: f_def)
  from task_mut_steady[of s a t f, OF Cons.prems(1) t this] obtain s1 where
    s1: "task_mut a f s = Some s1" "steady s s1" "task_of s1 = (task_of s)(a \<mapsto> f t)" "sc_cpus s1 = sc_cpus s" by blast
  have bd: "but_deficit (f t) = but_deficit t" by (simp add: f_def but_deficit_def)
  then have q: "quiet s s1" using s1 t by (simp add: quiet_def)
  have inv1: "sched_inv s1" using s1(2) by (simp add: steady_def)
  have "\<forall>tid \<in> set ids. task_of s1 tid \<noteq> None" using Cons.prems(2) s1(3) by simp
  from Cons.IH[OF inv1 this] obtain s2 where s2: "refill_tasks cl ids s1 = Some s2" "quiet s1 s2"
    "\<forall>tid t. task_of s2 tid = Some t \<longrightarrow> tk_state t = Ready \<longrightarrow>
       tid \<in> set ids \<or> (\<exists>u. task_of s1 tid = Some u \<and> 1 \<le> tk_deficit u) \<longrightarrow> 1 \<le> tk_deficit t" by blast
  have "1 \<le> tk_deficit t'" if t': "task_of s2 tid = Some t'" "tk_state t' = Ready"
    and src: "tid \<in> set (a # ids) \<or> (\<exists>u. task_of s tid = Some u \<and> 1 \<le> tk_deficit u)" for tid t'
  proof -
    have "\<exists>u. task_of s1 tid = Some u \<and> 1 \<le> tk_deficit u" if "tid = a"
    proof -
      obtain u where u: "task_of s2 a = Some u" "but_deficit u = but_deficit (f t)"
        using quiet_task[OF s2(2), of a "f t"] s1(3) by auto
      then have "tk_state t = Ready" using t' that but_deficit_fields(1)[of u t] bd by simp
      then show ?thesis using s1(3) that refilled_pos[OF task_quantum_pos] by (simp add: f_def)
    qed
    then show ?thesis using s2(3) t' src s1(3) by (cases "tid = a") auto
  qed
  then show ?case using s1(1) s2 quiet_trans[OF q s2(2)] by (auto simp: f_def)
qed

text \<open>The scan returns an eligible task of the queue if there is one.\<close>

definition eligible :: "Scheduler \<Rightarrow> u64 \<Rightarrow> bool" where
  "eligible s tid \<longleftrightarrow> (\<exists>t. task_of s tid = Some t \<and> tk_state t = Ready \<and> 0 < tk_deficit t \<and> effective_vruntime t < - 1)"

lemma best_task_ok:
  assumes "\<forall>tid \<in> set ids. task_of s tid \<noteq> None" "snd best \<le> - 1"
    "\<forall>tid. fst best = Some tid \<longrightarrow> P tid" "\<forall>tid \<in> set ids. eligible s tid \<longrightarrow> P tid"
    "fst best = None \<longrightarrow> snd best = - 1"
  shows "\<exists>r v. best_task s ids best = Some (r, v) \<and> (\<forall>tid. r = Some tid \<longrightarrow> P tid) \<and>
    (r = None \<longrightarrow> fst best = None \<and> (\<forall>tid \<in> set ids. \<not> eligible s tid))"
  using assms
proof (induction ids arbitrary: best)
  case Nil
  then show ?case by (cases best) auto
next
  case (Cons a ids)
  then obtain t where t: "task_of s a = Some t" by force
  let ?b = "if tk_state t \<noteq> Ready \<or> tk_deficit t \<le> 0 then best
        else if effective_vruntime t < snd best then (Some a, effective_vruntime t) else best"
  have le: "snd ?b \<le> - 1" using Cons.prems(2) by (auto simp: word_coorder.extremum)
  have "eligible s a" if "\<not> (tk_state t \<noteq> Ready \<or> tk_deficit t \<le> 0)" "effective_vruntime t < snd best"
    using that t less_le_trans[OF that(2) Cons.prems(2)] by (auto simp: eligible_def)
  then have "\<forall>tid. fst ?b = Some tid \<longrightarrow> P tid" "fst ?b = None \<longrightarrow> snd ?b = - 1" using Cons.prems by auto
  from Cons.IH[OF _ le this(1) _ this(2)] Cons.prems obtain r v where
    "best_task s ids ?b = Some (r, v)" "\<forall>tid. r = Some tid \<longrightarrow> P tid"
    "r = None \<longrightarrow> fst ?b = None \<and> (\<forall>tid \<in> set ids. \<not> eligible s tid)" by auto
  moreover have "\<not> eligible s a" if "fst ?b = None" "fst best = None"
    using that t Cons.prems(5) by (auto simp: eligible_def split: if_split_asm)
  ultimately show ?case using t by (auto split: if_split_asm)
qed


text \<open>Taking the best task removes it from its queue; finding none changes nothing.\<close>

lemma remove_at_subset: "set (remove_at i xs) \<subseteq> set xs"
  by (auto simp: remove_at_def dest: in_set_takeD in_set_dropD)

lemma queue_known:
  assumes "sched_inv s" "cpu < length (sc_cpus s)" "k < NUM_CLASSES" "tid \<in> set (queue_of s cpu k)"
  shows "\<exists>t. task_of s tid = Some t \<and> tk_last_cpu t = cpu"
  using sched_inv_queue[OF assms(1-3)] assms(4) unfolding queue_of_def by blast

lemma take_best_ok:
  assumes inv: "sched_inv s" and c: "cpu < length (sc_cpus s)"
  shows "\<exists>r s'. take_best cpu cl s = Some (r, s') \<and>
    (r = None \<longrightarrow> s' = s \<and> (\<forall>tid \<in> set (queue_of s cpu (TaskClass_index cl)). \<not> eligible s tid)) \<and>
    (\<forall>tid. r = Some tid \<longrightarrow> tid \<in> set (queue_of s cpu (TaskClass_index cl)) \<and> eligible s tid \<and> steady s s' \<and>
       (\<exists>t. task_of s tid = Some t \<and> task_of s' tid = Some (t\<lparr>tk_queued := False\<rparr>)))"
proof -
  let ?k = "TaskClass_index cl"
  let ?q = "queue_of s cpu ?k"
  have cq: "class_queue s cpu ?k = Some ?q" unfolding queue_of_def by (rule class_queue_ok[OF inv c]) simp
  have known: "\<forall>tid \<in> set ?q. task_of s tid \<noteq> None" using queue_known[OF inv c TaskClass_index_less] by blast
  from best_task_ok[of ?q s "(None, - 1)" "\<lambda>tid. tid \<in> set ?q \<and> eligible s tid"] known
  obtain r v where best: "best_task s ?q (None, - 1) = Some (r, v)" "\<forall>tid. r = Some tid \<longrightarrow> tid \<in> set ?q \<and> eligible s tid"
    "r = None \<longrightarrow> (\<forall>tid \<in> set ?q. \<not> eligible s tid)" by auto
  show ?thesis
  proof (cases r)
    case None
    then show ?thesis using best cq by (simp add: take_best_def)
  next
    case (Some tid)
    with best have tid: "tid \<in> set ?q" "eligible s tid" by auto
    then obtain t where t: "task_of s tid = Some t" by (auto simp: eligible_def)
    have "position (\<lambda>x. x = tid) ?q \<noteq> None" using tid(1) by (simp add: position_None)
    then obtain i where i: "position (\<lambda>x. x = tid) ?q = Some i" by blast
    have "\<forall>u \<in> set (remove_at i ?q). \<exists>t. task_of s u = Some t \<and> tk_last_cpu t = cpu"
      using remove_at_subset[of i ?q] queue_known[OF inv c TaskClass_index_less] by blast
    then have "rq_ok (task_of s) cpu (set_queue ?k (remove_at i ?q) (sc_cpus s ! cpu))"
      using inv c by (intro rq_ok_set_queue) (auto simp: sched_inv_def)
    from cpu_mut_steady[where f = "set_queue ?k (remove_at i ?q)", OF inv c this] obtain s1 where s1: "cpu_mut cpu (set_queue ?k (remove_at i ?q)) s = Some s1"
      "steady s s1" "task_of s1 = task_of s" by blast
    have inv1: "sched_inv s1" "task_of s1 tid = Some t" using s1 t by (auto simp: steady_def)
    from task_mut_steady[OF this, of "\<lambda>t. t\<lparr>tk_queued := False\<rparr>"] task_avg[OF inv1]
    obtain s2 where s2: "task_mut tid (\<lambda>t. t\<lparr>tk_queued := False\<rparr>) s1 = Some s2" "steady s1 s2"
      "task_of s2 = (task_of s1)(tid \<mapsto> t\<lparr>tk_queued := False\<rparr>)" by auto
    have "take_best cpu cl s = Some (Some tid, s2)" using best Some cq i s1 s2 by (simp add: take_best_def)
    then show ?thesis using tid t s1 s2 steady_trans[OF s1(2) s2(2)] by auto
  qed
qed

text \<open>A task that could run: ready, with a virtual runtime that is not saturated.\<close>

definition runnable :: "Scheduler \<Rightarrow> u64 \<Rightarrow> bool" where
  "runnable s tid \<longleftrightarrow> (\<exists>t. task_of s tid = Some t \<and> tk_state t = Ready \<and> effective_vruntime t < - 1)"

lemma runnable_same:
  assumes "map_option but_deficit (task_of s' tid) = map_option but_deficit (task_of s tid)"
  shows "runnable s tid \<longleftrightarrow> runnable s' tid"
proof (cases "task_of s tid")
  case None
  then show ?thesis using assms by (simp add: runnable_def)
next
  case (Some t)
  then obtain t' where "task_of s' tid = Some t'" "but_deficit t' = but_deficit t" using assms by auto
  then show ?thesis using Some but_deficit_fields(1,2)[of t' t] by (simp add: runnable_def)
qed

lemma runnable_quiet: "quiet s s' \<Longrightarrow> runnable s tid \<longleftrightarrow> runnable s' tid"
  by (rule runnable_same) (simp add: quiet_def)

lemma pick_task_from_class_ok:
  assumes inv: "sched_inv s" and c: "cpu < length (sc_cpus s)"
  shows "\<exists>r s'. pick_task_from_class cpu cl s = Some (r, s') \<and>
    (r = None \<longrightarrow> quiet s s' \<and> (\<forall>tid \<in> set (queue_of s cpu (TaskClass_index cl)). \<not> runnable s tid)) \<and>
    (\<forall>tid. r = Some tid \<longrightarrow> tid \<in> set (queue_of s cpu (TaskClass_index cl)) \<and> runnable s tid \<and> steady s s' \<and>
       task_of s' tid \<noteq> None)"
proof -
  let ?k = "TaskClass_index cl"
  let ?q = "queue_of s cpu ?k"
  have el: "eligible u tid \<Longrightarrow> runnable u tid" for u tid by (auto simp: eligible_def runnable_def)
  from take_best_ok[OF inv c, of cl] obtain r s1 where tb: "take_best cpu cl s = Some (r, s1)"
    "r = None \<longrightarrow> s1 = s"
    "\<forall>tid. r = Some tid \<longrightarrow> tid \<in> set ?q \<and> eligible s tid \<and> steady s s1 \<and> task_of s1 tid \<noteq> None" by auto
  show ?thesis
  proof (cases r)
    case (Some tid)
    then show ?thesis using tb el by (auto simp: pick_task_from_class_def)
  next
    case None
    have cq: "class_queue s cpu ?k = Some ?q" unfolding queue_of_def by (rule class_queue_ok[OF inv c]) simp
    have known: "\<forall>tid \<in> set ?q. task_of s tid \<noteq> None" using queue_known[OF inv c TaskClass_index_less] by blast
    from refill_tasks_quiet[OF inv this, of cl] obtain s2 where s2: "refill_tasks cl ?q s = Some s2" "quiet s s2"
      "\<forall>tid t. task_of s2 tid = Some t \<longrightarrow> tk_state t = Ready \<longrightarrow> tid \<in> set ?q \<longrightarrow> 1 \<le> tk_deficit t" by blast
    have inv2: "sched_inv s2" "cpu < length (sc_cpus s2)" and q2: "queue_of s2 cpu ?k = ?q"
      using s2(2) c by (auto simp: quiet_def steady_def queue_of_def)
    have el2: "eligible s2 tid \<longleftrightarrow> runnable s tid" if "tid \<in> set ?q" for tid
      unfolding runnable_quiet[OF s2(2)] using that s2(3) by (fastforce simp: eligible_def runnable_def)
    from take_best_ok[OF inv2, of cl] obtain r' s3 where tb2: "take_best cpu cl s2 = Some (r', s3)"
      "r' = None \<longrightarrow> s3 = s2 \<and> (\<forall>tid \<in> set ?q. \<not> eligible s2 tid)"
      "\<forall>tid. r' = Some tid \<longrightarrow> tid \<in> set ?q \<and> eligible s2 tid \<and> steady s2 s3 \<and> task_of s3 tid \<noteq> None"
      unfolding q2 by auto
    have "pick_task_from_class cpu cl s = Some (r', s3)"
      using tb None s2(1) cq tb2(1) by (simp add: pick_task_from_class_def refill_task_deficits_def)
    moreover have "steady s s2" using s2(2) by (simp add: quiet_def)
    ultimately show ?thesis using tb2 el2 s2(2) steady_trans by auto
  qed
qed

end
