(* ===== verification/Sched_Pick.thy ===== *)
theory Sched_Pick
  imports Sched_Inv
begin

text \<open>
  \<^verbatim>\<open>pick_next_task\<close>: two sweeps over the classes, with a refill of the class deficits after each, find a task
  whenever the processor's queues hold a runnable one.
\<close>

section \<open>Refilling the classes\<close>

lemma has_ready_ok:
  assumes inv: "sched_inv s" and c: "cpu < length (sc_cpus s)" and k: "k < NUM_CLASSES"
  shows "has_ready_task_in_class s cpu k =
    Some (\<exists>tid \<in> set (queue_of s cpu k). \<exists>t. task_of s tid = Some t \<and> tk_state t = Ready)"
proof -
  define any where "any = (\<lambda>tid acc. case acc of None \<Rightarrow> None | Some True \<Rightarrow> Some True
       | Some False \<Rightarrow> map_option (\<lambda>t. tk_state t = Ready) (task_of s tid))"
  have "fold any q (Some b) = Some (b \<or> (\<exists>tid \<in> set q. \<exists>t. task_of s tid = Some t \<and> tk_state t = Ready))"
    if "\<forall>tid \<in> set q. task_of s tid \<noteq> None" for q b
    using that
  proof (induction q arbitrary: b)
    case (Cons a q)
    then obtain t where "task_of s a = Some t" by force
    then show ?case using Cons by (cases b) (auto simp: any_def)
  qed simp
  moreover have "\<forall>tid \<in> set (queue_of s cpu k). task_of s tid \<noteq> None" using queue_known[OF inv c k] by blast
  ultimately show ?thesis
    using class_queue_ok[OF inv c k] by (simp add: has_ready_task_in_class_def any_def[symmetric] queue_of_def)
qed

text \<open>\<open>same_but_deficits\<close>: only the deficits of the classes of one processor have changed.\<close>

definition same_but_deficits :: "nat \<Rightarrow> Scheduler \<Rightarrow> Scheduler \<Rightarrow> bool" where
  "same_but_deficits cpu s s' \<longleftrightarrow> steady s s' \<and> task_of s' = task_of s \<and>
    (\<exists>d. length d = NUM_CLASSES \<and> sc_cpus s' = (sc_cpus s)[cpu := (sc_cpus s ! cpu)\<lparr>rq_class_deficits := d\<rparr>])"

lemma same_but_deficits_queue: "same_but_deficits cpu s s' \<Longrightarrow> cpu < length (sc_cpus s) \<Longrightarrow> queue_of s' cpu k = queue_of s cpu k"
  by (auto simp: same_but_deficits_def queue_of_def)

lemma same_but_deficits_refl: "sched_inv s \<Longrightarrow> cpu < length (sc_cpus s) \<Longrightarrow> same_but_deficits cpu s s"
  unfolding same_but_deficits_def
  by (intro conjI exI[of _ "rq_class_deficits (sc_cpus s ! cpu)"]) (auto simp: steady_refl sched_inv_def rq_ok_def)

lemma same_but_deficits_trans:
  "cpu < length (sc_cpus s) \<Longrightarrow> same_but_deficits cpu s t \<Longrightarrow> same_but_deficits cpu t u \<Longrightarrow> same_but_deficits cpu s u"
  unfolding same_but_deficits_def using steady_trans by auto

abbreviation class_deficit :: "Scheduler \<Rightarrow> nat \<Rightarrow> nat \<Rightarrow> int" where
  "class_deficit s cpu k \<equiv> rq_class_deficits (sc_cpus s ! cpu) ! k"

definition class_ready :: "Scheduler \<Rightarrow> nat \<Rightarrow> nat \<Rightarrow> bool" where
  "class_ready s cpu k \<longleftrightarrow> (\<exists>tid \<in> set (queue_of s cpu k). \<exists>t. task_of s tid = Some t \<and> tk_state t = Ready)"

lemma class_ready_same:
  assumes "same_but_deficits cpu s s'" "cpu < length (sc_cpus s)"
  shows "class_ready s' cpu k = class_ready s cpu k"
  unfolding class_ready_def same_but_deficits_queue[OF assms] using assms(1) by (simp add: same_but_deficits_def)

lemma CLASS_QUANTA_pos: "k < NUM_CLASSES \<Longrightarrow> 1 \<le> CLASS_QUANTA ! k"
  by (auto simp: less_Suc_eq numeral_nat CLASS_QUANTA_def)

lemma refill_classes_ok:
  assumes "sched_inv s" "cpu < length (sc_cpus s)" "\<forall>k \<in> set ks. k < NUM_CLASSES"
  shows "\<exists>s'. refill_classes cpu ks s = Some s' \<and> same_but_deficits cpu s s' \<and>
    (\<forall>k < NUM_CLASSES. class_ready s cpu k \<longrightarrow> k \<in> set ks \<or> 1 \<le> class_deficit s cpu k \<longrightarrow> 1 \<le> class_deficit s' cpu k)"
  using assms
proof (induction ks arbitrary: s)
  case Nil
  then show ?case using same_but_deficits_refl by auto
next
  case (Cons k ks)
  then have k: "k < NUM_CLASSES" by simp
  let ?rq = "sc_cpus s ! cpu"
  define f where "f = (\<lambda>rq :: CpuRunQueue. rq\<lparr>rq_class_deficits := (rq_class_deficits rq)[k :=
                   refilled (rq_class_deficits rq ! k) (CLASS_QUANTA ! k)]\<rparr>)"
  have ready: "has_ready_task_in_class s cpu (TaskClass_index (TaskClass_from_index k)) = Some (class_ready s cpu k)"
    using has_ready_ok[OF Cons.prems(1,2) k] k by (simp add: class_ready_def)
  have len: "length (rq_class_deficits ?rq) = NUM_CLASSES" using Cons.prems by (simp add: sched_inv_def rq_ok_def)
  have "rq_ok (task_of s) cpu (f ?rq)" using Cons.prems by (simp add: sched_inv_def rq_ok_def f_def)
  from cpu_mut_steady[where f = f, OF Cons.prems(1,2) this] obtain s1 where
    s1: "cpu_mut cpu f s = Some s1" "steady s s1" "task_of s1 = task_of s" "sc_cpus s1 = (sc_cpus s)[cpu := f ?rq]" by blast
  let ?s = "if class_ready s cpu k then s1 else s"
  have same: "same_but_deficits cpu s ?s"
    using s1 len same_but_deficits_refl[OF Cons.prems(1,2)]
    by (auto simp: same_but_deficits_def f_def intro!: exI[of _ "(rq_class_deficits ?rq)[k := refilled (rq_class_deficits ?rq ! k) (CLASS_QUANTA ! k)]"])
  have inv1: "sched_inv ?s" "cpu < length (sc_cpus ?s)" using s1(2) Cons.prems by (simp_all add: steady_def)
  from Cons.IH[OF this] Cons.prems(3) obtain s2 where s2: "refill_classes cpu ks ?s = Some s2" "same_but_deficits cpu ?s s2"
    "\<forall>j < NUM_CLASSES. class_ready ?s cpu j \<longrightarrow> j \<in> set ks \<or> 1 \<le> class_deficit ?s cpu j \<longrightarrow> 1 \<le> class_deficit s2 cpu j"
    by auto
  have rd: "class_ready ?s cpu j = class_ready s cpu j" for j
    by (rule class_ready_same[OF same Cons.prems(2)])
  have "1 \<le> class_deficit ?s cpu j"
    if "j < NUM_CLASSES" "class_ready s cpu j" "j = k \<or> 1 \<le> class_deficit s cpu j" for j
    using that s1(4) Cons.prems(2) len k refilled_pos[OF CLASS_QUANTA_pos[OF k]] by (cases "j = k") (auto simp: f_def)
  then have "1 \<le> class_deficit s2 cpu j"
    if "j < NUM_CLASSES" "class_ready s cpu j" "j \<in> set (k # ks) \<or> 1 \<le> class_deficit s cpu j" for j
    using that s2(3) rd by auto
  moreover have "refill_classes cpu (k # ks) s = Some s2"
    using ready s1(1) s2(1) by (cases "class_ready s cpu k") (simp_all add: f_def)
  ultimately show ?case using same_but_deficits_trans[OF Cons.prems(2) same s2(2)] by blast
qed

lemma refill_class_deficits_ok:
  assumes "sched_inv s" "cpu < length (sc_cpus s)"
  shows "\<exists>s'. refill_class_deficits cpu s = Some s' \<and> same_but_deficits cpu s s' \<and>
    (\<forall>k < NUM_CLASSES. class_ready s cpu k \<longrightarrow> 1 \<le> class_deficit s' cpu k)"
  using refill_classes_ok[OF assms, of "[0..<NUM_CLASSES]"] by (auto simp: refill_class_deficits_def simp del: upt_rec_numeral)

section \<open>Switching to a task\<close>

definition world_inv :: "SchedWorld \<Rightarrow> bool" where
  "world_inv w \<longleftrightarrow> sched_inv (sw_sched w) \<and> length (sc_cpus (sw_sched w)) \<le> MAX_CPUS \<and>
     length (sw_current_task_ids w) = MAX_CPUS"

text \<open>\<open>runs w cpu tid rsp\<close>: the processor has been given to the task, to be resumed at \<open>rsp\<close>.\<close>

definition runs :: "SchedWorld \<Rightarrow> nat \<Rightarrow> u64 \<Rightarrow> u64 \<Rightarrow> bool" where
  "runs w cpu tid rsp \<longleftrightarrow> rq_current_task (sc_cpus (sw_sched w) ! cpu) = Some tid \<and> sw_current_task_ids w ! cpu = tid \<and>
     (\<exists>t. task_of (sw_sched w) tid = Some t \<and> tk_state t = Running \<and> tk_last_cpu t = cpu \<and> tk_saved_rsp t = rsp)"

lemma kernel_stack_top_ok: "task_ok n t \<Longrightarrow> \<exists>top. kernel_stack_top t = Some top"
  by (simp add: kernel_stack_top_def stack_end_def task_ok_def cadd_def)

lemma publish_ok:
  assumes "world_inv w" "cpu < length (sc_cpus (sw_sched w))" "task_of (sw_sched w) tid = Some t"
  shows "\<exists>w'. publish cpu tid w = Some w' \<and> sw_sched w' = sw_sched w \<and> world_inv w' \<and> sw_current_task_ids w' ! cpu = tid"
proof -
  have "task_ok (length (sc_cpus (sw_sched w))) t" using assms by (auto simp: world_inv_def sched_inv_def)
  then obtain top where "kernel_stack_top t = Some top" using kernel_stack_top_ok by blast
  then show ?thesis using assms by (simp add: publish_def world_inv_def vec_set_def)
qed

lemma give_cpu_ok:
  assumes w: "world_inv w" "cpu < length (sc_cpus (sw_sched w))"
    and t: "task_of (sw_sched w) tid = Some t" "tk_last_cpu t = cpu" "tk_state t = Running"
  shows "\<exists>s w'. cpu_mut cpu (\<lambda>rq. rq\<lparr>rq_current_task := Some tid\<rparr>) (sw_sched w) = Some s \<and>
    publish cpu tid (w\<lparr>sw_sched := s\<rparr>) = Some w' \<and> world_inv w' \<and> steady (sw_sched w) (sw_sched w') \<and> runs w' cpu tid (tk_saved_rsp t)"
proof -
  have inv: "sched_inv (sw_sched w)" using w by (simp add: world_inv_def)
  then have "rq_ok (task_of (sw_sched w)) cpu ((\<lambda>rq. rq\<lparr>rq_current_task := Some tid\<rparr>) (sc_cpus (sw_sched w) ! cpu))"
    using w(2) t by (simp add: sched_inv_def rq_ok_def)
  from cpu_mut_steady[where f = "\<lambda>rq. rq\<lparr>rq_current_task := Some tid\<rparr>", OF inv w(2) this] obtain s where
    s: "cpu_mut cpu (\<lambda>rq. rq\<lparr>rq_current_task := Some tid\<rparr>) (sw_sched w) = Some s" "steady (sw_sched w) s"
      "task_of s = task_of (sw_sched w)" "sc_cpus s = (sc_cpus (sw_sched w))[cpu := (sc_cpus (sw_sched w) ! cpu)\<lparr>rq_current_task := Some tid\<rparr>]"
    by blast
  have "world_inv (w\<lparr>sw_sched := s\<rparr>)" using w s(2) by (simp add: world_inv_def steady_def)
  from publish_ok[OF this, of cpu tid t] obtain w' where w': "publish cpu tid (w\<lparr>sw_sched := s\<rparr>) = Some w'"
    "sw_sched w' = s" "world_inv w'" "sw_current_task_ids w' ! cpu = tid" using w(2) s t by auto
  moreover have "runs w' cpu tid (tk_saved_rsp t)" using w' s t w(2) by (simp add: runs_def)
  ultimately show ?thesis using s by auto
qed

lemma switch_to_ok:
  assumes w: "world_inv w" "cpu < length (sc_cpus (sw_sched w))" "class_idx < NUM_CLASSES"
    and t: "task_of (sw_sched w) tid = Some t" "tk_last_cpu t = cpu"
  shows "\<exists>w'. switch_to cpu class_idx tid previous w = Some (tk_saved_rsp t, w') \<and> world_inv w' \<and>
    steady (sw_sched w) (sw_sched w') \<and> runs w' cpu tid (tk_saved_rsp t)"
proof -
  have inv: "sched_inv (sw_sched w)" using w by (simp add: world_inv_def)
  define f where "f = (\<lambda>rq :: CpuRunQueue. rq\<lparr>rq_class_cursor := (class_idx + 1) mod NUM_CLASSES,
            rq_class_deficits := (rq_class_deficits rq)[class_idx := rq_class_deficits rq ! class_idx - 1]\<rparr>)"
  define g where "g = (\<lambda>t :: Task. let t = t\<lparr>tk_state := Running, tk_last_cpu := cpu\<rparr>;
                t = (if Some tid \<noteq> previous then t\<lparr>tk_slice_ticks := 0\<rparr> else t);
                t = (if tk_deficit t \<le> 0 then t\<lparr>tk_deficit := task_quantum (tk_class t) (tk_nice t)\<rparr> else t)
            in t\<lparr>tk_deficit := tk_deficit t - 1\<rparr>)"
  have gt: "tk_id (g t) = tk_id t" "tk_last_cpu (g t) = tk_last_cpu t" "tk_runnable_avg (g t) = tk_runnable_avg t"
    "tk_stack (g t) = tk_stack t" "tk_saved_rsp (g t) = tk_saved_rsp t" "tk_state (g t) = Running"
    using t(2) by (simp_all add: g_def Let_def)
  have "rq_ok (task_of (sw_sched w)) cpu (f (sc_cpus (sw_sched w) ! cpu))"
    using inv w(2) by (simp add: sched_inv_def rq_ok_def f_def)
  from cpu_mut_steady[where f = f, OF inv w(2) this] obtain s1 where
    s1: "cpu_mut cpu f (sw_sched w) = Some s1" "steady (sw_sched w) s1" "task_of s1 = task_of (sw_sched w)" by blast
  have inv1: "sched_inv s1" "task_of s1 tid = Some t" using s1 t by (simp_all add: steady_def)
  from task_mut_steady[where f = g, OF inv1] gt task_avg[OF inv1] obtain s2 where
    s2: "task_mut tid g s1 = Some s2" "steady s1 s2" "task_of s2 = (task_of s1)(tid \<mapsto> g t)" by auto
  have "world_inv (w\<lparr>sw_sched := s2\<rparr>)" "cpu < length (sc_cpus s2)" using w s1(2) s2(2) by (simp_all add: world_inv_def steady_def)
  from give_cpu_ok[of "w\<lparr>sw_sched := s2\<rparr>" cpu tid "g t"] this gt t s2(3) obtain s3 w' where
    w': "cpu_mut cpu (\<lambda>rq. rq\<lparr>rq_current_task := Some tid\<rparr>) s2 = Some s3" "publish cpu tid (w\<lparr>sw_sched := s3\<rparr>) = Some w'"
      "world_inv w'" "steady s2 (sw_sched w')" "runs w' cpu tid (tk_saved_rsp t)" by auto
  have "switch_to cpu class_idx tid previous w = Some (tk_saved_rsp t, w')"
    using s1(1) s2(1,3) w'(1,2) gt unfolding switch_to_def f_def[symmetric] g_def[symmetric] by simp
  then show ?thesis using w' steady_trans[OF s1(2) steady_trans[OF s2(2) w'(4)]] by blast
qed


section \<open>Picking the next task\<close>

definition candidate :: "Scheduler \<Rightarrow> nat \<Rightarrow> nat \<Rightarrow> bool" where
  "candidate s cpu k \<longleftrightarrow> (\<exists>tid \<in> set (queue_of s cpu k). runnable s tid)"

lemma quiet_queue: "quiet s s' \<Longrightarrow> queue_of s' = queue_of s"
  by (simp add: quiet_def queue_of_def fun_eq_iff)

lemma quiet_candidate: "quiet s s' \<Longrightarrow> candidate s' cpu k = candidate s cpu k"
  using runnable_quiet[of s s'] by (simp add: candidate_def quiet_queue)

lemma candidate_ready: "candidate s cpu k \<Longrightarrow> class_ready s cpu k"
  by (auto simp: candidate_def class_ready_def runnable_def)

text \<open>
  What a search for a task has found: a task of the processor's queues that was runnable and now has
  the processor; or nothing.
\<close>

definition picked :: "SchedWorld \<Rightarrow> nat \<Rightarrow> SchedWorld \<Rightarrow> u64 \<Rightarrow> bool" where
  "picked w cpu w' rsp \<longleftrightarrow> steady (sw_sched w) (sw_sched w') \<and>
    (\<exists>tid k. k < NUM_CLASSES \<and> tid \<in> set (queue_of (sw_sched w) cpu k) \<and> runnable (sw_sched w) tid \<and> runs w' cpu tid rsp)"

lemma pick_sweep_ok:
  assumes "world_inv w" "cpu < length (sc_cpus (sw_sched w))"
  shows "\<exists>r w'. pick_sweep cpu previous offs w = Some (r, w') \<and> world_inv w' \<and>
    (\<forall>rsp. r = Some rsp \<longrightarrow> picked w cpu w' rsp) \<and>
    (r = None \<longrightarrow> quiet (sw_sched w) (sw_sched w') \<and> sw_current_task_ids w' = sw_current_task_ids w \<and>
      (\<forall>off \<in> set offs. let k = (rq_class_cursor (sc_cpus (sw_sched w) ! cpu) + off) mod NUM_CLASSES in
         class_deficit (sw_sched w) cpu k \<le> 0 \<or> \<not> candidate (sw_sched w) cpu k))"
  using assms
proof (induction offs arbitrary: w)
  case Nil
  then show ?case by (simp add: quiet_refl world_inv_def)
next
  case (Cons off offs)
  let ?s = "sw_sched w"
  let ?rq = "sc_cpus ?s ! cpu"
  let ?k = "(rq_class_cursor ?rq + off) mod NUM_CLASSES"
  have inv: "sched_inv ?s" using Cons.prems by (simp add: world_inv_def)
  have k: "?k < NUM_CLASSES" by simp
  have len: "length (rq_class_deficits ?rq) = NUM_CLASSES" using inv Cons.prems(2) by (simp add: sched_inv_def rq_ok_def)
  have head: "cpu_of ?s cpu = Some ?rq" "vec_get (rq_class_deficits ?rq) ?k = Some (class_deficit ?s cpu ?k)"
    using cpu_of_ok[OF Cons.prems(2)] len by (simp_all add: exec_simps)
  show ?case
  proof (cases "class_deficit ?s cpu ?k \<le> 0")
    case True
    then have "pick_sweep cpu previous (off # offs) w = pick_sweep cpu previous offs w" using head by simp
    with Cons.IH[OF Cons.prems] True show ?thesis by (auto simp: Let_def)
  next
    case False
    have ki: "TaskClass_index (TaskClass_from_index ?k) = ?k" using k by simp
    from pick_task_from_class_ok[OF inv Cons.prems(2), of "TaskClass_from_index ?k"] obtain r s1 where
      p: "pick_task_from_class cpu (TaskClass_from_index ?k) ?s = Some (r, s1)"
      "r = None \<longrightarrow> quiet ?s s1 \<and> \<not> candidate ?s cpu ?k"
      "\<forall>tid. r = Some tid \<longrightarrow> tid \<in> set (queue_of ?s cpu ?k) \<and> runnable ?s tid \<and> steady ?s s1 \<and> task_of s1 tid \<noteq> None"
      unfolding ki candidate_def by auto
    show ?thesis
    proof (cases r)
      case None
      let ?w = "w\<lparr>sw_sched := s1\<rparr>"
      have q: "quiet ?s s1" using p None by simp
      then have st: "world_inv ?w" "cpu < length (sc_cpus (sw_sched ?w))" "sc_cpus s1 = sc_cpus ?s"
        using Cons.prems by (auto simp: quiet_def steady_def world_inv_def)
      have eq: "pick_sweep cpu previous (off # offs) w = pick_sweep cpu previous offs ?w"
        using head False p None by simp
      from Cons.IH[OF st(1,2)] obtain r' w' where ih: "pick_sweep cpu previous offs ?w = Some (r', w')" "world_inv w'"
        "\<forall>rsp. r' = Some rsp \<longrightarrow> picked ?w cpu w' rsp"
        "r' = None \<longrightarrow> quiet s1 (sw_sched w') \<and> sw_current_task_ids w' = sw_current_task_ids w \<and>
          (\<forall>off \<in> set offs. let k = (rq_class_cursor ?rq + off) mod NUM_CLASSES in
             class_deficit ?s cpu k \<le> 0 \<or> \<not> candidate s1 cpu k)" using st(3) by auto
      have "picked w cpu w' rsp" if "picked ?w cpu w' rsp" for rsp
        using that q steady_trans[of ?s s1] unfolding picked_def
        by (auto simp: quiet_queue[OF q] runnable_quiet[OF q] quiet_def)
      then show ?thesis using ih eq quiet_trans[OF q] p(2) None by (auto simp: quiet_candidate[OF q] Let_def)
    next
      case (Some tid)
      with p have tid: "tid \<in> set (queue_of ?s cpu ?k)" "runnable ?s tid" "steady ?s s1" by auto
      from queue_known[OF inv Cons.prems(2) k tid(1)] steady_known[OF tid(3)] obtain t where
        t: "task_of s1 tid = Some t" "tk_last_cpu t = cpu" by metis
      let ?w = "w\<lparr>sw_sched := s1\<rparr>"
      have st: "world_inv ?w" "cpu < length (sc_cpus (sw_sched ?w))" using tid(3) Cons.prems by (auto simp: steady_def world_inv_def)
      from switch_to_ok[OF st k, of tid t previous] t obtain w' where
        w': "switch_to cpu ?k tid previous ?w = Some (tk_saved_rsp t, w')" "world_inv w'" "steady s1 (sw_sched w')"
        "runs w' cpu tid (tk_saved_rsp t)" by auto
      have "pick_sweep cpu previous (off # offs) w = Some (Some (tk_saved_rsp t), w')"
        using head False p(1) Some w'(1) by simp
      moreover have "picked w cpu w' (tk_saved_rsp t)"
        using tid(1,2) k w'(4) steady_trans[OF tid(3) w'(3)] unfolding picked_def by blast
      ultimately show ?thesis using w'(2) by simp
    qed
  qed
qed

lemma class_offsets: "k < NUM_CLASSES \<Longrightarrow> \<exists>off \<in> set [0..<NUM_CLASSES]. (c + off) mod NUM_CLASSES = k"
proof -
  assume "k < NUM_CLASSES"
  then have "(c + (k + 3 * c) mod 4) mod 4 = k" by presburger
  moreover have "(k + 3 * c) mod 4 < (4 :: nat)" by simp
  ultimately show ?thesis by (metis atLeastLessThan_iff le0 set_upt)
qed


lemma sweep_all_ok:
  assumes "world_inv w" "cpu < length (sc_cpus (sw_sched w))"
  shows "\<exists>r w'. pick_sweep cpu previous [0..<NUM_CLASSES] w = Some (r, w') \<and> world_inv w' \<and>
    (\<forall>rsp. r = Some rsp \<longrightarrow> picked w cpu w' rsp) \<and>
    (r = None \<longrightarrow> quiet (sw_sched w) (sw_sched w') \<and> sw_current_task_ids w' = sw_current_task_ids w \<and>
      (\<forall>k < NUM_CLASSES. class_deficit (sw_sched w) cpu k \<le> 0 \<or> \<not> candidate (sw_sched w) cpu k))"
proof -
  have all: "\<forall>k < NUM_CLASSES. P k" if "\<forall>off \<in> set [0..<NUM_CLASSES]. P ((c + off) mod NUM_CLASSES)" for P c
    using class_offsets[of _ c] that by metis
  show ?thesis
    using pick_sweep_ok[OF assms, of previous "[0..<NUM_CLASSES]"] all
      [of "\<lambda>k. class_deficit (sw_sched w) cpu k \<le> 0 \<or> \<not> candidate (sw_sched w) cpu k" "rq_class_cursor (sc_cpus (sw_sched w) ! cpu)"]
    unfolding Let_def by metis
qed

text \<open>The searches leave the tasks, the queues and the statics alone unless they find a task.\<close>

definition calm :: "SchedWorld \<Rightarrow> nat \<Rightarrow> SchedWorld \<Rightarrow> bool" where
  "calm w cpu w' \<longleftrightarrow> steady (sw_sched w) (sw_sched w') \<and> sw_current_task_ids w' = sw_current_task_ids w \<and>
    (\<forall>tid. map_option but_deficit (task_of (sw_sched w') tid) = map_option but_deficit (task_of (sw_sched w) tid)) \<and>
    queue_of (sw_sched w') cpu = queue_of (sw_sched w) cpu \<and>
    map rq_current_task (sc_cpus (sw_sched w')) = map rq_current_task (sc_cpus (sw_sched w))"

lemma calm_quiet: "quiet (sw_sched w) (sw_sched w') \<Longrightarrow> sw_current_task_ids w' = sw_current_task_ids w \<Longrightarrow> calm w cpu w'"
  by (simp add: calm_def quiet_def queue_of_def fun_eq_iff)

lemma calm_deficits:
  assumes "same_but_deficits cpu (sw_sched w) s'" "cpu < length (sc_cpus (sw_sched w))"
  shows "calm w cpu (w\<lparr>sw_sched := s'\<rparr>)"
proof -
  have "map rq_current_task (sc_cpus s') = map rq_current_task (sc_cpus (sw_sched w))"
    using assms by (auto simp: same_but_deficits_def map_update intro: nth_equalityI simp: nth_list_update)
  then show ?thesis
    using assms(1) same_but_deficits_queue[OF assms] by (simp add: calm_def same_but_deficits_def fun_eq_iff)
qed

lemma calm_trans: "calm w cpu w' \<Longrightarrow> calm w' cpu w'' \<Longrightarrow> calm w cpu w''"
  unfolding calm_def using steady_trans by auto

lemma calm_refl: "world_inv w \<Longrightarrow> calm w cpu w"
  by (simp add: calm_def world_inv_def steady_refl)

lemma calm_inv:
  assumes "calm w cpu w'" "world_inv w"
  shows "world_inv w'" "length (sc_cpus (sw_sched w')) = length (sc_cpus (sw_sched w))"
  using assms by (simp_all add: calm_def world_inv_def steady_def)

lemma calm_candidate: "calm w cpu w' \<Longrightarrow> candidate (sw_sched w') cpu k = candidate (sw_sched w) cpu k"
  using runnable_same[of "sw_sched w'" _ "sw_sched w"] by (simp add: calm_def candidate_def)

lemma calm_picked: "calm w cpu w' \<Longrightarrow> picked w' cpu w'' rsp \<Longrightarrow> picked w cpu w'' rsp"
  using runnable_same[of "sw_sched w'" _ "sw_sched w"] steady_trans unfolding calm_def picked_def by metis

lemma pick_rounds_ok:
  assumes "world_inv w" "cpu < length (sc_cpus (sw_sched w))"
  shows "\<exists>r w'. pick_rounds cpu previous n w = Some (r, w') \<and> world_inv w' \<and>
    (\<forall>rsp. r = Some rsp \<longrightarrow> picked w cpu w' rsp) \<and> (r = None \<longrightarrow> calm w cpu w' \<and>
      (\<forall>k < NUM_CLASSES. candidate (sw_sched w) cpu k \<longrightarrow>
         n = 0 \<or> n = 1 \<and> class_deficit (sw_sched w) cpu k \<le> 0))"
  using assms
proof (induction n arbitrary: w)
  case 0
  then show ?case using calm_refl by simp
next
  case (Suc n)
  from sweep_all_ok[OF Suc.prems, of previous] obtain r w1 where
    sw: "pick_sweep cpu previous [0..<NUM_CLASSES] w = Some (r, w1)" "world_inv w1" "\<forall>rsp. r = Some rsp \<longrightarrow> picked w cpu w1 rsp"
    "r = None \<longrightarrow> quiet (sw_sched w) (sw_sched w1) \<and> sw_current_task_ids w1 = sw_current_task_ids w \<and>
      (\<forall>k < NUM_CLASSES. class_deficit (sw_sched w) cpu k \<le> 0 \<or> \<not> candidate (sw_sched w) cpu k)" by blast
  show ?case
  proof (cases r)
    case (Some rsp)
    then show ?thesis using sw by (simp del: upt_rec_numeral)
  next
    case None
    with sw have q: "calm w cpu w1" using calm_quiet by blast
    have c1: "cpu < length (sc_cpus (sw_sched w1))" using calm_inv[OF q Suc.prems(1)] Suc.prems(2) by simp
    have inv1: "sched_inv (sw_sched w1)" using sw(2) by (simp add: world_inv_def)
    from refill_class_deficits_ok[OF inv1 c1] obtain s2 where s2: "refill_class_deficits cpu (sw_sched w1) = Some s2"
      "same_but_deficits cpu (sw_sched w1) s2" "\<forall>k < NUM_CLASSES. class_ready (sw_sched w1) cpu k \<longrightarrow> 1 \<le> class_deficit s2 cpu k" by blast
    let ?w2 = "w1\<lparr>sw_sched := s2\<rparr>"
    have q2: "calm w cpu ?w2" using calm_trans[OF q calm_deficits[OF s2(2) c1]] .
    have st: "world_inv ?w2" "cpu < length (sc_cpus (sw_sched ?w2))" using calm_inv[OF q2 Suc.prems(1)] Suc.prems(2) by simp_all
    from Suc.IH[OF this] obtain r' w' where ih: "pick_rounds cpu previous n ?w2 = Some (r', w')" "world_inv w'"
      "\<forall>rsp. r' = Some rsp \<longrightarrow> picked ?w2 cpu w' rsp" "r' = None \<longrightarrow> calm ?w2 cpu w' \<and>
      (\<forall>k < NUM_CLASSES. candidate s2 cpu k \<longrightarrow> n = 0 \<or> n = 1 \<and> class_deficit s2 cpu k \<le> 0)" by auto
    have eq: "pick_rounds cpu previous (Suc n) w = Some (r', w')" using sw(1) None s2(1) ih(1) by (simp del: upt_rec_numeral)
    have "Suc n = 0 \<or> Suc n = 1 \<and> class_deficit (sw_sched w) cpu k \<le> 0"
      if k: "r' = None" "k < NUM_CLASSES" "candidate (sw_sched w) cpu k" for k
    proof -
      have "candidate s2 cpu k" using calm_candidate[OF q2, of k] k(3) by simp
      moreover have "class_ready (sw_sched w1) cpu k" using calm_candidate[OF q, of k] k(3) candidate_ready by blast
      ultimately show ?thesis using ih(4) k s2(3) sw(4) None by fastforce
    qed
    moreover have "\<forall>rsp. r' = Some rsp \<longrightarrow> picked w cpu w' rsp" using ih(3) calm_picked[OF q2] by blast
    moreover have "r' = None \<longrightarrow> calm w cpu w'" using ih(4) calm_trans[OF q2] by blast
    ultimately show ?thesis using eq ih(2) by (intro exI[of _ r'] exI[of _ w'] conjI impI allI) simp_all
  qed
qed

lemma resume_ok:
  assumes w: "world_inv w" "cpu < length (sc_cpus (sw_sched w))"
    and t: "task_of (sw_sched w) tid = Some t" "tk_last_cpu t = cpu" "tk_state t = Ready \<or> tk_state t = Running"
  shows "\<exists>w'. resume_previous cpu tid w = Some (Some (tk_saved_rsp t), w') \<and> world_inv w' \<and>
    steady (sw_sched w) (sw_sched w') \<and> runs w' cpu tid (tk_saved_rsp t)"
proof -
  let ?f = "\<lambda>t :: Task. t\<lparr>tk_state := Running\<rparr>"
  have inv: "sched_inv (sw_sched w)" using w by (simp add: world_inv_def)
  from task_mut_steady[where f = ?f, OF inv t(1)] task_avg[OF inv t(1)] obtain s1 where
    s1: "task_mut tid ?f (sw_sched w) = Some s1" "steady (sw_sched w) s1" "task_of s1 = (task_of (sw_sched w))(tid \<mapsto> ?f t)" by auto
  have "world_inv (w\<lparr>sw_sched := s1\<rparr>)" "cpu < length (sc_cpus s1)" using w s1(2) by (simp_all add: world_inv_def steady_def)
  from give_cpu_ok[of "w\<lparr>sw_sched := s1\<rparr>" cpu tid "?f t"] this t s1(3) obtain s2 w' where
    w': "cpu_mut cpu (\<lambda>rq. rq\<lparr>rq_current_task := Some tid\<rparr>) s1 = Some s2" "publish cpu tid (w\<lparr>sw_sched := s2\<rparr>) = Some w'"
      "world_inv w'" "steady s1 (sw_sched w')" "runs w' cpu tid (tk_saved_rsp t)" by auto
  then show ?thesis using t s1 steady_trans[OF s1(2) w'(4)] by (simp add: resume_previous_def)
qed

lemma pick_next_task_ok:
  assumes w: "world_inv w" "cpu < length (sc_cpus (sw_sched w))"
    and prev: "\<forall>tid. previous = Some tid \<longrightarrow> (\<exists>t. task_of (sw_sched w) tid = Some t \<and> tk_last_cpu t = cpu)"
  shows "\<exists>r w'. pick_next_task cpu previous w = Some (r, w') \<and> world_inv w' \<and> steady (sw_sched w) (sw_sched w') \<and>
    (\<forall>rsp. r = Some rsp \<longrightarrow> (\<exists>tid. runs w' cpu tid rsp)) \<and>
    ((\<exists>k < NUM_CLASSES. candidate (sw_sched w) cpu k) \<longrightarrow> (\<exists>rsp. r = Some rsp \<and> picked w cpu w' rsp))"
proof -
  from pick_rounds_ok[OF w, of previous 2] obtain r w1 where pr: "pick_rounds cpu previous 2 w = Some (r, w1)" "world_inv w1"
    "\<forall>rsp. r = Some rsp \<longrightarrow> picked w cpu w1 rsp"
    "r = None \<longrightarrow> calm w cpu w1 \<and> (\<forall>k < NUM_CLASSES. \<not> candidate (sw_sched w) cpu k)" by auto
  show ?thesis
  proof (cases r)
    case (Some rsp)
    then show ?thesis using pr by (auto simp: pick_next_task_def picked_def)
  next
    case None
    with pr have q: "calm w cpu w1" and no: "\<not> (\<exists>k < NUM_CLASSES. candidate (sw_sched w) cpu k)" by auto
    have c1: "cpu < length (sc_cpus (sw_sched w1))" using calm_inv[OF q w(1)] w(2) by simp
    have st: "steady (sw_sched w) (sw_sched w1)" using q by (simp add: calm_def)
    show ?thesis
    proof (cases previous)
      case None
      then show ?thesis using pr(1,2) \<open>r = None\<close> no st c1 by (simp add: pick_next_task_def world_inv_def vec_set_def)
    next
      case (Some tid)
      from prev Some steady_known[OF st] obtain t where t: "task_of (sw_sched w1) tid = Some t" "tk_last_cpu t = cpu" by metis
      have eq: "pick_next_task cpu previous w = resume_previous cpu tid w1" using pr(1) \<open>r = None\<close> Some by (simp add: pick_next_task_def)
      show ?thesis
      proof (cases "tk_state t = Ready \<or> tk_state t = Running")
        case False
        then show ?thesis using eq t pr(2) st no by (simp add: resume_previous_def)
      next
        case True
        from resume_ok[OF pr(2) c1 t True] obtain w' where "resume_previous cpu tid w1 = Some (Some (tk_saved_rsp t), w')"
          "world_inv w'" "steady (sw_sched w1) (sw_sched w')" "runs w' cpu tid (tk_saved_rsp t)" by blast
        then show ?thesis using eq no steady_trans[OF st] by auto
      qed
    qed
  qed
qed

end
