(* ===== verification/Sched_Safety.thy ===== *)
theory Sched_Safety
  imports Sched_Pick "HOL-Library.Code_Target_Nat"
begin

text \<open>
  Safety and progress of the scheduler: the events of \<^verbatim>\<open>kernel/process.rs\<close> in any order keep its invariant and
  never panic, a tick hands the processor to a runnable task if there is one, new tasks start inside their
  own stacks and with fresh numbers; and what happens to a blocked task that is ticked.
\<close>

section \<open>Charging the running task\<close>

lemma runnable_avg_step:
  assumes "unat (a :: u64) \<le> 1024"
  shows "\<exists>b. cmul a 7 = Some b \<and> cadd b RUNNABLE_SCALE = Some (b + RUNNABLE_SCALE) \<and> unat ((b + RUNNABLE_SCALE) div 8) \<le> 1024"
proof -
  have m: "cmul a 7 = Some (a * 7)" using assms by (simp add: cmul_def)
  have u: "unat (a * 7) = unat a * 7" using assms by (subst unat_mult_lem[THEN iffD1]) simp_all
  have "unat (a * 7 + 1024) = unat a * 7 + 1024" using assms u by (subst unat_add_lem[THEN iffD1]) simp_all
  then show ?thesis using m u assms by (simp add: cadd_def unat_div)
qed

lemma charge_ok:
  assumes "unat (tk_runnable_avg t) \<le> 1024"
  shows "\<exists>t'. charge rsp t = Some t' \<and> tk_id t' = tk_id t \<and> tk_last_cpu t' = tk_last_cpu t \<and> tk_stack t' = tk_stack t \<and>
    unat (tk_runnable_avg t') \<le> 1024 \<and> tk_saved_rsp t' = rsp \<and>
    tk_state t' = (if tk_state t = Running then Ready else tk_state t)"
proof -
  from runnable_avg_step[OF assms] obtain b where "cmul (tk_runnable_avg t) 7 = Some b"
    "cadd b RUNNABLE_SCALE = Some (b + RUNNABLE_SCALE)" "unat ((b + RUNNABLE_SCALE) div 8) \<le> 1024" by blast
  then show ?thesis by (simp add: charge_def Let_def)
qed

lemma keeps_candidate:
  assumes "keeps tid s s'" "u \<noteq> tid" "u \<in> set (queue_of s c k)" "runnable s u"
  shows "candidate s' c k"
proof -
  have "u \<in> set (queue_of s' c k)" "runnable s' u" using assms by (auto simp: keeps_def runnable_def subset_eq)
  then show ?thesis by (auto simp: candidate_def)
qed

lemma keeps_task: "task_of s' = (task_of s)(tid \<mapsto> t) \<Longrightarrow> sc_cpus s' = sc_cpus s \<Longrightarrow> keeps tid s s'"
  by (simp add: keeps_def queue_of_def)

lemma clear_current_steady:
  assumes "sched_inv s" "cpu < length (sc_cpus s)"
  shows "\<exists>s'. cpu_mut cpu (\<lambda>rq. rq\<lparr>rq_current_task := None\<rparr>) s = Some s' \<and> steady s s' \<and> task_of s' = task_of s \<and>
    keeps tid s s'"
proof -
  have "rq_ok (task_of s) cpu ((\<lambda>rq. rq\<lparr>rq_current_task := None\<rparr>) (sc_cpus s ! cpu))"
    using assms by (simp add: sched_inv_def rq_ok_def)
  from cpu_mut_steady[where f = "\<lambda>rq. rq\<lparr>rq_current_task := None\<rparr>", OF assms this] obtain s' where
    s': "cpu_mut cpu (\<lambda>rq. rq\<lparr>rq_current_task := None\<rparr>) s = Some s'" "steady s s'" "task_of s' = task_of s"
    "sc_cpus s' = (sc_cpus s)[cpu := (sc_cpus s ! cpu)\<lparr>rq_current_task := None\<rparr>]" by blast
  have "queue_of s' c k = queue_of s c k" for c k
    using s'(4) assms(2) by (cases "c = cpu") (simp_all add: queue_of_def)
  then show ?thesis using s' by (simp add: keeps_def)
qed

lemma account_running_task_ok:
  assumes inv: "sched_inv s" and c: "cpu < length (sc_cpus s)" and t: "task_of s tid = Some t"
  shows "\<exists>s'. account_running_task cpu tid rsp s = Some s' \<and> steady s s' \<and> keeps tid s s'"
proof -
  from charge_ok[OF task_avg[OF inv t], of rsp] obtain t1 where t1: "charge rsp t = Some t1" "tk_id t1 = tk_id t"
    "tk_last_cpu t1 = tk_last_cpu t" "tk_stack t1 = tk_stack t" "unat (tk_runnable_avg t1) \<le> 1024" by blast
  from task_mut_steady[where f = "\<lambda>_. t1", OF inv t] t1 obtain s1 where
    s1: "task_mut tid (\<lambda>_. t1) s = Some s1" "steady s s1" "task_of s1 = (task_of s)(tid \<mapsto> t1)" "sc_cpus s1 = sc_cpus s" by auto
  have inv1: "sched_inv s1" "task_of s1 tid = Some t1" using s1 by (simp_all add: steady_def)
  let ?f = "\<lambda>t. t\<lparr>tk_class := running_class t\<rparr>"
  from task_mut_steady[where f = ?f, OF inv1] t1(5) obtain s2 where
    s2: "task_mut tid ?f s1 = Some s2" "steady s1 s2" "task_of s2 = (task_of s1)(tid \<mapsto> ?f t1)" "sc_cpus s2 = sc_cpus s1" by auto
  have inv2: "sched_inv s2" "task_of s2 tid = Some (?f t1)" using s2 by (simp_all add: steady_def)
  obtain s3 where s3: "(if tk_state (?f t1) = Ready then enqueue_task tid s2 else Some s2) = Some s3" "steady s2 s3" "keeps tid s2 s3"
    using enqueue_task_steady[OF inv2] steady_refl[OF inv2(1)] keeps_refl by (cases "tk_state (?f t1) = Ready") auto
  have st: "steady s s3" using steady_trans[OF s1(2) steady_trans[OF s2(2) s3(2)]] .
  then have "sched_inv s3" "cpu < length (sc_cpus s3)" using c by (simp_all add: steady_def)
  from clear_current_steady[OF this] obtain s4 where s4: "cpu_mut cpu (\<lambda>rq. rq\<lparr>rq_current_task := None\<rparr>) s3 = Some s4" "steady s3 s4" "keeps tid s3 s4" by blast
  have "keeps tid s s4"
    using keeps_trans[OF keeps_task[OF s1(3,4)] keeps_trans[OF keeps_task[OF s2(3,4)] keeps_trans[OF s3(3) s4(3)]]] .
  have "account_running_task cpu tid rsp s = Some s4"
    using t t1(1) s1(1) s2(1) inv2(2) s3(1) s4(1) by (simp add: account_running_task_def recompute_task_class_by_id_def)
  with \<open>keeps tid s s4\<close> show ?thesis using steady_trans[OF st s4(2)] by blast
qed

lemma current_known:
  assumes "sched_inv s" "cpu < length (sc_cpus s)" "rq_current_task (sc_cpus s ! cpu) = Some tid"
  shows "\<exists>t. task_of s tid = Some t \<and> tk_last_cpu t = cpu"
  using assms by (simp add: sched_inv_def rq_ok_def)

lemma account_current_ok:
  assumes s: "sched_inv s" "cpu < length (sc_cpus s)"
  shows "\<exists>s1. (case rq_current_task (sc_cpus s ! cpu) of
      Some tid \<Rightarrow> account_running_task cpu tid rsp s | None \<Rightarrow> Some s) = Some s1 \<and> steady s s1 \<and>
    (\<forall>u. rq_current_task (sc_cpus s ! cpu) \<noteq> Some u \<longrightarrow> (\<exists>tid. u \<noteq> tid \<and> keeps tid s s1))"
proof (cases "rq_current_task (sc_cpus s ! cpu)")
  case None
  have "\<exists>tid. u \<noteq> tid \<and> keeps tid s s" for u :: u64
    using keeps_refl[of "u + 1" s] by (intro exI[of _ "u + 1"]) simp
  then show ?thesis using None steady_refl[OF s(1)] by simp
next
  case (Some tid)
  with current_known[OF s] obtain t where "task_of s tid = Some t" by blast
  from account_running_task_ok[OF s this, of rsp] obtain s1 where
    "account_running_task cpu tid rsp s = Some s1" "steady s s1" "keeps tid s s1" by blast
  moreover from this have "\<exists>v. u \<noteq> v \<and> keeps v s s1" if "tid \<noteq> u" for u using that by (intro exI[of _ tid]) simp
  ultimately show ?thesis using Some by simp
qed

section \<open>The events keep the invariant\<close>

text \<open>
  A tick hands out the processor as long as another task than the running one is runnable in its queues.
\<close>

lemma on_timer_tick_ok:
  assumes w: "world_inv w" "cpu < length (sc_cpus (sw_sched w))"
  shows "\<exists>rsp' w'. on_timer_tick cpu rsp w = Some (rsp', w') \<and> world_inv w' \<and> steady (sw_sched w) (sw_sched w') \<and>
    (sc_started (sw_sched w) \<and> (\<exists>k < NUM_CLASSES. \<exists>u \<in> set (queue_of (sw_sched w) cpu k). runnable (sw_sched w) u \<and>
       rq_current_task (sc_cpus (sw_sched w) ! cpu) \<noteq> Some u) \<longrightarrow> (\<exists>tid. runs w' cpu tid rsp'))"
proof (cases "sc_started (sw_sched w)")
  case False
  then show ?thesis using w by (simp add: on_timer_tick_def world_inv_def steady_refl)
next
  case True
  let ?s = "(sw_sched w)\<lparr>sc_global_tick := sc_global_tick (sw_sched w) + 1\<rparr>"
  let ?cur = "rq_current_task (sc_cpus (sw_sched w) ! cpu)"
  have s: "sched_inv ?s" "cpu < length (sc_cpus ?s)" and st0: "steady (sw_sched w) ?s"
    using w by (simp_all add: world_inv_def steady_def)
  have known: "\<exists>t. task_of ?s tid = Some t \<and> tk_last_cpu t = cpu" if "?cur = Some tid" for tid
    using current_known[OF s] that by simp
  from account_current_ok[OF s, of rsp] obtain s1 where
    s1: "(case ?cur of Some tid \<Rightarrow> account_running_task cpu tid rsp ?s | None \<Rightarrow> Some ?s) = Some s1" "steady ?s s1"
      "\<forall>u. ?cur \<noteq> Some u \<longrightarrow> (\<exists>tid. u \<noteq> tid \<and> keeps tid ?s s1)" by auto
  let ?w = "w\<lparr>sw_sched := s1\<rparr>"
  have st1: "steady (sw_sched w) s1" using steady_trans[OF st0 s1(2)] .
  have w1: "world_inv ?w" "cpu < length (sc_cpus (sw_sched ?w))" using w st1 by (simp_all add: world_inv_def steady_def)
  have prev: "\<forall>tid. ?cur = Some tid \<longrightarrow> (\<exists>t. task_of (sw_sched ?w) tid = Some t \<and> tk_last_cpu t = cpu)"
    using known steady_known[OF s1(2)] by (metis SchedWorld.select_convs(1) SchedWorld.surjective SchedWorld.update_convs(1))
  from pick_next_task_ok[OF w1 prev] obtain r w2 where w2: "pick_next_task cpu ?cur ?w = Some (r, w2)" "world_inv w2" "steady s1 (sw_sched w2)"
    "(\<exists>k < NUM_CLASSES. candidate s1 cpu k) \<longrightarrow> (\<exists>rsp. r = Some rsp \<and> picked ?w cpu w2 rsp)" by auto
  have tick: "on_timer_tick cpu rsp w = Some (case r of Some rsp \<Rightarrow> rsp | None \<Rightarrow> rsp, w2)"
    using True s1(1) w2(1) cpu_of_ok[OF s(2)] by (simp add: on_timer_tick_def)
  have "\<exists>tid. runs w2 cpu tid (case r of Some rsp \<Rightarrow> rsp | None \<Rightarrow> rsp)"
    if h: "k < NUM_CLASSES" "u \<in> set (queue_of (sw_sched w) cpu k)" "runnable (sw_sched w) u" "?cur \<noteq> Some u" for k u
  proof -
    obtain tid where "u \<noteq> tid" "keeps tid ?s s1" using s1(3) h(4) by blast
    moreover have "u \<in> set (queue_of ?s cpu k)" "runnable ?s u" using h(2,3) by (simp_all add: queue_of_def runnable_def)
    ultimately have "candidate s1 cpu k" using keeps_candidate by blast
    then show ?thesis using w2(4) h(1) by (auto simp: picked_def)
  qed
  then show ?thesis using tick w2(2) steady_trans[OF st1 w2(3)] by blast
qed

lemma with_current_ok:
  assumes inv: "sched_inv s" and c: "cpu < length (sc_cpus s)"
    and f: "\<And>t. tk_id (f t) = tk_id t \<and> tk_last_cpu (f t) = tk_last_cpu t \<and> tk_runnable_avg (f t) = tk_runnable_avg t \<and> tk_stack (f t) = tk_stack t"
  shows "\<exists>s'. with_current cpu f s = Some s' \<and> steady s s'"
proof (cases "rq_current_task (sc_cpus s ! cpu)")
  case None
  then show ?thesis using cpu_of_ok[OF c] steady_refl[OF inv] by (simp add: with_current_def)
next
  case (Some tid)
  with current_known[OF inv c] obtain t where t: "task_of s tid = Some t" by blast
  from task_mut_steady[where f = f, OF inv t] f task_avg[OF inv t] Some show ?thesis
    using cpu_of_ok[OF c] by (auto simp: with_current_def)
qed

lemma wake_task_ok:
  assumes inv: "sched_inv s" and t: "task_of s tid = Some t"
  shows "\<exists>s'. wake_task tid s = Some s' \<and> steady s s'"
proof (cases "tk_state t = Blocked")
  case False
  then show ?thesis using t steady_refl[OF inv] by (simp add: wake_task_def)
next
  case True
  let ?f = "woken (sc_global_tick s)"
  have f: "tk_id (?f t) = tk_id t" "tk_last_cpu (?f t) = tk_last_cpu t" "tk_runnable_avg (?f t) = tk_runnable_avg t" "tk_stack (?f t) = tk_stack t"
    by (simp_all add: woken_def Let_def)
  from task_mut_steady[where f = ?f, OF inv t] f task_avg[OF inv t] obtain s1 where
    s1: "task_mut tid ?f s = Some s1" "steady s s1" "task_of s1 = (task_of s)(tid \<mapsto> ?f t)" by auto
  have inv1: "sched_inv s1" "task_of s1 tid = Some (?f t)" using s1 by (simp_all add: steady_def)
  from enqueue_task_steady[OF inv1] obtain s2 where "enqueue_task tid s1 = Some s2" "steady s1 s2" by blast
  then show ?thesis using True t s1 steady_trans[OF s1(2)] by (auto simp: wake_task_def)
qed

lemma exit_current_ok:
  assumes w: "world_inv w" "cpu < length (sc_cpus (sw_sched w))"
  shows "\<exists>r w'. exit_current cpu w = Some (r, w') \<and> world_inv w' \<and> steady (sw_sched w) (sw_sched w')"
proof -
  let ?s = "sw_sched w"
  let ?cur = "rq_current_task (sc_cpus ?s ! cpu)"
  let ?f = "\<lambda>t :: Task. t\<lparr>tk_state := Exited, tk_queued := False\<rparr>"
  have inv: "sched_inv ?s" using w by (simp add: world_inv_def)
  obtain s1 where s1: "(case ?cur of None \<Rightarrow> Some ?s | Some tid \<Rightarrow> do {
      s \<leftarrow> cpu_mut cpu (\<lambda>rq. rq\<lparr>rq_current_task := None\<rparr>) ?s; task_mut tid ?f s }) = Some s1" "steady ?s s1"
  proof (cases ?cur)
    case (Some tid)
    with current_known[OF inv w(2)] obtain t where t: "task_of ?s tid = Some t" by blast
    from clear_current_steady[OF inv w(2)] obtain s2 where s2: "cpu_mut cpu (\<lambda>rq. rq\<lparr>rq_current_task := None\<rparr>) ?s = Some s2"
      "steady ?s s2" "task_of s2 = task_of ?s" by blast
    have inv2: "sched_inv s2" "task_of s2 tid = Some t" using s2 t by (simp_all add: steady_def)
    from task_mut_steady[where f = ?f, OF inv2] task_avg[OF inv2] obtain s3 where
      "task_mut tid ?f s2 = Some s3" "steady s2 s3" by auto
    then show ?thesis using that Some s2 steady_trans[OF s2(2)] by simp
  qed (use steady_refl[OF inv] that in auto)
  let ?w = "w\<lparr>sw_sched := s1\<rparr>"
  have "world_inv ?w" "cpu < length (sc_cpus (sw_sched ?w))" using w s1(2) by (simp_all add: world_inv_def steady_def)
  from pick_next_task_ok[OF this, of None] obtain r w2 where w2: "pick_next_task cpu None ?w = Some (r, w2)" "world_inv w2" "steady s1 (sw_sched w2)" by auto
  then show ?thesis using s1 cpu_of_ok[OF w(2)] steady_trans[OF s1(2)] by (auto simp: exit_current_def)
qed


section \<open>New tasks\<close>

lemma min_by_key_in: "xs \<noteq> [] \<Longrightarrow> \<exists>x \<in> set xs. min_by_key f xs = Some x"
proof (induction xs)
  case (Cons a xs)
  then show ?case by (cases "xs = []") (auto split: option.splits)
qed simp

lemma select_cpu_for_task_ok:
  assumes inv: "sched_inv s" and t: "tk_last_cpu t < length (sc_cpus s)"
  shows "\<exists>c. select_cpu_for_task s t = Some c \<and> c < length (sc_cpus s)"
proof -
  have idle: "\<exists>b. cpu_is_idle s c = Some b" if "c < length (sc_cpus s)" for c
    using cpu_of_ok[OF that] by (simp add: cpu_is_idle_def)
  have "sc_cpus s \<noteq> []" using inv by (simp add: sched_inv_def)
  from min_by_key_in[OF this] obtain rq where rq: "rq \<in> set (sc_cpus s)" "min_by_key rq_load (sc_cpus s) = Some rq" by blast
  then obtain c where "c < length (sc_cpus s)" "sc_cpus s ! c = rq" by (auto simp: in_set_conv_nth)
  then have "rq_id rq < length (sc_cpus s)" using inv by (auto simp: sched_inv_def rq_ok_def)
  moreover obtain i where i: "cpu_is_idle s (tk_last_cpu t) = Some i" using idle[OF t] by blast
  moreover obtain p where p: "(case tk_preferred_cpu t of Some c \<Rightarrow> if c < length (sc_cpus s)
      then map_option (\<lambda>idle. if idle then Some c else None) (cpu_is_idle s c) else Some None | None \<Rightarrow> Some None) = Some p"
    "\<forall>c. p = Some c \<longrightarrow> c < length (sc_cpus s)"
  proof (cases "tk_preferred_cpu t")
    case (Some c)
    then show ?thesis using that idle[of c] by (cases "c < length (sc_cpus s)") auto
  qed (use that in simp)
  ultimately show ?thesis using rq(2) t by (cases i; cases p) (simp_all add: select_cpu_for_task_def)
qed

lemma rq_ok_fresh: "T tid = None \<Longrightarrow> rq_ok T c rq \<Longrightarrow> rq_ok (T(tid \<mapsto> t)) c rq"
  unfolding rq_ok_def by (metis fun_upd_other option.distinct(1))

text \<open>The task table after the push and the insertion of \<^verbatim>\<open>add_task\<close>.\<close>

lemma push_task_ok:
  assumes inv: "sched_inv s" and fresh: "task_of s (tk_id t) = None" and t: "task_ok (length (sc_cpus s)) t"
  defines "s' \<equiv> s\<lparr>sc_tasks := sc_tasks s @ [t], sc_task_lookup := bt_insert (tk_id t) (length (sc_tasks s)) (sc_task_lookup s)\<rparr>"
  shows "sched_inv s'" "task_of s' = (task_of s)(tk_id t \<mapsto> t)" "sc_cpus s' = sc_cpus s" "sc_next_task_id s' = sc_next_task_id s"
proof -
  have ok: "lookup_ok s" using inv by (simp add: sched_inv_def)
  then have ok': "lookup_ok s'" by (auto simp: lookup_ok_def s'_def nth_append intro: less_SucI)
  show to: "task_of s' = (task_of s)(tk_id t \<mapsto> t)"
    unfolding task_of_lookup[OF ok'] task_of_lookup[OF ok] fun_eq_iff
    using ok by (auto simp: s'_def lookup_ok_def nth_append map_option_case split: option.splits)
  have "rq_ok (task_of s') c (sc_cpus s ! c)" if "c < length (sc_cpus s)" for c
    unfolding to using inv that fresh by (intro rq_ok_fresh) (simp_all add: sched_inv_def)
  moreover have "sc_cpus s' = sc_cpus s" by (simp add: s'_def)
  ultimately show "sched_inv s'" using inv ok' t unfolding sched_inv_def to by simp
qed (simp_all add: s'_def)

definition ids_ok :: "Scheduler \<Rightarrow> bool" where
  "ids_ok s \<longleftrightarrow> (\<forall>tid. task_of s tid \<noteq> None \<longrightarrow> tid < sc_next_task_id s)"

lemma steady_ids: "steady s s' \<Longrightarrow> ids_ok s \<Longrightarrow> ids_ok s'"
  unfolding ids_ok_def steady_def by (metis option.map_disc_iff)

lemma add_task_ok:
  assumes inv: "sched_inv s" and fresh: "task_of s (tk_id t) = None"
    and t: "tk_last_cpu t = 0" "unat (tk_runnable_avg t) \<le> 1024" "unat (tk_stack t) + 65536 < 2 ^ 64"
  shows "\<exists>s' t'. add_task t s = Some s' \<and> sched_inv s' \<and> length (sc_cpus s') = length (sc_cpus s) \<and>
    sc_next_task_id s' = max (sc_next_task_id s) (sat_add (tk_id t) 1) \<and> dom (task_of s') = insert (tk_id t) (dom (task_of s))"
proof -
  have "tk_last_cpu t < length (sc_cpus s)" using inv t(1) by (auto simp: sched_inv_def)
  from select_cpu_for_task_ok[OF inv this] obtain c where c: "select_cpu_for_task s t = Some c" "c < length (sc_cpus s)" by blast
  let ?t1 = "recompute_task_class (t\<lparr>tk_last_cpu := c\<rparr>)"
  let ?t = "?t1\<lparr>tk_deficit := task_quantum (tk_class ?t1) (tk_nice ?t1)\<rparr>"
  have tid: "tk_id ?t = tk_id t" by (simp add: recompute_task_class_def)
  have "task_ok (length (sc_cpus s)) ?t" using c(2) t by (simp add: task_ok_def recompute_task_class_def)
  let ?s1 = "s\<lparr>sc_tasks := sc_tasks s @ [?t], sc_task_lookup := bt_insert (tk_id t) (length (sc_tasks s)) (sc_task_lookup s)\<rparr>"
  have s1: "sched_inv ?s1" "task_of ?s1 = (task_of s)(tk_id t \<mapsto> ?t)"
    using push_task_ok[OF inv _ \<open>task_ok (length (sc_cpus s)) ?t\<close>] fresh unfolding tid by blast+
  from enqueue_task_steady[OF s1(1), of "tk_id t" ?t] s1(2) obtain s2 where
    s2: "enqueue_task (tk_id t) ?s1 = Some s2" "steady ?s1 s2" by auto
  have "dom (task_of s2) = insert (tk_id t) (dom (task_of s))"
  proof -
    have "dom (task_of s2) = dom (task_of ?s1)" using s2(2) unfolding steady_def dom_def by (metis option.map_disc_iff)
    then show ?thesis using s1(2) by simp
  qed
  moreover have "add_task t s = Some (s2\<lparr>sc_next_task_id := max (sc_next_task_id s2) (sat_add (tk_id t) 1)\<rparr>)"
    using c(1) s2(1) by (simp add: add_task_def Let_def)
  ultimately show ?thesis using s2(2) by (simp add: steady_def)
qed

lemma align_down_16: "unat (align_down x 16) = unat x - unat x mod 16"
proof -
  have m: "x AND 15 = x mod 16"
    using take_bit_eq_mask[of 4 x] take_bit_eq_mod[of 4 x] by (simp add: mask_eq_exp_minus_1)
  have "x - (x AND 15) = x AND NOT (x AND 15)" by (rule disjunctive_diff) (simp add: bit_simps)
  also have "\<dots> = x AND NOT 15" by (rule bit_eqI) (auto simp: bit_simps)
  finally have "align_down x 16 = x - x mod 16" by (simp add: align_down_def m)
  moreover have "x mod 16 \<le> x" by (simp add: word_le_nat_alt unat_mod)
  ultimately show ?thesis by (simp add: unat_sub unat_mod)
qed

lemma stack_end_ok:
  assumes "unat (tk_stack t) + 65536 < 2 ^ 64"
  shows "\<exists>top. stack_end t = Some top \<and> unat top mod 16 = 0 \<and> unat (tk_stack t) + 65520 < unat top \<and> unat top \<le> unat (tk_stack t) + 65536"
proof -
  have u: "unat (tk_stack t + 65536) = unat (tk_stack t) + 65536" using assms by (subst unat_add_lem[THEN iffD1]) simp_all
  have "(a - a mod 16) mod 16 = 0" "a - a mod 16 \<le> a" "a < a - a mod 16 + 16" for a :: nat by presburger+
  from this[of "unat (tk_stack t) + 65536"] show ?thesis
    using assms u by (simp add: stack_end_def cadd_def align_down_16 del: unat_plus_if_size)
qed

text \<open>The first frame of a task lies in its own stack, above the reserve of the system call entry.\<close>

lemma Task_with_params_ok:
  assumes "unat stack + 65536 < 2 ^ 64"
  shows "\<exists>t ret ctx. Task_with_params tid th entry params stack tr cs ss = Some (t, (ret, tr), ctx) \<and> tk_id t = tid \<and> tk_last_cpu t = 0 \<and>
    tk_runnable_avg t = 0 \<and> tk_stack t = stack \<and> unat stack \<le> unat (tk_saved_rsp t) \<and>
    unat (tk_saved_rsp t) + 160 = unat ret \<and> unat ret + 8 \<le> unat stack + 65536 \<and> unat ret mod 16 = 8 \<and> ctx_rsp ctx = ret \<and> ctx_rip ctx = entry"
proof -
  let ?t = "fresh_task tid th stack params"
  have st: "tk_stack ?t = stack" by (simp add: fresh_task_def)
  with stack_end_ok[of ?t] assms obtain top where top: "stack_end ?t = Some top" "unat top mod 16 = 0"
    "unat stack + 65520 < unat top" "unat top \<le> unat stack + 65536" by auto
  have l1: "40 \<le> top" using top by (simp add: word_le_nat_alt)
  have u1: "unat (top - 40) = unat top - 40" using l1 by (simp add: unat_sub)
  have l2: "160 \<le> top - 40" using top u1 by (simp add: word_le_nat_alt)
  have u2: "unat (top - 40 - 160) = unat top - 200" using l2 u1 by (subst unat_sub) simp_all
  obtain q where q: "unat top = 16 * q" using top(2) by auto
  then have "unat top - 40 = 8 + 16 * (q - 3)" using top(3) by simp
  then have "(unat top - 40) mod 16 = 8" by simp
  moreover have "unat stack \<le> unat top - 200" "unat top - 40 \<le> 65528 + unat stack" using top(3,4) by linarith+
  ultimately show ?thesis using top l1 l2 u1 u2 st
    by (simp add: Task_with_params_def Let_def csub_def) (simp add: fresh_task_def)
qed


lemma Task_with_initial_context_ok:
  assumes "unat stack + 65536 < 2 ^ 64"
  shows "\<exists>t. Task_with_initial_context tid th ctx params stack = Some (t, ctx) \<and> tk_id t = tid \<and> tk_last_cpu t = 0 \<and>
    tk_runnable_avg t = 0 \<and> tk_stack t = stack \<and> unat stack \<le> unat (tk_saved_rsp t) \<and>
    unat (tk_saved_rsp t) + 160 \<le> unat stack + 65536 \<and> unat (tk_saved_rsp t) mod 16 = 0"
proof -
  let ?t = "fresh_task tid th stack params"
  have st: "tk_stack ?t = stack" by (simp add: fresh_task_def)
  with stack_end_ok[of ?t] assms obtain top where top: "stack_end ?t = Some top" "unat top mod 16 = 0"
    "unat stack + 65520 < unat top" "unat top \<le> unat stack + 65536" by auto
  have l1: "160 \<le> top" using top by (simp add: word_le_nat_alt)
  have u1: "unat (top - 160) = unat top - 160" using l1 by (simp add: unat_sub)
  obtain q where q: "unat top = 16 * q" using top(2) by auto
  then have "unat top - 160 = 16 * (q - 10)" by simp
  then have "(unat top - 160) mod 16 = 0" by simp
  moreover have "unat stack \<le> unat top - 160" "unat top - 160 + 160 \<le> 65536 + unat stack" using top(3,4) by linarith+
  ultimately show ?thesis using top l1 u1 st
    by (simp add: Task_with_initial_context_def Let_def csub_def) (simp add: fresh_task_def)
qed

section \<open>Sequences of events\<close>

text \<open>
  What the kernel asks of the scheduler, in any order and on any processor: the topology, a task number,
  a new kernel task (the boot code), a new task with a context (process and thread creation), the start,
  the timer interrupt, and the calls of the running code.
\<close>

datatype sched_event =
    Configure nat
  | Add u64 u64 u64 SchedParams u64 u64 u64 u64
  | AddContext u64 u64 SavedTaskContext SchedParams u64
  | AllocateId
  | Start
  | Tick nat u64
  | Yield nat
  | Block nat
  | Wake u64
  | Exit nat

definition on_sched :: "(Scheduler \<Rightarrow> Scheduler exec) \<Rightarrow> SchedWorld \<Rightarrow> SchedWorld exec" where
  "on_sched f w = map_option (\<lambda>s. w\<lparr>sw_sched := s\<rparr>) (f (sw_sched w))"

fun run_event :: "sched_event \<Rightarrow> SchedWorld \<Rightarrow> SchedWorld exec" where
  "run_event (Configure n) w = on_sched (\<lambda>s. Some (sched_configure_topology n s)) w" |
  "run_event (Add task_id thread_id entry params stack tr cs ss) w = on_sched (\<lambda>s. do {
     (task, _, _) \<leftarrow> Task_with_params task_id thread_id entry params stack tr cs ss;
     add_task task s }) w" |
  "run_event (AddContext task_id thread_id ctx params stack) w = on_sched (\<lambda>s. do {
     (task, _) \<leftarrow> Task_with_initial_context task_id thread_id ctx params stack;
     add_task task s }) w" |
  "run_event AllocateId w = on_sched (\<lambda>s. Some (snd (allocate_task_id s))) w" |
  "run_event Start w = map_option snd (sched_start w)" |
  "run_event (Tick cpu rsp) w = map_option snd (on_timer_tick cpu rsp w)" |
  "run_event (Yield cpu) w = on_sched (request_yield cpu) w" |
  "run_event (Block cpu) w = on_sched (block_current cpu) w" |
  "run_event (Wake task_id) w = on_sched (wake_task task_id) w" |
  "run_event (Exit cpu) w = map_option snd (exit_current cpu w)"

abbreviation stack_fits :: "u64 \<Rightarrow> bool" where
  "stack_fits stack \<equiv> unat stack + 65536 < 2 ^ 64"

fun valid_event :: "sched_event \<Rightarrow> SchedWorld \<Rightarrow> bool" where
  "valid_event (Configure n) w \<longleftrightarrow> n \<le> MAX_CPUS" |
  "valid_event (Add task_id _ _ _ stack _ _ _) w \<longleftrightarrow>
     stack_fits stack \<and> unat task_id + 1 < 2 ^ 64 \<and> task_index (sw_sched w) task_id = None" |
  "valid_event (AddContext task_id _ _ _ stack) w \<longleftrightarrow>
     stack_fits stack \<and> unat task_id + 1 < 2 ^ 64 \<and> task_index (sw_sched w) task_id = None" |
  "valid_event AllocateId w \<longleftrightarrow> True" |
  "valid_event Start w \<longleftrightarrow> True" |
  "valid_event (Tick cpu _) w \<longleftrightarrow> cpu < length (sc_cpus (sw_sched w))" |
  "valid_event (Yield cpu) w \<longleftrightarrow> cpu < length (sc_cpus (sw_sched w))" |
  "valid_event (Block cpu) w \<longleftrightarrow> cpu < length (sc_cpus (sw_sched w))" |
  "valid_event (Wake task_id) w \<longleftrightarrow> task_index (sw_sched w) task_id \<noteq> None" |
  "valid_event (Exit cpu) w \<longleftrightarrow> cpu < length (sc_cpus (sw_sched w))"

definition boot_world :: SchedWorld where
  "boot_world = \<lparr>sw_sched = Scheduler_new, sw_current_task_ids = replicate MAX_CPUS 0, sw_activations = [], sw_kernel_stack_top = 0\<rparr>"

inductive reachable :: "SchedWorld \<Rightarrow> bool" where
  boot: "reachable boot_world" |
  event: "reachable w \<Longrightarrow> valid_event e w \<Longrightarrow> run_event e w = Some w' \<Longrightarrow> reachable w'"

definition good :: "SchedWorld \<Rightarrow> bool" where
  "good w \<longleftrightarrow> world_inv w \<and> ids_ok (sw_sched w)"


lemma good_inv: "good w \<Longrightarrow> sched_inv (sw_sched w)"
  by (simp add: good_def world_inv_def)

lemma good_boot: "good boot_world"
proof -
  have "task_of Scheduler_new = (\<lambda>_. None)" by (simp add: fun_eq_iff task_of_def task_index_def Scheduler_new_def)
  then show ?thesis
    by (simp add: good_def world_inv_def boot_world_def sched_inv_def lookup_ok_def ids_ok_def)
      (simp add: Scheduler_new_def rq_ok_def CpuRunQueue_new_def)
qed

lemma good_steady: "good w \<Longrightarrow> steady (sw_sched w) s \<Longrightarrow> good (w\<lparr>sw_sched := s\<rparr>)"
  using steady_ids by (auto simp: good_def world_inv_def steady_def)

lemma good_configure:
  assumes "good w" "n \<le> MAX_CPUS"
  shows "good (w\<lparr>sw_sched := sched_configure_topology n (sw_sched w)\<rparr>)"
proof (cases "sc_tasks (sw_sched w) \<noteq> [] \<or> sc_started (sw_sched w)")
  case True
  then show ?thesis using assms(1) by (simp add: sched_configure_topology_def)
next
  case False
  let ?s = "sched_configure_topology n (sw_sched w)"
  have ok: "lookup_ok (sw_sched w)" using assms(1) by (simp add: good_def world_inv_def sched_inv_def)
  have "map_of (sc_task_lookup (sw_sched w)) tid = None" for tid
    using ok False by (cases "map_of (sc_task_lookup (sw_sched w)) tid") (auto simp: lookup_ok_def)
  then have no: "sc_task_lookup ?s = sc_task_lookup (sw_sched w)" "task_of ?s = (\<lambda>_. None)" "lookup_ok ?s"
    by (simp_all add: sched_configure_topology_def Let_def task_of_def task_index_def fun_eq_iff lookup_ok_def)
  have cpus: "sc_cpus ?s = map (\<lambda>c. CpuRunQueue_new c 0) [0..<max n 1]"
    using False by (simp add: sched_configure_topology_def Let_def)
  show ?thesis using assms no by (simp add: good_def world_inv_def sched_inv_def ids_ok_def cpus rq_ok_def CpuRunQueue_new_def)
qed

lemma good_add:
  assumes "good w" "task_index (sw_sched w) (tk_id t) = None" "unat (tk_id t) + 1 < 2 ^ 64"
    "tk_last_cpu t = 0" "tk_runnable_avg t = 0" "stack_fits (tk_stack t)"
  shows "\<exists>s. add_task t (sw_sched w) = Some s \<and> good (w\<lparr>sw_sched := s\<rparr>)"
proof -
  have inv: "sched_inv (sw_sched w)" "ids_ok (sw_sched w)" using assms(1) by (simp_all add: good_def world_inv_def)
  have "task_of (sw_sched w) (tk_id t) = None" using assms(2) by (simp add: task_of_def)
  from add_task_ok[OF inv(1) this assms(4)] assms(5,6) obtain s where s: "add_task t (sw_sched w) = Some s" "sched_inv s"
    "length (sc_cpus s) = length (sc_cpus (sw_sched w))" "sc_next_task_id s = max (sc_next_task_id (sw_sched w)) (sat_add (tk_id t) 1)"
    "dom (task_of s) = insert (tk_id t) (dom (task_of (sw_sched w)))" by auto
  have sat: "tk_id t < sat_add (tk_id t) 1"
    using assms(3) by (simp add: sat_add_def word_less_nat_alt unat_word_ariths)
  have "tid < sc_next_task_id s" if "task_of s tid \<noteq> None" for tid
  proof -
    have "tid = tk_id t \<or> task_of (sw_sched w) tid \<noteq> None" using s(5) that by (auto simp: dom_def set_eq_iff)
    then show ?thesis using inv(2) sat s(4) by (auto simp: ids_ok_def less_max_iff_disj)
  qed
  then show ?thesis using s assms(1) by (auto simp: good_def world_inv_def ids_ok_def)
qed

lemma good_start:
  assumes "good w"
  shows "\<exists>r w'. sched_start w = Some (r, w') \<and> good w'"
proof -
  let ?w = "w\<lparr>sw_sched := (sw_sched w)\<lparr>sc_started := True\<rparr>\<rparr>"
  have g: "good ?w" "world_inv ?w" using assms by (simp_all add: good_def world_inv_def ids_ok_def)
  then have "0 < length (sc_cpus (sw_sched ?w))" by (simp add: world_inv_def sched_inv_def)
  from pick_next_task_ok[OF g(2) this, of None] obtain r w' where
    "pick_next_task 0 None ?w = Some (r, w')" "world_inv w'" "steady (sw_sched ?w) (sw_sched w')" by auto
  then show ?thesis using steady_ids[of "sw_sched ?w" "sw_sched w'"] g by (simp add: sched_start_def good_def)
qed


lemma good_world_steady: "good w \<Longrightarrow> world_inv w' \<Longrightarrow> steady (sw_sched w) (sw_sched w') \<Longrightarrow> good w'"
  using steady_ids by (auto simp: good_def)

lemma good_on_sched:
  assumes "good w" "\<exists>s. f (sw_sched w) = Some s \<and> steady (sw_sched w) s"
  shows "\<exists>w'. on_sched f w = Some w' \<and> good w'"
  using assms good_steady by (auto simp: on_sched_def)

lemma good_allocate: "good w \<Longrightarrow> good (w\<lparr>sw_sched := snd (allocate_task_id (sw_sched w))\<rparr>)"
proof -
  assume g: "good w"
  have "n \<le> sat_add n 1" for n :: u64
    by (cases "unat n + 1 < 2 ^ 64") (auto simp: sat_add_def word_le_nat_alt[of n "n + 1"] unat_word_ariths word_coorder.extremum)
  then have "sc_next_task_id (sw_sched w) \<le> sat_add (max (sc_next_task_id (sw_sched w)) 1) 1"
    by (meson max.cobounded1 order_trans)
  then show ?thesis using g by (auto simp: good_def world_inv_def allocate_task_id_def Let_def ids_ok_def)
qed

lemma run_event_good:
  assumes g: "good w" and v: "valid_event e w"
  shows "\<exists>w'. run_event e w = Some w' \<and> good w'"
proof (cases e)
  case (Configure n)
  then show ?thesis using good_configure[OF g] v by (simp add: on_sched_def)
next
  case (Add tid th entry params stack tr cs ss)
  from Task_with_params_ok[of stack tid th entry params tr cs ss] v Add obtain t ret ctx where
    t: "Task_with_params tid th entry params stack tr cs ss = Some (t, (ret, tr), ctx)" "tk_id t = tid" "tk_last_cpu t = 0"
      "tk_runnable_avg t = 0" "tk_stack t = stack" by auto
  from good_add[OF g, of t] v Add t show ?thesis by (auto simp: on_sched_def)
next
  case (AddContext tid th ctx params stack)
  from Task_with_initial_context_ok[of stack tid th ctx params] v AddContext obtain t where
    t: "Task_with_initial_context tid th ctx params stack = Some (t, ctx)" "tk_id t = tid" "tk_last_cpu t = 0"
      "tk_runnable_avg t = 0" "tk_stack t = stack" by auto
  from good_add[OF g, of t] v AddContext t show ?thesis by (auto simp: on_sched_def)
next
  case AllocateId
  then show ?thesis using good_allocate[OF g] by (simp add: on_sched_def)
next
  case Start
  then show ?thesis using good_start[OF g] by auto
next
  case (Tick cpu rsp)
  then show ?thesis using on_timer_tick_ok[of w cpu rsp] v g good_world_steady[OF g] by (auto simp: good_def)
next
  case (Yield cpu)
  then have "\<exists>s. request_yield cpu (sw_sched w) = Some s \<and> steady (sw_sched w) s"
    unfolding request_yield_def using v good_inv[OF g] by (intro with_current_ok) simp_all
  then show ?thesis using Yield good_on_sched[OF g, of "request_yield cpu"] by simp
next
  case (Block cpu)
  then have "\<exists>s. block_current cpu (sw_sched w) = Some s \<and> steady (sw_sched w) s"
    unfolding block_current_def using v good_inv[OF g] by (intro with_current_ok) simp_all
  then show ?thesis using Block good_on_sched[OF g, of "block_current cpu"] by simp
next
  case (Wake tid)
  have "sched_inv (sw_sched w)" "lookup_ok (sw_sched w)" using g by (auto simp: good_def world_inv_def sched_inv_def)
  moreover from this v Wake obtain t where "task_of (sw_sched w) tid = Some t" by (auto simp: task_of_lookup task_index_def)
  ultimately show ?thesis using Wake wake_task_ok by (auto intro!: good_on_sched[OF g])
next
  case (Exit cpu)
  then show ?thesis using exit_current_ok[of w cpu] v g good_world_steady[OF g] by (auto simp: good_def)
qed

lemma reachable_good: "reachable w \<Longrightarrow> good w"
proof (induction rule: reachable.induct)
  case (event w e w')
  from run_event_good[OF event.IH event.hyps(2)] event.hyps(3) show ?case by simp
qed (rule good_boot)




section \<open>A concrete run\<close>

fun run_checked :: "sched_event list \<Rightarrow> SchedWorld \<Rightarrow> SchedWorld exec" where
  "run_checked [] w = Some w" |
  "run_checked (e # es) w = (if valid_event e w then do { w \<leftarrow> run_event e w; run_checked es w } else None)"

lemma run_checked_reachable: "reachable w \<Longrightarrow> run_checked es w = Some w' \<Longrightarrow> reachable w'"
  by (induction es arbitrary: w) (auto simp: Option.bind_eq_Some_conv split: if_split_asm intro: reachable.event)

definition two_tasks :: "sched_event list" where
  "two_tasks = [Add 1 0 0x400000 SchedParams_default 0x10000 0x500000 8 16,
     Add 2 0 0x410000 SchedParams_default 0x30000 0x500000 8 16, Start]"

lemma two_tasks_run:
  "case run_checked two_tasks boot_world of None \<Rightarrow> False | Some w \<Rightarrow>
     sc_started (sw_sched w) \<and> length (sc_cpus (sw_sched w)) = 1 \<and> rq_current_task (sc_cpus (sw_sched w) ! 0) = Some 1 \<and>
     queue_of (sw_sched w) 0 1 = [2]  \<and>
     (case task_of (sw_sched w) 2 of None \<Rightarrow> False | Some t \<Rightarrow> tk_state t = Ready \<and> effective_vruntime t < - 1) \<and>
     sc_next_task_id (sw_sched w) = 3 \<and> valid_event (Tick 0 0x1000) w"
  by code_simp


lemma two_tasks_world:
  "\<exists>w. run_checked two_tasks boot_world = Some w \<and> reachable w \<and> sc_started (sw_sched w) \<and> length (sc_cpus (sw_sched w)) = 1 \<and>
     rq_current_task (sc_cpus (sw_sched w) ! 0) = Some 1 \<and> 2 \<in> set (queue_of (sw_sched w) 0 1) \<and> runnable (sw_sched w) 2 \<and>
     sc_next_task_id (sw_sched w) = 3"
  using two_tasks_run run_checked_reachable[OF reachable.boot, of two_tasks]
  by (auto simp: runnable_def split: option.split_asm)

section \<open>Properties\<close>

text \<open>
  Property C8.  In every state the scheduler can reach from boot, no event it can be asked for panics, no
  task is the current task of two processors, and the running average of every task stays within its
  scale.
\<close>

theorem scheduler_safe:
  assumes "reachable w"
  shows "(\<forall>e. valid_event e w \<longrightarrow> run_event e w \<noteq> None) \<and>
    (\<forall>c d tid. c < length (sc_cpus (sw_sched w)) \<longrightarrow> d < length (sc_cpus (sw_sched w)) \<longrightarrow>
       rq_current_task (sc_cpus (sw_sched w) ! c) = Some tid \<longrightarrow> rq_current_task (sc_cpus (sw_sched w) ! d) = Some tid \<longrightarrow> c = d) \<and>
    (\<forall>tid t. task_of (sw_sched w) tid = Some t \<longrightarrow> unat (tk_runnable_avg t) \<le> 1024)"
proof (intro conjI allI impI)
  have g: "good w" using assms by (rule reachable_good)
  show "run_event e w \<noteq> None" if "valid_event e w" for e using run_event_good[OF g that] by auto
  show "c = d" if "c < length (sc_cpus (sw_sched w))" "d < length (sc_cpus (sw_sched w))"
    "rq_current_task (sc_cpus (sw_sched w) ! c) = Some tid" "rq_current_task (sc_cpus (sw_sched w) ! d) = Some tid" for c d tid
    using current_known[OF good_inv[OF g] that(1,3)] current_known[OF good_inv[OF g] that(2,4)] by auto
  show "unat (tk_runnable_avg t) \<le> 1024" if "task_of (sw_sched w) tid = Some t" for tid t
    using task_avg[OF good_inv[OF g] that] .
qed

text \<open>
  Property C23.  Work conservation: when the timer interrupts a processor whose queues hold a runnable task
  other than the interrupted one, the interrupt returns into a task: the processor's current task, which is
  running there and is resumed where it was saved.
\<close>

theorem tick_gives_cpu:
  assumes "reachable w" "sc_started (sw_sched w)" "cpu < length (sc_cpus (sw_sched w))" "k < NUM_CLASSES"
    "u \<in> set (queue_of (sw_sched w) cpu k)" "runnable (sw_sched w) u" "rq_current_task (sc_cpus (sw_sched w) ! cpu) \<noteq> Some u"
  shows "\<exists>rsp' w' tid t. on_timer_tick cpu rsp w = Some (rsp', w') \<and> rq_current_task (sc_cpus (sw_sched w') ! cpu) = Some tid \<and>
    current_task_id cpu w' = Some (if tid = 0 then None else Some tid) \<and>
    task_of (sw_sched w') tid = Some t \<and> tk_state t = Running \<and> tk_last_cpu t = cpu \<and> tk_saved_rsp t = rsp'"
proof -
  have wi: "world_inv w" using reachable_good[OF assms(1)] by (simp add: good_def)
  from on_timer_tick_ok[OF wi assms(3), of rsp] assms obtain rsp' w' tid where
    w': "on_timer_tick cpu rsp w = Some (rsp', w')" "world_inv w'" "steady (sw_sched w) (sw_sched w')" "runs w' cpu tid rsp'" by blast
  have "cpu < length (sw_current_task_ids w')" using w'(2,3) assms(3) by (simp add: world_inv_def steady_def)
  then show ?thesis using w'(1,4) by (auto simp: runs_def current_task_id_def exec_simps)
qed

text \<open>
  Property C24.  The first frame of a new kernel task lies inside its own stack: the saved context is followed by
  the return address, both within the allocation, with the alignment of a function entry, and resuming the
  context enters the task with that return address on top of the stack.
\<close>

theorem first_frame_in_stack:
  assumes "stack_fits stack"
  shows "\<exists>t ret ctx. Task_with_params tid th entry params stack tr cs ss = Some (t, (ret, tr), ctx) \<and>
    unat stack \<le> unat (tk_saved_rsp t) \<and> unat (tk_saved_rsp t) + 160 = unat ret \<and> unat ret + 8 \<le> unat stack + 65536 \<and>
    unat ret mod 16 = 8 \<and> ctx_rsp ctx = ret \<and> ctx_rip ctx = entry"
  using Task_with_params_ok[OF assms] by fast

theorem first_frame_in_stack_witness:
  "\<exists>t ret ctx. Task_with_params 1 0 0x400000 SchedParams_default 0x10008 0x500000 8 16 = Some (t, (ret, 0x500000), ctx) \<and>
    unat (tk_saved_rsp t) + 160 = unat ret \<and> unat ret + 8 \<le> 131080"
  using first_frame_in_stack[of "0x10008" 1 0 "0x400000" SchedParams_default "0x500000" 8 16] by auto


theorem scheduler_safe_witness:
  "\<exists>w. reachable w \<and> rq_current_task (sc_cpus (sw_sched w) ! 0) = Some 1 \<and> run_event (Tick 0 0x1000) w \<noteq> None"
proof -
  from two_tasks_world obtain w where w: "reachable w" "length (sc_cpus (sw_sched w)) = 1"
    "rq_current_task (sc_cpus (sw_sched w) ! 0) = Some 1" by blast
  then have "valid_event (Tick 0 0x1000) w" by simp
  with scheduler_safe[OF w(1)] w show ?thesis by blast
qed

theorem tick_gives_cpu_witness:
  "\<exists>w rsp w' tid. reachable w \<and> on_timer_tick 0 0x1000 w = Some (rsp, w') \<and> rq_current_task (sc_cpus (sw_sched w') ! 0) = Some tid"
proof -
  from two_tasks_world obtain w where w: "reachable w" "sc_started (sw_sched w)" "length (sc_cpus (sw_sched w)) = 1"
    "rq_current_task (sc_cpus (sw_sched w) ! 0) = Some 1" "2 \<in> set (queue_of (sw_sched w) 0 1)" "runnable (sw_sched w) 2" by blast
  then show ?thesis using tick_gives_cpu[of w 0 1 2 "0x1000"] by fastforce
qed




end
