(* ===== verification/Lzx.thy ===== *)
theory Lzx
  imports Crab_Bytes Rust_Coll
begin

text \<open>
  The decompressor for the LZX chunks of Windows images, \<^verbatim>\<open>lib/wim_lzx/lib.rs\<close>: the Huffman tables, the bit
  reader, the code length trees, the blocks, the translation of call targets, and the chunk loop.

  The decoder is a record that every operation takes and returns.  Arrays are lists; an index outside an array
  and an overflow are panics.  \<^verbatim>\<open>usize\<close> values are natural numbers: all of them are bounded by the lengths of
  the chunk and the window plus small constants.
\<close>

section \<open>Types\<close>

abbreviation (input) MAIN_CODE_COUNT :: nat where "MAIN_CODE_COUNT \<equiv> 496"
abbreviation (input) MAIN_CODE_SPLIT :: nat where "MAIN_CODE_SPLIT \<equiv> 256"
abbreviation (input) LEN_CODE_COUNT :: nat where "LEN_CODE_COUNT \<equiv> 249"
abbreviation (input) LEN_SHIFT :: nat where "LEN_SHIFT \<equiv> 9"
abbreviation (input) CODE_MASK :: u16 where "CODE_MASK \<equiv> 0x1ff"
abbreviation (input) TABLE_BITS :: nat where "TABLE_BITS \<equiv> 9"
abbreviation (input) TABLE_SIZE :: nat where "TABLE_SIZE \<equiv> 512"
abbreviation (input) MAX_BLOCK_SIZE :: nat where "MAX_BLOCK_SIZE \<equiv> 32768"
abbreviation (input) WINDOW_SIZE :: nat where "WINDOW_SIZE \<equiv> 32768"
abbreviation (input) MAX_TREE_PATH_LEN :: u8 where "MAX_TREE_PATH_LEN \<equiv> 16"
abbreviation (input) E8_FILE_SIZE :: int where "E8_FILE_SIZE \<equiv> 12000000"
abbreviation (input) MAX_E8_OFFSET :: int where "MAX_E8_OFFSET \<equiv> 0x3fffffff"
abbreviation (input) VERBATIM_BLOCK :: u16 where "VERBATIM_BLOCK \<equiv> 1"
abbreviation (input) ALIGNED_OFFSET_BLOCK :: u16 where "ALIGNED_OFFSET_BLOCK \<equiv> 2"
abbreviation (input) UNCOMPRESSED_BLOCK :: u16 where "UNCOMPRESSED_BLOCK \<equiv> 3"

definition FOOTER_BITS :: "u8 list" where
  "FOOTER_BITS = [0, 0, 0, 0, 1, 1, 2, 2, 3, 3, 4, 4, 5, 5, 6, 6, 7, 7, 8, 8, 9, 9, 10, 10,
    11, 11, 12, 12, 13, 13, 14]"

definition BASE_POSITION :: "u16 list" where
  "BASE_POSITION = [0, 1, 2, 3, 4, 6, 8, 12, 16, 24, 32, 48, 64, 96, 128, 192, 256, 384, 512,
    768, 1024, 1536, 2048, 3072, 4096, 6144, 8192, 12288, 16384, 24576, 32768]"

datatype LzxError =
    Corrupt
  | UnexpectedEof string nat u8 nat u16 nat
  | ChunkTooLarge nat

record Huffman =
  hf_extra :: "u16 list list"
  hf_maxbits :: u8
  hf_table :: "u16 list"

record Decoder =
  dc_input :: bytes
  dc_byte_offset :: nat
  dc_bit_count :: u8
  dc_bit_buffer :: u32
  dc_unaligned :: bool
  dc_lru :: "u16 list"
  dc_mainlens :: "u8 list"
  dc_lenlens :: "u8 list"
  dc_window :: bytes
  dc_current_block_start :: nat
  dc_current_block_type :: u16
  dc_current_block_size :: nat

type_synonym 'a lzx = "Decoder \<Rightarrow> (LzxError, 'a \<times> Decoder) outcome"

section \<open>Huffman tables\<close>

text \<open>The three loops of \<^verbatim>\<open>build_table\<close>: counting, the first code of every length, and the entries.\<close>

fun bt_count :: "u8 list \<Rightarrow> nat list \<Rightarrow> u8 \<Rightarrow> (nat list \<times> u8) option" where
  "bt_count [] count_of mx = Some (count_of, mx)" |
  "bt_count (cl # codelens) count_of mx =
    (if cl > MAX_TREE_PATH_LEN then None
     else bt_count codelens (count_of[unat cl := count_of ! unat cl + 1]) (max mx cl))"

fun bt_first :: "nat list \<Rightarrow> nat \<Rightarrow> nat \<Rightarrow> nat \<Rightarrow> nat list \<Rightarrow> nat list \<times> nat" where
  "bt_first count_of i 0 code first = (first, code)" |
  "bt_first count_of i (Suc n) code first =
    (let code = 2 * code in bt_first count_of (i + 1) n (code + count_of ! i) (first[i := code]))"

text \<open>\<^verbatim>\<open>for j in 0..n { xs[start + j] = value; }\<close>\<close>

definition fill_range :: "nat \<Rightarrow> nat \<Rightarrow> 'a \<Rightarrow> 'a list \<Rightarrow> 'a list exec" where
  "fill_range start n x xs = put_slice start (replicate n x) xs"

definition code_value :: "u8 \<Rightarrow> nat \<Rightarrow> u16" where
  "code_value cl i = push_bit LEN_SHIFT (ucast cl) OR of_nat i"

definition bt_entry :: "u8 \<Rightarrow> nat \<Rightarrow> nat \<Rightarrow> u8 \<Rightarrow> Huffman \<Rightarrow> Huffman exec" where
  "bt_entry mx i code cl h =
    (let value = code_value cl i; l = unat cl; m = unat mx in
     if l \<le> TABLE_BITS
     then do {
       let extended = code * 2 ^ (TABLE_BITS - l);
       table \<leftarrow> fill_range extended (2 ^ (TABLE_BITS - l)) value (hf_table h);
       Some (h\<lparr>hf_table := table\<rparr>) }
     else do {
       let prefix = code div 2 ^ (l - TABLE_BITS);
       let suffix = code mod 2 ^ (l - TABLE_BITS);
       let extended = suffix * 2 ^ (m - l);
       entry \<leftarrow> vec_get (hf_table h) prefix;
       let extra_index = unat entry;
       row \<leftarrow> vec_get (hf_extra h) extra_index;
       row \<leftarrow> fill_range extended (2 ^ (m - l)) value row;
       Some (h\<lparr>hf_extra := (hf_extra h)[extra_index := row]\<rparr>) })"

fun bt_fill :: "u8 \<Rightarrow> u8 list \<Rightarrow> nat \<Rightarrow> nat list \<Rightarrow> Huffman \<Rightarrow> Huffman exec" where
  "bt_fill mx [] i first h = Some h" |
  "bt_fill mx (cl # codelens) i first h =
    (if cl = 0 then bt_fill mx codelens (i + 1) first h
     else do {
       let code = first ! unat cl;
       let first = first[unat cl := code + 1];
       h \<leftarrow> bt_entry mx i code cl h;
       bt_fill mx codelens (i + 1) first h })"

definition empty_huffman :: "u8 \<Rightarrow> Huffman" where
  "empty_huffman mx = \<lparr>hf_extra = [], hf_maxbits = mx, hf_table = replicate TABLE_SIZE 0\<rparr>"

definition bt_extra :: "u8 \<Rightarrow> nat list \<Rightarrow> Huffman \<Rightarrow> Huffman" where
  "bt_extra mx first h =
    (if unat mx > TABLE_BITS
     then let core = first ! (TABLE_BITS + 1) div 2; nextra = 2 ^ TABLE_BITS - core in
       h\<lparr>hf_extra := replicate nextra (replicate (2 ^ (unat mx - TABLE_BITS)) 0),
         hf_table := take core (hf_table h) @ map (\<lambda>code. of_nat (code - core)) [core..<2 ^ TABLE_BITS]\<rparr>
     else h)"

text \<open>The outer option is the panic, the inner one the source's \<^verbatim>\<open>Option\<close>.\<close>

definition build_table :: "u8 list \<Rightarrow> Huffman option exec" where
  "build_table codelens =
    (case bt_count codelens (replicate 17 0) 0 of
       None \<Rightarrow> Some None
     | Some (count_of, mx) \<Rightarrow>
        if mx = 0 then Some (Some (empty_huffman 0))
        else let (first, code) = bt_first count_of 1 (unat mx) 0 (replicate 17 0) in
          if code \<noteq> 2 ^ unat mx then Some None
          else map_option Some (bt_fill mx codelens 0 first (bt_extra mx first (empty_huffman mx))))"

section \<open>The bit reader\<close>

definition Decoder_new :: "bytes \<Rightarrow> Decoder" where
  "Decoder_new input = \<lparr>dc_input = input, dc_byte_offset = 0, dc_bit_count = 0, dc_bit_buffer = 0,
     dc_unaligned = False, dc_lru = [1, 1, 1], dc_mainlens = replicate MAIN_CODE_COUNT 0,
     dc_lenlens = replicate LEN_CODE_COUNT 0, dc_window = replicate WINDOW_SIZE 0,
     dc_current_block_start = 0, dc_current_block_type = 0, dc_current_block_size = 0\<rparr>"

definition unexpected_eof :: "Decoder \<Rightarrow> string \<Rightarrow> LzxError" where
  "unexpected_eof d what = UnexpectedEof what (dc_byte_offset d) (dc_bit_count d)
     (dc_current_block_start d) (dc_current_block_type d) (dc_current_block_size d)"

definition ensure_at_least :: "nat \<Rightarrow> unit lzx" where
  "ensure_at_least n d =
    (if length (dc_input d) - dc_byte_offset d < n then Err (unexpected_eof d ''input buffer'') else Ok ((), d))"

definition try_feed :: "Decoder \<Rightarrow> (bool \<times> Decoder) exec" where
  "try_feed d =
    (if length (dc_input d) - dc_byte_offset d < 2 then Some (False, d)
     else do {
       lo \<leftarrow> vec_get (dc_input d) (dc_byte_offset d);
       hi \<leftarrow> vec_get (dc_input d) (dc_byte_offset d + 1);
       shift \<leftarrow> csub 16 (dc_bit_count d);
       word \<leftarrow> cshl (push_bit 8 (ucast hi) OR ucast lo) (unat shift);
       bit_count \<leftarrow> cadd (dc_bit_count d) 16;
       Some (True, d\<lparr>dc_bit_buffer := dc_bit_buffer d OR word, dc_bit_count := bit_count,
         dc_byte_offset := dc_byte_offset d + 2\<rparr>) })"

definition drop_bits :: "u8 \<Rightarrow> Decoder \<Rightarrow> Decoder exec" where
  "drop_bits n d = do {
     buffer \<leftarrow> cshl (dc_bit_buffer d) (unat n);
     bit_count \<leftarrow> csub (dc_bit_count d) n;
     Some (d\<lparr>dc_bit_buffer := buffer, dc_bit_count := bit_count\<rparr>) }"

definition get_bits :: "u8 \<Rightarrow> u16 lzx" where
  "get_bits n d =
    (if n = 0 then Ok (0, d)
     else do {
       (fed, d) \<leftarrow> (if dc_bit_count d < n then try_feed d else Some (True, d));
       if \<not> fed then Err (unexpected_eof d ''get_bits'')
       else do {
         shift \<leftarrow> csub 32 n;
         value \<leftarrow> cshr (dc_bit_buffer d) (unat shift);
         d \<leftarrow> drop_bits n d;
         Ok (ucast value, d) } })"

definition get_code :: "Huffman \<Rightarrow> u16 lzx" where
  "get_code h d =
    (if hf_maxbits h = 0 then Err Corrupt
     else do {
       d \<leftarrow> (if dc_bit_count d < MAX_TREE_PATH_LEN then map_option snd (try_feed d) else Some d);
       code \<leftarrow> vec_get (hf_table h) (unat (drop_bit (32 - TABLE_BITS) (dc_bit_buffer d)));
       bindE
         (if code < 2 ^ LEN_SHIFT
          then if unat (hf_maxbits h) \<le> TABLE_BITS then Err Corrupt
          else do {
            suffix \<leftarrow> cshr (push_bit TABLE_BITS (dc_bit_buffer d)) (32 - (unat (hf_maxbits h) - TABLE_BITS));
            row \<leftarrow> vec_get (hf_extra h) (unat code);
            code \<leftarrow> vec_get row (unat suffix);
            Ok code }
          else Ok code) id (\<lambda>code. do {
       let n = ucast (drop_bit LEN_SHIFT code);
       if dc_bit_count d < n then Err (unexpected_eof d ''huffman code tail'')
       else do {
         d \<leftarrow> drop_bits n d;
         Ok (code AND CODE_MASK, d) } }) })"

section \<open>Code length trees\<close>

text \<open>\<^verbatim>\<open>for elem in &mut lens { *elem = self.get_bits(n)? as u8; }\<close>\<close>

fun read_lens :: "nat \<Rightarrow> u8 \<Rightarrow> u8 list lzx" where
  "read_lens 0 n d = Ok ([], d)" |
  "read_lens (Suc k) n d =
     bindE (get_bits n d) id (\<lambda>(x, d).
     bindE (read_lens k n d) id (\<lambda>(xs, d). Ok (ucast x # xs, d)))"

definition delta_len :: "u8 \<Rightarrow> u8 \<Rightarrow> u8 exec" where
  "delta_len len delta = do {
     s \<leftarrow> cadd len 17;
     s \<leftarrow> csub s delta;
     Some (s mod 17) }"

text \<open>One turn of the loop of \<^verbatim>\<open>read_tree\<close>, and the loop.\<close>

definition read_tree_step :: "Huffman \<Rightarrow> nat \<Rightarrow> u8 list \<Rightarrow> (nat \<times> u8 list) lzx" where
  "read_tree_step pretree i lens d =
     bindE (get_code pretree d) id (\<lambda>(code, d).
       let c = (ucast code :: u8) in
       if c \<le> 16
       then do {
         len \<leftarrow> vec_get lens i;
         l \<leftarrow> delta_len len c;
         Ok ((i + 1, lens[i := l]), d) }
       else if c = 17
       then bindE (get_bits 4 d) id (\<lambda>(z, d).
         let zeroes = unat z + 4 in
         if i + zeroes > length lens then Err Corrupt
         else Ok ((i + zeroes, wr lens i (replicate zeroes 0)), d))
       else if c = 18
       then bindE (get_bits 5 d) id (\<lambda>(z, d).
         let zeroes = unat z + 20 in
         if i + zeroes > length lens then Err Corrupt
         else Ok ((i + zeroes, wr lens i (replicate zeroes 0)), d))
       else if c = 19
       then bindE (get_bits 1 d) id (\<lambda>(z, d).
         let same = unat z + 4 in
         if i + same > length lens then Err Corrupt
         else bindE (get_code pretree d) id (\<lambda>(delta, d).
           let delta = (ucast delta :: u8) in
           if delta > 16 then Err Corrupt
           else do {
             len \<leftarrow> vec_get lens i;
             l \<leftarrow> delta_len len delta;
             Ok ((i + same, wr lens i (replicate same l)), d) }))
       else Err Corrupt)"

lemma read_tree_step_progress:
  "read_tree_step pretree i lens d = Ok ((i', lens'), d') \<Longrightarrow> i < i' \<and> length lens' = length lens"
  by (auto simp: read_tree_step_def bindE_Ok_iff Option.bind_eq_Some_conv Let_def split: if_splits)

function read_tree_loop :: "Huffman \<Rightarrow> nat \<Rightarrow> u8 list \<Rightarrow> u8 list lzx" where
  "read_tree_loop pretree i lens d =
    (if i < length lens
     then bindE (read_tree_step pretree i lens d) id (\<lambda>((i, lens), d). read_tree_loop pretree i lens d)
     else Ok (lens, d))"
  by pat_completeness auto
termination
  by (relation "measure (\<lambda>(pretree, i, lens, d). length lens - i)") (auto dest!: read_tree_step_progress)

declare read_tree_loop.simps [simp del]

definition read_tree :: "u8 list \<Rightarrow> u8 list lzx" where
  "read_tree lens d =
     bindE (read_lens 20 4 d) id (\<lambda>(pretree_len, d). do {
       t \<leftarrow> build_table pretree_len;
       case t of None \<Rightarrow> Err Corrupt | Some pretree \<Rightarrow> read_tree_loop pretree 0 lens d })"

section \<open>Blocks\<close>

text \<open>\<^verbatim>\<open>read_block_header\<close> behind the block type.\<close>

definition read_block_size :: "u16 \<Rightarrow> (u16 \<times> u16) lzx" where
  "read_block_size block_type d =
     bindE (get_bits 1 d) id (\<lambda>(full, d).
     bindE (if full \<noteq> 0 then Ok (of_nat MAX_BLOCK_SIZE, d)
            else bindE (get_bits 16 d) id (\<lambda>(sz, d).
              if unat sz > MAX_BLOCK_SIZE then Err Corrupt else Ok (sz, d))) id (\<lambda>(block_size, d).
     if block_type = VERBATIM_BLOCK \<or> block_type = ALIGNED_OFFSET_BLOCK then Ok ((block_type, block_size), d)
     else if block_type = UNCOMPRESSED_BLOCK
     then bindE (get_bits (if dc_bit_count d = 0 then 16 else dc_bit_count d) d) id (\<lambda>(_, d).
          bindE (ensure_at_least 12 d) id (\<lambda>(_, d). do {
            let off = dc_byte_offset d;
            r0 \<leftarrow> le_u32 (dc_input d) off;
            r1 \<leftarrow> le_u32 (dc_input d) (off + 4);
            r2 \<leftarrow> le_u32 (dc_input d) (off + 8);
            Ok ((block_type, block_size), d\<lparr>dc_lru := [ucast r0, ucast r1, ucast r2], dc_byte_offset := off + 12\<rparr>) }))
     else Err Corrupt))"

definition read_block_header :: "(u16 \<times> u16) lzx" where
  "read_block_header d =
     bindE (if dc_unaligned d
            then bindE (ensure_at_least 1 d) id (\<lambda>(_, d).
              Ok ((), d\<lparr>dc_byte_offset := dc_byte_offset d + 1, dc_unaligned := False\<rparr>))
            else Ok ((), d)) id (\<lambda>(_, d).
     bindE (get_bits 3 d) id (\<lambda>(block_type, d). read_block_size block_type d))"

definition table_of :: "u8 list \<Rightarrow> (LzxError, Huffman) outcome" where
  "table_of lens = do { t \<leftarrow> build_table lens; case t of None \<Rightarrow> Err Corrupt | Some h \<Rightarrow> Ok h }"

definition read_trees :: "bool \<Rightarrow> (Huffman \<times> Huffman \<times> Huffman option) lzx" where
  "read_trees read_aligned d =
     bindE (if read_aligned
            then bindE (read_lens 8 3 d) id (\<lambda>(aligned_len, d).
                 bindE (table_of aligned_len) id (\<lambda>h. Ok (Some h, d)))
            else Ok (None, d)) id (\<lambda>(aligned, d).
     bindE (read_tree (take MAIN_CODE_SPLIT (dc_mainlens d)) d) id (\<lambda>(main_prefix, d).
     let d = d\<lparr>dc_mainlens := wr (dc_mainlens d) 0 main_prefix\<rparr> in
     bindE (read_tree (drop MAIN_CODE_SPLIT (dc_mainlens d)) d) id (\<lambda>(main_suffix, d).
     let d = d\<lparr>dc_mainlens := wr (dc_mainlens d) MAIN_CODE_SPLIT main_suffix\<rparr> in
     bindE (table_of (dc_mainlens d)) id (\<lambda>main.
     bindE (read_tree (dc_lenlens d) d) id (\<lambda>(len_lens, d).
     let d = d\<lparr>dc_lenlens := len_lens\<rparr> in
     bindE (table_of (dc_lenlens d)) id (\<lambda>len.
     Ok ((main, len, aligned), d)))))))"

text \<open>The offset of a match in position slot \<open>slot\<close>, through the three most recent offsets or from the input.\<close>

definition match_offset :: "nat \<Rightarrow> Huffman option \<Rightarrow> u16 lzx" where
  "match_offset slot haligned d =
    (if slot < 3
     then do {
       offset \<leftarrow> vec_get (dc_lru d) slot;
       recent \<leftarrow> vec_get (dc_lru d) 0;
       Ok (offset, d\<lparr>dc_lru := (dc_lru d)[slot := recent, 0 := offset]\<rparr>) }
     else do {
       offset_bits \<leftarrow> vec_get FOOTER_BITS slot;
       bindE
         (if offset_bits > 0
          then case haligned of
            Some aligned \<Rightarrow>
              if offset_bits \<ge> 3
              then bindE (get_bits (offset_bits - 3) d) id (\<lambda>(v, d). do {
                     v \<leftarrow> cmul v 8;
                     bindE (get_code aligned d) id (\<lambda>(a, d). Ok ((v, a), d)) })
              else bindE (get_bits offset_bits d) id (\<lambda>(v, d). Ok ((v, 0), d))
          | None \<Rightarrow> bindE (get_bits offset_bits d) id (\<lambda>(v, d). Ok ((v, 0), d))
          else Ok ((0, 0), d)) id (\<lambda>((verbatim_bits, aligned_bits), d). do {
       base \<leftarrow> vec_get BASE_POSITION slot;
       let offset = base + verbatim_bits + aligned_bits - 2;
       Ok (offset, d\<lparr>dc_lru := [offset, dc_lru d ! 0, dc_lru d ! 1]\<rparr>) }) })"

text \<open>\<^verbatim>\<open>while i < copy_end { window[i] = window[i - matchoffset]; i += 1; }\<close>, \<open>n\<close> bytes to go.\<close>

fun copy_match :: "nat \<Rightarrow> nat \<Rightarrow> nat \<Rightarrow> bytes \<Rightarrow> bytes exec" where
  "copy_match 0 i matchoffset window = Some window" |
  "copy_match (Suc n) i matchoffset window = do {
     x \<leftarrow> vec_get window (i - matchoffset);
     window \<leftarrow> vec_set i x window;
     copy_match n (i + 1) matchoffset window }"

text \<open>One turn of the loop of \<^verbatim>\<open>read_compressed_block\<close>: a literal or a match; and the loop.\<close>

definition compressed_step :: "nat \<Rightarrow> nat \<Rightarrow> Huffman \<Rightarrow> Huffman \<Rightarrow> Huffman option \<Rightarrow> nat lzx" where
  "compressed_step i stop hmain hlength haligned d =
     bindE (get_code hmain d) id (\<lambda>(main, d).
       if main < 256
       then do {
         window \<leftarrow> vec_set i (ucast main) (dc_window d);
         Ok (i + 1, d\<lparr>dc_window := window\<rparr>) }
       else
         let matchlen = (main - 256) mod 8; slot = unat ((main - 256) div 8) in
         if slot \<ge> length FOOTER_BITS then Err Corrupt
         else bindE (if matchlen = 7
                     then bindE (get_code hlength d) id (\<lambda>(l, d). do { m \<leftarrow> cadd matchlen l; Ok (m, d) })
                     else Ok (matchlen, d)) id (\<lambda>(matchlen, d). do {
           matchlen \<leftarrow> cadd matchlen 2;
           bindE (match_offset slot haligned d) id (\<lambda>(matchoffset, d).
             let matchoffset = unat matchoffset; n = unat matchlen in
             if matchoffset = 0 \<or> matchoffset > i \<or> i + n > stop then Err Corrupt
             else do {
               window \<leftarrow> copy_match n i matchoffset (dc_window d);
               Ok (i + n, d\<lparr>dc_window := window\<rparr>) }) }))"

lemma compressed_step_progress:
  "compressed_step i stop hmain hlength haligned d = Ok (i', d') \<Longrightarrow> i < stop \<Longrightarrow> i < i' \<and> i' \<le> stop"
  by (auto simp: compressed_step_def bindE_Ok_iff Option.bind_eq_Some_conv Let_def dest!: unat_cadd split: if_splits)

function read_compressed_block :: "nat \<Rightarrow> nat \<Rightarrow> Huffman \<Rightarrow> Huffman \<Rightarrow> Huffman option \<Rightarrow> nat lzx" where
  "read_compressed_block i stop hmain hlength haligned d =
    (if i < stop
     then bindE (compressed_step i stop hmain hlength haligned d) id
       (\<lambda>(i, d). read_compressed_block i stop hmain hlength haligned d)
     else Ok (i, d))"
  by pat_completeness auto
termination
  by (relation "measure (\<lambda>(i, stop, hmain, hlength, haligned, d). stop - i)") (auto dest!: compressed_step_progress)

declare read_compressed_block.simps [simp del]

definition read_block :: "nat \<Rightarrow> nat lzx" where
  "read_block start d =
     bindE (read_block_header d) id (\<lambda>((block_type, sz), d).
     let n = unat sz;
         d = d\<lparr>dc_current_block_start := start, dc_current_block_type := block_type, dc_current_block_size := n\<rparr> in
     if block_type = UNCOMPRESSED_BLOCK
     then let d = (if n mod 2 = 1 then d\<lparr>dc_unaligned := True\<rparr> else d) in
       if length (dc_input d) - dc_byte_offset d < n
       then Err (unexpected_eof d ''uncompressed block payload'')
       else do {
         data \<leftarrow> get_range (dc_input d) (dc_byte_offset d) (dc_byte_offset d + n);
         window \<leftarrow> put_slice start data (dc_window d);
         Ok (n, d\<lparr>dc_window := window, dc_byte_offset := dc_byte_offset d + n\<rparr>) }
     else bindE (read_trees (block_type = ALIGNED_OFFSET_BLOCK) d) id (\<lambda>((hmain, hlength, haligned), d).
       bindE (read_compressed_block start (start + n) hmain hlength haligned d) id (\<lambda>(i, d). Ok (i - start, d))))"

section \<open>The input that is left\<close>

text \<open>The bits not yet read: those in the buffer and those of the bytes behind it.  No operation adds to them.\<close>

definition bits_left :: "Decoder \<Rightarrow> nat" where
  "bits_left d = 8 * (length (dc_input d) - dc_byte_offset d) + unat (dc_bit_count d)"

definition reads :: "Decoder \<Rightarrow> Decoder \<Rightarrow> bool" where
  "reads d d' \<longleftrightarrow> dc_input d' = dc_input d \<and> bits_left d' \<le> bits_left d"

lemma reads_refl [simp, intro]: "reads d d"
  by (simp add: reads_def)

lemma reads_trans: "reads d d' \<Longrightarrow> reads d' d'' \<Longrightarrow> reads d d''"
  by (auto simp: reads_def)

lemma reads_update [simp]:
  "reads d (d'\<lparr>dc_mainlens := a\<rparr>) = reads d d'" "reads d (d'\<lparr>dc_lenlens := a\<rparr>) = reads d d'"
  "reads d (d'\<lparr>dc_window := w\<rparr>) = reads d d'" "reads d (d'\<lparr>dc_lru := l\<rparr>) = reads d d'"
  "reads d (d'\<lparr>dc_unaligned := u\<rparr>) = reads d d'"
  "reads d (d'\<lparr>dc_current_block_start := m, dc_current_block_type := ty, dc_current_block_size := n\<rparr>) = reads d d'"
  by (simp_all add: reads_def bits_left_def)

lemma reads_skip: "reads d d' \<Longrightarrow> reads d (d'\<lparr>dc_byte_offset := Suc (dc_byte_offset d')\<rparr>)"
  by (auto simp: reads_def bits_left_def)

lemma reads_skip_lru: "reads d d' \<Longrightarrow> reads d (d'\<lparr>dc_lru := l, dc_byte_offset := dc_byte_offset d' + n\<rparr>)"
  by (auto simp: reads_def bits_left_def)

lemma reads_skip_window: "reads d d' \<Longrightarrow> reads d (d'\<lparr>dc_window := w, dc_byte_offset := dc_byte_offset d' + n\<rparr>)"
  by (auto simp: reads_def bits_left_def)

lemma try_feed_bits:
  assumes "try_feed d = Some (fed, d')"
  shows "dc_input d' = dc_input d" "bits_left d' = bits_left d"
  using assms by (auto simp: try_feed_def bits_left_def Option.bind_eq_Some_conv dest!: unat_cadd split: if_splits)

lemma drop_bits_bits:
  assumes "drop_bits n d = Some d'"
  shows "dc_input d' = dc_input d" "bits_left d' + unat n = bits_left d"
proof -
  from assms obtain c where c: "csub (dc_bit_count d) n = Some c" "dc_bit_count d' = c" "dc_input d' = dc_input d" "dc_byte_offset d' = dc_byte_offset d"
    by (auto simp: drop_bits_def Option.bind_eq_Some_conv)
  show "dc_input d' = dc_input d" by fact
  have "n \<le> dc_bit_count d" using c(1) by (auto simp: csub_def split: if_splits)
  then show "bits_left d' + unat n = bits_left d" using unat_csub[OF c(1)] c by (simp add: bits_left_def word_le_nat_alt)
qed

lemma get_bits_bits:
  assumes "get_bits n d = Ok (x, d')"
  shows "dc_input d' = dc_input d \<and> bits_left d' + unat n = bits_left d"
proof (cases "n = 0")
  case True
  then show ?thesis using assms by (simp add: get_bits_def)
next
  case False
  with assms obtain fed d1 where d1: "(if dc_bit_count d < n then try_feed d else Some (True, d)) = Some (fed, d1)" "drop_bits n d1 = Some d'"
    by (auto simp: get_bits_def Option.bind_eq_Some_conv split: if_splits)
  have "dc_input d1 = dc_input d" "bits_left d1 = bits_left d" using d1(1) try_feed_bits[of d fed d1] by (auto split: if_splits)
  then show ?thesis using drop_bits_bits[OF d1(2)] by simp
qed

lemma get_code_reads:
  assumes "get_code h d = Ok (x, d')"
  shows "reads d d'"
proof -
  from assms obtain d1 n where d1: "(if dc_bit_count d < 16 then map_option snd (try_feed d) else Some d) = Some d1" "drop_bits n d1 = Some d'"
    by (auto simp: get_code_def Option.bind_eq_Some_conv bindE_Ok_iff Let_def split: if_splits)
  have "dc_input d1 = dc_input d" "bits_left d1 = bits_left d" using d1(1) try_feed_bits by (auto split: if_splits)
  then show ?thesis using drop_bits_bits[OF d1(2)] by (simp add: reads_def)
qed

text \<open>\<open>only_reads d m\<close>: where \<open>m\<close> succeeds, it has only read on from \<open>d\<close>.\<close>

definition only_reads :: "Decoder \<Rightarrow> (LzxError, 'a \<times> Decoder) outcome \<Rightarrow> bool" where
  "only_reads d m \<longleftrightarrow> (\<forall>x d'. m = Ok (x, d') \<longrightarrow> reads d d')"

named_theorems reads_intros \<open>operations and compositions that only read\<close>

lemma only_reads_compose [reads_intros]:
  "reads d e \<Longrightarrow> only_reads d (Ok (x, e))"
  "only_reads d (Err er)" "only_reads d None"
  "only_reads d m \<Longrightarrow> (\<And>x e. reads d e \<Longrightarrow> only_reads d (f x e)) \<Longrightarrow> only_reads d (bindE m id (\<lambda>(x, e). f x e))"
  "(\<And>y. only_reads d (k y)) \<Longrightarrow> only_reads d (Option.bind q k)"
  "(b \<Longrightarrow> only_reads d m) \<Longrightarrow> (\<not> b \<Longrightarrow> only_reads d m') \<Longrightarrow> only_reads d (if b then m else m')"
  "only_reads d m \<Longrightarrow> (\<And>y. only_reads d (g y)) \<Longrightarrow> only_reads d (case z of None \<Rightarrow> m | Some y \<Rightarrow> g y)"
  "(\<And>a b. only_reads d (h a b e)) \<Longrightarrow> only_reads d ((case p of (a, b) \<Rightarrow> h a b) e)"
  by (auto simp: only_reads_def bindE_Ok_iff Option.bind_eq_Some_conv split: option.splits prod.splits)

lemma only_reads_table [reads_intros]:
  "(\<And>t. only_reads d (k t)) \<Longrightarrow> only_reads d (bindE (table_of lens) id k)"
  by (auto simp: only_reads_def bindE_Ok_iff)

lemma get_bits_reads [reads_intros]: "reads d e \<Longrightarrow> only_reads d (get_bits n e)"
  by (auto simp: only_reads_def reads_def dest!: get_bits_bits)

lemma get_code_only_reads [reads_intros]: "reads d e \<Longrightarrow> only_reads d (get_code h e)"
  by (auto simp: only_reads_def dest!: get_code_reads intro: reads_trans)

lemma ensure_reads [reads_intros]: "reads d e \<Longrightarrow> only_reads d (ensure_at_least n e)"
  by (auto simp: only_reads_def ensure_at_least_def split: if_splits)

lemma read_lens_reads [reads_intros]: "reads d e \<Longrightarrow> only_reads d (read_lens k n e)"
  by (induction k arbitrary: e) (auto intro!: reads_intros)

lemma read_tree_step_reads [reads_intros]: "reads d e \<Longrightarrow> only_reads d (read_tree_step h i lens e)"
  unfolding read_tree_step_def Let_def by (auto intro!: reads_intros)

lemma read_tree_loop_reads [reads_intros]: "reads d e \<Longrightarrow> only_reads d (read_tree_loop h i lens e)"
proof (induction h i lens e rule: read_tree_loop.induct)
  case (1 h i lens e)
  have "reads d e'" if "read_tree_step h i lens e = Ok (x, e')" for x e'
    using read_tree_step_reads[OF "1.prems", of h i lens] that unfolding only_reads_def by blast
  then have "i < length lens \<Longrightarrow> only_reads d (bindE (read_tree_step h i lens e) id (\<lambda>((i, lens), d). read_tree_loop h i lens d))"
    using "1.IH" by (fastforce simp: only_reads_def bindE_Ok_iff)
  then show ?case using "1.prems" by (subst read_tree_loop.simps) (simp add: reads_intros)
qed

lemma read_tree_reads [reads_intros]: "reads d e \<Longrightarrow> only_reads d (read_tree lens e)"
  unfolding read_tree_def by (auto intro!: reads_intros)

lemma read_trees_reads [reads_intros]: "reads d e \<Longrightarrow> only_reads d (read_trees al e)"
  unfolding read_trees_def Let_def by (auto intro!: reads_intros)

lemma match_offset_reads [reads_intros]: "reads d e \<Longrightarrow> only_reads d (match_offset slot al e)"
  unfolding match_offset_def Let_def by (auto intro!: reads_intros)

lemma compressed_step_reads [reads_intros]: "reads d e \<Longrightarrow> only_reads d (compressed_step i stop hm hl ha e)"
  unfolding compressed_step_def Let_def by (auto intro!: reads_intros)

lemma read_compressed_block_reads [reads_intros]: "reads d e \<Longrightarrow> only_reads d (read_compressed_block i stop hm hl ha e)"
proof (induction i stop hm hl ha e rule: read_compressed_block.induct)
  case (1 i stop hm hl ha e)
  have "reads d e'" if "compressed_step i stop hm hl ha e = Ok (x, e')" for x e'
    using compressed_step_reads[OF "1.prems", of i stop hm hl ha] that unfolding only_reads_def by blast
  then have "i < stop \<Longrightarrow> only_reads d (bindE (compressed_step i stop hm hl ha e) id (\<lambda>(i, d). read_compressed_block i stop hm hl ha d))"
    using "1.IH" by (fastforce simp: only_reads_def bindE_Ok_iff)
  then show ?case using "1.prems" by (subst read_compressed_block.simps) (simp add: reads_intros)
qed


lemma reads_header [reads_intros]: "reads d e \<Longrightarrow> only_reads d (read_block_size ty e)"
  unfolding read_block_size_def Let_def by (auto intro!: reads_intros simp: reads_skip_lru)

lemma header_bits:
  assumes "read_block_header d = Ok (x, d')"
  shows "dc_input d' = dc_input d \<and> bits_left d' < bits_left d"
proof -
  let ?pre = "if dc_unaligned d then bindE (ensure_at_least 1 d) id (\<lambda>(_, d).
      Ok ((), d\<lparr>dc_byte_offset := dc_byte_offset d + 1, dc_unaligned := False\<rparr>)) else Ok ((), d)"
  from assms obtain d0 t d1 where s: "?pre = Ok ((), d0)" "get_bits 3 d0 = Ok (t, d1)" "read_block_size t d1 = Ok (x, d')"
    unfolding read_block_header_def bindE_Ok_iff[of ?pre] by (auto simp: bindE_Ok_iff[of "get_bits 3 _"])
  have "only_reads d ?pre" by (auto intro!: reads_intros simp: reads_skip)
  then have "reads d d0" using s(1) by (simp add: only_reads_def)
  moreover have "reads d1 d'" using reads_header[of d1 d1 t] s(3) by (simp add: only_reads_def)
  ultimately show ?thesis using get_bits_bits[OF s(2)] by (simp add: reads_def)
qed

lemma read_block_bits:
  assumes "read_block start d = Ok (n, d')"
  shows "dc_input d' = dc_input d \<and> bits_left d' < bits_left d"
proof -
  from assms obtain ty sz d1 where h: "read_block_header d = Ok ((ty, sz), d1)"
    unfolding read_block_def bindE_Ok_iff by auto
  let ?rest = "\<lambda>d. if ty = 3 then
       if length (dc_input d) - dc_byte_offset d < unat sz then Err (unexpected_eof d ''uncompressed block payload'')
       else do {
         data \<leftarrow> get_range (dc_input d) (dc_byte_offset d) (dc_byte_offset d + unat sz);
         window \<leftarrow> put_slice start data (dc_window d);
         Ok (unat sz, d\<lparr>dc_window := window, dc_byte_offset := dc_byte_offset d + unat sz\<rparr>) }
     else bindE (read_trees (ty = 2) d) id (\<lambda>((hmain, hlength, haligned), d).
       bindE (read_compressed_block start (start + unat sz) hmain hlength haligned d) id (\<lambda>(i, d). Ok (i - start, d)))"
  have "only_reads d1 (?rest d2)" if "reads d1 d2" for d2
    using that by (auto intro!: reads_intros simp: reads_skip_window)
  moreover obtain d2 where "?rest d2 = Ok (n, d')" "reads d1 d2"
    using assms h by (auto simp: read_block_def Let_def split: if_splits)
  ultimately have "reads d1 d'" unfolding only_reads_def by blast
  then show ?thesis using header_bits[OF h] by (simp add: reads_def)
qed

section \<open>Call targets\<close>

text \<open>\<^verbatim>\<open>i32\<close> values are integers: \<^verbatim>\<open>as i32\<close> wraps, the arithmetic panics outside the range.\<close>

definition as_i32 :: "int \<Rightarrow> int" where
  "as_i32 x = (x + 2 ^ 31) mod 2 ^ 32 - 2 ^ 31"

definition ci32 :: "int \<Rightarrow> int exec" where
  "ci32 x = (if - (2 ^ 31) \<le> x \<and> x < 2 ^ 31 then Some x else None)"

function e8_loop :: "int \<Rightarrow> nat \<Rightarrow> bytes \<Rightarrow> bytes exec" where
  "e8_loop offset i buffer =
    (if i + 10 \<le> length buffer
     then if buffer ! i = 0xe8
       then do {
         current_ptr \<leftarrow> ci32 (as_i32 offset + as_i32 (int i));
         let absolute = sint (from_le_bytes (rd buffer (i + 1) 4) :: u32);
         lowest \<leftarrow> ci32 (- current_ptr);
         buffer' \<leftarrow> (if absolute \<ge> lowest \<and> absolute < E8_FILE_SIZE
            then do {
              relative \<leftarrow> ci32 (if absolute \<ge> 0 then absolute - current_ptr else absolute + E8_FILE_SIZE);
              Some (wr buffer (i + 1) (to_le_bytes (of_int relative :: u32))) }
            else Some buffer);
         e8_loop offset (i + 5) buffer' }
       else e8_loop offset (i + 1) buffer
     else Some buffer)"
  by pat_completeness auto
termination
  by (relation "measure (\<lambda>(offset, i, buffer). length buffer - i)") (auto simp: Option.bind_eq_Some_conv split: if_splits)

declare e8_loop.simps [simp del]

definition decode_e8 :: "bytes \<Rightarrow> int \<Rightarrow> bytes exec" where
  "decode_e8 buffer offset =
    (if offset > MAX_E8_OFFSET \<or> length buffer < 10 then Some buffer else e8_loop offset 0 buffer)"

section \<open>Chunks\<close>

function decompress_loop :: "nat \<Rightarrow> nat \<Rightarrow> unit lzx" where
  "decompress_loop uncompressed_size written d =
    (if written < uncompressed_size
     then bindE (read_block written d) id (\<lambda>(n, d). decompress_loop uncompressed_size (written + n) d)
     else Ok ((), d))"
  by pat_completeness auto
termination
  by (relation "measure (\<lambda>(uncompressed_size, written, d). bits_left d)") (auto dest!: read_block_bits)

declare decompress_loop.simps [simp del]

definition decompress :: "bytes \<Rightarrow> nat \<Rightarrow> (LzxError, bytes) outcome" where
  "decompress chunk uncompressed_size =
    (if uncompressed_size > WINDOW_SIZE then Err (ChunkTooLarge uncompressed_size)
     else bindE (decompress_loop uncompressed_size 0 (Decoder_new chunk)) id (\<lambda>(_, decoder). do {
       output \<leftarrow> get_range (dc_window decoder) 0 uncompressed_size;
       output \<leftarrow> decode_e8 output 0;
       Ok output }))"

end
