(* ===== verification/Lzx_Huffman.thy ===== *)
theory Lzx_Huffman
  imports Lzx "HOL-Library.Code_Target_Nat"
begin

text \<open>
  The Huffman tables of the LZX decompressor decode the canonical code of their code lengths.  A code of length
  \<open>l\<close> stands for an interval of the numbers with as many bits as the longest code; the intervals of a complete code
  are disjoint and cover all numbers, and every entry that is written covers one of them.
\<close>

section \<open>Canonical codes\<close>

text \<open>
  The canonical code of a list of code lengths: codes of one length are consecutive numbers in the order of the
  symbols, and the first code of a length follows the last code of the length before it.
\<close>

definition len_count :: "u8 list \<Rightarrow> nat \<Rightarrow> nat" where
  "len_count lens l = (if l = 0 then 0 else length (filter (\<lambda>c. unat c = l) lens))"

primrec first_code :: "u8 list \<Rightarrow> nat \<Rightarrow> nat" where
  "first_code lens 0 = 0" |
  "first_code lens (Suc l) = 2 * (first_code lens l + len_count lens l)"

definition rank_of :: "u8 list \<Rightarrow> nat \<Rightarrow> nat \<Rightarrow> nat" where
  "rank_of lens i l = length (filter (\<lambda>c. unat c = l) (take i lens))"

definition canonical_code :: "u8 list \<Rightarrow> nat \<Rightarrow> nat" where
  "canonical_code lens i = first_code lens (unat (lens ! i)) + rank_of lens i (unat (lens ! i))"

lemma first_code_sum: "first_code lens l = (\<Sum>j<l. len_count lens j * 2 ^ (l - j))"
proof (induction l)
  case (Suc l)
  have "(\<Sum>j<l. len_count lens j * 2 ^ (Suc l - j)) = 2 * (\<Sum>j<l. len_count lens j * 2 ^ (l - j))"
    by (simp add: sum_distrib_left Suc_diff_le mult.assoc mult.left_commute)
  then show ?case using Suc by simp
qed simp

lemma bt_count_spec:
  assumes "bt_count lens count_of mx = Some (count', mx')" "length count_of = 17"
  shows "length count' = 17 \<and> (\<forall>c \<in> set lens. c \<le> 16) \<and> mx \<le> mx' \<and> (\<forall>c \<in> set lens. c \<le> mx') \<and> (mx' = mx \<or> mx' \<in> set lens) \<and>
    (\<forall>l < 17. count' ! l = count_of ! l + length (filter (\<lambda>c. unat c = l) lens))"
  using assms
proof (induction lens arbitrary: count_of mx)
  case (Cons cl lens)
  have cl: "\<not> 16 < cl" using Cons.prems(1) by (auto split: if_splits)
  then have u: "unat cl < 17" by (simp add: word_less_nat_alt)
  from Cons.IH[of "count_of[unat cl := count_of ! unat cl + 1]" "max mx cl"] Cons.prems cl
  show ?case using u by (auto simp: nth_list_update not_less max_def split: if_splits)
qed auto

lemma bt_first_spec:
  assumes "bt_first count_of i n code first = (first', code')" "length first = 17" "0 < i" "i + n \<le> 17"
    "\<forall>l < 17. 0 < l \<longrightarrow> count_of ! l = len_count lens l" "code = first_code lens (i - 1) + len_count lens (i - 1)"
  shows "length first' = 17 \<and> code' = first_code lens (i + n - 1) + len_count lens (i + n - 1) \<and>
    (\<forall>l. first' ! l = (if i \<le> l \<and> l < i + n then first_code lens l else first ! l))"
  using assms
proof (induction n arbitrary: i code first)
  case (Suc n)
  have fc: "first_code lens i = 2 * code" using Suc.prems(3,6) by (cases i) auto
  have "bt_first count_of (i + 1) n (2 * code + count_of ! i) (first[i := 2 * code]) = (first', code')"
    using Suc.prems(1) by (simp add: Let_def)
  moreover have "2 * code + count_of ! i = first_code lens (i + 1 - 1) + len_count lens (i + 1 - 1)"
    using fc Suc.prems(3-5) by simp
  ultimately have "length first' = 17 \<and> code' = first_code lens (i + 1 + n - 1) + len_count lens (i + 1 + n - 1) \<and>
      (\<forall>l. first' ! l = (if i + 1 \<le> l \<and> l < i + 1 + n then first_code lens l else first[i := 2 * code] ! l))"
    using Suc.prems(2-5) by (intro Suc.IH) simp_all
  then show ?case using fc Suc.prems(2,4) by (auto simp: nth_list_update)
qed auto

text \<open>The codes of length \<open>l\<close> scaled to \<open>T\<close> bits end where those of length \<open>l + 1\<close> begin.\<close>

lemma scaled_step:
  "l < t \<Longrightarrow> first_code lens (Suc l) * 2 ^ (t - Suc l) = (first_code lens l + len_count lens l) * 2 ^ (t - l)"
proof -
  assume "l < t"
  then have "2 ^ (t - l) = 2 * (2::nat) ^ (t - Suc l)" by (metis Suc_diff_Suc power_Suc)
  then show ?thesis by (simp add: algebra_simps)
qed

lemma scaled_mono:
  assumes "l < k" "k \<le> t"
  shows "(first_code lens l + len_count lens l) * 2 ^ (t - l) \<le> first_code lens k * 2 ^ (t - k)"
  using assms
proof (induction k)
  case (Suc k)
  show ?case
  proof (cases "l = k")
    case True
    then show ?thesis using scaled_step[of l t lens] Suc.prems by simp
  next
    case False
    then have "(first_code lens l + len_count lens l) * 2 ^ (t - l) \<le> first_code lens k * 2 ^ (t - k)" using Suc by simp
    also have "\<dots> \<le> (first_code lens k + len_count lens k) * 2 ^ (t - k)" by simp
    also have "\<dots> = first_code lens (Suc k) * 2 ^ (t - Suc k)" using scaled_step[of k t lens] Suc.prems by simp
    finally show ?thesis .
  qed
qed simp

lemma rank_less:
  assumes "i < length lens" "unat (lens ! i) = l" "0 < l"
  shows "rank_of lens i l < len_count lens l" "j < i \<Longrightarrow> unat (lens ! j) = l \<Longrightarrow> rank_of lens j l < rank_of lens i l"
proof -
  have step: "rank_of lens (Suc k) l = rank_of lens k l + (if unat (lens ! k) = l then 1 else 0)" if "k < length lens" for k
    using that by (simp add: rank_of_def take_Suc_conv_app_nth)
  have mono: "rank_of lens a l \<le> rank_of lens b l" if "a \<le> b" for a b
  proof -
    have "take b lens = take a lens @ drop a (take b lens)" using that by (metis append_take_drop_id min_def take_take)
    then show ?thesis by (metis rank_of_def filter_append length_append le_add1)
  qed
  have "len_count lens l = rank_of lens (length lens) l" using assms(3) by (simp add: len_count_def rank_of_def)
  then show "rank_of lens i l < len_count lens l" using step[OF assms(1)] mono[of "Suc i" "length lens"] assms(1,2) by simp
  show "rank_of lens j l < rank_of lens i l" if "j < i" "unat (lens ! j) = l"
    using step[of j] mono[of "Suc j" i] that assms(1) by simp
qed

section \<open>The table\<close>

text \<open>
  The entry a table holds for a number of \<open>t\<close> bits, and the shape of a table under construction: from \<open>core\<close> on
  the first level holds the numbers of the rows of the second one.
\<close>

definition look :: "Huffman \<Rightarrow> nat \<Rightarrow> nat \<Rightarrow> u16" where
  "look h t v = (let e = hf_table h ! (v div 2 ^ (t - 9)) in
     if 512 \<le> unat e then e else hf_extra h ! unat e ! (v mod 2 ^ (t - 9)))"

definition settled :: "nat \<Rightarrow> Huffman \<Rightarrow> nat \<Rightarrow> nat \<Rightarrow> bool" where
  "settled core h t v \<longleftrightarrow> core \<le> v div 2 ^ (t - 9) \<or> 512 \<le> unat (hf_table h ! (v div 2 ^ (t - 9)))"

text \<open>\<open>h'\<close> is \<open>h\<close> with the numbers from \<open>lo\<close> to \<open>hi\<close> decoded to \<open>x\<close>.\<close>

definition extends :: "nat \<Rightarrow> nat \<Rightarrow> nat \<Rightarrow> nat \<Rightarrow> u16 \<Rightarrow> Huffman \<Rightarrow> Huffman \<Rightarrow> bool" where
  "extends core t lo hi x h h' \<longleftrightarrow> (\<forall>v < 2 ^ t.
     (lo \<le> v \<and> v < hi \<longrightarrow> settled core h' t v \<and> look h' t v = x) \<and>
     (\<not> (lo \<le> v \<and> v < hi) \<longrightarrow> settled core h t v \<longrightarrow> settled core h' t v \<and> look h' t v = look h t v))"

definition table_shape :: "nat \<Rightarrow> nat \<Rightarrow> Huffman \<Rightarrow> bool" where
  "table_shape m core h \<longleftrightarrow> unat (hf_maxbits h) = m \<and> length (hf_table h) = 512 \<and> core \<le> 512 \<and> (m \<le> 9 \<longrightarrow> core = 512) \<and>
     (\<forall>p. core \<le> p \<longrightarrow> p < 512 \<longrightarrow> unat (hf_table h ! p) = p - core) \<and>
     (9 < m \<longrightarrow> length (hf_extra h) = 512 - core \<and> (\<forall>row \<in> set (hf_extra h). length row = 2 ^ (m - 9)))"

lemma code_value_unat:
  assumes "i < 512" "unat cl \<le> 16"
  shows "unat (code_value cl i) = 512 * unat cl + i"
proof -
  have "push_bit 9 (ucast cl :: u16) AND of_nat i = 0"
  proof (rule bit_word_eqI)
    fix n
    have "unat (of_nat i :: u16) < 2 ^ 9" using assms(1) by simp
    then have "\<not> bit (of_nat i :: u16) n" if "9 \<le> n" using that bit_unat_less_pow[of "of_nat i :: u16" n 9] by linarith
    then show "bit (push_bit 9 (ucast cl :: u16) AND of_nat i) n = bit (0 :: u16) n" by (auto simp: bit_simps)
  qed
  then have "code_value cl i = push_bit 9 (ucast cl) + of_nat i"
    unfolding code_value_def by (simp add: disjunctive_add_eq_or)
  also have "\<dots> = of_nat (512 * unat cl + i)" by (simp add: push_bit_eq_mult)
  finally show ?thesis using assms by (simp del: of_nat_add of_nat_mult)
qed

lemma le_div_iff: "0 < s \<Longrightarrow> (a::nat) * s \<le> v \<longleftrightarrow> a \<le> v div s"
  by (simp add: less_eq_div_iff_mult_less_eq)

lemma less_div_iff: "0 < s \<Longrightarrow> v < (a::nat) * s \<longleftrightarrow> v div s < a"
  by (simp add: div_less_iff_less_mult)

lemma fill_range_Some: "start + n \<le> length xs \<Longrightarrow> fill_range start n x xs = Some (wr xs start (replicate n x))"
  by (simp add: fill_range_def put_slice_Some)

lemma nth_fill:
  "start + n \<le> length xs \<Longrightarrow> p < length xs \<Longrightarrow> wr xs start (replicate n x) ! p = (if start \<le> p \<and> p < start + n then x else xs ! p)"
  by (auto simp: nth_wr)

lemma bt_entry_short:
  assumes h: "table_shape m core h" and t: "t = max m 9" and cl: "0 < unat cl" "unat cl \<le> 9" "i < 512"
    and code: "(code + 1) * 2 ^ (9 - unat cl) \<le> core"
  shows "\<exists>h'. bt_entry mx i code cl h = Some h' \<and> table_shape m core h' \<and>
    extends core t (code * 2 ^ (t - unat cl)) ((code + 1) * 2 ^ (t - unat cl)) (code_value cl i) h h'"
proof -
  let ?n = "2 ^ (9 - unat cl) :: nat" and ?s = "2 ^ (t - 9) :: nat" and ?x = "code_value cl i"
  let ?tab = "wr (hf_table h) (code * ?n) (replicate ?n ?x)"
  let ?h = "h\<lparr>hf_table := ?tab\<rparr>"
  have len: "length (hf_table h) = 512" "core \<le> 512" using h by (simp_all add: table_shape_def)
  have rng: "code * ?n + ?n \<le> core" using code by (simp add: algebra_simps)
  then have r: "code * ?n + ?n \<le> length (hf_table h)" using len by simp
  have ok: "bt_entry mx i code cl h = Some ?h"
    using cl(2) fill_range_Some[OF r, of ?x] by (simp add: bt_entry_def Let_def)
  have x: "512 \<le> unat ?x" using code_value_unat[of i cl] cl by simp
  have "table_shape m core ?h" using h rng r len by (auto simp: table_shape_def nth_fill)
  moreover have "extends core t (code * 2 ^ (t - unat cl)) ((code + 1) * 2 ^ (t - unat cl)) ?x h ?h"
    unfolding extends_def
  proof (intro allI impI)
    fix v :: nat assume v: "v < 2 ^ t"
    have "t - unat cl = (9 - unat cl) + (t - 9)" using t cl(2) by simp
    then have pw: "2 ^ (t - unat cl) = ?n * ?s" by (metis power_add)
    have "t = 9 + (t - 9)" using t by simp
    then have "2 ^ t = 2 ^ 9 * ?s" by (metis power_add)
    then have p: "v div ?s < 512" using v by (simp add: div_less_iff_less_mult)
    have "code * 2 ^ (t - unat cl) \<le> v \<longleftrightarrow> code * ?n \<le> v div ?s" "v < (code + 1) * 2 ^ (t - unat cl) \<longleftrightarrow> v div ?s < code * ?n + ?n"
      unfolding pw using le_div_iff[of ?s "code * ?n" v] less_div_iff[of ?s v "code * ?n + ?n"] by (simp_all add: algebra_simps)
    then have iff: "code * 2 ^ (t - unat cl) \<le> v \<and> v < (code + 1) * 2 ^ (t - unat cl) \<longleftrightarrow> code * ?n \<le> v div ?s \<and> v div ?s < code * ?n + ?n" by blast
    have e: "?tab ! (v div ?s) = (if code * ?n \<le> v div ?s \<and> v div ?s < code * ?n + ?n then ?x else hf_table h ! (v div ?s))"
      using p r len by (simp add: nth_fill)
    show "(code * 2 ^ (t - unat cl) \<le> v \<and> v < (code + 1) * 2 ^ (t - unat cl) \<longrightarrow> settled core ?h t v \<and> look ?h t v = ?x) \<and>
      (\<not> (code * 2 ^ (t - unat cl) \<le> v \<and> v < (code + 1) * 2 ^ (t - unat cl)) \<longrightarrow> settled core h t v \<longrightarrow> settled core ?h t v \<and> look ?h t v = look h t v)"
      unfolding iff settled_def look_def Let_def using e x by (cases "code * ?n \<le> v div ?s \<and> v div ?s < code * ?n + ?n") auto
  qed
  ultimately show ?thesis using ok by blast
qed

lemma bt_entry_long:
  assumes h: "table_shape m core h" and mx: "unat mx = m" "m \<le> 16" and cl: "9 < unat cl" "unat cl \<le> m" "i < 512"
    and code: "core * 2 ^ (unat cl - 9) \<le> code" "code < 2 ^ unat cl"
  shows "\<exists>h'. bt_entry mx i code cl h = Some h' \<and> table_shape m core h' \<and>
    extends core m (code * 2 ^ (m - unat cl)) ((code + 1) * 2 ^ (m - unat cl)) (code_value cl i) h h'"
proof -
  let ?l = "unat cl" and ?x = "code_value cl i"
  let ?k = "2 ^ (?l - 9) :: nat" and ?w = "2 ^ (m - ?l) :: nat" and ?s = "2 ^ (m - 9) :: nat"
  let ?p = "code div ?k" and ?q = "code mod ?k"
  have lm: "9 < m" using cl by simp
  have s: "?s = ?w * ?k" using cl by (simp flip: power_add)
  have l9: "2 ^ ?l = 512 * ?k"
  proof -
    have "?l = 9 + (?l - 9)" using cl(1) by simp
    then have "(2::nat) ^ ?l = 2 ^ 9 * ?k" by (metis power_add)
    then show ?thesis by simp
  qed
  have m9: "(2::nat) ^ m = 512 * ?s"
  proof -
    have "m = 9 + (m - 9)" using lm by simp
    then have "(2::nat) ^ m = 2 ^ 9 * ?s" by (metis power_add)
    then show ?thesis by simp
  qed
  have p: "core \<le> ?p" "?p < 512" using code l9 le_div_iff[of ?k core code] less_div_iff[of ?k code 512] by simp_all
  have sh: "length (hf_table h) = 512" "unat (hf_table h ! ?p) = ?p - core" "length (hf_extra h) = 512 - core"
    "\<And>row. row \<in> set (hf_extra h) \<Longrightarrow> length row = ?s" "unat (hf_maxbits h) = m" "core \<le> 512"
    using h p lm by (auto simp: table_shape_def)
  let ?r = "?p - core"
  have r: "?r < length (hf_extra h)" using p sh by simp
  have rl: "length (hf_extra h ! ?r) = ?s" using sh(4) nth_mem[OF r] by blast
  have "(?q + 1) * ?w \<le> ?k * ?w" by (intro mult_right_mono) (simp_all add: Suc_le_eq)
  then have q: "?q * ?w + ?w \<le> length (hf_extra h ! ?r)" using rl s by (simp add: algebra_simps)
  let ?row = "wr (hf_extra h ! ?r) (?q * ?w) (replicate ?w ?x)"
  let ?h = "h\<lparr>hf_extra := (hf_extra h)[?r := ?row]\<rparr>"
  have ok: "bt_entry mx i code cl h = Some ?h"
    using cl p sh r q mx fill_range_Some[OF q, of ?x] by (simp add: bt_entry_def Let_def exec_simps)
  have "table_shape m core ?h" using h r rl lm set_update_subset_insert[of "hf_extra h" ?r ?row] by (auto simp: table_shape_def)
  moreover have "extends core m (code * ?w) ((code + 1) * ?w) ?x h ?h"
    unfolding extends_def
  proof (intro allI impI)
    fix v :: nat assume v: "v < 2 ^ m"
    let ?vp = "v div ?s" and ?vq = "v mod ?s"
    have vp: "?vp < 512" using v m9 by (simp add: div_less_iff_less_mult)
    have c1: "?vp = (v div ?w) div ?k" unfolding s by (rule div_mult2_eq)
    have c2: "?vq div ?w = (v div ?w) mod ?k" unfolding s by (simp add: mod_mult2_eq)
    have vq: "?vq < ?s" by simp
    have "code * ?w \<le> v \<and> v < (code + 1) * ?w \<longleftrightarrow> v div ?w = code"
      using le_div_iff[of ?w code v] less_div_iff[of ?w v "code + 1"] by auto
    also have "\<dots> \<longleftrightarrow> ?vp = ?p \<and> ?vq div ?w = ?q" unfolding c1 c2 by (metis div_mult_mod_eq)
    also have "\<dots> \<longleftrightarrow> ?vp = ?p \<and> ?q * ?w \<le> ?vq \<and> ?vq < ?q * ?w + ?w"
      using le_div_iff[of ?w ?q ?vq] less_div_iff[of ?w ?vq "?q + 1"] by (auto simp: algebra_simps)
    finally have iff: "code * ?w \<le> v \<and> v < (code + 1) * ?w \<longleftrightarrow> ?vp = ?p \<and> ?q * ?w \<le> ?vq \<and> ?vq < ?q * ?w + ?w" .
    have e: "?row ! ?vq = (if ?q * ?w \<le> ?vq \<and> ?vq < ?q * ?w + ?w then ?x else hf_extra h ! ?r ! ?vq)"
      using vq rl q by (intro nth_fill) simp_all
    have at: "core \<le> ?vp \<Longrightarrow> unat (hf_table h ! ?vp) = ?vp - core" using h vp by (simp add: table_shape_def)
    have big: "\<not> core \<le> ?vp \<Longrightarrow> ?vp \<noteq> ?p" using p(1) by auto
    have row: "core \<le> ?vp \<Longrightarrow> ((hf_extra h)[?r := ?row]) ! (?vp - core) = (if ?vp = ?p then ?row else hf_extra h ! (?vp - core))"
      using r p(1) by (auto simp: nth_list_update)
    show "(code * ?w \<le> v \<and> v < (code + 1) * ?w \<longrightarrow> settled core ?h m v \<and> look ?h m v = ?x) \<and>
      (\<not> (code * ?w \<le> v \<and> v < (code + 1) * ?w) \<longrightarrow> settled core h m v \<longrightarrow> settled core ?h m v \<and> look ?h m v = look h m v)"
    proof (cases "core \<le> ?vp")
      case True
      have "\<not> 512 \<le> ?vp - core" using vp by simp
      then show ?thesis unfolding iff settled_def look_def Let_def using True at[OF True] row[OF True] e p(1)
        by (cases "?vp = ?p") (simp_all split del: if_split, auto)
    next
      case False
      then show ?thesis unfolding iff settled_def look_def Let_def using big[OF False] by auto
    qed
  qed
  ultimately show ?thesis using ok by blast
qed

section \<open>Building a table\<close>

definition complete_lens :: "u8 list \<Rightarrow> nat \<Rightarrow> bool" where
  "complete_lens lens m \<longleftrightarrow> 0 < m \<and> m \<le> 16 \<and> length lens \<le> 512 \<and> (\<forall>c \<in> set lens. unat c \<le> m) \<and>
     first_code lens m + len_count lens m = 2 ^ m"

definition core_of :: "u8 list \<Rightarrow> nat \<Rightarrow> nat" where
  "core_of lens m = (if 9 < m then first_code lens 9 + len_count lens 9 else 512)"

definition code_lo :: "u8 list \<Rightarrow> nat \<Rightarrow> nat \<Rightarrow> nat" where
  "code_lo lens t i = canonical_code lens i * 2 ^ (t - unat (lens ! i))"

definition code_hi :: "u8 list \<Rightarrow> nat \<Rightarrow> nat \<Rightarrow> nat" where
  "code_hi lens t i = (canonical_code lens i + 1) * 2 ^ (t - unat (lens ! i))"

lemma canonical_less:
  "i < length lens \<Longrightarrow> lens ! i \<noteq> 0 \<Longrightarrow> canonical_code lens i + 1 \<le> first_code lens (unat (lens ! i)) + len_count lens (unat (lens ! i))"
  using rank_less(1)[of i lens "unat (lens ! i)"] by (simp add: canonical_code_def unat_gt_0)

lemma code_hi_le_lo:
  assumes "i < length lens" "j < length lens" "lens ! i \<noteq> 0" "unat (lens ! i) < unat (lens ! j)" "unat (lens ! j) \<le> t"
  shows "code_hi lens t i \<le> code_lo lens t j"
proof -
  have "code_hi lens t i \<le> (first_code lens (unat (lens ! i)) + len_count lens (unat (lens ! i))) * 2 ^ (t - unat (lens ! i))"
    unfolding code_hi_def using canonical_less[OF assms(1,3)] by (intro mult_right_mono) simp_all
  also have "\<dots> \<le> first_code lens (unat (lens ! j)) * 2 ^ (t - unat (lens ! j))" by (rule scaled_mono[OF assms(4,5)])
  also have "\<dots> \<le> code_lo lens t j" by (simp add: code_lo_def canonical_code_def)
  finally show ?thesis .
qed

lemma codes_disjoint:
  assumes "j < i" "i < length lens" "lens ! i \<noteq> 0" "lens ! j \<noteq> 0" "unat (lens ! i) \<le> t" "unat (lens ! j) \<le> t"
  shows "code_hi lens t i \<le> code_lo lens t j \<or> code_hi lens t j \<le> code_lo lens t i"
proof (cases "unat (lens ! i) = unat (lens ! j)")
  case True
  have "rank_of lens j (unat (lens ! i)) < rank_of lens i (unat (lens ! i))"
    by (rule rank_less(2)[OF assms(2) refl _ assms(1) True[symmetric]]) (use assms(3) in \<open>simp add: unat_gt_0\<close>)
  then have "canonical_code lens j + 1 \<le> canonical_code lens i" using True by (simp add: canonical_code_def)
  then have "code_hi lens t j \<le> code_lo lens t i" unfolding code_hi_def code_lo_def True by (intro mult_right_mono) simp_all
  then show ?thesis by (rule disjI2)
next
  case False
  have j: "j < length lens" using assms(1,2) by simp
  show ?thesis
  proof (cases "unat (lens ! i) < unat (lens ! j)")
    case True
    from code_hi_le_lo[OF assms(2) j assms(3) True assms(6)] show ?thesis by (rule disjI1)
  next
    case ge: False
    with False have "unat (lens ! j) < unat (lens ! i)" by simp
    from code_hi_le_lo[OF j assms(2,4) this assms(5)] show ?thesis by (rule disjI2)
  qed
qed

lemma complete_scaled:
  assumes c: "complete_lens lens m" and l: "l \<le> m"
  shows "(first_code lens l + len_count lens l) * 2 ^ (m - l) \<le> 2 ^ m"
proof (cases "l = m")
  case True
  then show ?thesis using c by (simp add: complete_lens_def)
next
  case False
  then have "(first_code lens l + len_count lens l) * 2 ^ (m - l) \<le> first_code lens m * 2 ^ (m - m)" using l by (intro scaled_mono) simp_all
  then show ?thesis using c by (simp add: complete_lens_def)
qed

lemma complete_bound:
  assumes c: "complete_lens lens m" and l: "l \<le> m"
  shows "first_code lens l + len_count lens l \<le> 2 ^ l"
proof -
  have "2 ^ m = 2 ^ l * (2::nat) ^ (m - l)" using l by (simp flip: power_add)
  then show ?thesis using complete_scaled[OF c l] by simp
qed

lemma core_bounds:
  assumes c: "complete_lens lens m" and l: "0 < l" "l \<le> m"
  shows "core_of lens m \<le> 512"
    "l \<le> 9 \<Longrightarrow> (first_code lens l + len_count lens l) * 2 ^ (9 - l) \<le> core_of lens m"
    "9 < l \<Longrightarrow> core_of lens m * 2 ^ (l - 9) \<le> first_code lens l"
proof -
  show "core_of lens m \<le> 512" using complete_bound[OF c, of 9] by (auto simp: core_of_def)
  show "(first_code lens l + len_count lens l) * 2 ^ (9 - l) \<le> core_of lens m" if l9: "l \<le> 9"
  proof (cases "9 < m")
    case True
    have "(first_code lens l + len_count lens l) * 2 ^ (9 - l) \<le> first_code lens 9 + len_count lens 9"
    proof (cases "l = 9")
      case False
      then have "(first_code lens l + len_count lens l) * 2 ^ (9 - l) \<le> first_code lens 9 * 2 ^ (9 - 9)" using l9 by (intro scaled_mono) simp_all
      then show ?thesis by simp
    qed simp
    then show ?thesis using True by (simp add: core_of_def)
  next
    case False
    have "(first_code lens l + len_count lens l) * 2 ^ (9 - l) \<le> 2 ^ l * 2 ^ (9 - l)"
      using complete_bound[OF c l(2)] by (intro mult_right_mono) simp_all
    also have "\<dots> = (2::nat) ^ 9" using l9 by (simp flip: power_add)
    finally show ?thesis using False by (simp add: core_of_def)
  qed
  show "core_of lens m * 2 ^ (l - 9) \<le> first_code lens l" if "9 < l"
    using scaled_mono[of 9 l l lens] that l(2) by (simp add: core_of_def)
qed

definition decoded :: "u8 list \<Rightarrow> nat \<Rightarrow> Huffman \<Rightarrow> nat \<Rightarrow> bool" where
  "decoded lens m h j \<longleftrightarrow> (\<forall>v < 2 ^ max m 9. code_lo lens (max m 9) j \<le> v \<longrightarrow> v < code_hi lens (max m 9) j \<longrightarrow>
     settled (core_of lens m) h (max m 9) v \<and> look h (max m 9) v = code_value (lens ! j) j)"

lemma decoded_extends:
  assumes "decoded lens m h j" "extends (core_of lens m) (max m 9) lo hi x h h'"
    and "hi \<le> code_lo lens (max m 9) j \<or> code_hi lens (max m 9) j \<le> lo"
  shows "decoded lens m h' j"
  unfolding decoded_def
proof (intro allI impI)
  fix v assume v: "v < 2 ^ max m 9" "code_lo lens (max m 9) j \<le> v" "v < code_hi lens (max m 9) j"
  have "settled (core_of lens m) h (max m 9) v \<and> look h (max m 9) v = code_value (lens ! j) j" using assms(1) v unfolding decoded_def by blast
  moreover have "\<not> (lo \<le> v \<and> v < hi)" using assms(3) v by linarith
  ultimately show "settled (core_of lens m) h' (max m 9) v \<and> look h' (max m 9) v = code_value (lens ! j) j"
    using assms(2) v(1) unfolding extends_def by simp
qed

lemma bt_entry_ok:
  assumes c: "complete_lens lens m" and h: "table_shape m (core_of lens m) h" and mx: "unat mx = m"
    and i: "i < length lens" "lens ! i \<noteq> 0"
  defines "t \<equiv> max m 9"
  shows "\<exists>h'. bt_entry mx i (canonical_code lens i) (lens ! i) h = Some h' \<and> table_shape m (core_of lens m) h' \<and>
    extends (core_of lens m) t (code_lo lens t i) (code_hi lens t i) (code_value (lens ! i) i) h h'"
proof -
  let ?l = "unat (lens ! i)" and ?c = "canonical_code lens i"
  have l: "0 < ?l" "?l \<le> m" "i < 512" using c i by (auto simp: complete_lens_def unat_gt_0)
  note less = canonical_less[OF i]
  note cb = core_bounds[OF c l(1,2)]
  show ?thesis
  proof (cases "?l \<le> 9")
    case True
    have "(?c + 1) * 2 ^ (9 - ?l) \<le> (first_code lens ?l + len_count lens ?l) * 2 ^ (9 - ?l)" using less by (intro mult_right_mono) simp_all
    then have "(?c + 1) * 2 ^ (9 - ?l) \<le> core_of lens m" using cb(2)[OF True] by linarith
    from bt_entry_short[OF h t_def[THEN meta_eq_to_obj_eq] l(1) True l(3) this, of mx] show ?thesis by (simp add: code_lo_def code_hi_def)
  next
    case False
    then have t: "t = m" using l(2) by (simp add: t_def)
    have "core_of lens m * 2 ^ (?l - 9) \<le> ?c" using cb(3) False by (simp add: canonical_code_def)
    moreover have "?c < 2 ^ ?l" using less complete_bound[OF c l(2)] by simp
    moreover have "m \<le> 16" using c by (simp add: complete_lens_def)
    ultimately show ?thesis using bt_entry_long[OF h mx, of "lens ! i" i ?c] False l by (simp add: t code_lo_def code_hi_def)
  qed
qed

lemma bt_fill_ok:
  assumes c: "complete_lens lens m" and mx: "unat mx = m" and "i + n = length lens"
    and "table_shape m (core_of lens m) h" "length first = 17"
    and "\<forall>l. 0 < l \<longrightarrow> l \<le> m \<longrightarrow> first ! l = first_code lens l + rank_of lens i l"
    and "\<forall>j < i. lens ! j \<noteq> 0 \<longrightarrow> decoded lens m h j"
  shows "\<exists>h'. bt_fill mx (drop i lens) i first h = Some h' \<and> table_shape m (core_of lens m) h' \<and>
    (\<forall>j < length lens. lens ! j \<noteq> 0 \<longrightarrow> decoded lens m h' j)"
  using assms(3-)
proof (induction n arbitrary: i first h)
  case (Suc n)
  let ?cl = "lens ! i" and ?t = "max m 9"
  have i: "i < length lens" using Suc.prems(1) by simp
  have d: "drop i lens = ?cl # drop (Suc i) lens" using i by (simp add: Cons_nth_drop_Suc)
  have le: "unat c \<le> m" if "c \<in> set lens" for c using c that by (simp add: complete_lens_def)
  have rk: "rank_of lens (Suc i) l = rank_of lens i l + (if unat ?cl = l then 1 else 0)" for l
    using i by (simp add: rank_of_def take_Suc_conv_app_nth)
  show ?case
  proof (cases "?cl = 0")
    case True
    have "\<forall>l. 0 < l \<longrightarrow> l \<le> m \<longrightarrow> first ! l = first_code lens l + rank_of lens (Suc i) l" using Suc.prems(4) True by (auto simp: rk)
    moreover have "\<forall>j < Suc i. lens ! j \<noteq> 0 \<longrightarrow> decoded lens m h j" using Suc.prems(5) True by (auto simp: less_Suc_eq)
    ultimately show ?thesis using Suc.IH[of "Suc i" h first] Suc.prems(1-3) True d by simp
  next
    case False
    have l: "0 < unat ?cl" "unat ?cl \<le> m" "unat ?cl < 17" using False le[of ?cl] i c by (auto simp: unat_gt_0 complete_lens_def dest!: nth_mem)
    have code: "first ! unat ?cl = canonical_code lens i" using Suc.prems(4) l by (simp add: canonical_code_def)
    from bt_entry_ok[OF c Suc.prems(2) mx i False] obtain h' where h': "bt_entry mx i (canonical_code lens i) ?cl h = Some h'"
      "table_shape m (core_of lens m) h'" "extends (core_of lens m) ?t (code_lo lens ?t i) (code_hi lens ?t i) (code_value ?cl i) h h'" by blast
    let ?first = "first[unat ?cl := canonical_code lens i + 1]"
    have "\<forall>l. 0 < l \<longrightarrow> l \<le> m \<longrightarrow> ?first ! l = first_code lens l + rank_of lens (Suc i) l"
      using Suc.prems(3,4) l by (auto simp: rk nth_list_update canonical_code_def)
    moreover have "decoded lens m h' j" if j: "j < Suc i" "lens ! j \<noteq> 0" for j
    proof (cases "j = i")
      case True
      then show ?thesis using h'(3) by (auto simp: decoded_def extends_def)
    next
      case ji: False
      then have lt: "j < i" using j by simp
      have "unat (lens ! i) \<le> ?t" "unat (lens ! j) \<le> ?t" using le[OF nth_mem[OF i]] le[OF nth_mem, of j] lt i by simp_all
      from codes_disjoint[OF lt i False j(2) this] Suc.prems(5) lt j(2) h'(3) show ?thesis by (blast intro: decoded_extends)
    qed
    ultimately show ?thesis using Suc.IH[of "Suc i" h' ?first] Suc.prems(1,3) False d code h'(1,2) by simp
  qed
qed auto

definition huffman_ok :: "u8 list \<Rightarrow> Huffman \<Rightarrow> bool" where
  "huffman_ok lens h \<longleftrightarrow> hf_maxbits h = 0 \<and> (\<forall>c \<in> set lens. c = 0) \<or>
    (\<exists>m. complete_lens lens m \<and> table_shape m (core_of lens m) h \<and> (\<forall>j < length lens. lens ! j \<noteq> 0 \<longrightarrow> decoded lens m h j))"

lemma bt_extra_shape:
  assumes c: "complete_lens lens m" and mx: "unat mx = m" and f: "9 < m \<Longrightarrow> first ! 10 = first_code lens 10"
  shows "table_shape m (core_of lens m) (bt_extra mx first (empty_huffman mx))"
proof (cases "9 < m")
  case True
  have core: "first ! 10 div 2 = core_of lens m" using f[OF True] True first_code.simps(2)[of lens 9] by (simp add: core_of_def)
  have le: "core_of lens m \<le> 512" using core_bounds(1)[OF c, of m] c by (simp add: complete_lens_def)
  have "unat ((take (core_of lens m) (replicate 512 0) @ map (\<lambda>code. of_nat (code - core_of lens m) :: u16) [core_of lens m..<512]) ! p) = p - core_of lens m"
    if "core_of lens m \<le> p" "p < 512" for p using that le by (simp add: nth_append del: of_nat_diff)
  then show ?thesis using True mx le core by (simp add: bt_extra_def empty_huffman_def table_shape_def Let_def)
next
  case False
  then show ?thesis using mx by (simp add: bt_extra_def empty_huffman_def table_shape_def core_of_def)
qed

lemma build_table_ok:
  assumes "length lens \<le> 512"
  shows "\<exists>r. build_table lens = Some r \<and> (\<forall>h. r = Some h \<longrightarrow> huffman_ok lens h)"
proof (cases "bt_count lens (replicate 17 0) 0")
  case None
  then show ?thesis by (simp add: build_table_def)
next
  case (Some cm)
  obtain count_of mx where cm: "cm = (count_of, mx)" by (cases cm)
  note cnt = bt_count_spec[OF Some[unfolded cm], simplified]
  let ?m = "unat mx"
  show ?thesis
  proof (cases "mx = 0")
    case True
    then show ?thesis using Some cm cnt by (auto simp: build_table_def huffman_ok_def empty_huffman_def)
  next
    case False
    have m: "0 < ?m" "?m \<le> 16" using False cnt by (auto simp: unat_gt_0 word_le_nat_alt)
    obtain first code where fc: "bt_first count_of 1 ?m 0 (replicate 17 0) = (first, code)" by (cases "bt_first count_of 1 ?m 0 (replicate 17 0)")
    have "length first = 17 \<and> code = first_code lens (1 + ?m - 1) + len_count lens (1 + ?m - 1) \<and>
        (\<forall>l. first ! l = (if 1 \<le> l \<and> l < 1 + ?m then first_code lens l else replicate 17 0 ! l))"
      using m cnt by (intro bt_first_spec[OF fc]) (auto simp: len_count_def)
    then have f: "length first = 17" "code = first_code lens ?m + len_count lens ?m" "\<And>l. 0 < l \<Longrightarrow> l \<le> ?m \<Longrightarrow> first ! l = first_code lens l"
      by auto
    show ?thesis
    proof (cases "code = 2 ^ ?m")
      case True
      have c: "complete_lens lens ?m" using m f(2) True cnt assms by (auto simp: complete_lens_def word_le_nat_alt)
      have "table_shape ?m (core_of lens ?m) (bt_extra mx first (empty_huffman mx))" by (rule bt_extra_shape[OF c refl]) (simp add: f(3))
      from bt_fill_ok[OF c refl _ this f(1), of 0] obtain h where
        h: "bt_fill mx lens 0 first (bt_extra mx first (empty_huffman mx)) = Some h" "table_shape ?m (core_of lens ?m) h"
          "\<forall>j < length lens. lens ! j \<noteq> 0 \<longrightarrow> decoded lens ?m h j" using f(3) by (auto simp: rank_of_def)
      have "huffman_ok lens h" using c h by (auto simp: huffman_ok_def)
      then show ?thesis using Some cm False fc True h(1) by (simp add: build_table_def)
    next
      case neq: False
      then show ?thesis using Some cm False fc by (simp add: build_table_def)
    qed
  qed
qed

section \<open>Every number decodes\<close>

lemma rank_surj:
  assumes "r < rank_of lens n l" "n \<le> length lens"
  shows "\<exists>i < n. unat (lens ! i) = l \<and> rank_of lens i l = r"
  using assms
proof (induction n)
  case (Suc n)
  have "rank_of lens (Suc n) l = rank_of lens n l + (if unat (lens ! n) = l then 1 else 0)"
    using Suc.prems(2) by (simp add: rank_of_def take_Suc_conv_app_nth)
  then show ?case using Suc by (cases "r < rank_of lens n l") (auto split: if_splits intro: less_SucI)
qed (simp add: rank_of_def)

lemma find_len:
  assumes "v < (first_code lens k + len_count lens k) * 2 ^ (t - k)" "k \<le> t"
  shows "\<exists>l. 0 < l \<and> l \<le> k \<and> first_code lens l * 2 ^ (t - l) \<le> v \<and> v < (first_code lens l + len_count lens l) * 2 ^ (t - l)"
  using assms
proof (induction k)
  case (Suc k)
  show ?case
  proof (cases "v < first_code lens (Suc k) * 2 ^ (t - Suc k)")
    case True
    then have "v < (first_code lens k + len_count lens k) * 2 ^ (t - k)" using scaled_step[of k t lens] Suc.prems(2) by simp
    then show ?thesis using Suc by (meson Suc_leD le_SucI)
  next
    case False
    then show ?thesis using Suc.prems by (intro exI[of _ "Suc k"]) simp
  qed
qed (simp add: len_count_def)

lemma every_code:
  assumes c: "complete_lens lens m" and v: "v < 2 ^ t" "m \<le> t"
  shows "\<exists>i < length lens. lens ! i \<noteq> 0 \<and> code_lo lens t i \<le> v \<and> v < code_hi lens t i"
proof -
  have "(first_code lens m + len_count lens m) * 2 ^ (t - m) = 2 ^ t" using c v(2) by (simp add: complete_lens_def flip: power_add)
  with find_len[of v lens m t] v obtain l where l: "0 < l" "l \<le> m" "first_code lens l * 2 ^ (t - l) \<le> v"
    "v < (first_code lens l + len_count lens l) * 2 ^ (t - l)" by auto
  let ?w = "2 ^ (t - l) :: nat"
  let ?r = "v div ?w - first_code lens l"
  have r: "first_code lens l \<le> v div ?w" "v div ?w < first_code lens l + len_count lens l"
    using l(3,4) le_div_iff[of ?w "first_code lens l" v] less_div_iff[of ?w v] by simp_all
  have "?r < rank_of lens (length lens) l" using r l(1) by (auto simp: rank_of_def len_count_def)
  then obtain i where i: "i < length lens" "unat (lens ! i) = l" "rank_of lens i l = ?r" using rank_surj by blast
  have "canonical_code lens i = v div ?w" using i r by (simp add: canonical_code_def)
  then have "code_lo lens t i \<le> v" "v < code_hi lens t i"
    using i le_div_iff[of ?w "v div ?w" v] less_div_iff[of ?w v "v div ?w + 1"] by (simp_all add: code_lo_def code_hi_def)
  moreover have "lens ! i \<noteq> 0" using i(2) l(1) by auto
  ultimately show ?thesis using i(1) by blast
qed


section \<open>Decoding\<close>

definition feed :: "Decoder \<Rightarrow> Decoder exec" where
  "feed d = (if dc_bit_count d < MAX_TREE_PATH_LEN then map_option snd (try_feed d) else Some d)"

lemma unat_drop: "unat (drop_bit n w) = unat w div 2 ^ n" for w :: "'a::len word"
proof -
  have "unat (drop_bit n w) = drop_bit n (unat w)" by (rule unat_drop_bit_eq)
  then show ?thesis by (simp only: drop_bit_eq_div)
qed

lemma unat_suffix:
  fixes b :: u32
  assumes "k \<le> 23"
  shows "unat (drop_bit (32 - k) (push_bit 9 b)) = unat b div 2 ^ (23 - k) mod 2 ^ k"
proof -
  let ?x = "2 ^ (23 - k) :: nat"
  have x: "?x * 2 ^ k = 2 ^ 23" using assms by (simp flip: power_add)
  have "unat (push_bit 9 b) = unat b * 2 ^ 9 mod 2 ^ 32" by (simp add: push_bit_eq_mult unat_word_ariths)
  also have "\<dots> = unat b mod 2 ^ 23 * 2 ^ 9" using mult_mod_left[of "unat b" "2 ^ 23" "2 ^ 9"] by simp
  finally have "unat (drop_bit (32 - k) (push_bit 9 b)) = unat b mod 2 ^ 23 * 2 ^ 9 div 2 ^ (32 - k)" by (simp only: unat_drop)
  also have "(2::nat) ^ (32 - k) = ?x * 2 ^ 9" using assms by (simp only: power_add[symmetric]) simp
  also have "unat b mod 2 ^ 23 * 2 ^ 9 div (?x * 2 ^ 9) = unat b mod (?x * 2 ^ k) div ?x" unfolding x by (rule div_mult_mult2) simp
  also have "\<dots> = unat b div ?x mod 2 ^ k" by (simp add: mod_mult2_eq)
  finally show ?thesis .
qed

lemma feed_ok:
  "\<exists>d'. feed d = Some d' \<and> dc_input d' = dc_input d \<and> (unat (dc_bit_count d) < 32 \<longrightarrow> unat (dc_bit_count d') < 32)"
proof (cases "dc_bit_count d < 16 \<and> \<not> length (dc_input d) - dc_byte_offset d < 2")
  case True
  let ?c = "unat (dc_bit_count d)"
  have c: "?c < 16" using True by (simp add: word_less_nat_alt)
  then have le: "dc_bit_count d \<le> 16" by (simp add: word_le_nat_alt)
  then have "unat (16 - dc_bit_count d) = 16 - ?c" by (simp add: unat_sub)
  moreover have "vec_get (dc_input d) (dc_byte_offset d) = Some (dc_input d ! dc_byte_offset d)"
    "vec_get (dc_input d) (dc_byte_offset d + 1) = Some (dc_input d ! (dc_byte_offset d + 1))" using True by (auto simp: vec_get_Some)
  moreover have "16 - ?c < 32" by simp
  ultimately show ?thesis using True c le by (simp add: feed_def try_feed_def csub_def cshl_def cadd_def unat_word_ariths)
next
  case False
  then show ?thesis by (auto simp: feed_def try_feed_def)
qed

lemma look_get_code:
  assumes c: "complete_lens lens m" and h: "table_shape m (core_of lens m) h" and d: "feed d = Some d1"
    and t: "t = max m 9" and v: "v = unat (dc_bit_buffer d1) div 2 ^ (32 - t)"
    and s: "settled (core_of lens m) h t v" and big: "512 \<le> unat (look h t v)"
  shows "get_code h d = (let code = look h t v; n = ucast (drop_bit 9 code) in
     if dc_bit_count d1 < n then Err (unexpected_eof d1 ''huffman code tail'')
     else do { d \<leftarrow> drop_bits n d1; Ok (code AND CODE_MASK, d) })"
proof -
  let ?b = "dc_bit_buffer d1" and ?core = "core_of lens m"
  have m: "0 < m" "m \<le> 16" "unat (hf_maxbits h) = m" "length (hf_table h) = 512" using c h by (auto simp: complete_lens_def table_shape_def)
  have t16: "t \<le> 16" "9 \<le> t" using t m by simp_all
  have m0: "hf_maxbits h \<noteq> 0" using m by auto
  have pw: "(2::nat) ^ (32 - t) * 2 ^ (t - 9) = 2 ^ 23" using t16 by (simp flip: power_add)
  have idx: "unat (drop_bit 23 ?b) = v div 2 ^ (t - 9)" unfolding v unat_drop div_mult2_eq[symmetric] pw ..
  let ?e = "hf_table h ! (v div 2 ^ (t - 9))"
  have vp: "v div 2 ^ (t - 9) < 512" unfolding idx[symmetric] unat_drop using unat_bound[of ?b] by (simp add: div_less_iff_less_mult)
  have lt: "?e < 512 \<longleftrightarrow> \<not> 512 \<le> unat ?e" by (simp add: word_less_nat_alt not_le)
  show ?thesis
  proof (cases "512 \<le> unat ?e")
    case True
    then have "look h t v = ?e" by (simp add: look_def)
    then show ?thesis using True m0 d idx vp m lt by (simp add: get_code_def feed_def vec_get_Some Let_def)
  next
    case False
    then have cp: "?core \<le> v div 2 ^ (t - 9)" using s by (simp add: settled_def)
    then have m9: "9 < m" using h vp by (auto simp: table_shape_def not_le)
    then have tm: "t = m" using t by simp
    have row: "unat ?e < length (hf_extra h)" "length (hf_extra h ! unat ?e) = 2 ^ (m - 9)"
      using h cp vp m9 by (auto simp: table_shape_def)
    have suf: "unat (drop_bit (32 - (m - 9)) (push_bit 9 ?b)) = v mod 2 ^ (m - 9)"
      unfolding v tm using unat_suffix[of "m - 9" ?b] m m9 by simp
    have "look h t v = hf_extra h ! unat ?e ! (v mod 2 ^ (m - 9))" using False tm by (simp add: look_def)
    moreover have "32 - (m - 9) < 32" using m9 by simp
    ultimately show ?thesis using False m0 d idx vp m lt m9 row suf by (simp add: get_code_def feed_def vec_get_Some Let_def cshr_def tm)
  qed
qed

lemma code_value_fields:
  assumes "i < 512" "unat cl \<le> 16"
  shows "ucast (drop_bit 9 (code_value cl i)) = cl" "code_value cl i AND CODE_MASK = of_nat i"
proof -
  note u = code_value_unat[OF assms]
  have "unat (drop_bit 9 (code_value cl i)) = unat cl" unfolding unat_drop u using assms(1) by simp
  then have "of_nat (unat (drop_bit 9 (code_value cl i))) = (of_nat (unat cl) :: u8)" by simp
  then show "ucast (drop_bit 9 (code_value cl i)) = cl" by simp
  have "code_value cl i AND mask 9 = of_nat (unat (code_value cl i) mod 2 ^ 9)" by (rule and_mask_eq)
  then show "code_value cl i AND CODE_MASK = of_nat i" unfolding u using assms(1) by (simp add: mask_numeral)
qed

lemma top_bits:
  assumes "l \<le> t" "t \<le> 32"
  shows "c * 2 ^ (t - l) \<le> b div 2 ^ (32 - t) \<and> b div 2 ^ (32 - t) < (c + 1) * 2 ^ (t - l) \<longleftrightarrow> b div 2 ^ (32 - l) = (c :: nat)"
proof -
  have "2 ^ (32 - t) * (2::nat) ^ (t - l) = 2 ^ (32 - l)" using assms by (simp flip: power_add)
  then have "b div 2 ^ (32 - l) = b div 2 ^ (32 - t) div 2 ^ (t - l)" by (metis div_mult2_eq)
  then show ?thesis using le_div_iff[of "2 ^ (t - l)" c] less_div_iff[of "2 ^ (t - l)" _ "c + 1"] by auto
qed

lemma get_code_eq:
  assumes h: "huffman_ok lens h" "hf_maxbits h \<noteq> 0" and d: "feed d = Some d1"
  shows "\<exists>i < length lens. lens ! i \<noteq> 0 \<and> unat (lens ! i) \<le> 16 \<and> i < 512 \<and>
    unat (dc_bit_buffer d1) div 2 ^ (32 - unat (lens ! i)) = canonical_code lens i \<and>
    get_code h d = (if dc_bit_count d1 < lens ! i then Err (unexpected_eof d1 ''huffman code tail'')
      else do { d \<leftarrow> drop_bits (lens ! i) d1; Ok (of_nat i, d) })"
proof -
  from h obtain m where c: "complete_lens lens m" and sh: "table_shape m (core_of lens m) h"
    and dec: "\<forall>j < length lens. lens ! j \<noteq> 0 \<longrightarrow> decoded lens m h j" by (auto simp: huffman_ok_def)
  let ?t = "max m 9" and ?b = "unat (dc_bit_buffer d1)"
  let ?v = "?b div 2 ^ (32 - ?t)"
  have m: "m \<le> 16" "length lens \<le> 512" "\<forall>c \<in> set lens. unat c \<le> m" using c by (simp_all add: complete_lens_def)
  have "2 ^ ?t * (2::nat) ^ (32 - ?t) = 2 ^ 32" using m(1) by (simp only: power_add[symmetric]) simp
  then have v: "?v < 2 ^ ?t" using unat_bound[of "dc_bit_buffer d1"] by (simp add: div_less_iff_less_mult)
  obtain i where i: "i < length lens" "lens ! i \<noteq> 0" "code_lo lens ?t i \<le> ?v" "?v < code_hi lens ?t i"
    using every_code[OF c v] by auto
  let ?x = "code_value (lens ! i) i"
  have l: "unat (lens ! i) \<le> m" "i < 512" using m i(1) by auto
  then have l16: "unat (lens ! i) \<le> 16" using m(1) by simp
  have "settled (core_of lens m) h ?t ?v \<and> look h ?t ?v = ?x" using dec i v unfolding decoded_def by blast
  then have s: "settled (core_of lens m) h ?t ?v" "look h ?t ?v = ?x" by simp_all
  have big: "512 \<le> unat (look h ?t ?v)" 
  proof -
    have "0 < unat (lens ! i)" using i(2) by (simp add: unat_gt_0)
    then show ?thesis unfolding s(2) code_value_unat[OF l(2) l16] by linarith
  qed
  have "get_code h d = (if dc_bit_count d1 < lens ! i then Err (unexpected_eof d1 ''huffman code tail'')
      else do { d \<leftarrow> drop_bits (lens ! i) d1; Ok (of_nat i, d) })"
    using look_get_code[OF c sh d refl refl s(1) big] unfolding s(2) Let_def code_value_fields[OF l(2) l16] .
  moreover have tl: "unat (lens ! i) \<le> ?t" "?t \<le> 32" using l(1) m(1) by simp_all
  moreover have "?b div 2 ^ (32 - unat (lens ! i)) = canonical_code lens i"
    using iffD1[OF top_bits[OF tl, of "canonical_code lens i" ?b]] i(3,4) unfolding code_lo_def code_hi_def by blast
  ultimately show ?thesis using i l l16 by blast
qed

lemma canonical_unique:
  assumes c: "complete_lens lens m" and i: "i < length lens" "lens ! i \<noteq> 0" "b div 2 ^ (32 - unat (lens ! i)) = canonical_code lens i"
    and j: "j < length lens" "lens ! j \<noteq> 0" "b div 2 ^ (32 - unat (lens ! j)) = canonical_code lens j"
  shows "i = j"
proof (rule ccontr)
  assume ne: "i \<noteq> j"
  have m: "m \<le> 16" "unat (lens ! i) \<le> m" "unat (lens ! j) \<le> m" using c i j by (auto simp: complete_lens_def)
  have m32: "m \<le> 32" using m(1) by simp
  let ?v = "b div 2 ^ (32 - m)"
  have "code_lo lens m i \<le> ?v \<and> ?v < code_hi lens m i" "code_lo lens m j \<le> ?v \<and> ?v < code_hi lens m j"
    unfolding code_lo_def code_hi_def using iffD2[OF top_bits[OF m(2) m32] i(3)] iffD2[OF top_bits[OF m(3) m32] j(3)] by blast+
  moreover have "code_hi lens m i \<le> code_lo lens m j \<or> code_hi lens m j \<le> code_lo lens m i"
  proof (cases "i < j")
    case True
    show ?thesis using codes_disjoint[OF True j(1,2) i(2) m(3,2)] by blast
  next
    case False
    then have "j < i" using ne by simp
    then show ?thesis using codes_disjoint[OF _ i(1,2) j(2) m(2,3)] by blast
  qed
  ultimately show False by linarith
qed

text \<open>
  Property C9.  The two-level table decodes the canonical code.  For a table built from code lengths, if the bits at
  the front of the buffer are the canonical code of a symbol, computed from the lengths alone, then reading a
  code returns that symbol and drops exactly its bits.
\<close>

theorem get_code_canonical:
  assumes "build_table lens = Some (Some h)" and "length lens \<le> 512"
    and "i < length lens" and "lens ! i \<noteq> 0" and "16 \<le> dc_bit_count d" and "dc_bit_count d < 32"
    and "unat (dc_bit_buffer d) div 2 ^ (32 - unat (lens ! i)) = canonical_code lens i"
  shows "get_code h d = Ok (of_nat i, d\<lparr>dc_bit_buffer := push_bit (unat (lens ! i)) (dc_bit_buffer d),
    dc_bit_count := dc_bit_count d - lens ! i\<rparr>)"
proof -
  have ok: "huffman_ok lens h" using build_table_ok[OF assms(2)] assms(1) by auto
  have fd: "feed d = Some d" using assms(5) by (simp add: feed_def not_less[symmetric])
  have nz: "hf_maxbits h \<noteq> 0" using ok assms(3,4) by (auto simp: huffman_ok_def table_shape_def complete_lens_def)
  from get_code_eq[OF ok nz fd] obtain j where j: "j < length lens" "lens ! j \<noteq> 0" "unat (lens ! j) \<le> 16"
    "unat (dc_bit_buffer d) div 2 ^ (32 - unat (lens ! j)) = canonical_code lens j"
    "get_code h d = (if dc_bit_count d < lens ! j then Err (unexpected_eof d ''huffman code tail'')
      else do { d \<leftarrow> drop_bits (lens ! j) d; Ok (of_nat j, d) })" by blast
  obtain m where "complete_lens lens m" using ok nz by (auto simp: huffman_ok_def)
  from canonical_unique[OF this assms(3,4,7) j(1,2,4)] have ij: "j = i" by simp
  have "lens ! i \<le> dc_bit_count d" using assms(5) j(3) unfolding ij word_le_nat_alt by simp
  then show ?thesis using j(3,5) unfolding ij by (simp add: drop_bits_def cshl_def csub_def not_less)
qed


theorem get_code_canonical_witness:
  "\<exists>h. build_table [1, 2, 2] = Some (Some h) \<and>
     get_code h ((Decoder_new [])\<lparr>dc_bit_buffer := 0x80000000, dc_bit_count := 16\<rparr>) =
       Ok (1, (Decoder_new [])\<lparr>dc_bit_buffer := 0, dc_bit_count := 14\<rparr>)"
proof -
  obtain r where r: "build_table [1, 2, 2] = Some r" using build_table_ok[of "[1, 2, 2]"] by auto
  have "(case bt_count [1, 2, 2] (replicate 17 0) 0 of None \<Rightarrow> False | Some (count_of, mx) \<Rightarrow> mx \<noteq> 0 \<and>
    snd (bt_first count_of 1 (unat mx) 0 (replicate 17 0)) = 2 ^ unat mx)" by code_simp
  then have "r \<noteq> None" using r by (auto simp: build_table_def Let_def split: option.splits prod.splits if_splits)
  then obtain h where h: "build_table [1, 2, 2] = Some (Some h)" using r by auto
  have c: "canonical_code [1, 2, 2] 1 = 2" by code_simp
  show ?thesis
    using get_code_canonical[OF h, of 1 "(Decoder_new [])\<lparr>dc_bit_buffer := 0x80000000, dc_bit_count := 16\<rparr>"] c h
    by (simp add: push_bit_eq_mult)
qed

end
