(* ===== verification/Lzx_Safety.thy ===== *)
theory Lzx_Safety
  imports Lzx_Huffman
begin

text \<open>
  No operation of the decoder of \<^verbatim>\<open>src/lib/wim_lzx/lib.rs\<close> panics on a well-formed decoder: every index is in
  range, no checked operation overflows, and the decoder stays well-formed.  The one exception is a
  block that runs past the window: \<open>read_block_safe\<close> has the premise that it does not, and
  \<^verbatim>\<open>Lzx_Chunk\<close> shows what happens where it does.
\<close>

unbundle bit_operations_syntax

section \<open>Well-formed decoders\<close>

definition decoder_ok :: "Decoder \<Rightarrow> bool" where
  "decoder_ok d \<longleftrightarrow> unat (dc_bit_count d) < 32 \<and> length (dc_lru d) = 3 \<and>
     length (dc_mainlens d) = MAIN_CODE_COUNT \<and> list_all (\<lambda>c. c \<le> 16) (dc_mainlens d) \<and>
     length (dc_lenlens d) = LEN_CODE_COUNT \<and> list_all (\<lambda>c. c \<le> 16) (dc_lenlens d) \<and> length (dc_window d) = WINDOW_SIZE \<and>
     dc_byte_offset d \<le> length (dc_input d)"

lemma decoder_ok_new: "decoder_ok (Decoder_new chunk)"
  by (simp add: decoder_ok_def Decoder_new_def list_all_iff)

lemma decoder_ok_update [simp]:
  "decoder_ok (d\<lparr>dc_unaligned := u\<rparr>) = decoder_ok d"
  "decoder_ok (d\<lparr>dc_current_block_start := m, dc_current_block_type := ty, dc_current_block_size := n\<rparr>) = decoder_ok d"
  "decoder_ok (d\<lparr>dc_bit_buffer := w\<rparr>) = decoder_ok d"
  by (simp_all add: decoder_ok_def)

text \<open>\<open>safe Q m\<close>: \<open>m\<close> does not panic, and where it succeeds \<open>Q\<close> holds.\<close>

definition safe :: "('a \<Rightarrow> Decoder \<Rightarrow> bool) \<Rightarrow> (LzxError, 'a \<times> Decoder) outcome \<Rightarrow> bool" where
  "safe Q m \<longleftrightarrow> m \<noteq> None \<and> (\<forall>x d. m = Ok (x, d) \<longrightarrow> Q x d)"

named_theorems safe_intros \<open>operations and compositions that do not panic\<close>

lemma safe_Ok [safe_intros]: "Q x e \<Longrightarrow> safe Q (Ok (x, e))"
  by (simp add: safe_def)

lemma safe_Err [safe_intros]: "safe Q (Err er)"
  by (simp add: safe_def)

lemma safe_bind: "safe P m \<Longrightarrow> (\<And>x e. P x e \<Longrightarrow> safe Q (f x e)) \<Longrightarrow> safe Q (bindE m id (\<lambda>(x, e). f x e))"
  by (auto simp: safe_def bindE_Ok_iff bindE_None_iff)

lemma safe_if [safe_intros]: "(b \<Longrightarrow> safe Q m) \<Longrightarrow> (\<not> b \<Longrightarrow> safe Q m') \<Longrightarrow> safe Q (if b then m else m')"
  by auto

lemma safe_cases [consumes 1, case_names err ok]:
  assumes "safe P m"
  obtains (err) er where "m = Err er" | (ok) x e where "m = Ok (x, e)" "P x e"
proof (cases m)
  case None
  then show ?thesis using assms by (simp add: safe_def)
next
  case (Some r)
  then show ?thesis using assms err ok by (cases r) (auto simp: safe_def)
qed

lemma safe_opt: "q = Some y \<Longrightarrow> safe Q (k y) \<Longrightarrow> safe Q (Option.bind q k)"
  by simp

lemma safe_mono: "safe P m \<Longrightarrow> (\<And>x e. P x e \<Longrightarrow> Q x e) \<Longrightarrow> safe Q m"
  by (auto simp: safe_def)

section \<open>Bits and codes\<close>

lemma feed_safe:
  assumes "decoder_ok d"
  shows "\<exists>d'. feed d = Some d' \<and> decoder_ok d'"
proof -
  from feed_ok[of d] obtain d' where d': "feed d = Some d'" "unat (dc_bit_count d') < 32" using assms by (auto simp: decoder_ok_def)
  have "dc_lru d' = dc_lru d \<and> dc_mainlens d' = dc_mainlens d \<and> dc_lenlens d' = dc_lenlens d \<and> dc_window d' = dc_window d \<and>
    (dc_byte_offset d \<le> length (dc_input d) \<longrightarrow> dc_byte_offset d' \<le> length (dc_input d'))"
    using d'(1) by (auto simp: feed_def try_feed_def Option.bind_eq_Some_conv split: if_splits)
  then show ?thesis using d' assms by (auto simp: decoder_ok_def)
qed

lemma drop_bits_safe:
  assumes "decoder_ok d" "n \<le> dc_bit_count d"
  shows "\<exists>d'. drop_bits n d = Some d' \<and> decoder_ok d'"
proof -
  have "unat n < 32" "unat (dc_bit_count d - n) < 32" using assms by (auto simp: decoder_ok_def word_le_nat_alt unat_sub)
  then show ?thesis using assms by (simp add: drop_bits_def cshl_def csub_def decoder_ok_def)
qed

lemma try_feed_safe:
  assumes "decoder_ok d" "dc_bit_count d < 16"
  shows "\<exists>fed d'. try_feed d = Some (fed, d') \<and> decoder_ok d' \<and> (fed \<longrightarrow> unat (dc_bit_count d') = unat (dc_bit_count d) + 16)"
proof -
  from feed_safe[OF assms(1)] assms(2) obtain fed d' where t: "try_feed d = Some (fed, d')" "decoder_ok d'" by (auto simp: feed_def)
  have "fed \<longrightarrow> unat (dc_bit_count d') = unat (dc_bit_count d) + 16"
    using t(1) by (auto simp: try_feed_def Option.bind_eq_Some_conv dest!: unat_cadd split: if_splits)
  then show ?thesis using t by blast
qed

lemma get_bits_safe [safe_intros]:
  assumes ok: "decoder_ok d" and n: "n \<le> 16 \<or> n \<le> dc_bit_count d"
  shows "safe (\<lambda>x d'. decoder_ok d' \<and> (n \<le> 16 \<longrightarrow> unat x < 2 ^ unat n)) (get_bits n d)"
proof (cases "n = 0")
  case True
  then show ?thesis using ok by (simp add: get_bits_def safe_def)
next
  case False
  have "\<exists>fed d1. (if dc_bit_count d < n then try_feed d else Some (True, d)) = Some (fed, d1) \<and> decoder_ok d1 \<and> (fed \<longrightarrow> n \<le> dc_bit_count d1)"
  proof (cases "dc_bit_count d < n")
    case True
    then have "n \<le> 16" using n by auto
    then have lt: "dc_bit_count d < 16" "unat n \<le> 16" using True by (auto simp: word_le_nat_alt word_less_nat_alt)
    from try_feed_safe[OF ok lt(1)] True lt(2) show ?thesis by (auto simp: word_le_nat_alt)
  next
    case False
    then show ?thesis using ok by (intro exI[of _ True] exI[of _ d]) (simp add: not_less[symmetric])
  qed
  then obtain fed d1 where d1: "(if dc_bit_count d < n then try_feed d else Some (True, d)) = Some (fed, d1)" "decoder_ok d1" "fed \<longrightarrow> n \<le> dc_bit_count d1" by blast
  show ?thesis
  proof (cases fed)
    case True
    obtain d2 where d2: "drop_bits n d1 = Some d2" "decoder_ok d2" using drop_bits_safe d1 True by blast
    have n32: "unat n < 32" "0 < unat n" using d1 True False by (auto simp: decoder_ok_def word_le_nat_alt unat_gt_0)
    then have s: "csub 32 n = Some (32 - n)" "unat (32 - n) = 32 - unat n" by (simp_all add: csub_def word_le_nat_alt unat_sub)
    let ?v = "drop_bit (32 - unat n) (dc_bit_buffer d1)"
    have "unat ?v < 2 ^ unat n"
    proof -
      have "(2::nat) ^ unat n * 2 ^ (32 - unat n) = 2 ^ 32" using n32 by (simp only: power_add[symmetric]) simp
      then show ?thesis using unat_bound[of "dc_bit_buffer d1"] by (simp add: unat_drop div_less_iff_less_mult)
    qed
    moreover have "unat (ucast ?v :: u16) \<le> unat ?v" by (simp add: unsigned_ucast_eq take_bit_nat_less_eq_self)
    ultimately have "unat (ucast ?v :: u16) < 2 ^ unat n" by linarith
    moreover have "get_bits n d = Ok (ucast ?v, d2)" using False d1(1) True s n32 d2(1) by (simp add: get_bits_def cshr_def)
    ultimately show ?thesis using d2(2) by (simp add: safe_def)
  next
    case nf: False
    then show ?thesis using False d1(1) by (simp add: get_bits_def safe_def)
  qed
qed

lemma get_code_safe [safe_intros]:
  assumes ok: "decoder_ok d" and h: "huffman_ok lens h"
  shows "safe (\<lambda>x d'. decoder_ok d' \<and> unat x < length lens \<and> unat x < 512) (get_code h d)"
proof (cases "hf_maxbits h = 0")
  case True
  then show ?thesis by (simp add: get_code_def safe_def)
next
  case False
  obtain d1 where d1: "feed d = Some d1" "decoder_ok d1" using feed_safe[OF ok] by blast
  from get_code_eq[OF h False d1(1)] obtain i where i: "i < length lens" "i < 512"
    "get_code h d = (if dc_bit_count d1 < lens ! i then Err (unexpected_eof d1 ''huffman code tail'')
      else do { d \<leftarrow> drop_bits (lens ! i) d1; Ok (of_nat i, d) })" by blast
  show ?thesis
  proof (cases "dc_bit_count d1 < lens ! i")
    case True
    then show ?thesis using i by (simp add: safe_def)
  next
    case nl: False
    then obtain d2 where "drop_bits (lens ! i) d1 = Some d2" "decoder_ok d2" using drop_bits_safe[OF d1(2)] by (auto simp: not_less)
    then show ?thesis using i nl by (simp add: safe_def)
  qed
qed

lemma read_lens_safe [safe_intros]:
  assumes "decoder_ok d" "n \<le> 16"
  shows "safe (\<lambda>xs d'. decoder_ok d' \<and> length xs = k) (read_lens k n d)"
  using assms(1)
proof (induction k arbitrary: d)
  case (Suc k)
  have g: "safe (\<lambda>x d'. decoder_ok d' \<and> (n \<le> 16 \<longrightarrow> unat x < 2 ^ unat n)) (get_bits n d)"
    by (rule get_bits_safe) (use Suc.prems assms(2) in simp_all)
  from g show ?case
  proof (cases rule: safe_cases)
    case (ok x e)
    then have "safe (\<lambda>xs d'. decoder_ok d' \<and> length xs = k) (read_lens k n e)" by (intro Suc.IH) simp
    then show ?thesis using ok(1) by (cases rule: safe_cases) (simp_all add: safe_def)
  qed (simp add: safe_def)
qed (simp add: safe_def)

section \<open>Trees\<close>

definition lens_ok :: "nat \<Rightarrow> u8 list \<Rightarrow> bool" where
  "lens_ok n lens \<longleftrightarrow> length lens = n \<and> list_all (\<lambda>c. c \<le> 16) lens"

lemma delta_len_ok:
  assumes "len \<le> 16" "c \<le> 16"
  shows "\<exists>l. delta_len len c = Some l \<and> l \<le> 16"
proof -
  have u: "unat len \<le> 16" "unat c \<le> 16" using assms by (simp_all add: word_le_nat_alt)
  have a: "cadd len 17 = Some (len + 17)" "unat (len + 17) = unat len + 17" using u by (simp_all add: cadd_def unat_word_ariths)
  have "csub (len + 17) c = Some (len + 17 - c)" using a(2) u by (simp add: csub_def word_le_nat_alt)
  moreover have "(len + 17 - c) mod 17 \<le> 16"
  proof -
    have "unat ((len + 17 - c) mod 17) < 17" by (simp add: unat_mod)
    then show ?thesis by (simp add: word_le_nat_alt)
  qed
  ultimately show ?thesis using a(1) by (simp add: delta_len_def)
qed

lemma lens_ok_fill:
  assumes "lens_ok n lens" "i + k \<le> n" "l \<le> 16"
  shows "lens_ok n (wr lens i (replicate k l))"
proof -
  have "wr lens i (replicate k l) ! p \<le> 16" if "p < n" for p
    using assms that nth_fill[of i k lens p l] by (auto simp: lens_ok_def list_all_length)
  then show ?thesis using assms by (simp add: lens_ok_def list_all_length)
qed

lemma lens_ok_set: "lens_ok n lens \<Longrightarrow> l \<le> 16 \<Longrightarrow> lens_ok n (lens[i := l])"
  using set_update_subset_insert[of lens i l] by (auto simp: lens_ok_def list_all_iff)

lemma read_tree_step_safe:
  assumes ok: "decoder_ok d" and h: "huffman_ok pl h" and lens: "lens_ok n lens" "i < n"
  shows "safe (\<lambda>x d'. decoder_ok d' \<and> lens_ok n (snd x)) (read_tree_step h i lens d)"
proof -
  have len: "vec_get lens i = Some (lens ! i)" "lens ! i \<le> 16" using lens by (simp_all add: lens_ok_def vec_get_Some list_all_length)
  have ln: "length lens = n" using lens by (simp add: lens_ok_def)
  let ?Q = "\<lambda>x d'. decoder_ok d' \<and> lens_ok n (snd (x :: nat \<times> u8 list))"
  have zero: "safe ?Q (bindE (get_bits b e) id (\<lambda>(z, d).
         let zeroes = unat z + k in if i + zeroes > length lens then Err Corrupt else Ok ((i + zeroes, wr lens i (replicate zeroes 0)), d)))"
    if e: "decoder_ok e" "b \<le> 16" for b k e
  proof -
    have "safe (\<lambda>x d'. decoder_ok d' \<and> (b \<le> 16 \<longrightarrow> unat x < 2 ^ unat b)) (get_bits b e)" by (rule get_bits_safe) (use e in simp_all)
    then show ?thesis
    proof (cases rule: safe_cases)
      case (ok x e')
      then show ?thesis using ln lens_ok_fill[OF lens(1), of i "unat x + k" 0] by (simp add: safe_def Let_def not_less)
    qed (simp add: safe_def)
  qed
  have delta: "safe ?Q (bindE (get_code h e) id (\<lambda>(delta, d).
           let delta = (ucast delta :: u8) in
           if delta > 16 then Err Corrupt
           else do { len \<leftarrow> vec_get lens i; l \<leftarrow> delta_len len delta; Ok ((i + k, wr lens i (replicate k l)), d) }))"
    if e: "decoder_ok e" and k: "i + k \<le> n" for e k
    using get_code_safe[OF e h]
  proof (cases rule: safe_cases)
    case (ok x e')
    show ?thesis
    proof (cases "(ucast x :: u8) > 16")
      case True
      then show ?thesis using ok by (simp add: safe_def)
    next
      case False
      then obtain l where "delta_len (lens ! i) (ucast x) = Some l" "l \<le> 16" using delta_len_ok[OF len(2), of "ucast x"] by (auto simp: not_less)
      then show ?thesis using ok False len(1) lens_ok_fill[OF lens(1) k, of l] by (simp add: safe_def)
    qed
  qed (simp add: safe_def)
  from get_code_safe[OF ok h] show ?thesis
  proof (cases rule: safe_cases)
    case (err er)
    then show ?thesis by (simp add: safe_def read_tree_step_def)
  next
    case (ok x e)
    let ?c = "ucast x :: u8"
    note e = conjunct1[OF ok(2)]
    consider "?c \<le> 16" | "?c = 17" | "?c = 18" | "?c = 19" | "\<not> ?c \<le> 16" "?c \<noteq> 17" "?c \<noteq> 18" "?c \<noteq> 19" by blast
    then show ?thesis
    proof cases
      case 1
      then obtain l where "delta_len (lens ! i) ?c = Some l" "l \<le> 16" using delta_len_ok[OF len(2)] by blast
      then show ?thesis using ok 1 len(1) lens_ok_set[OF lens(1), of l i] by (simp add: read_tree_step_def safe_def)
    next
      case 2
      then show ?thesis using ok zero[OF e, of 4 4] by (simp add: read_tree_step_def)
    next
      case 3
      then show ?thesis using ok zero[OF e, of 5 20] by (simp add: read_tree_step_def)
    next
      case 4
      have "safe (\<lambda>x d'. decoder_ok d' \<and> (1 \<le> (16 :: u8) \<longrightarrow> unat x < 2 ^ unat (1 :: u8))) (get_bits 1 e)" by (rule get_bits_safe) (use e in simp_all)
      then show ?thesis
      proof (cases rule: safe_cases)
        case (err er)
        then show ?thesis using ok(1) 4 by (simp add: read_tree_step_def safe_def)
      next
        case z: (ok z e')
        then show ?thesis using ok(1) 4 delta[of e' "unat z + 4"] ln by (simp add: read_tree_step_def safe_def Let_def[of "ucast x"] Let_def[of "unat z + 4"])
      qed
    next
      case 5
      then show ?thesis using ok(1) by (simp add: read_tree_step_def safe_def)
    qed
  qed
qed


lemma read_tree_loop_safe:
  assumes "decoder_ok d" "huffman_ok pl h" "lens_ok n lens"
  shows "safe (\<lambda>xs d'. decoder_ok d' \<and> lens_ok n xs) (read_tree_loop h i lens d)"
  using assms
proof (induction h i lens d rule: read_tree_loop.induct)
  case (1 h i lens d)
  show ?case
  proof (cases "i < length lens")
    case True
    then have "i < n" using "1.prems"(3) by (simp add: lens_ok_def)
    from read_tree_step_safe[OF "1.prems" this] show ?thesis
    proof (cases rule: safe_cases)
      case (err er)
      then show ?thesis using True by (simp add: read_tree_loop.simps[of h i] safe_def)
    next
      case (ok x e)
      obtain j lens' where x: "x = (j, lens')" by (cases x)
      have "safe (\<lambda>xs d'. decoder_ok d' \<and> lens_ok n xs) (read_tree_loop h j lens' e)"
        using "1.IH"[OF True ok(1) refl, of j lens'] "1.prems"(2) ok(2) x by simp
      then show ?thesis using True ok(1) x by (simp add: read_tree_loop.simps[of h i])
    qed
  next
    case False
    then show ?thesis using "1.prems" by (simp add: read_tree_loop.simps safe_def)
  qed
qed

lemma read_tree_safe:
  assumes "decoder_ok d" "lens_ok n lens"
  shows "safe (\<lambda>xs d'. decoder_ok d' \<and> lens_ok n xs) (read_tree lens d)"
proof -
  have "safe (\<lambda>xs d'. decoder_ok d' \<and> length xs = 20) (read_lens 20 4 d)" by (rule read_lens_safe) (use assms in simp_all)
  then show ?thesis
  proof (cases rule: safe_cases)
    case (ok pl e)
    then obtain r where r: "build_table pl = Some r" "\<forall>h. r = Some h \<longrightarrow> huffman_ok pl h" using build_table_ok[of pl] by auto
    show ?thesis
    proof (cases r)
      case None
      then show ?thesis using ok r by (simp add: read_tree_def safe_def)
    next
      case (Some h)
      then have "huffman_ok pl h" using r(2) by simp
      then show ?thesis using ok r(1) Some read_tree_loop_safe[OF _ _ assms(2), of e pl h 0] by (simp add: read_tree_def)
    qed
  qed (simp add: read_tree_def safe_def)
qed

lemma table_of_safe:
  assumes "length lens \<le> 512"
  shows "(\<exists>er. table_of lens = Err er) \<or> (\<exists>h. table_of lens = Ok h \<and> huffman_ok lens h)"
proof -
  obtain r where "build_table lens = Some r" "\<forall>h. r = Some h \<longrightarrow> huffman_ok lens h" using build_table_ok[OF assms] by blast
  then show ?thesis by (cases r) (auto simp: table_of_def)
qed

definition some_huffman :: "Huffman \<Rightarrow> bool" where
  "some_huffman h \<longleftrightarrow> (\<exists>lens. huffman_ok lens h)"

lemma lens_ok_append: "lens_ok a xs \<Longrightarrow> lens_ok b ys \<Longrightarrow> lens_ok (a + b) (xs @ ys)"
  by (auto simp: lens_ok_def)

lemma wr_prefix: "length xs = n \<Longrightarrow> n \<le> length b \<Longrightarrow> wr b 0 xs = xs @ drop n b"
  by (simp add: wr_def)

lemma wr_suffix: "n + length xs = length b \<Longrightarrow> wr b n xs = take n b @ xs"
  by (simp add: wr_def)

lemma lens_ok_mainlens: "decoder_ok d \<Longrightarrow> lens_ok 496 (dc_mainlens d)" and lens_ok_lenlens: "decoder_ok d \<Longrightarrow> lens_ok 249 (dc_lenlens d)"
  by (simp_all add: decoder_ok_def lens_ok_def)

lemma decoder_ok_mainlens: "decoder_ok d \<Longrightarrow> lens_ok 496 a \<Longrightarrow> decoder_ok (d\<lparr>dc_mainlens := a\<rparr>)"
  and decoder_ok_lenlens: "decoder_ok d \<Longrightarrow> lens_ok 249 a \<Longrightarrow> decoder_ok (d\<lparr>dc_lenlens := a\<rparr>)"
  by (simp_all add: decoder_ok_def lens_ok_def)

lemma lens_ok_take: "lens_ok n xs \<Longrightarrow> k \<le> n \<Longrightarrow> lens_ok k (take k xs)" and lens_ok_drop: "lens_ok n xs \<Longrightarrow> lens_ok (n - k) (drop k xs)"
  by (auto simp: lens_ok_def list_all_iff dest: in_set_takeD in_set_dropD)


lemma safe_table:
  assumes "length lens \<le> 512" "\<And>h. huffman_ok lens h \<Longrightarrow> safe Q (k h)"
  shows "safe Q (bindE (table_of lens) id k)"
  using table_of_safe[OF assms(1)] assms(2) by (auto simp: safe_def)

definition trees_ok :: "Huffman \<times> Huffman \<times> Huffman option \<Rightarrow> Decoder \<Rightarrow> bool" where
  "trees_ok t d \<longleftrightarrow> decoder_ok d \<and> some_huffman (fst t) \<and> some_huffman (fst (snd t)) \<and> (\<forall>h. snd (snd t) = Some h \<longrightarrow> some_huffman h)"

lemma aligned_tree_safe:
  assumes "decoder_ok d"
  shows "safe (\<lambda>t d'. decoder_ok d' \<and> (\<forall>h. t = Some h \<longrightarrow> some_huffman h))
    (if al then bindE (read_lens 8 3 d) id (\<lambda>(aligned_len, d). bindE (table_of aligned_len) id (\<lambda>h. Ok (Some h, d))) else Ok (None, d))"
proof (rule safe_if)
  show "safe (\<lambda>t d'. decoder_ok d' \<and> (\<forall>h. t = Some h \<longrightarrow> some_huffman h))
    (bindE (read_lens 8 3 d) id (\<lambda>(aligned_len, d). bindE (table_of aligned_len) id (\<lambda>h. Ok (Some h, d))))"
    by (rule safe_bind[OF read_lens_safe[OF assms]], simp, rule safe_table) (auto simp: safe_def some_huffman_def)
qed (use assms in \<open>simp add: safe_def\<close>)

lemma read_trees_safe:
  assumes ok: "decoder_ok d"
  shows "safe trees_ok (read_trees al d)"
  unfolding read_trees_def Let_def
proof (rule safe_bind[OF aligned_tree_safe[OF ok]])
  fix ha d0 assume d0: "decoder_ok d0 \<and> (\<forall>h. ha = Some h \<longrightarrow> some_huffman h)"
  have l0: "lens_ok 256 (take 256 (dc_mainlens d0))" using d0 by (intro lens_ok_take[of 496]) (simp_all add: lens_ok_mainlens)
  show "safe trees_ok (bindE (read_tree (take 256 (dc_mainlens d0)) d0) id (\<lambda>(main_prefix, d).
     bindE (read_tree (drop 256 (dc_mainlens (d\<lparr>dc_mainlens := wr (dc_mainlens d) 0 main_prefix\<rparr>))) (d\<lparr>dc_mainlens := wr (dc_mainlens d) 0 main_prefix\<rparr>)) id (\<lambda>(main_suffix, d).
     bindE (table_of (dc_mainlens (d\<lparr>dc_mainlens := wr (dc_mainlens d) 256 main_suffix\<rparr>))) id (\<lambda>main.
     bindE (read_tree (dc_lenlens (d\<lparr>dc_mainlens := wr (dc_mainlens d) 256 main_suffix\<rparr>)) (d\<lparr>dc_mainlens := wr (dc_mainlens d) 256 main_suffix\<rparr>)) id (\<lambda>(len_lens, d).
     bindE (table_of (dc_lenlens (d\<lparr>dc_lenlens := len_lens\<rparr>))) id (\<lambda>len. Ok ((main, len, ha), d\<lparr>dc_lenlens := len_lens\<rparr>)))))))"
  proof (rule safe_bind[OF read_tree_safe[OF conjunct1[OF d0] l0]])
    fix p d1 assume d1: "decoder_ok d1 \<and> lens_ok 256 p"
    let ?d1 = "d1\<lparr>dc_mainlens := wr (dc_mainlens d1) 0 p\<rparr>"
    have "lens_ok 240 (drop 256 (dc_mainlens d1))" using d1 lens_ok_drop[of 496 "dc_mainlens d1" 256] by (simp add: lens_ok_mainlens)
    moreover have "wr (dc_mainlens d1) 0 p = p @ drop 256 (dc_mainlens d1)" using d1 by (intro wr_prefix) (auto simp: lens_ok_def decoder_ok_def)
    ultimately have m1: "lens_ok 496 (wr (dc_mainlens d1) 0 p)" using d1 lens_ok_append[of 256 p 240] by simp
    then have ok1: "decoder_ok ?d1" using d1 by (intro decoder_ok_mainlens) simp_all
    have l1: "lens_ok 240 (drop 256 (dc_mainlens ?d1))" using lens_ok_drop[OF m1, of 256] by simp
    show "safe trees_ok (bindE (read_tree (drop 256 (dc_mainlens ?d1)) ?d1) id (\<lambda>(main_suffix, d).
     bindE (table_of (dc_mainlens (d\<lparr>dc_mainlens := wr (dc_mainlens d) 256 main_suffix\<rparr>))) id (\<lambda>main.
     bindE (read_tree (dc_lenlens (d\<lparr>dc_mainlens := wr (dc_mainlens d) 256 main_suffix\<rparr>)) (d\<lparr>dc_mainlens := wr (dc_mainlens d) 256 main_suffix\<rparr>)) id (\<lambda>(len_lens, d).
     bindE (table_of (dc_lenlens (d\<lparr>dc_lenlens := len_lens\<rparr>))) id (\<lambda>len. Ok ((main, len, ha), d\<lparr>dc_lenlens := len_lens\<rparr>))))))"
    proof (rule safe_bind[OF read_tree_safe[OF ok1 l1]])
      fix q d2 assume d2: "decoder_ok d2 \<and> lens_ok 240 q"
      let ?d2 = "d2\<lparr>dc_mainlens := wr (dc_mainlens d2) 256 q\<rparr>"
      have "wr (dc_mainlens d2) 256 q = take 256 (dc_mainlens d2) @ q" using d2 by (intro wr_suffix) (auto simp: lens_ok_def decoder_ok_def)
      then have m2: "lens_ok 496 (wr (dc_mainlens d2) 256 q)"
        using d2 lens_ok_append[OF lens_ok_take[of 496 "dc_mainlens d2" 256], of 240 q] by (simp add: lens_ok_mainlens)
      then have ok2: "decoder_ok ?d2" using d2 by (intro decoder_ok_mainlens) simp_all
      show "safe trees_ok (bindE (table_of (dc_mainlens ?d2)) id (\<lambda>main. bindE (read_tree (dc_lenlens ?d2) ?d2) id (\<lambda>(len_lens, d).
          bindE (table_of (dc_lenlens (d\<lparr>dc_lenlens := len_lens\<rparr>))) id (\<lambda>len. Ok ((main, len, ha), d\<lparr>dc_lenlens := len_lens\<rparr>)))))"
      proof (rule safe_table)
        show "length (dc_mainlens ?d2) \<le> 512" using m2 by (simp add: lens_ok_def)
        fix main assume main: "huffman_ok (dc_mainlens ?d2) main"
        show "safe trees_ok (bindE (read_tree (dc_lenlens ?d2) ?d2) id (\<lambda>(len_lens, d).
          bindE (table_of (dc_lenlens (d\<lparr>dc_lenlens := len_lens\<rparr>))) id (\<lambda>len. Ok ((main, len, ha), d\<lparr>dc_lenlens := len_lens\<rparr>))))"
          by (rule safe_bind[OF read_tree_safe[OF ok2 lens_ok_lenlens[OF ok2]]], rule safe_table)
             (use d0 main in \<open>auto simp: lens_ok_def safe_def trees_ok_def some_huffman_def intro!: decoder_ok_lenlens\<close>)
      qed
    qed
  qed
qed


section \<open>Blocks\<close>

lemma footer_bits: "slot < 31 \<Longrightarrow> FOOTER_BITS ! slot \<le> 14"
  unfolding FOOTER_BITS_def by (simp add: nth_Cons split: nat.splits)

lemma match_offset_safe:
  assumes ok: "decoder_ok d" and slot: "slot < 31" and h: "\<forall>h. ha = Some h \<longrightarrow> some_huffman h"
  shows "safe (\<lambda>_. decoder_ok) (match_offset slot ha d)"
proof (cases "slot < 3")
  case True
  then show ?thesis using ok by (auto simp: match_offset_def safe_def vec_get_Some decoder_ok_def)
next
  case False
  let ?b = "FOOTER_BITS ! slot"
  have len: "length FOOTER_BITS = 31" "length BASE_POSITION = 31" by (simp_all add: FOOTER_BITS_def BASE_POSITION_def)
  have b: "vec_get FOOTER_BITS slot = Some ?b" "?b \<le> 14" using slot len footer_bits by (auto simp: vec_get_Some)
  have base: "vec_get BASE_POSITION slot = Some (BASE_POSITION ! slot)" using slot len by (simp add: vec_get_Some)
  have plain: "safe (\<lambda>_. decoder_ok) (bindE (get_bits ?b d) id (\<lambda>(v, d). Ok ((v, 0 :: u16), d)))"
    by (rule safe_bind[OF get_bits_safe[OF ok]]) (use b(2) in \<open>auto simp: safe_def word_le_nat_alt\<close>)
  have aligned: "safe (\<lambda>_. decoder_ok) (bindE (get_bits (?b - 3) d) id (\<lambda>(v, d). do {
      v \<leftarrow> cmul v 8; bindE (get_code al d) id (\<lambda>(a, d). Ok ((v, a), d)) }))" if al: "huffman_ok lens al" and b3: "3 \<le> ?b" for al lens
  proof -
    have n: "unat (?b - 3) = unat ?b - 3" "unat ?b \<le> 14" using b(2) b3 by (simp_all add: unat_sub word_le_nat_alt)
    have "?b - 3 \<le> 16 \<or> ?b - 3 \<le> dc_bit_count d" using n by (intro disjI1) (simp add: word_le_nat_alt)
    then show ?thesis
    proof (rule safe_bind[OF get_bits_safe[OF ok]])
      fix v :: u16 and e assume v: "decoder_ok e \<and> (?b - 3 \<le> 16 \<longrightarrow> unat v < 2 ^ unat (?b - 3))"
      have "(2::nat) ^ unat (?b - 3) \<le> 2 ^ 11" using n by (intro power_increasing) simp_all
      moreover have "?b - 3 \<le> 16" unfolding word_le_nat_alt n(1) using n(2) by simp
      ultimately have "unat v < 2 ^ 11" using v by linarith
      then have "cmul v 8 = Some (v * 8)" by (simp add: cmul_def)
      moreover have "safe (\<lambda>_. decoder_ok) (bindE (get_code al e) id (\<lambda>(a, d). Ok ((v * 8, a), d)))"
        by (rule safe_bind[OF get_code_safe[OF _ al]]) (use v in \<open>auto simp: safe_def\<close>)
      ultimately show "safe (\<lambda>_. decoder_ok) (do { v \<leftarrow> cmul v 8; bindE (get_code al e) id (\<lambda>(a, d). Ok ((v, a), d)) })" by simp
    qed
  qed
  have bits: "safe (\<lambda>_. decoder_ok) (if ?b > 0 then case ha of
            Some aligned \<Rightarrow>
              if ?b \<ge> 3
              then bindE (get_bits (?b - 3) d) id (\<lambda>(v, d). do {
                     v \<leftarrow> cmul v 8;
                     bindE (get_code aligned d) id (\<lambda>(a, d). Ok ((v, a), d)) })
              else bindE (get_bits ?b d) id (\<lambda>(v, d). Ok ((v, 0), d))
          | None \<Rightarrow> bindE (get_bits ?b d) id (\<lambda>(v, d). Ok ((v, 0), d))
          else Ok ((0, 0), d))"
    using plain aligned h ok by (cases ha) (auto simp: some_huffman_def safe_def[of _ "Ok _"])
  have lru: "decoder_ok (e\<lparr>dc_lru := [a, b, c]\<rparr>)" if "decoder_ok e" for e a b c using that by (simp add: decoder_ok_def)
  from bits show ?thesis using False b(1) base lru
    by (cases rule: safe_cases) (auto simp: match_offset_def safe_def Let_def split: prod.splits)
qed

lemma copy_match_safe:
  assumes "0 < off" "off \<le> i" "i + n \<le> length w"
  shows "\<exists>w'. copy_match n i off w = Some w' \<and> length w' = length w"
  using assms
proof (induction n arbitrary: i w)
  case (Suc n)
  have "\<exists>w'. copy_match n (Suc i) off (w[i := w ! (i - off)]) = Some w' \<and> length w' = length (w[i := w ! (i - off)])"
    by (rule Suc.IH) (use Suc.prems in simp_all)
  then show ?case using Suc.prems by (simp add: vec_get_Some vec_set_Some)
qed simp

lemma compressed_step_safe:
  assumes ok: "trees_ok (hm, hl, ha) d" and i: "i < stop" "stop \<le> 32768"
  shows "safe (\<lambda>_ d'. trees_ok (hm, hl, ha) d') (compressed_step i stop hm hl ha d)"
proof -
  obtain lm ll where h: "huffman_ok lm hm" "huffman_ok ll hl" using ok by (auto simp: trees_ok_def some_huffman_def)
  have okd: "decoder_ok d" using ok by (simp add: trees_ok_def)
  have win: "trees_ok (hm, hl, ha) (e\<lparr>dc_window := w\<rparr>)" if "decoder_ok e" "length w = 32768" for e w
    using ok that by (simp add: trees_ok_def decoder_ok_def)
  show ?thesis unfolding compressed_step_def
  proof (rule safe_bind[OF get_code_safe[OF okd h(1)]], rule safe_if)
    fix main :: u16 and e assume "decoder_ok e \<and> unat main < length lm \<and> unat main < 512"
    then show "safe (\<lambda>_ d'. trees_ok (hm, hl, ha) d') (do { window \<leftarrow> vec_set i (ucast main) (dc_window e); Ok (i + 1, e\<lparr>dc_window := window\<rparr>) })"
      using i win[of e] by (auto simp: vec_set_Some decoder_ok_def safe_def)
  next
    fix main :: u16 and e assume e: "decoder_ok e \<and> unat main < length lm \<and> unat main < 512" and big: "\<not> main < 256"
    let ?ml = "(main - 256) mod 8 :: u16" and ?slot = "unat ((main - 256) div 8)"
    have ml: "unat ?ml < 8" unfolding unat_mod by simp
    have len: "safe (\<lambda>m d'. decoder_ok d' \<and> unat m < 600) (if ?ml = 7
          then bindE (get_code hl e) id (\<lambda>(l, d). do { m \<leftarrow> cadd ?ml l; Ok (m, d) }) else Ok (?ml, e))"
    proof (rule safe_if)
      show "safe (\<lambda>m d'. decoder_ok d' \<and> unat m < 600) (bindE (get_code hl e) id (\<lambda>(l, d). do { m \<leftarrow> cadd ?ml l; Ok (m, d) }))"
      proof (rule safe_bind[OF get_code_safe[OF conjunct1[OF e] h(2)]])
        fix l :: u16 and e' assume l: "decoder_ok e' \<and> unat l < length ll \<and> unat l < 512"
        then have "unat ?ml + unat l < 600" using ml by linarith
        then have "cadd ?ml l = Some (?ml + l)" "unat (?ml + l) < 600" by (simp_all add: cadd_def unat_word_ariths)
        then show "safe (\<lambda>m d'. decoder_ok d' \<and> unat m < 600) (do { m \<leftarrow> cadd ?ml l; Ok (m, e') })" using l by (simp add: safe_def)
      qed
    qed (use e ml in \<open>simp add: safe_def\<close>)
    have rest: "safe (\<lambda>_ d'. trees_ok (hm, hl, ha) d') (do {
           matchlen \<leftarrow> cadd m 2;
           bindE (match_offset ?slot ha e1) id (\<lambda>(matchoffset, d).
             let matchoffset = unat matchoffset; n = unat matchlen in
             if matchoffset = 0 \<or> matchoffset > i \<or> i + n > stop then Err Corrupt
             else do {
               window \<leftarrow> copy_match n i matchoffset (dc_window d);
               Ok (i + n, d\<lparr>dc_window := window\<rparr>) }) })"
      if m: "decoder_ok e1 \<and> unat m < 600" and s: "?slot < 31" for m :: u16 and e1
    proof -
      have ha: "\<forall>h. ha = Some h \<longrightarrow> some_huffman h" using ok by (simp add: trees_ok_def)
      have c: "cadd m 2 = Some (m + 2)" using m by (simp add: cadd_def)
      have "safe (\<lambda>_ d'. trees_ok (hm, hl, ha) d') (bindE (match_offset ?slot ha e1) id (\<lambda>(matchoffset, d).
             let matchoffset = unat matchoffset; n = unat (m + 2) in
             if matchoffset = 0 \<or> matchoffset > i \<or> i + n > stop then Err Corrupt
             else do { window \<leftarrow> copy_match n i matchoffset (dc_window d); Ok (i + n, d\<lparr>dc_window := window\<rparr>) }))"
        unfolding Let_def
      proof (rule safe_bind[OF match_offset_safe[OF conjunct1[OF m] s ha]], rule safe_if, rule safe_Err)
        fix x :: u16 and e2 assume e2: "decoder_ok e2" and r: "\<not> (unat x = 0 \<or> i < unat x \<or> stop < i + unat (m + 2))"
        have w: "length (dc_window e2) = 32768" using e2 by (simp add: decoder_ok_def)
        have "\<exists>w'. copy_match (unat (m + 2)) i (unat x) (dc_window e2) = Some w' \<and> length w' = length (dc_window e2)"
          by (rule copy_match_safe) (use r i w in auto)
        then show "safe (\<lambda>_ d'. trees_ok (hm, hl, ha) d') (do { window \<leftarrow> copy_match (unat (m + 2)) i (unat x) (dc_window e2); Ok (i + unat (m + 2), e2\<lparr>dc_window := window\<rparr>) })"
          using win[OF e2] w by (auto simp: safe_def)
      qed
      then show ?thesis using c by simp
    qed
    show "safe (\<lambda>_ d'. trees_ok (hm, hl, ha) d') (let matchlen = ?ml; slot = ?slot in
         if slot \<ge> length FOOTER_BITS then Err Corrupt
         else bindE (if matchlen = 7
                     then bindE (get_code hl e) id (\<lambda>(l, d). do { m \<leftarrow> cadd matchlen l; Ok (m, d) })
                     else Ok (matchlen, e)) id (\<lambda>(matchlen, d). do {
           matchlen \<leftarrow> cadd matchlen 2;
           bindE (match_offset slot ha d) id (\<lambda>(matchoffset, d).
             let matchoffset = unat matchoffset; n = unat matchlen in
             if matchoffset = 0 \<or> matchoffset > i \<or> i + n > stop then Err Corrupt
             else do {
               window \<leftarrow> copy_match n i matchoffset (dc_window d);
               Ok (i + n, d\<lparr>dc_window := window\<rparr>) }) }))"
      unfolding Let_def[of ?ml] Let_def[of ?slot]
      by (rule safe_if, rule safe_Err, rule safe_bind[OF len], rule rest) (simp_all add: FOOTER_BITS_def)
  qed
qed


lemma compressed_block_safe:
  assumes "trees_ok (hm, hl, ha) d" "i \<le> stop" "stop \<le> 32768"
  shows "safe (\<lambda>x d'. decoder_ok d' \<and> x = stop) (read_compressed_block i stop hm hl ha d)"
  using assms
proof (induction i stop hm hl ha d rule: read_compressed_block.induct)
  case (1 i stop hm hl ha d)
  show ?case
  proof (cases "i < stop")
    case True
    from compressed_step_safe[OF "1.prems"(1) True "1.prems"(3)] show ?thesis
    proof (cases rule: safe_cases)
      case (err er)
      then show ?thesis using True by (simp add: read_compressed_block.simps[of i] safe_def)
    next
      case (ok j e)
      have "j \<le> stop" using compressed_step_progress[OF ok(1) True] by simp
      then show ?thesis using "1.IH"[OF True ok(1) refl] ok "1.prems"(3) True by (simp add: read_compressed_block.simps[of i])
    qed
  next
    case False
    then show ?thesis using "1.prems" by (simp add: read_compressed_block.simps safe_def trees_ok_def)
  qed
qed

definition header_ok :: "u16 \<times> u16 \<Rightarrow> Decoder \<Rightarrow> bool" where
  "header_ok b d \<longleftrightarrow> decoder_ok d \<and> unat (snd b) \<le> 32768"

lemma ensure_safe: "decoder_ok d \<Longrightarrow> safe (\<lambda>_ d'. d' = d \<and> n \<le> length (dc_input d) - dc_byte_offset d) (ensure_at_least n d)"
  by (auto simp: safe_def ensure_at_least_def)

lemma read_block_size_safe:
  assumes ok: "decoder_ok d"
  shows "safe header_ok (read_block_size ty d)"
proof -
  have sz: "safe (\<lambda>z d'. decoder_ok d' \<and> unat z \<le> 32768) (if full \<noteq> 0 then Ok (of_nat 32768, e)
      else bindE (get_bits 16 e) id (\<lambda>(sz, d). if unat sz > 32768 then Err Corrupt else Ok (sz, d)))" if e: "decoder_ok e" for full :: u16 and e
  proof (rule safe_if)
    show "safe (\<lambda>z d'. decoder_ok d' \<and> unat z \<le> 32768) (bindE (get_bits 16 e) id (\<lambda>(sz, d). if unat sz > 32768 then Err Corrupt else Ok (sz, d)))"
      by (rule safe_bind[OF get_bits_safe[OF e]]) (auto simp: safe_def)
  qed (use e in \<open>simp add: safe_def\<close>)
  have lru: "safe header_ok (bindE (get_bits (if dc_bit_count e = 0 then 16 else dc_bit_count e) e) id (\<lambda>(_, d).
          bindE (ensure_at_least 12 d) id (\<lambda>(_, d). do {
            let off = dc_byte_offset d;
            r0 \<leftarrow> le_u32 (dc_input d) off;
            r1 \<leftarrow> le_u32 (dc_input d) (off + 4);
            r2 \<leftarrow> le_u32 (dc_input d) (off + 8);
            Ok ((ty, bs), d\<lparr>dc_lru := [ucast r0, ucast r1, ucast r2], dc_byte_offset := off + 12\<rparr>) })))"
    if e: "decoder_ok e" "unat bs \<le> 32768" for e bs
  proof (rule safe_bind[OF get_bits_safe[OF e(1)]])
    fix x :: u16 and e1 assume "decoder_ok e1 \<and> ((if dc_bit_count e = 0 then 16 else dc_bit_count e) \<le> 16 \<longrightarrow> unat x < 2 ^ unat (if dc_bit_count e = 0 then 16 else dc_bit_count e))"
    then have e1: "decoder_ok e1" by simp
    show "safe header_ok (bindE (ensure_at_least 12 e1) id (\<lambda>(_, d). do {
            let off = dc_byte_offset d;
            r0 \<leftarrow> le_u32 (dc_input d) off;
            r1 \<leftarrow> le_u32 (dc_input d) (off + 4);
            r2 \<leftarrow> le_u32 (dc_input d) (off + 8);
            Ok ((ty, bs), d\<lparr>dc_lru := [ucast r0, ucast r1, ucast r2], dc_byte_offset := off + 12\<rparr>) }))"
    proof (rule safe_bind[OF ensure_safe[OF e1]])
      fix u e2 assume e2: "e2 = e1 \<and> 12 \<le> length (dc_input e1) - dc_byte_offset e1"
      then have r: "dc_byte_offset e1 + 12 \<le> length (dc_input e1)" by (elim conjE) linarith
      then have "le_u32 (dc_input e1) (dc_byte_offset e1) = Some (from_le_bytes (rd (dc_input e1) (dc_byte_offset e1) 4))"
        "le_u32 (dc_input e1) (dc_byte_offset e1 + 4) = Some (from_le_bytes (rd (dc_input e1) (dc_byte_offset e1 + 4) 4))"
        "le_u32 (dc_input e1) (dc_byte_offset e1 + 8) = Some (from_le_bytes (rd (dc_input e1) (dc_byte_offset e1 + 8) 4))"
        by (simp_all add: exec_simps)
      then show "safe header_ok (do {
            let off = dc_byte_offset e2;
            r0 \<leftarrow> le_u32 (dc_input e2) off;
            r1 \<leftarrow> le_u32 (dc_input e2) (off + 4);
            r2 \<leftarrow> le_u32 (dc_input e2) (off + 8);
            Ok ((ty, bs), e2\<lparr>dc_lru := [ucast r0, ucast r1, ucast r2], dc_byte_offset := off + 12\<rparr>) })"
        using e2 e1 e(2) r by (simp add: Let_def safe_def header_ok_def decoder_ok_def)
    qed
  qed simp
  show ?thesis unfolding read_block_size_def
    apply (rule safe_bind[OF get_bits_safe[OF ok]])
     apply simp
    apply (rule safe_bind[OF sz])
     apply simp
    apply (rule safe_if)
     apply (simp add: safe_def header_ok_def)
    apply (rule safe_if)
     apply (rule lru)
      apply simp_all
    apply (rule safe_Err)
    done
qed

lemma read_block_header_safe:
  assumes ok: "decoder_ok d"
  shows "safe header_ok (read_block_header d)"
proof -
  have pre: "safe (\<lambda>_. decoder_ok) (if dc_unaligned d then bindE (ensure_at_least 1 d) id (\<lambda>(_, d).
      Ok ((), d\<lparr>dc_byte_offset := dc_byte_offset d + 1, dc_unaligned := False\<rparr>)) else Ok ((), d))"
    using ok by (auto simp: safe_def ensure_at_least_def decoder_ok_def)
  show ?thesis unfolding read_block_header_def
  proof (rule safe_bind[OF pre])
    fix u e assume e: "decoder_ok e"
    show "safe header_ok (bindE (get_bits 3 e) id (\<lambda>(t, d). read_block_size t d))"
      by (rule safe_bind[OF get_bits_safe[OF e]]) (auto intro: read_block_size_safe)
  qed
qed

lemma read_block_safe:
  assumes ok: "decoder_ok d" and fits: "\<And>ty sz d1. read_block_header d = Ok ((ty, sz), d1) \<Longrightarrow> start + unat sz \<le> 32768"
  shows "safe (\<lambda>n d'. decoder_ok d' \<and> start + n \<le> 32768) (read_block start d)"
  using read_block_header_safe[OF ok]
proof (cases rule: safe_cases)
  case (err er)
  then show ?thesis by (simp add: read_block_def safe_def)
next
  case (ok b e)
  obtain ty sz where b: "b = (ty, sz)" by (cases b)
  have fit: "start + unat sz \<le> 32768" using fits ok(1) b by simp
  let ?e = "e\<lparr>dc_current_block_start := start, dc_current_block_type := ty, dc_current_block_size := unat sz\<rparr>"
  have e: "decoder_ok ?e" using ok(2) by (simp add: header_ok_def)
  show ?thesis
  proof (cases "ty = 3")
    case True
    let ?f = "if unat sz mod 2 = 1 then ?e\<lparr>dc_unaligned := True\<rparr> else ?e"
    have f: "decoder_ok ?f" "dc_input ?f = dc_input e" "dc_byte_offset ?f = dc_byte_offset e" "dc_window ?f = dc_window e" using e by simp_all
    show ?thesis
    proof (cases "length (dc_input e) - dc_byte_offset e < unat sz")
      case lt: True
      then show ?thesis using ok(1) b True by (simp add: read_block_def safe_def Let_def)
    next
      case False
      have g: "dc_byte_offset e + unat sz \<le> length (dc_input e)" using False e unfolding decoder_ok_def by simp linarith
      show ?thesis using False ok(1) b True g fit f(1) e
        by (simp add: read_block_def safe_def Let_def get_range_def put_slice_def decoder_ok_def)
    qed
  next
    case False
    have "safe (\<lambda>n d'. decoder_ok d' \<and> start + n \<le> 32768) (bindE (read_trees (ty = 2) ?e) id (\<lambda>((hmain, hlength, haligned), d).
       bindE (read_compressed_block start (start + unat sz) hmain hlength haligned d) id (\<lambda>(i, d). Ok (i - start, d))))"
      using read_trees_safe[OF e, of "ty = 2"]
    proof (cases rule: safe_cases)
      case t: (ok t e2)
      obtain hm hl ha where tt: "t = (hm, hl, ha)" by (cases t)
      have "safe (\<lambda>x d'. decoder_ok d' \<and> x = start + unat sz) (read_compressed_block start (start + unat sz) hm hl ha e2)"
        by (rule compressed_block_safe) (use t(2) tt fit in simp_all)
      then show ?thesis using t(1) tt fit by (cases rule: safe_cases) (simp_all add: safe_def)
    qed (simp add: safe_def)
    then show ?thesis using ok(1) b False by (simp add: read_block_def Let_def)
  qed
qed

end
