(* ===== verification/Lzx_Chunk.thy ===== *)
theory Lzx_Chunk
  imports Lzx_Safety "HOL-Library.Code_Target_Nat"
begin

text \<open>
  Whole chunks of \<^verbatim>\<open>src/lib/wim_lzx/lib.rs\<close>: the decoding of call targets inverts the encoding of the LZX format, a
  chunk of one uncompressed block gives its data back, and \<^verbatim>\<open>decompress\<close> is total but for
  blocks that run past the window.
\<close>

unbundle bit_operations_syntax

section \<open>The reference encoder of call targets\<close>

definition e8_target :: "int \<Rightarrow> int \<Rightarrow> int" where
  "e8_target cp rel =
    (if - cp \<le> rel \<and> rel < E8_FILE_SIZE - cp then rel + cp
     else if E8_FILE_SIZE - cp \<le> rel \<and> rel < E8_FILE_SIZE then rel - E8_FILE_SIZE
     else rel)"

function encode_e8 :: "nat \<Rightarrow> bytes \<Rightarrow> bytes" where
  "encode_e8 i b =
    (if length b < 10 then b
     else if hd b = 0xe8
     then 0xe8 # to_le_bytes (of_int (e8_target (int i) (sint (from_le_bytes (take 4 (tl b)) :: u32))) :: u32)
            @ encode_e8 (i + 5) (drop 5 b)
     else hd b # encode_e8 (i + 1) (tl b))"
  by pat_completeness auto
termination by (relation "measure (\<lambda>(i, b). length b)") auto

declare encode_e8.simps [simp del]

lemma ci32_in: "- (2 ^ 31) \<le> x \<Longrightarrow> x < 2 ^ 31 \<Longrightarrow> ci32 x = Some x"
  by (simp add: ci32_def)

lemma as_i32_small: "0 \<le> x \<Longrightarrow> x < 2 ^ 31 \<Longrightarrow> as_i32 x = x"
  by (simp add: as_i32_def)

lemma sint_u32: "- (2 ^ 31) \<le> sint (w :: u32)" "sint (w :: u32) < 2 ^ 31"
  using sint_ge[of w] sint_lt[of w] by simp_all

lemma e8_target_range: "0 \<le> cp \<Longrightarrow> cp < 2 ^ 31 \<Longrightarrow> - (2 ^ 31) \<le> r \<Longrightarrow> r < 2 ^ 31 \<Longrightarrow>
  - (2 ^ 31) \<le> e8_target cp r \<and> e8_target cp r < 2 ^ 31"
  by (auto simp: e8_target_def)

lemma e8_target_inverse: "0 \<le> cp \<Longrightarrow>
  (if e8_target cp r \<ge> - cp \<and> e8_target cp r < E8_FILE_SIZE
   then if e8_target cp r \<ge> 0 then e8_target cp r - cp else e8_target cp r + E8_FILE_SIZE
   else e8_target cp r) = r"
  by (auto simp: e8_target_def)

lemma of_int_sint_u32: "- (2 ^ 31) \<le> x \<Longrightarrow> x < 2 ^ 31 \<Longrightarrow> sint (of_int x :: u32) = x"
  by (simp add: sint_sbintrunc' signed_take_bit_int_eq_self)

definition e8_fix :: "nat \<Rightarrow> int \<Rightarrow> bytes \<Rightarrow> bytes" where
  "e8_fix i a b =
    (if - int i \<le> a \<and> a < E8_FILE_SIZE
     then wr b (i + 1) (to_le_bytes (of_int (if a \<ge> 0 then a - int i else a + E8_FILE_SIZE) :: u32)) else b)"

lemma e8_loop_call:
  assumes "i + 10 \<le> length b" "b ! i = 0xe8" "length b < 2 ^ 31"
  shows "e8_loop 0 i b = e8_loop 0 (i + 5) (e8_fix i (sint (from_le_bytes (rd b (i + 1) 4) :: u32)) b)"
proof -
  define a where "a = sint (from_le_bytes (rd b (i + 1) 4) :: u32)"
  have a: "- (2 ^ 31) \<le> a" "a < 2 ^ 31" unfolding a_def by (rule sint_u32)+
  have cp: "ci32 (as_i32 0 + as_i32 (int i)) = Some (int i)" "ci32 (- int i) = Some (- int i)"
    using assms by (simp_all add: as_i32_small ci32_in)
  have "ci32 (if a \<ge> 0 then a - int i else a + E8_FILE_SIZE) = Some (if a \<ge> 0 then a - int i else a + E8_FILE_SIZE)"
    if "- int i \<le> a \<and> a < E8_FILE_SIZE"
    using that assms a by (intro ci32_in) (auto split: if_splits)
  then show ?thesis
    unfolding e8_loop.simps[of 0 i] a_def[symmetric] using assms cp by (simp add: e8_fix_def)
qed

lemma e8_loop_other: "i + 10 \<le> length b \<Longrightarrow> b ! i \<noteq> 0xe8 \<Longrightarrow> e8_loop 0 i b = e8_loop 0 (i + 1) b"
  by (simp add: e8_loop.simps[of 0 i])

lemma e8_loop_end: "length b < i + 10 \<Longrightarrow> e8_loop 0 i b = Some b"
  by (simp add: e8_loop.simps[of 0 i])

lemma length_e8_fix [simp]: "i + 5 \<le> length b \<Longrightarrow> length (e8_fix i a b) = length b"
  by (simp add: e8_fix_def)

lemma e8_total:
  assumes "length b < 2 ^ 31"
  shows "\<exists>b'. e8_loop 0 i b = Some b' \<and> length b' = length b"
  using assms
proof (induction "length b - i" arbitrary: i b rule: less_induct)
  case less
  consider "length b < i + 10" | "i + 10 \<le> length b" "b ! i = 0xe8" | "i + 10 \<le> length b" "b ! i \<noteq> 0xe8" by linarith
  then show ?case
  proof cases
    case 2
    let ?b = "e8_fix i (sint (from_le_bytes (rd b (i + 1) 4) :: u32)) b"
    have "\<exists>b'. e8_loop 0 (i + 5) ?b = Some b' \<and> length b' = length ?b"
      by (rule less.hyps) (use 2 less.prems in simp_all)
    then show ?thesis using 2 less.prems by (simp add: e8_loop_call)
  next
    case 3
    then show ?thesis using less.hyps[of b "i + 1"] less.prems by (simp add: e8_loop_other)
  qed (simp add: e8_loop_end)
qed

lemma length_encode_e8 [simp]: "length (encode_e8 i b) = length b"
  by (induction i b rule: encode_e8.induct) (subst encode_e8.simps, auto)

lemma e8_loop_inverts:
  assumes "i + length b < 2 ^ 31" "length pre = i"
  shows "e8_loop 0 i (pre @ encode_e8 i b) = Some (pre @ b)"
  using assms
proof (induction i b arbitrary: pre rule: encode_e8.induct)
  case (1 i b)
  let ?e = "encode_e8 i b"
  consider "length b < 10" | "10 \<le> length b" "hd b = 0xe8" | "10 \<le> length b" "hd b \<noteq> 0xe8" by linarith
  then show ?case
  proof cases
    case 1
    then show ?thesis by (simp add: encode_e8.simps[of i b] e8_loop_end "1.prems")
  next
    case 2
    define r where "r = sint (from_le_bytes (take 4 (tl b)) :: u32)"
    define t where "t = e8_target (int i) r"
    let ?rest = "encode_e8 (i + 5) (drop 5 b)"
    have r: "- (2 ^ 31) \<le> r" "r < 2 ^ 31" unfolding r_def by (rule sint_u32)+
    have i: "0 \<le> int i" "int i < 2 ^ 31" using "1.prems" by simp_all
    have t: "- (2 ^ 31) \<le> t" "t < 2 ^ 31" using e8_target_range[OF i r] by (simp_all add: t_def)
    have e: "?e = 0xe8 # to_le_bytes (of_int t :: u32) @ ?rest"
      using 2 by (simp add: encode_e8.simps[of i b] t_def r_def)
    have b: "b = 0xe8 # take 4 (tl b) @ drop 5 b"
      using 2 by (cases b) (simp_all add: drop_Suc[symmetric])
    have bk: "to_le_bytes (of_int r :: u32) = take 4 (tl b)"
      unfolding r_def using 2 by (simp add: to_le_from_le_bytes)
    have rd: "rd (pre @ ?e) (i + 1) 4 = to_le_bytes (of_int t :: u32)"
      using "1.prems"(2) by (simp add: e rd_def)
    have fx: "e8_fix i t (pre @ ?e) = (pre @ 0xe8 # take 4 (tl b)) @ ?rest"
      using e8_target_inverse[OF i(1), of r] "1.prems"(2) bk unfolding t_def[symmetric]
      by (auto simp: e8_fix_def e wr_def split: if_splits)
    have "e8_loop 0 i (pre @ ?e) = e8_loop 0 (i + 5) ((pre @ 0xe8 # take 4 (tl b)) @ ?rest)"
      using 2 "1.prems" t fx rd by (subst e8_loop_call) (simp_all add: of_int_sint_u32 e nth_append)
    also have "\<dots> = Some ((pre @ 0xe8 # take 4 (tl b)) @ drop 5 b)"
      by (rule "1.IH"(1)) (use 2 "1.prems" in simp_all)
    finally show ?thesis using b by simp
  next
    case 3
    have e: "?e = hd b # encode_e8 (i + 1) (tl b)" using 3 by (simp add: encode_e8.simps[of i b])
    have "e8_loop 0 i (pre @ ?e) = e8_loop 0 (i + 1) ((pre @ [hd b]) @ encode_e8 (i + 1) (tl b))"
      using 3 "1.prems"(2) by (subst e8_loop_other) (simp_all add: e nth_append)
    also have "\<dots> = Some ((pre @ [hd b]) @ tl b)"
      by (rule "1.IH"(2)) (use 3 "1.prems" in simp_all)
    finally show ?thesis using 3 by (cases b) simp_all
  qed
qed

section \<open>Stored blocks\<close>

definition stored_block :: "bytes \<Rightarrow> bytes" where
  "stored_block data = (let z = (of_nat (length data) :: u16) in
     [ucast (drop_bit 4 z), push_bit 5 3 OR ucast (drop_bit 12 z), 0, push_bit 4 (ucast z),
      1, 0, 0, 0, 1, 0, 0, 0, 1, 0, 0, 0] @ data)"

lemma get_bits_buffered:
  assumes "n \<noteq> 0" "n \<le> dc_bit_count d" "n \<le> 16" "dc_bit_count d < 32"
  shows "get_bits n d = Ok (ucast (drop_bit (32 - unat n) (dc_bit_buffer d)),
    d\<lparr>dc_bit_buffer := push_bit (unat n) (dc_bit_buffer d), dc_bit_count := dc_bit_count d - n\<rparr>)"
proof -
  have n: "unat n \<le> 16" "0 < unat n" using assms(1,3) by (simp_all add: word_le_nat_alt unat_gt_0)
  have "n \<le> 32" using n by (simp add: word_le_nat_alt)
  then have s: "csub 32 n = Some (32 - n)" "unat (32 - n) = 32 - unat n" by (simp_all add: csub_def unat_sub)
  show ?thesis using assms n s
    by (simp add: get_bits_def drop_bits_def cshr_def cshl_def csub_def not_less[symmetric])
qed

lemma get_bits_fed:
  assumes "n \<noteq> 0" "dc_bit_count d < n" "n \<le> 16" "dc_byte_offset d + 2 \<le> length (dc_input d)"
  shows "get_bits n d = get_bits n (d\<lparr>dc_bit_buffer := dc_bit_buffer d OR
      push_bit (16 - unat (dc_bit_count d)) (push_bit 8 (ucast (dc_input d ! (dc_byte_offset d + 1))) OR ucast (dc_input d ! dc_byte_offset d)),
    dc_bit_count := dc_bit_count d + 16, dc_byte_offset := dc_byte_offset d + 2\<rparr>)"
proof -
  have c: "unat (dc_bit_count d) < 16" "unat n \<le> 16" using assms(2,3) by (simp_all add: word_less_nat_alt word_le_nat_alt)
  have s: "csub 16 (dc_bit_count d) = Some (16 - dc_bit_count d)" "unat (16 - dc_bit_count d) = 16 - unat (dc_bit_count d)"
    using c(1) by (simp_all add: csub_def unat_sub word_le_nat_alt)
  have a: "cadd (dc_bit_count d) 16 = Some (dc_bit_count d + 16)" "unat (dc_bit_count d + 16) = unat (dc_bit_count d) + 16"
    using c(1) by (simp_all add: cadd_def unat_word_ariths)
  have lt: "\<not> dc_bit_count d + 16 < n" using a(2) c(2) by (simp add: word_less_nat_alt)
  have "\<not> length (dc_input d) - dc_byte_offset d < 2" "dc_byte_offset d < length (dc_input d)"
    "dc_byte_offset d + 1 < length (dc_input d)" "16 - unat (dc_bit_count d) < 32" using assms(4) by linarith+
  then show ?thesis using assms(1,2) s a(1) lt
    by (simp add: get_bits_def try_feed_def vec_get_def cshl_def)
qed

lemma bit_three: "bit (3 :: int) n \<longleftrightarrow> n < 2"
proof -
  have "bit (mask 2 :: int) n \<longleftrightarrow> n < 2" by (simp only: bit_mask_iff possible_bit_int simp_thms)
  moreover have "mask 2 = (3 :: int)" by (simp add: mask_eq_exp_minus_1)
  ultimately show ?thesis by simp
qed

lemma bit_96: "bit (0x60 :: int) n \<longleftrightarrow> n = 5 \<or> n = 6"
proof -
  have "bit (push_bit 5 3 :: int) n \<longleftrightarrow> n = 5 \<or> n = 6" unfolding bit_push_bit_iff by (auto simp: bit_three)
  then show ?thesis by simp
qed

definition header_word :: "u16 \<Rightarrow> u32" where
  "header_word z = push_bit 16 (push_bit 8 (ucast (0x60 OR ucast (drop_bit 12 z) :: u8)) OR ucast (ucast (drop_bit 4 z) :: u8))"

definition tail_word :: "u16 \<Rightarrow> u32" where
  "tail_word z = push_bit 4 (push_bit 8 (ucast (push_bit 4 (ucast z) :: u8)) OR ucast (0 :: u8))"

lemma bit_header_word: "bit (header_word z) n \<longleftrightarrow> n = 29 \<or> n = 30 \<or> 16 \<le> n \<and> n < 28 \<and> bit z (n - 12)"
  unfolding header_word_def
  by (auto simp: bit_simps bit_96 dest: bit_imp_le_length)

lemma bit_tail_word: "bit (tail_word z) n \<longleftrightarrow> 16 \<le> n \<and> n < 20 \<and> bit z (n - 16)"
  unfolding tail_word_def
  by (auto simp: bit_simps dest: bit_imp_le_length)

lemma header_type: "(ucast (drop_bit 29 (header_word z)) :: u16) = 3"
  by (rule bit_word_eqI) (auto simp: bit_simps bit_header_word bit_three)

lemma header_full: "(ucast (drop_bit 31 (push_bit 3 (header_word z))) :: u16) = 0"
  by (rule bit_word_eqI) (auto simp: bit_simps bit_header_word)

lemma header_size: "(ucast (drop_bit 16 (push_bit 1 (push_bit 3 (header_word z)) OR tail_word z)) :: u16) = z"
  by (rule bit_word_eqI) (auto simp: bit_simps bit_header_word bit_tail_word dest: bit_imp_le_length)

lemma header_rest: "push_bit 12 (push_bit 16 (push_bit 1 (push_bit 3 (header_word z)) OR tail_word z)) = 0"
  by (rule bit_word_eqI) (auto simp: bit_simps bit_header_word bit_tail_word dest: bit_imp_le_length)


text \<open>A decoder at a byte boundary, with nothing in its bit buffer.\<close>

definition aligned_at :: "Decoder \<Rightarrow> bytes \<Rightarrow> bool" where
  "aligned_at d rest \<longleftrightarrow> dc_bit_count d = 0 \<and> dc_bit_buffer d = 0 \<and> \<not> dc_unaligned d \<and>
     (\<exists>before. dc_input d = before @ rest \<and> dc_byte_offset d = length before)"

definition stored_header :: "bytes \<Rightarrow> bytes" where
  "stored_header data = take 16 (stored_block data)"

lemma stored_block_bytes:
  "stored_block data ! 0 = ucast (drop_bit 4 (of_nat (length data) :: u16))"
  "stored_block data ! 1 = 0x60 OR ucast (drop_bit 12 (of_nat (length data) :: u16))"
  "stored_block data ! 2 = 0"
  "stored_block data ! 3 = push_bit 4 (ucast (of_nat (length data) :: u16))"
  "drop 4 (stored_block data) = [1, 0, 0, 0, 1, 0, 0, 0, 1, 0, 0, 0] @ data"
  "length (stored_block data) = 16 + length data"
  by (simp_all add: stored_block_def Let_def)

lemma stored_type:
  assumes d: "aligned_at d (stored_block data @ rest)" and n: "length data \<le> 32768"
  defines "z \<equiv> of_nat (length data) :: u16"
  shows "get_bits 3 d = Ok (3, d\<lparr>dc_bit_buffer := push_bit 3 (header_word z), dc_bit_count := 13, dc_byte_offset := dc_byte_offset d + 2\<rparr>)"
proof -
  obtain before where b: "dc_input d = before @ stored_block data @ rest" "dc_byte_offset d = length before"
    using d by (auto simp: aligned_at_def)
  have z0: "dc_bit_count d = 0" "dc_bit_buffer d = 0" using d by (simp_all add: aligned_at_def)
  have bytes: "dc_input d ! (dc_byte_offset d + 1) = 0x60 OR ucast (drop_bit 12 z)" "dc_input d ! dc_byte_offset d = ucast (drop_bit 4 z)"
    using b stored_block_bytes(1,2,6)[of data] by (simp_all add: nth_append z_def)
  have "get_bits 3 d = get_bits 3 (d\<lparr>dc_bit_buffer := header_word z, dc_bit_count := 16, dc_byte_offset := dc_byte_offset d + 2\<rparr>)"
    using get_bits_fed[of 3 d] z0 b bytes by (simp add: stored_block_bytes header_word_def)
  then show ?thesis by (simp add: get_bits_buffered header_type)
qed


lemma stored_size:
  assumes d: "aligned_at d (stored_block data @ rest)" and n: "length data \<le> 32768"
  defines "z \<equiv> of_nat (length data) :: u16"
  shows "get_bits 16 (d\<lparr>dc_bit_buffer := push_bit 1 (push_bit 3 (header_word z)), dc_bit_count := 12, dc_byte_offset := dc_byte_offset d + 2\<rparr>) =
    Ok (z, d\<lparr>dc_bit_buffer := push_bit 16 (push_bit 1 (push_bit 3 (header_word z)) OR tail_word z), dc_bit_count := 12,
      dc_byte_offset := dc_byte_offset d + 4\<rparr>)"
    (is "get_bits 16 ?e = _")
proof -
  obtain before where b: "dc_input d = before @ stored_block data @ rest" "dc_byte_offset d = length before"
    using d by (auto simp: aligned_at_def)
  have bytes: "dc_input d ! Suc (Suc (Suc (dc_byte_offset d))) = push_bit 4 (ucast z)" "dc_input d ! Suc (Suc (dc_byte_offset d)) = 0"
    using b stored_block_bytes(3,4,6)[of data] by (simp_all add: nth_append z_def numeral_2_eq_2 numeral_3_eq_3)
  have o4: "Suc (Suc (Suc (Suc (length before)))) = length before + 4" by simp
  have "get_bits 16 ?e = get_bits 16 (d\<lparr>dc_bit_buffer := push_bit 1 (push_bit 3 (header_word z)) OR tail_word z, dc_bit_count := 28,
    dc_byte_offset := dc_byte_offset d + 4\<rparr>)"
    using get_bits_fed[of 16 ?e] b bytes o4 by (simp add: stored_block_bytes tail_word_def)
  then show ?thesis by (simp add: get_bits_buffered header_size[simplified])
qed

lemma stored_lru:
  assumes d: "aligned_at d (stored_block data @ rest)"
  shows "le_u32 (dc_input d) (dc_byte_offset d + 4) = Some 1" "le_u32 (dc_input d) (dc_byte_offset d + 8) = Some 1"
    "le_u32 (dc_input d) (dc_byte_offset d + 12) = Some 1"
    "dc_byte_offset d + 16 + length data \<le> length (dc_input d)" "rd (dc_input d) (dc_byte_offset d + 16) (length data) = data"
proof -
  obtain before where b: "dc_input d = before @ stored_block data @ rest" "dc_byte_offset d = length before"
    using d by (auto simp: aligned_at_def)
  have one: "from_le_bytes [1, 0, 0, 0] = (1 :: u32)" by code_simp
  show "le_u32 (dc_input d) (dc_byte_offset d + 4) = Some 1" "le_u32 (dc_input d) (dc_byte_offset d + 8) = Some 1"
    "le_u32 (dc_input d) (dc_byte_offset d + 12) = Some 1"
    "dc_byte_offset d + 16 + length data \<le> length (dc_input d)" "rd (dc_input d) (dc_byte_offset d + 16) (length data) = data"
    using b one by (simp_all add: le_u32_def rd_def stored_block_def Let_def get_range_def)
qed

lemma stored_header_read:
  assumes d: "aligned_at d (stored_block data @ rest)" and n: "length data \<le> 32768"
  shows "read_block_header d = Ok ((3, of_nat (length data)),
    d\<lparr>dc_bit_buffer := 0, dc_bit_count := 0, dc_byte_offset := dc_byte_offset d + 16, dc_lru := [1, 1, 1]\<rparr>)"
proof -
  let ?z = "of_nat (length data) :: u16"
  let ?b1 = "push_bit 3 (header_word ?z)"
  let ?b2 = "push_bit 16 (push_bit 1 ?b1 OR tail_word ?z)"
  have un: "\<not> dc_unaligned d" using d by (simp add: aligned_at_def)
  have z: "unat ?z \<le> 32768" using n by (simp add: unat_of_nat)
  have full: "get_bits 1 (d\<lparr>dc_bit_buffer := ?b1, dc_bit_count := 13, dc_byte_offset := dc_byte_offset d + 2\<rparr>) =
    Ok (0, d\<lparr>dc_bit_buffer := push_bit 1 ?b1, dc_bit_count := 12, dc_byte_offset := dc_byte_offset d + 2\<rparr>)"
    by (subst get_bits_buffered) (simp_all add: header_full[simplified])
  have pad: "get_bits 12 (d\<lparr>dc_bit_buffer := ?b2, dc_bit_count := 12, dc_byte_offset := dc_byte_offset d + 4\<rparr>) =
    Ok (ucast (drop_bit 20 ?b2), d\<lparr>dc_bit_buffer := 0, dc_bit_count := 0, dc_byte_offset := dc_byte_offset d + 4\<rparr>)"
    by (subst get_bits_buffered) (simp_all add: header_rest[simplified])
  have e: "ensure_at_least 12 (d\<lparr>dc_bit_buffer := 0, dc_bit_count := 0, dc_byte_offset := dc_byte_offset d + 4\<rparr>) =
    Ok ((), d\<lparr>dc_bit_buffer := 0, dc_bit_count := 0, dc_byte_offset := dc_byte_offset d + 4\<rparr>)"
    using stored_lru(4)[OF d] by (simp add: ensure_at_least_def)
  have o: "dc_byte_offset d + 4 + 4 = dc_byte_offset d + 8" "dc_byte_offset d + 4 + 8 = dc_byte_offset d + 12"
    "dc_byte_offset d + 4 + 12 = dc_byte_offset d + 16" by simp_all
  note steps = stored_type[OF d n] full stored_size[OF d n] pad e stored_lru(1-3)[OF d]
  show ?thesis unfolding read_block_header_def read_block_size_def
    using un z steps by (simp add: Let_def o)
qed


lemma stored_read:
  assumes d: "aligned_at d (stored_block data @ rest)" and n: "length data \<le> 32768" and w: "length (dc_window d) = 32768"
  shows "read_block start d = (if start + length data \<le> 32768
    then Ok (length data, d\<lparr>dc_bit_buffer := 0, dc_bit_count := 0, dc_byte_offset := dc_byte_offset d + 16 + length data, dc_lru := [1, 1, 1],
      dc_current_block_start := start, dc_current_block_type := 3, dc_current_block_size := length data,
      dc_unaligned := odd (length data), dc_window := wr (dc_window d) start data\<rparr>)
    else None)"
proof -
  have z: "unat (of_nat (length data) :: u16) = length data" using n by (simp add: unat_of_nat)
  have u: "\<not> dc_unaligned d" using d by (simp add: aligned_at_def)
  have len: "dc_byte_offset d + 16 + length data \<le> length (dc_input d)" by (rule stored_lru(4)[OF d])
  have gr: "get_range (dc_input d) (dc_byte_offset d + 16) (dc_byte_offset d + 16 + length data) = Some data"
    using len stored_lru(5)[OF d] by (simp add: get_range_def)
  have av: "\<not> length (dc_input d) - (dc_byte_offset d + 16) < length data" using len by linarith
  have ps: "put_slice start data (dc_window d) = (if start + length data \<le> 32768 then Some (wr (dc_window d) start data) else None)"
    using w by (simp add: put_slice_def)
  have odd: "(length data mod 2 = 1) = odd (length data)" by presburger
  show ?thesis
  proof (cases "odd (length data)")
    case True
    then show ?thesis unfolding read_block_def stored_header_read[OF d n] using z gr av ps odd
      by (simp del: odd_iff_mod_2_eq_one add: Let_def)
  next
    case False
    then show ?thesis unfolding read_block_def stored_header_read[OF d n] using z gr av ps odd
      by (simp del: odd_iff_mod_2_eq_one add: Let_def) (use u in \<open>cases d, simp\<close>)
  qed
qed

lemma aligned_new: "aligned_at (Decoder_new chunk) chunk"
  by (simp add: aligned_at_def Decoder_new_def)

section \<open>Whole chunks\<close>

text \<open>The decoders the loop of \<^verbatim>\<open>decompress\<close> comes to, each with the bytes written so far.\<close>

inductive chunk_reaches :: "bytes \<Rightarrow> nat \<Rightarrow> nat \<Rightarrow> Decoder \<Rightarrow> bool" for chunk len where
  chunk_start: "chunk_reaches chunk len 0 (Decoder_new chunk)" |
  chunk_block: "chunk_reaches chunk len w d \<Longrightarrow> w < len \<Longrightarrow> read_block w d = Ok (n, d') \<Longrightarrow> chunk_reaches chunk len (w + n) d'"

definition blocks_fit :: "bytes \<Rightarrow> nat \<Rightarrow> bool" where
  "blocks_fit chunk len \<longleftrightarrow> (\<forall>w d ty sz d'. chunk_reaches chunk len w d \<longrightarrow> w < len \<longrightarrow>
     read_block_header d = Ok ((ty, sz), d') \<longrightarrow> w + unat sz \<le> WINDOW_SIZE)"

lemma decompress_loop_safe:
  assumes "blocks_fit chunk len" and "chunk_reaches chunk len w d" and "decoder_ok d"
  shows "safe (\<lambda>_. decoder_ok) (decompress_loop len w d)"
  using assms(2,3)
proof (induction "bits_left d" arbitrary: w d rule: less_induct)
  case less
  show ?case
  proof (cases "w < len")
    case True
    have "safe (\<lambda>n d'. decoder_ok d' \<and> w + n \<le> 32768) (read_block w d)"
      by (rule read_block_safe[OF less.prems(2)]) (use assms(1) less.prems(1) True in \<open>auto simp: blocks_fit_def\<close>)
    then show ?thesis
    proof (cases rule: safe_cases)
      case (ok n e)
      have "safe (\<lambda>_. decoder_ok) (decompress_loop len (w + n) e)"
        by (rule less.hyps) (use ok read_block_bits[OF ok(1)] chunk_block[OF less.prems(1) True ok(1)] in simp_all)
      then show ?thesis using True ok(1) by (simp add: decompress_loop.simps[of len w])
    qed (use True in \<open>simp add: decompress_loop.simps[of len w] safe_def\<close>)
  qed (simp add: decompress_loop.simps[of len w] safe_def less.prems(2))
qed

lemma decode_e8_total:
  assumes "length b < 2 ^ 31"
  shows "\<exists>b'. decode_e8 b 0 = Some b' \<and> length b' = length b"
  using e8_total[OF assms, of 0] by (simp add: decode_e8_def)

text \<open>
  Property C14.  A chunk that holds one uncompressed block decompresses to its data: for every data of at
  most a window, the block with the call targets translated by the reference encoder gives the data back.
\<close>

theorem stored_roundtrip:
  assumes "length data \<le> WINDOW_SIZE"
  shows "decompress (stored_block (encode_e8 0 data)) (length data) = Ok data"
proof -
  let ?c = "stored_block (encode_e8 0 data)"
  let ?D = "Decoder_new ?c"
  have e8: "decode_e8 (encode_e8 0 data) 0 = Some data"
  proof (cases "length data < 10")
    case True
    then show ?thesis by (simp add: decode_e8_def encode_e8.simps[of 0 data])
  next
    case False
    then show ?thesis using e8_loop_inverts[of 0 data "[]"] assms by (simp add: decode_e8_def)
  qed
  show ?thesis
  proof (cases "data = []")
    case True
    then show ?thesis by (simp add: decompress_def decompress_loop.simps get_range_def decode_e8_def rd_def)
  next
    case False
    have w: "length (dc_window ?D) = 32768" by (simp add: Decoder_new_def)
    have "aligned_at ?D (?c @ [])" using aligned_new[of ?c] by simp
    from stored_read[OF this _ w, of 0] obtain d where
      d: "read_block 0 ?D = Ok (length data, d)" "dc_window d = wr (dc_window ?D) 0 (encode_e8 0 data)"
      using assms by simp
    have "decompress_loop (length data) 0 ?D = Ok ((), d)"
      using False d(1) by (simp add: decompress_loop.simps[of _ 0] decompress_loop.simps[of _ "length data"])
    moreover have "get_range (dc_window d) 0 (length data) = Some (encode_e8 0 data)"
      using d(2) w assms by (simp add: get_range_def rd_def wr_def)
    ultimately show ?thesis using e8 assms by (simp add: decompress_def)
  qed
qed

theorem stored_roundtrip_witness:
  "decompress (stored_block (encode_e8 0 [0xe8, 1, 0, 0, 0, 7, 7, 7, 7, 7, 7])) 11 = Ok [0xe8, 1, 0, 0, 0, 7, 7, 7, 7, 7, 7]"
proof -
  have n: "length [0xe8, 1, 0, 0, 0, 7, 7, 7, 7, 7, 7 :: u8] = 11" by simp
  show ?thesis using stored_roundtrip[of "[0xe8, 1, 0, 0, 0, 7, 7, 7, 7, 7, 7]", unfolded n] by simp
qed

text \<open>
  Property C30.  The size of a block is not checked against what is left of the window: two uncompressed
  blocks, each of a size the header check admits, that together exceed the window make the decompressor
  panic as soon as the second one is needed.
\<close>

theorem block_overrun_panics:
  assumes "a \<noteq> []" and "even (length a)" and "length a \<le> MAX_BLOCK_SIZE" and "length b \<le> MAX_BLOCK_SIZE"
    and "WINDOW_SIZE < length a + length b" and "length a < n" and "n \<le> WINDOW_SIZE"
  shows "decompress (stored_block a @ stored_block b) n = None"
proof -
  let ?c = "stored_block a @ stored_block b"
  let ?D = "Decoder_new ?c"
  have w: "length (dc_window ?D) = 32768" by (simp add: Decoder_new_def)
  obtain d where d: "read_block 0 ?D = Ok (length a, d)" "dc_input d = ?c" "dc_byte_offset d = 16 + length a"
    "dc_bit_count d = 0" "dc_bit_buffer d = 0" "\<not> dc_unaligned d" "length (dc_window d) = 32768"
    using stored_read[OF aligned_new _ w, of 0] assms(2,3) w by (simp add: Decoder_new_def)
  have "aligned_at d (stored_block b @ [])" using d(2-6) stored_block_bytes(6)[of a] by (auto simp: aligned_at_def)
  from stored_read[OF this _ d(7), of "length a"] have "read_block (length a) d = None" using assms(4,5) by simp
  then show ?thesis using d(1) assms(1,6,7)
    by (simp add: decompress_def decompress_loop.simps[of _ 0] decompress_loop.simps[of _ "length a"])
qed

theorem block_overrun_panics_witness:
  "decompress (stored_block [7, 7] @ stored_block (replicate 32768 0)) 3 = None"
  by (rule block_overrun_panics) (simp_all only: length_replicate, simp_all)

text \<open>
  Property C29.  Reading a block is total on well-formed decoders but for one case: where \<^verbatim>\<open>read_block\<close>
  panics, the header was read and its block runs past the end of the window.  Wherever it returns, the decoder
  is well-formed again and the block ends inside the window.
\<close>

theorem read_block_panics_only_past_window:
  assumes "decoder_ok d"
  shows "(\<exists>ty sz d1. read_block_header d = Ok ((ty, sz), d1) \<and> WINDOW_SIZE < start + unat sz) \<or>
    (\<exists>e. read_block start d = Err e) \<or>
    (\<exists>n d'. read_block start d = Ok (n, d') \<and> decoder_ok d' \<and> start + n \<le> WINDOW_SIZE)"
proof (cases "\<exists>ty sz d1. read_block_header d = Ok ((ty, sz), d1) \<and> WINDOW_SIZE < start + unat sz")
  case False
  then have "safe (\<lambda>n d'. decoder_ok d' \<and> start + n \<le> 32768) (read_block start d)"
    using read_block_safe[OF assms, of start] by (metis not_less)
  then show ?thesis by (cases rule: safe_cases) auto
qed simp

theorem read_block_panics_only_past_window_witness:
  "decoder_ok (Decoder_new (stored_block [7, 9])) \<and>
    (\<exists>n d'. read_block 5 (Decoder_new (stored_block [7, 9])) = Ok (n, d') \<and> decoder_ok d' \<and> 5 + n \<le> WINDOW_SIZE)"
proof -
  let ?c = "stored_block [7, 9]"
  have al: "aligned_at (Decoder_new ?c) (?c @ [])" using aligned_new[of ?c] by simp
  have w: "length (dc_window (Decoder_new ?c)) = 32768" by (simp add: Decoder_new_def)
  show ?thesis using read_block_panics_only_past_window[OF decoder_ok_new, of ?c 5]
      stored_read[OF al _ w, of 5] stored_header_read[OF al] decoder_ok_new[of ?c] by auto
qed

text \<open>
  Property C10.  A chunk whose blocks stay inside the window never makes the decompressor panic: it returns an error, or
  exactly the number of bytes asked for.
\<close>

theorem decompress_total:
  assumes "blocks_fit chunk n"
  shows "(\<exists>e. decompress chunk n = Err e) \<or> (\<exists>out. decompress chunk n = Ok out \<and> length out = n)"
proof (cases "n \<le> WINDOW_SIZE")
  case True
  have "safe (\<lambda>_. decoder_ok) (decompress_loop n 0 (Decoder_new chunk))"
    by (rule decompress_loop_safe[OF assms chunk_start decoder_ok_new])
  then show ?thesis
  proof (cases rule: safe_cases)
    case (ok u d)
    then have w: "length (dc_window d) = 32768" by (simp add: decoder_ok_def)
    then obtain out where "decode_e8 (rd (dc_window d) 0 n) 0 = Some out" "length out = n"
      using decode_e8_total[of "rd (dc_window d) 0 n"] True by auto
    then show ?thesis using ok(1) True w by (simp add: decompress_def get_range_def)
  qed (use True in \<open>simp add: decompress_def\<close>)
qed (simp add: decompress_def)

theorem decompress_total_witness:
  "blocks_fit (stored_block [7, 9]) 2 \<and> decompress (stored_block [7, 9]) 2 \<noteq> None"
proof -
  let ?c = "stored_block [7, 9]"
  have al: "aligned_at (Decoder_new ?c) (?c @ [])" using aligned_new[of ?c] by simp
  have w: "length (dc_window (Decoder_new ?c)) = 32768" by (simp add: Decoder_new_def)
  have "d = Decoder_new ?c \<and> w = 0 \<or> 2 \<le> w" if "chunk_reaches ?c 2 w d" for w d
    using that by (induction) (use stored_read[OF al _ w, of 0] in auto)
  then have fit: "blocks_fit ?c 2" using stored_header_read[OF al] by (fastforce simp: blocks_fit_def)
  then show ?thesis using decompress_total[OF fit] by auto
qed

end
