(* ===== verification/Spec2Isabelle.thy ===== *)
theory Spec2Isabelle
  imports Vfs_Paths Vfs_Pipe Vfs_Console Kernel_Reclaim Sched_Safety Lzx_Chunk
begin

text \<open>
  A verification development for the operating system in this repository: the file system library
  \<^verbatim>\<open>lib/crabfs\<close> and the kernel under \<^verbatim>\<open>kernel/\<close>.
\<close>

end
